(* ===== verification/Prelude.thy ===== *)
theory Prelude
  imports Main "HOL-Library.Word" "HOL-Library.Char_ord" "HOL-Library.List_Lexorder"
begin

text \<open>
  Shared vocabulary of the development: bytes and machine words, the Rust \<open>Result\<close> as a sum
  (\<open>Err\<close> and \<open>Ok\<close> abbreviate \<open>Inl\<close> and \<open>Inr\<close>), the theorem collections the component theories
  fill, and generic lemmas on lists, options and small words.
\<close>

unbundle bit_operations_syntax

type_synonym byte = "8 word"
type_synonym u16 = "16 word"
type_synonym u32 = "32 word"

abbreviation Err :: "'e \<Rightarrow> 'e + 'a" where "Err \<equiv> Inl"
abbreviation Ok :: "'a \<Rightarrow> 'e + 'a" where "Ok \<equiv> Inr"

subsection \<open>Theorem collections\<close>

text \<open>
  \<open>frame_simps\<close>: what an operation leaves unchanged.  \<open>keeps_rules\<close>: an operation keeps an
  invariant.  \<open>sends_rules\<close>: what an operation may put on the wire.
\<close>

named_theorems frame_simps
named_theorems keeps_rules
named_theorems sends_rules

subsection \<open>Results\<close>

definition is_ok :: "'e + 'a \<Rightarrow> bool" where
  "is_ok r = (case r of Err _ \<Rightarrow> False | Ok _ \<Rightarrow> True)"

lemma is_ok_simps [simp]: "is_ok (Ok x)" "\<not> is_ok (Err e)"
  by (simp_all add: is_ok_def)

lemma is_ok_iff: "is_ok r \<longleftrightarrow> (\<exists>x. r = Ok x)"
  by (cases r) simp_all

lemma not_is_ok_iff: "\<not> is_ok r \<longleftrightarrow> (\<exists>e. r = Err e)"
  by (cases r) simp_all

text \<open>\<open>std::io::Error\<close>, by the kinds the program tells apart.\<close>

datatype io_error = IoNotFound | IoPermissionDenied | IoOther nat

subsection \<open>Bytes\<close>

lemma byte_cases_nat:
  fixes b :: byte
  obtains n where "n < 256" "b = word_of_nat n"
proof -
  have "unat b < 256" using unsigned_less [of b, where ?'a = nat] by simp
  then show thesis using that [of "unat b"] by simp
qed

lemma byte_less_unat: "(a :: byte) < b \<longleftrightarrow> unat a < unat b"
  by (rule word_less_nat_alt)

lemma byte_le_unat: "(a :: byte) \<le> b \<longleftrightarrow> unat a \<le> unat b"
  by (rule word_le_nat_alt)

lemma unat_byte_bound: "unat (b :: byte) < 256"
  using unsigned_less [of b, where ?'a = nat] by simp

lemma high_nibble_zero: "drop_bit 4 b = 0 \<longleftrightarrow> (b :: byte) < 16"
proof -
  have "drop_bit 4 b = 0 \<longleftrightarrow> unat (drop_bit 4 b) = 0" by (simp add: unat_eq_zero)
  also have "\<dots> \<longleftrightarrow> unat b div 16 = 0" by (simp only: unat_drop_bit_eq drop_bit_eq_div [where a = "unat b"]) simp
  also have "\<dots> \<longleftrightarrow> unat b < 16" by (simp add: div_eq_0_iff)
  also have "\<dots> \<longleftrightarrow> b < 16" by (simp add: byte_less_unat)
  finally show ?thesis .
qed

lemma unat_byte_Suc: "(c :: byte) < n \<Longrightarrow> unat (c + 1) = unat c + 1"
proof -
  assume "c < n"
  then have "unat c + 1 < 256"
    using unat_byte_bound [of n] by (simp add: byte_less_unat)
  then show ?thesis by (simp add: unat_word_ariths)
qed

subsection \<open>Lists\<close>

definition starts_with :: "'a list \<Rightarrow> 'a list \<Rightarrow> bool" where
  "starts_with xs p \<longleftrightarrow> take (length p) xs = p"

lemma starts_with_Nil [simp]: "starts_with xs []"
  by (simp add: starts_with_def)

lemma starts_with_Cons [simp]:
  "starts_with [] (p # ps) \<longleftrightarrow> False"
  "starts_with (x # xs) (p # ps) \<longleftrightarrow> x = p \<and> starts_with xs ps"
  by (auto simp: starts_with_def)

lemma starts_with_append [simp]: "starts_with (p @ xs) p"
  by (simp add: starts_with_def)

lemma starts_with_iff: "starts_with xs p \<longleftrightarrow> (\<exists>ys. xs = p @ ys)"
  unfolding starts_with_def by (metis append_eq_conv_conj append_take_drop_id)

lemma sorted_wrt_less_distinct: "sorted_wrt (<) (xs :: 'a :: linorder list) \<Longrightarrow> distinct xs"
  by (induction xs) auto

lemma filter_sorted_wrt: "sorted_wrt P xs \<Longrightarrow> sorted_wrt P (filter Q xs)"
  by (induction xs) auto

end
