(* ===== verification/RustStr.thy ===== *)
theory RustStr
  imports Prelude
begin

text \<open>
  The parts of Rust's \<open>str\<close>, \<open>u8\<close> and \<open>format!\<close> the program uses.  A string is the list of the
  bytes of its UTF-8 form (a \<open>char\<close> of HOL is one byte), so the order on strings is the byte-wise
  order of \<open>String\<close>.  White space is the ASCII part of Rust's \<open>char::is_whitespace\<close>; the texts
  handled here (numbers, account records, PAM stacks, hex) are ASCII.
\<close>

definition NL :: char where "NL = CHR 0x0A"
definition CR :: char where "CR = CHR 0x0D"
definition TAB :: char where "TAB = CHR 0x09"

definition is_space :: "char \<Rightarrow> bool" where
  "is_space c \<longleftrightarrow> c \<in> {CHR '' '', CHR 0x09, CHR 0x0A, CHR 0x0B, CHR 0x0C, CHR 0x0D}"

definition trim_start :: "string \<Rightarrow> string" where
  "trim_start s = dropWhile is_space s"

definition trim_end_matches :: "(char \<Rightarrow> bool) \<Rightarrow> string \<Rightarrow> string" where
  "trim_end_matches P s = rev (dropWhile P (rev s))"

definition trim :: "string \<Rightarrow> string" where
  "trim s = trim_end_matches is_space (trim_start s)"

fun contains_str :: "string \<Rightarrow> string \<Rightarrow> bool" where
  "contains_str [] p \<longleftrightarrow> p = []"
| "contains_str (c # cs) p \<longleftrightarrow> starts_with (c # cs) p \<or> contains_str cs p"

text \<open>\<open>str::split\<close> on one character: always at least one field.\<close>

fun split_on :: "char \<Rightarrow> string \<Rightarrow> string list" where
  "split_on d [] = [[]]"
| "split_on d (c # cs) =
     (if c = d then [] # split_on d cs
      else (case split_on d cs of [] \<Rightarrow> [[c]] | f # fs \<Rightarrow> (c # f) # fs))"

lemma split_on_nonempty [simp]: "split_on d s \<noteq> []"
  by (cases s) (auto split: list.splits)

lemma split_on_no_sep: "d \<notin> set s \<Longrightarrow> split_on d s = [s]"
  by (induction s) auto

lemma split_on_append: "d \<notin> set s \<Longrightarrow> split_on d (s @ d # t) = s # split_on d t"
  by (induction s) auto

text \<open>
  \<open>str::lines\<close>: a line ends at a line feed, which is dropped together with one carriage return
  before it; a final line without line feed counts, an empty rest does not.
\<close>

definition strip_cr :: "string \<Rightarrow> string" where
  "strip_cr l = (if l \<noteq> [] \<and> last l = CR then butlast l else l)"

function lines :: "string \<Rightarrow> string list" where
  "lines s =
     (if s = [] then []
      else (case dropWhile (\<lambda>c. c \<noteq> NL) s of
              [] \<Rightarrow> [s]
            | _ # rest \<Rightarrow> strip_cr (takeWhile (\<lambda>c. c \<noteq> NL) s) # lines rest))"
  by pat_completeness auto
termination
proof (relation "measure length")
  fix s :: string and d rest
  assume "dropWhile (\<lambda>c. c \<noteq> NL) s = d # rest"
  then have "length (d # rest) \<le> length s" by (metis length_dropWhile_le)
  then show "(rest, s) \<in> measure length" by simp
qed simp

declare lines.simps [simp del]

lemma lines_Nil [simp]: "lines [] = []"
  by (simp add: lines.simps)

lemma lines_no_nl: "NL \<notin> set s \<Longrightarrow> s \<noteq> [] \<Longrightarrow> lines s = [s]"
proof -
  assume "NL \<notin> set s" and s: "s \<noteq> []"
  then have dw: "dropWhile (\<lambda>c. c \<noteq> NL) s = []" by (auto simp: dropWhile_eq_Nil_conv)
  show ?thesis by (subst lines.simps) (simp add: s dw)
qed

lemma lines_nl_append: "NL \<notin> set l \<Longrightarrow> lines (l @ NL # rest) = strip_cr l # lines rest"
proof -
  assume l: "NL \<notin> set l"
  then have "dropWhile (\<lambda>c. c \<noteq> NL) (l @ NL # rest) = NL # rest"
    and "takeWhile (\<lambda>c. c \<noteq> NL) (l @ NL # rest) = l"
    by (auto simp: dropWhile_append takeWhile_append)
  then show ?thesis by (subst lines.simps) simp
qed

text \<open>\<open>join("\n")\<close> followed by a final line feed, as the PAM writer produces its text.\<close>

fun join_nl :: "string list \<Rightarrow> string" where
  "join_nl [] = []"
| "join_nl [l] = l"
| "join_nl (l # ls) = l @ NL # join_nl ls"

definition unlines :: "string list \<Rightarrow> string" where
  "unlines ls = join_nl ls @ [NL]"

text \<open>A line that \<open>lines\<close> gives back unchanged.\<close>

definition clean_line :: "string \<Rightarrow> bool" where
  "clean_line l \<longleftrightarrow> NL \<notin> set l \<and> (l = [] \<or> last l \<noteq> CR)"

lemma strip_cr_clean [simp]: "clean_line l \<Longrightarrow> strip_cr l = l"
  by (auto simp: clean_line_def strip_cr_def)

lemma lines_unlines: "ls \<noteq> [] \<Longrightarrow> \<forall>l \<in> set ls. clean_line l \<Longrightarrow> lines (unlines ls) = ls"
proof (induction ls rule: join_nl.induct)
  case 1
  then show ?case by simp
next
  case (2 l)
  then have "lines (l @ NL # []) = [l]"
    by (subst lines_nl_append) (auto simp: clean_line_def strip_cr_def)
  then show ?case by (simp add: unlines_def)
next
  case (3 l v va)
  then have "lines (unlines (v # va)) = v # va" and "clean_line l" by auto
  then have "lines (l @ NL # unlines (v # va)) = l # v # va"
    by (subst lines_nl_append) (auto simp: clean_line_def strip_cr_def)
  then show ?case by (simp add: unlines_def)
qed

text \<open>\<open>str::split_whitespace\<close>, of which the program only takes the first word.\<close>

definition first_word :: "string \<Rightarrow> string option" where
  "first_word s =
     (let t = trim_start s in if t = [] then None else Some (takeWhile (\<lambda>c. \<not> is_space c) t))"

subsection \<open>Numbers\<close>

definition digit_val :: "char \<Rightarrow> nat option" where
  "digit_val c = (if 48 \<le> (of_char c :: nat) \<and> (of_char c :: nat) \<le> 57
                  then Some (of_char c - 48) else None)"

text \<open>\<open>str::parse\<close> of an unsigned integer: an optional plus sign, then decimal digits only, at
  least one, and no overflow of the type's maximum.\<close>

fun parse_digits :: "nat \<Rightarrow> nat \<Rightarrow> string \<Rightarrow> nat option" where
  "parse_digits mx acc [] = Some acc"
| "parse_digits mx acc (c # cs) =
     (case digit_val c of
        None \<Rightarrow> None
      | Some d \<Rightarrow> (let n = 10 * acc + d in if n \<le> mx then parse_digits mx n cs else None))"

definition parse_uint :: "nat \<Rightarrow> string \<Rightarrow> nat option" where
  "parse_uint mx s =
     (case s of
        [] \<Rightarrow> None
      | c # cs \<Rightarrow> (if c = CHR ''+'' then (if cs = [] then None else parse_digits mx 0 cs)
                  else parse_digits mx 0 s))"

lemma parse_digits_le: "parse_digits mx acc s = Some n \<Longrightarrow> acc \<le> mx \<Longrightarrow> n \<le> mx"
  by (induction mx acc s rule: parse_digits.induct)
     (auto simp: Let_def split: option.splits if_splits)

lemma parse_uint_le: "parse_uint mx s = Some n \<Longrightarrow> n \<le> mx"
  by (auto simp del: parse_digits.simps simp: parse_uint_def split: list.splits if_splits
      dest: parse_digits_le)

text \<open>Display of an unsigned integer in base ten, and the two-digit lower case hex of a byte.\<close>

definition digit_char :: "nat \<Rightarrow> char" where
  "digit_char d = char_of (48 + d)"

fun show_nat :: "nat \<Rightarrow> string" where
  "show_nat n = (if n < 10 then [digit_char n] else show_nat (n div 10) @ [digit_char (n mod 10)])"

declare show_nat.simps [simp del]

definition hex_digit :: "nat \<Rightarrow> char" where
  "hex_digit d = (if d < 10 then char_of (48 + d) else char_of (87 + d))"

definition hex_byte :: "byte \<Rightarrow> string" where
  "hex_byte b = [hex_digit (unat b div 16), hex_digit (unat b mod 16)]"

lemma digit_val_digit_char: "d < 10 \<Longrightarrow> digit_val (digit_char d) = Some d"
proof -
  assume d: "d < 10"
  then have "(of_char (digit_char d) :: nat) = 48 + d"
    by (simp add: digit_char_def)
  with d show ?thesis by (simp add: digit_val_def)
qed

lemma show_nat_nonempty [simp]: "show_nat n \<noteq> []"
  by (subst show_nat.simps) simp

lemma parse_digits_append:
  "parse_digits mx acc (s @ t) =
     (case parse_digits mx acc s of None \<Rightarrow> None | Some n \<Rightarrow> parse_digits mx n t)"
  by (induction mx acc s rule: parse_digits.induct) (auto simp: Let_def split: option.splits)

lemma parse_digits_show: "n \<le> mx \<Longrightarrow> parse_digits mx 0 (show_nat n) = Some n"
proof (induction n rule: show_nat.induct)
  case (1 n)
  show ?case
  proof (cases "n < 10")
    case True
    with "1.prems" show ?thesis
      by (subst show_nat.simps) (simp add: digit_val_digit_char)
  next
    case False
    with "1" have IH: "parse_digits mx 0 (show_nat (n div 10)) = Some (n div 10)" by simp
    from False "1.prems" show ?thesis
      by (subst show_nat.simps) (simp add: parse_digits_append IH digit_val_digit_char Let_def)
  qed
qed

lemma show_nat_not_plus: "hd (show_nat n) \<noteq> CHR ''+''"
proof (induction n rule: show_nat.induct)
  case (1 n)
  show ?case
  proof (cases "n < 10")
    case True
    then have "of_char (digit_char n) \<noteq> (43 :: nat)" by (simp add: digit_char_def)
    then have "digit_char n \<noteq> CHR ''+''" by auto
    with True show ?thesis by (subst show_nat.simps) simp
  next
    case False
    with "1" show ?thesis by (subst show_nat.simps) simp
  qed
qed

lemma parse_uint_show: "n \<le> mx \<Longrightarrow> parse_uint mx (show_nat n) = Some n"
proof -
  assume n: "n \<le> mx"
  obtain c cs where s: "show_nat n = c # cs" by (cases "show_nat n") simp_all
  with show_nat_not_plus [of n] have "c \<noteq> CHR ''+''" by simp
  with s parse_digits_show [OF n] show ?thesis by (simp add: parse_uint_def)
qed

end
