(* ===== verification/BTreeMap.thy ===== *)
theory BTreeMap
  imports RustStr
begin

text \<open>
  Rust's \<open>BTreeMap\<close> as the list of its entries in key order.  The interface the clients use
  (what a lookup returns after an insert or a removal, and that both keep the order) is the
  locale \<open>ordered_map\<close>; the entry lists of the model interpret it as \<open>bt\<close>.
\<close>

type_synonym ('k, 'v) btree = "('k \<times> 'v) list"

definition bt_ok :: "('k :: linorder, 'v) btree \<Rightarrow> bool" where
  "bt_ok m \<longleftrightarrow> sorted_wrt (<) (map fst m)"

definition bt_get :: "('k, 'v) btree \<Rightarrow> 'k \<Rightarrow> 'v option" where
  "bt_get m k = map_of m k"

fun bt_insert :: "'k :: linorder \<Rightarrow> 'v \<Rightarrow> ('k, 'v) btree \<Rightarrow> ('k, 'v) btree" where
  "bt_insert k v [] = [(k, v)]"
| "bt_insert k v (e # m) =
     (if k < fst e then (k, v) # e # m
      else if k = fst e then (k, v) # m
      else e # bt_insert k v m)"

definition bt_remove :: "'k \<Rightarrow> ('k, 'v) btree \<Rightarrow> ('k, 'v) btree" where
  "bt_remove k m = filter (\<lambda>e. fst e \<noteq> k) m"

definition bt_collect :: "('k :: linorder \<times> 'v) list \<Rightarrow> ('k, 'v) btree" where
  "bt_collect kvs = fold (\<lambda>e m. bt_insert (fst e) (snd e) m) kvs []"

subsection \<open>The interface\<close>

locale ordered_map =
  fixes ok :: "'m \<Rightarrow> bool"
    and emp :: "'m"
    and get :: "'m \<Rightarrow> 'k :: linorder \<Rightarrow> 'v option"
    and ins :: "'k \<Rightarrow> 'v \<Rightarrow> 'm \<Rightarrow> 'm"
    and del :: "'k \<Rightarrow> 'm \<Rightarrow> 'm"
  assumes ok_emp: "ok emp"
    and get_emp: "get emp k = None"
    and ok_ins: "ok m \<Longrightarrow> ok (ins k v m)"
    and get_ins: "ok m \<Longrightarrow> get (ins k v m) k' = (if k' = k then Some v else get m k')"
    and ok_del: "ok m \<Longrightarrow> ok (del k m)"
    and get_del: "ok m \<Longrightarrow> get (del k m) k' = (if k' = k then None else get m k')"
begin

lemma ok_collect: "ok m \<Longrightarrow> ok (fold (\<lambda>e m. ins (fst e) (snd e) m) kvs m)"
  by (induction kvs arbitrary: m) (auto intro: ok_ins)

text \<open>Building a map from a list: a later entry for the same key replaces an earlier one.\<close>

lemma get_collect:
  "ok m \<Longrightarrow> get (fold (\<lambda>e m. ins (fst e) (snd e) m) kvs m) k =
     (case map_of (rev kvs) k of None \<Rightarrow> get m k | Some v \<Rightarrow> Some v)"
proof (induction kvs arbitrary: m)
  case Nil
  then show ?case by simp
next
  case (Cons e kvs)
  then have "ok (ins (fst e) (snd e) m)" by (auto intro: ok_ins)
  from Cons.IH [OF this] Cons.prems show ?case
    by (cases e) (auto simp: get_ins map_add_def split: option.splits)
qed

lemma get_del_ins: "ok m \<Longrightarrow> get m k = None \<Longrightarrow> get (del k (ins k v m)) k' = get m k'"
  by (simp add: get_del get_ins ok_ins)

end

subsection \<open>The entry lists implement it\<close>

lemma bt_ok_Nil [simp]: "bt_ok []"
  by (simp add: bt_ok_def)

lemma bt_ok_Cons: "bt_ok (e # m) \<longleftrightarrow> (\<forall>x \<in> set m. fst e < fst x) \<and> bt_ok m"
  by (auto simp: bt_ok_def)

lemma set_bt_insert: "set (bt_insert k v m) \<subseteq> insert (k, v) (set m)"
  by (induction m) auto

lemma bt_ok_insert: "bt_ok m \<Longrightarrow> bt_ok (bt_insert k v m)"
proof (induction m)
  case Nil
  then show ?case by (simp add: bt_ok_Cons)
next
  case (Cons e m)
  then show ?case using set_bt_insert [of k v m]
    by (fastforce simp: bt_ok_Cons)
qed

lemma bt_get_insert: "bt_get (bt_insert k v m) k' = (if k' = k then Some v else bt_get m k')"
  by (induction m) (auto simp: bt_get_def)

lemma bt_ok_remove: "bt_ok m \<Longrightarrow> bt_ok (bt_remove k m)"
  by (induction m) (auto simp: bt_remove_def bt_ok_Cons)

lemma bt_get_remove: "bt_get (bt_remove k m) k' = (if k' = k then None else bt_get m k')"
  by (induction m) (auto simp: bt_remove_def bt_get_def)

interpretation bt: ordered_map bt_ok "[]" bt_get bt_insert bt_remove
  by unfold_locales
     (auto simp: bt_get_insert bt_get_remove bt_ok_insert bt_ok_remove, simp add: bt_get_def)

lemma bt_ok_distinct: "bt_ok m \<Longrightarrow> distinct (map fst m)"
  unfolding bt_ok_def by (rule sorted_wrt_less_distinct)

lemma bt_get_in: "bt_ok m \<Longrightarrow> bt_get m k = Some v \<longleftrightarrow> (k, v) \<in> set m"
  unfolding bt_get_def using map_of_eq_Some_iff [OF bt_ok_distinct] by metis

lemma bt_get_SomeD: "bt_get m k = Some v \<Longrightarrow> (k, v) \<in> set m"
  unfolding bt_get_def by (rule map_of_SomeD)

lemma bt_get_None: "bt_get m k = None \<longleftrightarrow> k \<notin> fst ` set m"
  by (simp add: bt_get_def map_of_eq_None_iff)

text \<open>A sorted entry list is determined by its lookups.\<close>

lemma bt_ext:
  assumes "bt_ok m" and "bt_ok m'" and "\<And>k. bt_get m k = bt_get m' k"
  shows "m = m'"
proof -
  have "set m = set m'"
    using assms bt_get_in by (metis subrelI subset_antisym)
  then show ?thesis using assms(1,2)
  proof (induction m arbitrary: m')
    case Nil
    then show ?case by simp
  next
    case (Cons e m)
    then obtain e' m'' where m': "m' = e' # m''" by (cases m') auto
    have lt: "\<forall>x \<in> set m. fst e < fst x" "\<forall>x \<in> set m''. fst e' < fst x"
      using Cons.prems m' by (auto simp: bt_ok_Cons)
    have "e = e'"
      using Cons.prems(1) lt m' by (metis list.set_intros(1) not_less_iff_gr_or_eq set_ConsD)
    moreover have "set m = set m''"
      using Cons.prems(1) lt m' \<open>e = e'\<close> by auto
    ultimately show ?case
      using Cons.IH [of m''] Cons.prems m' by (simp add: bt_ok_Cons)
  qed
qed

text \<open>Inserting a fresh key and removing it again is the identity.\<close>

lemma bt_remove_insert: "bt_ok m \<Longrightarrow> bt_get m k = None \<Longrightarrow> bt_remove k (bt_insert k v m) = m"
  by (rule bt_ext) (auto intro: bt.ok_del bt.ok_ins simp: bt.get_del_ins)

lemma bt_collect_ok: "bt_ok (bt_collect kvs)"
  unfolding bt_collect_def by (rule bt.ok_collect) simp

lemma bt_collect_get: "bt_get (bt_collect kvs) k = map_of (rev kvs) k"
  unfolding bt_collect_def by (subst bt.get_collect) (auto simp: bt_get_def split: option.splits)

end
