(* ===== verification/Proto.thy ===== *)
theory Proto
  imports BTreeMap
begin

text \<open>
  The crate \<open>elanprint-proto\<close>: status bytes (\<open>status.rs\<close>), errors (\<open>error.rs\<close>), the command
  table with its encoding, reply length, reply endpoint and timeout, and the reply parser
  (\<open>lib.rs\<close>).  Constructors of \<open>Command\<close> carry the prefix \<open>C\<close>, those of \<open>Response\<close> the prefix
  \<open>R\<close>, because the source uses the same names in both enums.  Durations are whole seconds.
\<close>

subsection \<open>Status bytes\<close>

datatype retry = MoveDown | MoveRight | MoveUp | MoveLeft | Dirty | AreaTooSmall

datatype status = StOk byte | StRetry retry | MaxEnrolled | NotEnrolled | Unknown byte

definition classify :: "byte \<Rightarrow> status" where
  "classify b =
     (if b = 0x41 then StRetry MoveDown
      else if b = 0x42 then StRetry MoveRight
      else if b = 0x43 then StRetry MoveUp
      else if b = 0x44 then StRetry MoveLeft
      else if b = 0xfb then StRetry Dirty
      else if b = 0xfe then StRetry AreaTooSmall
      else if b = 0xdd then MaxEnrolled
      else if b = 0xfd then NotEnrolled
      else if drop_bit 4 b = 0 then StOk b
      else Unknown b)"

definition is_retry :: "status \<Rightarrow> bool" where
  "is_retry s = (case s of StRetry _ \<Rightarrow> True | _ \<Rightarrow> False)"

datatype proto_error =
    UnexpectedLength string nat nat
  | DeviceError string byte

datatype verify_outcome = VMatch byte | VNoMatch | VRetry retry

definition verify_classify :: "status \<Rightarrow> proto_error + verify_outcome" where
  "verify_classify s =
     (case s of
        StOk i \<Rightarrow> Ok (VMatch i)
      | NotEnrolled \<Rightarrow> Ok VNoMatch
      | StRetry r \<Rightarrow> Ok (VRetry r)
      | MaxEnrolled \<Rightarrow> Err (DeviceError ''verify'' 0xdd)
      | Unknown b \<Rightarrow> Err (DeviceError ''verify'' b))"

subsection \<open>Endpoints and the enrol stage count\<close>

datatype reply_ep = EpImage | EpStatus | EpTouchWait

fun endpoint_address :: "reply_ep \<Rightarrow> byte" where
  "endpoint_address EpImage = 0x82"
| "endpoint_address EpStatus = 0x83"
| "endpoint_address EpTouchWait = 0x84"

definition DEFAULT_ENROLL_STAGES :: byte where "DEFAULT_ENROLL_STAGES = 8"
definition TOTAL_ENROLL_ATTEMPTS :: byte where "TOTAL_ENROLL_ATTEMPTS = DEFAULT_ENROLL_STAGES"

text \<open>The argument is the value of \<open>ELANPRINT_ENROLL_STAGES\<close>, \<open>None\<close> when it is not set.\<close>

definition enroll_stages :: "string option \<Rightarrow> byte" where
  "enroll_stages var =
     (case var of
        Some raw \<Rightarrow>
          (case parse_uint 255 (trim raw) of
             Some n \<Rightarrow> if 1 \<le> n \<and> n \<le> 32 then word_of_nat n else DEFAULT_ENROLL_STAGES
           | None \<Rightarrow> DEFAULT_ENROLL_STAGES)
      | None \<Rightarrow> DEFAULT_ENROLL_STAGES)"

definition sub_id :: "byte \<Rightarrow> byte" where
  "sub_id finger_id = 0xf0 OR (finger_id + 5)"

subsection \<open>Commands\<close>

datatype command =
    CFwVersion
  | CSensorSize
  | CEnrolledNum
  | CFingerInfo byte
  | CVerify
  | CAbort
  | CEnroll byte byte byte \<comment> \<open>finger id, total attempts, attempts done\<close>
  | CCheckCollision
  | CCommit byte "byte list" \<comment> \<open>sub id and 68 bytes of user data\<close>
  | CDelete byte
  | CDeleteSubsid byte "byte list" \<comment> \<open>sub id and a 68 byte tail\<close>
  | CWipeAll
  | CResetDevice
  | CCaptureStart u16 u16
  | CReadRegister byte

definition commit_cmd :: "byte \<Rightarrow> command" where
  "commit_cmd sid = CCommit sid (replicate 68 0)"

definition delete_subsid_cmd :: "byte \<Rightarrow> byte list \<Rightarrow> proto_error + command" where
  "delete_subsid_cmd sid record =
     (if length record \<noteq> 70
      then Err (UnexpectedLength ''delete_subsid'' 70 (length record))
      else Ok (CDeleteSubsid sid (take 68 (drop 2 record))))"

fun encode :: "command \<Rightarrow> byte list" where
  "encode CFwVersion = [0x40, 0x19]"
| "encode CSensorSize = [0x00, 0x0c]"
| "encode CEnrolledNum = [0x40, 0xff, 0x04]"
| "encode (CFingerInfo fid) = [0x40, 0xff, 0x12, fid]"
| "encode CVerify = [0x40, 0xff, 0x03]"
| "encode CAbort = [0x40, 0xff, 0x02]"
| "encode (CEnroll fid total_attempts attempts_done) = [0x40, 0xff, 0x01, fid, total_attempts, attempts_done, 0x00]"
| "encode CCheckCollision = [0x40, 0xff, 0x10]"
| "encode (CCommit sid user) = [0x40, 0xff, 0x11] @ [sid] @ user"
| "encode (CDelete fid) = [0x40, 0xff, 0x05, fid, 0x00]"
| "encode (CDeleteSubsid sid tail) = [0x40, 0xff, 0x13] @ [sid] @ tail"
| "encode CWipeAll = [0x40, 0xff, 0x99]"
| "encode CResetDevice = [0x40, 0x27, 0x57, 0x44, 0x54, 0x52, 0x53, 0x54]"
| "encode (CCaptureStart _ _) = [0x00, 0x09]"
| "encode (CReadRegister reg) = [0x40, 0x40 + (reg AND 0x3f)]"

fun expected_len :: "command \<Rightarrow> nat" where
  "expected_len CFwVersion = 2"
| "expected_len CEnrolledNum = 2"
| "expected_len CVerify = 2"
| "expected_len CAbort = 0"
| "expected_len CWipeAll = 0"
| "expected_len CResetDevice = 0"
| "expected_len CSensorSize = 4"
| "expected_len (CReadRegister _) = 2"
| "expected_len (CFingerInfo _) = 70"
| "expected_len (CEnroll _ _ _) = 2"
| "expected_len (CCommit _ _) = 2"
| "expected_len (CDelete _) = 2"
| "expected_len (CDeleteSubsid _ _) = 2"
| "expected_len CCheckCollision = 3"
| "expected_len (CCaptureStart width height) = 2 * unat width * unat height"

fun reply_endpoint :: "command \<Rightarrow> reply_ep" where
  "reply_endpoint CVerify = EpTouchWait"
| "reply_endpoint (CEnroll _ _ _) = EpTouchWait"
| "reply_endpoint (CCaptureStart _ _) = EpImage"
| "reply_endpoint _ = EpStatus"

fun cmd_timeout :: "command \<Rightarrow> nat" where
  "cmd_timeout CFwVersion = 1"
| "cmd_timeout CSensorSize = 1"
| "cmd_timeout CEnrolledNum = 1"
| "cmd_timeout CAbort = 1"
| "cmd_timeout (CFingerInfo _) = 2"
| "cmd_timeout (CReadRegister _) = 2"
| "cmd_timeout CVerify = 30"
| "cmd_timeout (CEnroll _ _ _) = 30"
| "cmd_timeout CCheckCollision = 5"
| "cmd_timeout (CCommit _ _) = 5"
| "cmd_timeout (CDelete _) = 5"
| "cmd_timeout (CDeleteSubsid _ _) = 5"
| "cmd_timeout CWipeAll = 10"
| "cmd_timeout CResetDevice = 1"
| "cmd_timeout (CCaptureStart _ _) = 5"

fun cmd_name :: "command \<Rightarrow> string" where
  "cmd_name CFwVersion = ''fw_ver''"
| "cmd_name CSensorSize = ''sensor_size''"
| "cmd_name CEnrolledNum = ''enrolled_num''"
| "cmd_name (CFingerInfo _) = ''finger_info''"
| "cmd_name CVerify = ''verify''"
| "cmd_name CAbort = ''abort''"
| "cmd_name (CEnroll _ _ _) = ''enroll''"
| "cmd_name CCheckCollision = ''check_enrolled_collision''"
| "cmd_name (CCommit _ _) = ''commit''"
| "cmd_name (CDelete _) = ''delete''"
| "cmd_name (CDeleteSubsid _ _) = ''delete_subsid''"
| "cmd_name CWipeAll = ''wipe_all''"
| "cmd_name CResetDevice = ''reset_device''"
| "cmd_name (CCaptureStart _ _) = ''capture_start''"
| "cmd_name (CReadRegister _) = ''read_register''"

fun is_destructive :: "command \<Rightarrow> bool" where
  "is_destructive (CEnroll _ _ _) = True"
| "is_destructive (CCommit _ _) = True"
| "is_destructive (CDelete _) = True"
| "is_destructive (CDeleteSubsid _ _) = True"
| "is_destructive CWipeAll = True"
| "is_destructive _ = False"

text \<open>The payload arrays of \<open>Commit\<close> and \<open>DeleteSubsid\<close> have the type \<open>[u8; 68]\<close>.\<close>

fun command_ok :: "command \<Rightarrow> bool" where
  "command_ok (CCommit _ user) = (length user = 68)"
| "command_ok (CDeleteSubsid _ tail) = (length tail = 68)"
| "command_ok _ = True"

subsection \<open>Replies\<close>

datatype slot_state = SlotEmpty | SlotStuck | SlotEnrolled "byte list" | SlotError byte

datatype response =
    RFwVersion byte byte
  | RSensorSize u16 u16
  | REnrolledNum byte
  | RVerify byte status
  | RAbort "status option"
  | RFingerInfo byte slot_state
  | REnroll byte status
  | RCheckCollision byte "byte option"
  | RCommit byte status
  | RDelete byte status
  | RDeleteSubsid byte status
  | RWipeAll
  | RResetDevice
  | RCaptureStart "byte list"
  | RReadRegister byte status

text \<open>
  \<open>exact\<close> checks the length; the indexing that follows in \<open>parse\<close> is then in range, so the model
  reads with \<open>raw ! i\<close> only under the same check.
\<close>

definition exact :: "command \<Rightarrow> byte list \<Rightarrow> nat \<Rightarrow> proto_error + byte list" where
  "exact cmd raw want =
     (if length raw = want then Ok raw
      else Err (UnexpectedLength (cmd_name cmd) want (length raw)))"

definition parse_slot :: "command \<Rightarrow> byte list \<Rightarrow> proto_error + slot_state" where
  "parse_slot cmd raw =
     (if length raw = 2 then Ok (SlotError (raw ! 1))
      else if length raw = 70 then
        (if raw ! 1 = 0xff then Ok SlotStuck
         else if raw ! 69 = 0xff then Ok SlotEmpty
         else Ok (SlotEnrolled raw))
      else Err (UnexpectedLength (cmd_name cmd) 70 (length raw)))"

definition parse_with :: "command \<Rightarrow> byte list \<Rightarrow> nat \<Rightarrow> (byte list \<Rightarrow> response) \<Rightarrow> proto_error + response"
  where "parse_with cmd raw want f = map_sum id f (exact cmd raw want)"

fun parse :: "command \<Rightarrow> byte list \<Rightarrow> proto_error + response" where
  "parse CFwVersion raw =
     parse_with CFwVersion raw 2 (\<lambda>b. RFwVersion (b ! 0) (b ! 1))"
| "parse CSensorSize raw =
     parse_with CSensorSize raw 4 (\<lambda>b. RSensorSize (ucast (b ! 0) + 1) (ucast (b ! 2) + 1))"
| "parse CEnrolledNum raw =
     parse_with CEnrolledNum raw 2 (\<lambda>b. REnrolledNum (b ! 1))"
| "parse CVerify raw =
     parse_with CVerify raw 2 (\<lambda>b. RVerify (b ! 0) (classify (b ! 1)))"
| "parse CAbort raw =
     (if length raw = 0 then Ok (RAbort None)
      else if length raw = 2 then Ok (RAbort (Some (classify (raw ! 1))))
      else Err (UnexpectedLength (cmd_name CAbort) 0 (length raw)))"
| "parse (CFingerInfo fid) raw =
     map_sum id (RFingerInfo fid) (parse_slot (CFingerInfo fid) raw)"
| "parse (CEnroll fid total_attempts attempts_done) raw =
     parse_with (CEnroll fid total_attempts attempts_done) raw 2 (\<lambda>b. REnroll (b ! 0) (classify (b ! 1)))"
| "parse CCheckCollision raw =
     parse_with CCheckCollision raw 3
       (\<lambda>b. RCheckCollision (b ! 0) (if b ! 1 \<noteq> 0 then Some (b ! 2) else None))"
| "parse (CCommit sid user) raw =
     parse_with (CCommit sid user) raw 2 (\<lambda>b. RCommit (b ! 0) (classify (b ! 1)))"
| "parse (CDelete fid) raw =
     parse_with (CDelete fid) raw 2 (\<lambda>b. RDelete (b ! 0) (classify (b ! 1)))"
| "parse (CDeleteSubsid sid tail) raw =
     parse_with (CDeleteSubsid sid tail) raw 2 (\<lambda>b. RDeleteSubsid (b ! 0) (classify (b ! 1)))"
| "parse CWipeAll raw = parse_with CWipeAll raw 0 (\<lambda>_. RWipeAll)"
| "parse CResetDevice raw = parse_with CResetDevice raw 0 (\<lambda>_. RResetDevice)"
| "parse (CCaptureStart width height) raw = Ok (RCaptureStart raw)"
| "parse (CReadRegister reg) raw =
     parse_with (CReadRegister reg) raw 2 (\<lambda>b. RReadRegister (b ! 0) (classify (b ! 1)))"

subsection \<open>Status bytes: a total, invertible classification\<close>

text \<open>The byte a status stands for; \<open>retry_code\<close> of \<open>enroll.rs\<close> is its part on retries.\<close>

fun retry_code :: "retry \<Rightarrow> byte" where
  "retry_code MoveDown = 0x41"
| "retry_code MoveRight = 0x42"
| "retry_code MoveUp = 0x43"
| "retry_code MoveLeft = 0x44"
| "retry_code Dirty = 0xfb"
| "retry_code AreaTooSmall = 0xfe"

fun status_byte :: "status \<Rightarrow> byte" where
  "status_byte (StOk b) = b"
| "status_byte (StRetry r) = retry_code r"
| "status_byte MaxEnrolled = 0xdd"
| "status_byte NotEnrolled = 0xfd"
| "status_byte (Unknown b) = b"

lemma status_byte_classify: "status_byte (classify b) = b"
  by (simp add: classify_def)

lemma classify_retry_code [simp]: "classify (retry_code r) = StRetry r"
  by (cases r) (simp_all add: classify_def)

lemma classify_ok_iff: "classify b = StOk i \<longleftrightarrow> i = b \<and> b < 16"
  by (auto simp: classify_def high_nibble_zero)

lemma classify_zero [simp]: "classify 0 = StOk 0"
  by (simp add: classify_def)

lemma classify_retry_iff: "classify b = StRetry r \<longleftrightarrow> b = retry_code r"
  by (metis classify_retry_code status_byte.simps(2) status_byte_classify)

subsection \<open>The command table\<close>

text \<open>The column \<open>out_len\<close> of the table in \<open>docs/protocol.md\<close>.\<close>

fun doc_out_len :: "command \<Rightarrow> nat" where
  "doc_out_len CFwVersion = 2"
| "doc_out_len CSensorSize = 2"
| "doc_out_len CEnrolledNum = 3"
| "doc_out_len (CFingerInfo _) = 4"
| "doc_out_len CVerify = 3"
| "doc_out_len CAbort = 3"
| "doc_out_len (CEnroll _ _ _) = 7"
| "doc_out_len CCheckCollision = 3"
| "doc_out_len (CCommit _ _) = 72"
| "doc_out_len (CDelete _) = 5"
| "doc_out_len (CDeleteSubsid _ _) = 72"
| "doc_out_len CWipeAll = 3"
| "doc_out_len CResetDevice = 8"
| "doc_out_len (CCaptureStart _ _) = 2"
| "doc_out_len (CReadRegister _) = 2"

lemma encode_length: "command_ok c \<Longrightarrow> length (encode c) = doc_out_len c"
  by (cases c) simp_all

lemma command_ok_commit [simp]: "command_ok (commit_cmd sid)"
  by (simp add: commit_cmd_def)

lemma delete_subsid_cmd_ok: "delete_subsid_cmd sid rec = Ok c \<Longrightarrow> command_ok c"
  by (auto simp: delete_subsid_cmd_def split: if_splits)

lemma read_register_range:
  "0x40 \<le> (0x40 :: byte) + (reg AND 0x3f)" "(0x40 :: byte) + (reg AND 0x3f) \<le> 0x7f"
proof -
  have "unat (reg AND (0x3f :: byte)) \<le> unat (0x3f :: byte)"
    by (rule word_and_le1 [THEN word_le_nat_alt [THEN iffD1]])
  then have le: "unat (reg AND (0x3f :: byte)) \<le> 63" by simp
  then have "unat ((0x40 :: byte) + (reg AND 0x3f)) = 64 + unat (reg AND 0x3f)"
    by (simp add: unat_word_ariths)
  with le show "0x40 \<le> (0x40 :: byte) + (reg AND 0x3f)" "(0x40 :: byte) + (reg AND 0x3f) \<le> 0x7f"
    by (simp_all add: byte_le_unat)
qed

lemma read_register_neq:
  "x < 0x40 \<or> 0x7f < x \<Longrightarrow> (0x40 :: byte) + (reg AND 0x3f) \<noteq> x"
  using read_register_range [of reg] by (meson leD)

text \<open>
  What two commands with the same bytes have in common.  The dimensions of \<open>CaptureStart\<close> only
  size the reply and a register number is sent in six bits, so these are not on the wire.
\<close>

fun wire_form :: "command \<Rightarrow> command" where
  "wire_form (CCaptureStart _ _) = CCaptureStart 0 0"
| "wire_form (CReadRegister reg) = CReadRegister (reg AND 0x3f)"
| "wire_form c = c"

lemma read_register_mask: "(0x40 :: byte) + (reg AND 0x3f) = 0x40 + (reg' AND 0x3f) \<longleftrightarrow>
    reg AND 0x3f = reg' AND 0x3f"
  by simp

lemma encode_inj: "encode c = encode d \<Longrightarrow> wire_form c = wire_form d"
proof (cases c)
  case (CReadRegister reg)
  assume "encode c = encode d"
  then show ?thesis
    using CReadRegister read_register_neq [of _ reg] by (cases d) auto
qed ((cases d; simp add: read_register_neq [THEN not_sym])+)

text \<open>The opcodes \<open>docs/protocol.md\<close> lists under DO NOT SEND.\<close>

definition do_not_send :: "byte list \<Rightarrow> bool" where
  "do_not_send out \<longleftrightarrow>
     starts_with out [0x42, 0x01, 0x52, 0x55, 0x4e, 0x49, 0x41, 0x50] \<or>
     (2 \<le> length out \<and> out ! 0 = 0x40 \<and> 0x80 \<le> out ! 1 \<and> out ! 1 \<le> 0xbf) \<or>
     starts_with out [0x40, 0xff, 0x14] \<or>
     starts_with out [0x00, 0x10] \<or>
     starts_with out [0x40, 0xff, 0x0a]"

lemma encode_never_forbidden: "\<not> do_not_send (encode c)"
proof (cases c)
  case (CReadRegister reg)
  have "\<not> (0x80 :: byte) \<le> 0x40 + (reg AND 0x3f)"
    using read_register_range(2) [of reg] by (auto simp: byte_le_unat)
  with CReadRegister show ?thesis
    by (simp add: do_not_send_def read_register_neq)
qed (simp_all add: do_not_send_def)

text \<open>Erase opcodes, as the regression tests of the daemon list them.\<close>

definition erase_prefixes :: "byte list list" where
  "erase_prefixes = [[0x40, 0xff, 0x05], [0x40, 0xff, 0x13], [0x40, 0xff, 0x99]]"

definition is_erase :: "byte list \<Rightarrow> bool" where
  "is_erase out \<longleftrightarrow> (\<exists>p \<in> set erase_prefixes. starts_with out p)"

lemma is_erase_encode:
  "is_erase (encode c) \<longleftrightarrow>
     (\<exists>fid. c = CDelete fid) \<or> (\<exists>sid t. c = CDeleteSubsid sid t) \<or> c = CWipeAll"
  by (cases c) (auto simp: is_erase_def erase_prefixes_def read_register_neq)

lemma erase_destructive: "is_erase (encode c) \<Longrightarrow> is_destructive c"
  by (auto simp: is_erase_encode)

subsection \<open>Sub ids\<close>

text \<open>
  The formula overflows the low nibble from id 11 on, but on the ids an enrolment may use it
  still gives every slot its own sub id.
\<close>

lemma byte_upto_15:
  assumes "(a :: byte) \<le> 15"
  shows "a \<in> {0, 1, 2, 3, 4, 5, 6, 7, 8, 9, 10, 11, 12, 13, 14, 15}"
proof -
  have "unat a \<in> set [0..<16]" using assms by (simp add: byte_le_unat)
  then have "(word_of_nat (unat a) :: byte) \<in> word_of_nat ` set [0..<16]" by (rule imageI)
  then have "a \<in> word_of_nat ` set [0..<16]" by simp
  then show ?thesis by (simp add: upt_conv_Cons)
qed

definition sub_id_slot :: "byte \<Rightarrow> byte" where
  "sub_id_slot sid = (if 0xf5 \<le> sid then sid - 0xf5 else sid - 0xe5)"

lemma sub_id_slot_inverse: "a \<le> 15 \<Longrightarrow> sub_id_slot (sub_id a) = a"
  by (drule byte_upto_15) (auto simp: sub_id_def sub_id_slot_def)

lemma sub_id_inj: "a \<le> 15 \<Longrightarrow> b \<le> 15 \<Longrightarrow> sub_id a = sub_id b \<Longrightarrow> a = b"
  by (metis sub_id_slot_inverse)

subsection \<open>Replies\<close>

text \<open>The reply lengths the parser accepts.\<close>

fun reply_lengths :: "command \<Rightarrow> nat set" where
  "reply_lengths CAbort = {0, 2}"
| "reply_lengths (CFingerInfo _) = {2, 70}"
| "reply_lengths (CCaptureStart _ _) = UNIV"
| "reply_lengths c = {expected_len c}"

lemma parse_with_ok: "is_ok (parse_with cmd raw want f) \<longleftrightarrow> length raw = want"
  by (simp add: parse_with_def exact_def)

lemma parse_ok_iff: "is_ok (parse c raw) \<longleftrightarrow> length raw \<in> reply_lengths c"
  by (cases c) (auto simp: parse_with_ok parse_slot_def)

lemma parse_with_Ok: "parse_with cmd raw want f = Ok r \<longleftrightarrow> length raw = want \<and> r = f raw"
  by (auto simp: parse_with_def exact_def)

lemma parse_with_Err:
  "parse_with cmd raw want f = Err e \<longleftrightarrow>
     length raw \<noteq> want \<and> e = UnexpectedLength (cmd_name cmd) want (length raw)"
  by (auto simp: parse_with_def exact_def)

lemmas parse_verdict = parse_with_Ok parse_with_Err

text \<open>The reply variant always is the one of the command.\<close>

fun response_name :: "response \<Rightarrow> string" where
  "response_name (RFwVersion _ _) = ''fw_ver''"
| "response_name (RSensorSize _ _) = ''sensor_size''"
| "response_name (REnrolledNum _) = ''enrolled_num''"
| "response_name (RVerify _ _) = ''verify''"
| "response_name (RAbort _) = ''abort''"
| "response_name (RFingerInfo _ _) = ''finger_info''"
| "response_name (REnroll _ _) = ''enroll''"
| "response_name (RCheckCollision _ _) = ''check_enrolled_collision''"
| "response_name (RCommit _ _) = ''commit''"
| "response_name (RDelete _ _) = ''delete''"
| "response_name (RDeleteSubsid _ _) = ''delete_subsid''"
| "response_name RWipeAll = ''wipe_all''"
| "response_name RResetDevice = ''reset_device''"
| "response_name (RCaptureStart _) = ''capture_start''"
| "response_name (RReadRegister _ _) = ''read_register''"

lemma map_sum_Ok: "map_sum id f x = Ok y \<longleftrightarrow> (\<exists>z. x = Ok z \<and> y = f z)"
  by (cases x) auto

lemma parse_response_name: "parse c raw = Ok r \<Longrightarrow> response_name r = cmd_name c"
  by (cases c) (auto simp: parse_verdict map_sum_Ok split: if_splits)

lemma map_sum_Err: "map_sum id f x = Err e \<longleftrightarrow> x = Err e"
  by (cases x) auto

lemma parse_error_kind:
  "parse c raw = Err e \<Longrightarrow> \<exists>want. e = UnexpectedLength (cmd_name c) want (length raw)"
  by (cases c) (auto simp: parse_verdict map_sum_Err parse_slot_def split: if_splits)

subsection \<open>Properties\<close>

lemma encode_eq_iff: "encode c = encode d \<longleftrightarrow> wire_form c = wire_form d"
proof
  show "wire_form c = wire_form d \<Longrightarrow> encode c = encode d"
    by (cases c; cases d) auto
qed (rule encode_inj)

text \<open>C40: Every command of the protocol is encoded to the number of bytes the command table of
  \<open>docs/protocol.md\<close> gives, its bytes never start with an opcode listed under DO NOT SEND, and
  they start with an erase opcode exactly for the three erasing commands, which
  \<open>is_destructive\<close> covers.\<close>

theorem encoding_sized_and_safe:
  assumes "command_ok c"
  shows "length (encode c) = doc_out_len c \<and> \<not> do_not_send (encode c) \<and>
    (is_erase (encode c) \<longleftrightarrow>
       (\<exists>fid. c = CDelete fid) \<or> (\<exists>sid t. c = CDeleteSubsid sid t) \<or> c = CWipeAll) \<and>
    (is_erase (encode c) \<longrightarrow> is_destructive c)"
  using encode_length [OF assms] encode_never_forbidden is_erase_encode erase_destructive by blast

theorem encoding_sized_and_safe_witness:
  "length (encode (commit_cmd (sub_id 3))) = 72 \<and> \<not> do_not_send (encode (commit_cmd (sub_id 3))) \<and>
   is_destructive (CDelete 3)"
  using encoding_sized_and_safe [OF command_ok_commit, of "sub_id 3"]
    encoding_sized_and_safe [of "CDelete 3"]
  by (simp add: commit_cmd_def)

text \<open>The encoding is injective up to what is not on the wire: two commands have the same bytes
  exactly when they agree after dropping the dimensions of \<open>CaptureStart\<close> and the upper two bits
  of a register number.\<close>

theorem encode_injective: "encode c = encode d \<longleftrightarrow> wire_form c = wire_form d"
  by (rule encode_eq_iff)

text \<open>The reply parser is total and decides by length alone: a reply is accepted exactly when its
  length is one the command allows, an accepted reply has the variant of its command, and a
  rejected one gives \<open>UnexpectedLength\<close> with the command's name and the length seen.\<close>

theorem parse_decides:
  "case parse c raw of
     Ok r \<Rightarrow> length raw \<in> reply_lengths c \<and> response_name r = cmd_name c
   | Err e \<Rightarrow> length raw \<notin> reply_lengths c \<and>
       (\<exists>want. e = UnexpectedLength (cmd_name c) want (length raw))"
proof (cases "parse c raw")
  case (Inl e)
  then have "\<not> is_ok (parse c raw)" by simp
  then have "length raw \<notin> reply_lengths c" by (simp add: parse_ok_iff)
  moreover have "\<exists>want. e = UnexpectedLength (cmd_name c) want (length raw)"
    using Inl parse_error_kind by blast
  ultimately show ?thesis using Inl by simp
next
  case (Inr r)
  then have "length raw \<in> reply_lengths c" using parse_ok_iff [of c raw] by simp
  then show ?thesis using Inr parse_response_name by simp
qed

text \<open>The status classification loses nothing: the byte can be read back from its class, an ok
  status is exactly a byte whose high nibble is zero, and a retry is exactly one of the six retry
  codes.\<close>

theorem classify_faithful:
  "status_byte (classify b) = b \<and>
   (classify b = StOk i \<longleftrightarrow> i = b \<and> b < 16) \<and>
   (classify b = StRetry r \<longleftrightarrow> b = retry_code r)"
  by (intro conjI status_byte_classify classify_ok_iff classify_retry_iff)

text \<open>No two slots an enrolment may use share a sub id, although the formula carries out of the
  low nibble from id 11 on: a commit cannot be stored under another slot's sub id.\<close>

theorem sub_id_unique:
  assumes "a \<le> 15" and "b \<le> 15"
  shows "sub_id a = sub_id b \<longleftrightarrow> a = b"
  using sub_id_inj [OF assms] by blast

theorem sub_id_unique_witness: "sub_id 11 \<noteq> sub_id 10 \<and> sub_id 11 = 0xf0"
  using sub_id_unique [of 11 10] by (simp add: sub_id_def)

end
