(* ===== verification/Usb.thy ===== *)
theory Usb
  imports Proto
begin

text \<open>
  The crate \<open>elanprint-usb\<close>: the transport errors (\<open>error.rs\<close>) and the device (\<open>lib.rs\<close>).  What
  \<open>nusb\<close>, the clock and the cancel token do is an argument: \<open>open\<close> takes the device list and the
  results of opening and claiming, \<open>send\<close> and \<open>recv\<close> take what each \<open>select!\<close> resolves to.
  The lemmas show that a receive posts one transfer at most, that its result has the exact length,
  and that no other product is ever opened.
\<close>

datatype transfer_error = TCancelled | TStall | TDisconnected | TFault | TUnknown

datatype usb_error =
    UNotFound
  | UnsupportedProduct u16
  | UPermission
  | UTimeout nat
  | TouchWaitSilent nat
  | UCancelled
  | ShortRead nat nat "byte list" \<comment> \<open>wanted, got, data\<close>
  | UDisconnected
  | UStall
  | UTransfer transfer_error
  | UIo io_error

fun usb_from_open :: "io_error \<Rightarrow> usb_error" where
  "usb_from_open IoPermissionDenied = UPermission"
| "usb_from_open IoNotFound = UNotFound"
| "usb_from_open (IoOther n) = UIo (IoOther n)"

fun usb_from_transfer :: "transfer_error \<Rightarrow> usb_error" where
  "usb_from_transfer TCancelled = UCancelled"
| "usb_from_transfer TDisconnected = UDisconnected"
| "usb_from_transfer TStall = UStall"
| "usb_from_transfer TFault = UTransfer TFault"
| "usb_from_transfer TUnknown = UTransfer TUnknown"

subsection \<open>Opening the device\<close>

definition VID :: u16 where "VID = 0x04f3"
definition PID :: u16 where "PID = 0x0c90"
definition INTERFACE :: byte where "INTERFACE = 0"
definition EP_OUT :: byte where "EP_OUT = 0x01"
definition MAX_PACKET :: nat where "MAX_PACKET = 64"

record usb_info =
  vendor_id :: u16
  product_id :: u16
  bus_number :: byte
  device_address :: byte

text \<open>The result, and the devices on which \<open>open\<close> was called.\<close>

definition device_open ::
  "io_error + usb_info list \<Rightarrow> (usb_info \<Rightarrow> io_error + unit) \<Rightarrow> (usb_info \<Rightarrow> byte \<Rightarrow> io_error + unit) \<Rightarrow>
   (usb_error + usb_info) \<times> usb_info list" where
  "device_open listed open_dev claim_if =
     (case listed of
        Err e \<Rightarrow> (Err (UIo e), [])
      | Ok devs \<Rightarrow>
          (let elan = filter (\<lambda>d. vendor_id d = VID) devs in
           case List.find (\<lambda>d. product_id d = PID) elan of
             None \<Rightarrow>
               (case elan of
                  other # _ \<Rightarrow> (Err (UnsupportedProduct (product_id other)), [])
                | [] \<Rightarrow> (Err UNotFound, []))
           | Some info \<Rightarrow>
               (case open_dev info of
                  Err e \<Rightarrow> (Err (usb_from_open e), [info])
                | Ok _ \<Rightarrow>
                    (case claim_if info INTERFACE of
                       Err e \<Rightarrow> (Err (usb_from_open e), [info])
                     | Ok _ \<Rightarrow> (Ok info, [info])))))"

subsection \<open>Transfers\<close>

text \<open>What one \<open>select!\<close> over cancel token, timer and transfer resolves to (biased in this order).\<close>

datatype selected =
    SelCancelled
  | SelElapsed
  | SelDone "transfer_error + byte list"

definition usb_send :: "nat \<Rightarrow> selected \<Rightarrow> usb_error + unit" where
  "usb_send timeout sel =
     (case sel of
        SelCancelled \<Rightarrow> Err UCancelled
      | SelElapsed \<Rightarrow> Err (UTimeout timeout)
      | SelDone (Err e) \<Rightarrow> Err (usb_from_transfer e)
      | SelDone (Ok _) \<Rightarrow> Ok ())"

definition next_multiple_of :: "nat \<Rightarrow> nat \<Rightarrow> nat" where
  "next_multiple_of n k = (n + k - 1) div k * k"

text \<open>
  One round of the read loop: the deadline may have passed when it starts, or a transfer is posted
  and the \<open>select!\<close> resolves.  The list holds what the rounds meet; when it is used up the call is
  still waiting, which is the value \<open>None\<close>.  The second component lists the sizes posted.
\<close>

datatype recv_round = DeadlinePassed | Posted selected

fun recv_loop :: "nat \<Rightarrow> nat \<Rightarrow> byte list \<Rightarrow> recv_round list \<Rightarrow>
    ((usb_error + byte list) \<times> nat list) option" where
  "recv_loop len timeout buf [] =
     (if length buf < len then None else Some (Ok (take len buf), []))"
| "recv_loop len timeout buf (r # rs) =
     (if length buf < len then
        (case r of
           DeadlinePassed \<Rightarrow> Some (Err (UTimeout timeout), [])
         | Posted sel \<Rightarrow>
             (let want = next_multiple_of (len - length buf) MAX_PACKET in
              case sel of
                SelCancelled \<Rightarrow> Some (Err UCancelled, [want])
              | SelElapsed \<Rightarrow> Some (Err (UTimeout timeout), [want])
              | SelDone (Err e) \<Rightarrow> Some (Err (usb_from_transfer e), [want])
              | SelDone (Ok chunk) \<Rightarrow>
                  (let ended_early = length chunk < want; buf' = buf @ chunk in
                   if length buf' < len \<and> ended_early
                   then Some (Err (ShortRead len (length buf') buf'), [want])
                   else map_option (\<lambda>(res, posted). (res, want # posted))
                          (recv_loop len timeout buf' rs))))
      else Some (Ok (take len buf), []))"

definition usb_recv :: "nat \<Rightarrow> nat \<Rightarrow> recv_round list \<Rightarrow> ((usb_error + byte list) \<times> nat list) option" where
  "usb_recv len timeout rounds = recv_loop len timeout [] rounds"

definition usb_cmd :: "nat \<Rightarrow> nat \<Rightarrow> selected \<Rightarrow> recv_round list \<Rightarrow> (usb_error + byte list) option" where
  "usb_cmd in_len timeout sel rounds =
     (case usb_send timeout sel of
        Err e \<Rightarrow> Some (Err e)
      | Ok _ \<Rightarrow> map_option fst (usb_recv in_len timeout rounds))"

text \<open>Which of two endpoints answers first; the size posted on both is the first component.\<close>

datatype first_selected = FirstCancelled | FirstElapsed | FirstA "transfer_error + byte list"
  | FirstB "transfer_error + byte list"

definition usb_recv_first :: "reply_ep \<Rightarrow> reply_ep \<Rightarrow> nat \<Rightarrow> nat \<Rightarrow> first_selected \<Rightarrow>
    nat \<times> (usb_error + reply_ep \<times> byte list)" where
  "usb_recv_first a b len timeout sel =
     (let want = max (next_multiple_of len MAX_PACKET) MAX_PACKET in
      (want, case sel of
         FirstCancelled \<Rightarrow> Err UCancelled
       | FirstElapsed \<Rightarrow> Err (UTimeout timeout)
       | FirstA completion \<Rightarrow> map_sum usb_from_transfer (Pair a) completion
       | FirstB completion \<Rightarrow> map_sum usb_from_transfer (Pair b) completion))"

fun join_space :: "string list \<Rightarrow> string" where
  "join_space [] = []"
| "join_space [w] = w"
| "join_space (w # ws) = w @ CHR '' '' # join_space ws"

definition hex :: "byte list \<Rightarrow> string" where
  "hex bytes = join_space (map hex_byte bytes)"

subsection \<open>Lemmas\<close>

lemma next_multiple_of_packet:
  "n \<le> next_multiple_of n MAX_PACKET" "MAX_PACKET dvd next_multiple_of n MAX_PACKET"
  "next_multiple_of n MAX_PACKET < n + MAX_PACKET"
  by (auto simp: next_multiple_of_def MAX_PACKET_def)

text \<open>The reference: one transfer, and its answer judged against the length wanted.\<close>

fun recv_once :: "nat \<Rightarrow> nat \<Rightarrow> recv_round \<Rightarrow> usb_error + byte list" where
  "recv_once len timeout DeadlinePassed = Err (UTimeout timeout)"
| "recv_once len timeout (Posted SelCancelled) = Err UCancelled"
| "recv_once len timeout (Posted SelElapsed) = Err (UTimeout timeout)"
| "recv_once len timeout (Posted (SelDone (Err e))) = Err (usb_from_transfer e)"
| "recv_once len timeout (Posted (SelDone (Ok chunk))) =
     (if length chunk < len then Err (ShortRead len (length chunk) chunk) else Ok (take len chunk))"

lemma recv_loop_full: "len \<le> length buf \<Longrightarrow> recv_loop len timeout buf rs = Some (Ok (take len buf), [])"
  by (cases rs) simp_all

lemma recv_is_one_round:
  assumes "0 < len"
  shows "usb_recv len timeout (r # rs) =
    Some (recv_once len timeout r, if r = DeadlinePassed then [] else [next_multiple_of len MAX_PACKET])"
  using assms next_multiple_of_packet(1) [of len]
  by (cases "(len, timeout, r)" rule: recv_once.cases)
     (auto simp: usb_recv_def recv_loop_full Let_def)

lemma recv_zero: "usb_recv 0 timeout rounds = Some (Ok [], [])"
  by (cases rounds) (simp_all add: usb_recv_def)

lemma recv_once_length: "recv_once len timeout r = Ok bytes \<Longrightarrow> length bytes = len"
  by (cases "(len, timeout, r)" rule: recv_once.cases) (auto split: if_splits)

lemma find_filter_SomeD: "List.find P (filter Q xs) = Some x \<Longrightarrow> P x \<and> Q x \<and> x \<in> set xs"
  by (induction xs) (auto split: if_splits)

text \<open>The three ways an open can go: no listing, no supported device, or an attempt on one.\<close>

lemma device_open_cases:
  obtains (unlisted) e where "listed = Err e" "device_open listed op cl = (Err (UIo e), [])"
    | (unsupported) e where "device_open listed op cl = (Err e, [])" "e \<noteq> UnsupportedProduct PID"
    | (attempt) devs info r where "listed = Ok devs" "info \<in> set devs" "vendor_id info = VID"
        "product_id info = PID" "device_open listed op cl = (r, [info])" "is_ok r \<longrightarrow> r = Ok info"
        "\<forall>p. r \<noteq> Err (UnsupportedProduct p)"
proof (cases listed)
  case (Inl e)
  then show thesis using unlisted by (simp add: device_open_def)
next
  case (Inr devs)
  let ?elan = "filter (\<lambda>d. vendor_id d = VID) devs"
  show thesis
  proof (cases "List.find (\<lambda>d. product_id d = PID) ?elan")
    case None
    show thesis
    proof (cases ?elan)
      case Nil
      with Inr None show thesis by (intro unsupported [of UNotFound]) (simp_all add: device_open_def)
    next
      case (Cons d ds)
      with None have "product_id d \<noteq> PID" by (simp split: if_splits)
      with Inr None Cons show thesis
        by (intro unsupported [of "UnsupportedProduct (product_id d)"]) (simp_all add: device_open_def)
    qed
  next
    case (Some info)
    then have info: "info \<in> set devs" "vendor_id info = VID" "product_id info = PID"
      by (auto dest: find_filter_SomeD)
    define r where "r = (case op info of Err e \<Rightarrow> Err (usb_from_open e) | Ok _ \<Rightarrow>
      (case cl info INTERFACE of Err e \<Rightarrow> Err (usb_from_open e) | Ok _ \<Rightarrow> Ok info))"
    have "device_open listed op cl = (r, [info])"
      using Inr Some by (simp add: device_open_def r_def split: sum.split)
    moreover have "is_ok r \<longrightarrow> r = Ok info" by (simp add: r_def split: sum.split)
    moreover have "\<forall>p. r \<noteq> Err (UnsupportedProduct p)"
      by (auto simp: r_def split: sum.splits elim: usb_from_open.elims)
    ultimately show thesis using attempt Inr info by blast
  qed
qed

lemma device_open_opens:
  "set (snd (device_open listed op cl)) \<subseteq> {d. vendor_id d = VID \<and> product_id d = PID}"
  by (rule device_open_cases [of listed op cl]) auto

lemma device_open_result:
  "fst (device_open listed op cl) = Ok info \<Longrightarrow>
   vendor_id info = VID \<and> product_id info = PID \<and> (\<exists>devs. listed = Ok devs \<and> info \<in> set devs)"
  by (rule device_open_cases [of listed op cl]) auto

lemma device_open_unsupported:
  "fst (device_open listed op cl) = Err (UnsupportedProduct p) \<Longrightarrow>
   p \<noteq> PID \<and> snd (device_open listed op cl) = []"
  by (rule device_open_cases [of listed op cl]) auto

subsection \<open>Properties\<close>

text \<open>Opening touches nothing but the one supported model: every device on which \<open>open\<close> is called
  is 04f3:0c90, a device returned is one the system listed and is 04f3:0c90, and when an ELAN
  sensor of another product is reported as unsupported no device was opened at all.\<close>

theorem open_only_supported_product:
  "set (snd (device_open listed op cl)) \<subseteq> {d. vendor_id d = VID \<and> product_id d = PID} \<and>
   (case fst (device_open listed op cl) of
      Ok info \<Rightarrow> vendor_id info = VID \<and> product_id info = PID \<and> (\<exists>devs. listed = Ok devs \<and> info \<in> set devs)
    | Err e \<Rightarrow> (case e of UnsupportedProduct p \<Rightarrow> p \<noteq> PID \<and> snd (device_open listed op cl) = []
        | _ \<Rightarrow> True))"
proof (cases "fst (device_open listed op cl)")
  case (Inl e)
  then show ?thesis using device_open_opens device_open_unsupported [of listed op cl]
    by (auto split: usb_error.split)
next
  case (Inr info)
  then show ?thesis using device_open_opens device_open_result [OF Inr] by auto
qed

text \<open>Receiving terminates after one round: the loop of \<open>recv\<close> never posts a second transfer,
  because what it posts is at least what it wants, so its result is that of judging a single
  answer.  The size posted is the next multiple of the packet size, a successful result has
  exactly the length wanted, and a shorter answer is a \<open>ShortRead\<close> that carries what arrived.\<close>

theorem recv_single_transfer:
  assumes "0 < len"
  shows "usb_recv len timeout (r # rs) =
      Some (recv_once len timeout r, if r = DeadlinePassed then [] else [next_multiple_of len MAX_PACKET]) \<and>
    MAX_PACKET dvd next_multiple_of len MAX_PACKET \<and> len \<le> next_multiple_of len MAX_PACKET \<and>
    next_multiple_of len MAX_PACKET < len + MAX_PACKET \<and>
    (\<forall>bytes. recv_once len timeout r = Ok bytes \<longrightarrow> length bytes = len)"
  using recv_is_one_round [OF assms] next_multiple_of_packet recv_once_length by blast

theorem recv_single_transfer_witness:
  "usb_recv 70 2 [Posted (SelDone (Ok [0x40, 0xff]))] = Some (Err (ShortRead 70 2 [0x40, 0xff]), [128])"
  using recv_single_transfer [of 70 2 "Posted (SelDone (Ok [0x40, 0xff]))" "[]"]
  by (simp add: next_multiple_of_def MAX_PACKET_def)

end
