(* ===== verification/EnrollMachine.thy ===== *)
theory EnrollMachine
  imports Proto
begin

text \<open>
  The enrolment state machine of \<open>elanprint-proto/src/enroll.rs\<close>: the caller sends the bytes the
  machine queues and feeds the raw replies to \<open>step\<close>.  Below the operations: the invariant tying
  the queued bytes to the command the machine expects an answer for, the bound on the sample
  counter, and the exact language of replies that lead to \<open>Complete\<close>.
\<close>

datatype enroll_error =
    EMaxEnrolled
  | ECollision byte
  | EDevice string byte
  | EUnexpectedReply
  | EParse proto_error

datatype enroll_state =
    Idle
  | Started byte
  | AwaitingTouch byte byte
  | Committing
  | Done byte
  | Failed

datatype enroll_action =
    Send "byte list"
  | EmitProgress byte byte
  | EmitRetry retry
  | Complete byte
  | Fail enroll_error

datatype pending = PSample | PCollision | PCommit

record enroll =
  en_slot :: byte
  en_needed :: byte
  en_collected :: byte
  en_pending :: "pending option"
  en_send_buf :: "byte list option"
  en_state :: enroll_state

definition with_total :: "byte \<Rightarrow> byte \<Rightarrow> enroll" where
  "with_total slot attempts =
     \<lparr>en_slot = slot, en_needed = attempts, en_collected = 0, en_pending = None,
      en_send_buf = None, en_state = Idle\<rparr>"

definition enroll_new :: "byte \<Rightarrow> enroll" where
  "enroll_new slot = with_total slot TOTAL_ENROLL_ATTEMPTS"

definition sample_cmd :: "enroll \<Rightarrow> command" where
  "sample_cmd m = CEnroll (en_slot m) (en_needed m) (en_collected m)"

definition pending_command :: "enroll \<Rightarrow> command option" where
  "pending_command m =
     (case en_pending m of
        Some PSample \<Rightarrow> Some (sample_cmd m)
      | Some PCollision \<Rightarrow> Some CCheckCollision
      | Some PCommit \<Rightarrow> Some (commit_cmd (sub_id (en_slot m)))
      | None \<Rightarrow> None)"

definition pending_timeout :: "enroll \<Rightarrow> nat option" where
  "pending_timeout m = map_option cmd_timeout (pending_command m)"

definition pending_read :: "enroll \<Rightarrow> (reply_ep \<times> nat \<times> nat) option" where
  "pending_read m =
     map_option (\<lambda>c. (reply_endpoint c, expected_len c, cmd_timeout c)) (pending_command m)"

definition enroll_queue :: "enroll \<Rightarrow> command \<Rightarrow> enroll_action \<times> enroll" where
  "enroll_queue m cmd = (let out = encode cmd in (Send out, m\<lparr>en_send_buf := Some out\<rparr>))"

definition enroll_start :: "enroll \<Rightarrow> enroll_action \<times> enroll" where
  "enroll_start m =
     (let cmd = CEnroll (en_slot m) (en_needed m) 0 in
      enroll_queue (m\<lparr>en_pending := Some PSample, en_state := Started (en_slot m)\<rparr>) cmd)"

definition take_send :: "enroll \<Rightarrow> enroll_action option \<times> enroll" where
  "take_send m = (map_option Send (en_send_buf m), m\<lparr>en_send_buf := None\<rparr>)"

definition enroll_fail :: "enroll \<Rightarrow> enroll_error \<Rightarrow> enroll_action \<times> enroll" where
  "enroll_fail m e =
     (Fail e, m\<lparr>en_pending := None, en_send_buf := None, en_state := Failed\<rparr>)"

definition step_sample :: "enroll \<Rightarrow> byte list \<Rightarrow> enroll_action \<times> enroll" where
  "step_sample m input =
     (case parse (sample_cmd m) input of
        Err e \<Rightarrow> enroll_fail m (EParse e)
      | Ok (REnroll _ st) \<Rightarrow>
          (case st of
             StOk n \<Rightarrow>
               (if n = 0 then
                  (let c = en_collected m + 1;
                       m1 = m\<lparr>en_collected := c, en_state := AwaitingTouch c (en_needed m)\<rparr>
                   in (if en_needed m \<le> c then
                         (EmitProgress c (en_needed m),
                          m1\<lparr>en_pending := Some PCollision,
                             en_send_buf := Some (encode CCheckCollision)\<rparr>)
                       else
                         (EmitProgress c (en_needed m),
                          m1\<lparr>en_pending := Some PSample,
                             en_send_buf := Some (encode (sample_cmd m1))\<rparr>)))
                else enroll_fail m (EDevice ''enroll'' n))
           | StRetry r \<Rightarrow>
               (EmitRetry r,
                m\<lparr>en_pending := Some PSample, en_send_buf := Some (encode (sample_cmd m))\<rparr>)
           | MaxEnrolled \<Rightarrow> enroll_fail m EMaxEnrolled
           | NotEnrolled \<Rightarrow> enroll_fail m (EDevice ''enroll'' 0xfd)
           | Unknown b \<Rightarrow> enroll_fail m (EDevice ''enroll'' b))
      | Ok _ \<Rightarrow> enroll_fail m EUnexpectedReply)"

definition step_collision :: "enroll \<Rightarrow> byte list \<Rightarrow> enroll_action \<times> enroll" where
  "step_collision m input =
     (case parse CCheckCollision input of
        Ok (RCheckCollision _ colliding) \<Rightarrow>
          (case colliding of
             Some i \<Rightarrow> enroll_fail m (ECollision i)
           | None \<Rightarrow>
               enroll_queue (m\<lparr>en_pending := Some PCommit, en_state := Committing\<rparr>)
                 (commit_cmd (sub_id (en_slot m))))
      | Ok _ \<Rightarrow> enroll_fail m EUnexpectedReply
      | Err e \<Rightarrow> enroll_fail m (EParse e))"

definition step_commit :: "enroll \<Rightarrow> byte list \<Rightarrow> enroll_action \<times> enroll" where
  "step_commit m input =
     (case parse (commit_cmd (sub_id (en_slot m))) input of
        Ok (RCommit _ st) \<Rightarrow>
          (case st of
             StOk n \<Rightarrow>
               (if n = 0 then
                  (Complete (en_slot m),
                   m\<lparr>en_pending := None, en_send_buf := None, en_state := Done (en_slot m)\<rparr>)
                else enroll_fail m (EDevice ''commit'' n))
           | StRetry r \<Rightarrow> enroll_fail m (EDevice ''commit'' (retry_code r))
           | MaxEnrolled \<Rightarrow> enroll_fail m EMaxEnrolled
           | NotEnrolled \<Rightarrow> enroll_fail m (EDevice ''commit'' 0xfd)
           | Unknown b \<Rightarrow> enroll_fail m (EDevice ''commit'' b))
      | Ok _ \<Rightarrow> enroll_fail m EUnexpectedReply
      | Err e \<Rightarrow> enroll_fail m (EParse e))"

definition enroll_step :: "enroll \<Rightarrow> byte list \<Rightarrow> enroll_action \<times> enroll" where
  "enroll_step m input =
     (case en_pending m of
        Some PSample \<Rightarrow> step_sample m input
      | Some PCollision \<Rightarrow> step_collision m input
      | Some PCommit \<Rightarrow> step_commit m input
      | None \<Rightarrow> enroll_fail m EUnexpectedReply)"

subsection \<open>What one reply does\<close>

definition good_reply :: "byte list \<Rightarrow> bool" where
  "good_reply raw \<longleftrightarrow> length raw = 2 \<and> raw ! 1 = 0"

definition retry_reply :: "byte list \<Rightarrow> bool" where
  "retry_reply raw \<longleftrightarrow> length raw = 2 \<and> (\<exists>r. raw ! 1 = retry_code r)"

definition clear_reply :: "byte list \<Rightarrow> bool" where
  "clear_reply raw \<longleftrightarrow> length raw = 3 \<and> raw ! 1 = 0"

lemma good_not_retry: "good_reply raw \<Longrightarrow> \<not> retry_reply raw"
  by (auto simp: good_reply_def retry_reply_def elim: retry_code.elims)

lemma step_sample_good:
  assumes "good_reply raw"
  shows "step_sample m raw =
    (EmitProgress (en_collected m + 1) (en_needed m),
     m\<lparr>en_collected := en_collected m + 1,
       en_state := AwaitingTouch (en_collected m + 1) (en_needed m),
       en_pending := Some (if en_needed m \<le> en_collected m + 1 then PCollision else PSample),
       en_send_buf := Some (encode (if en_needed m \<le> en_collected m + 1 then CCheckCollision
         else CEnroll (en_slot m) (en_needed m) (en_collected m + 1)))\<rparr>)"
  using assms
  by (simp add: good_reply_def step_sample_def sample_cmd_def parse_with_def exact_def Let_def)

lemma step_sample_retry:
  assumes "length raw = 2" "raw ! 1 = retry_code r"
  shows "step_sample m raw =
    (EmitRetry r, m\<lparr>en_pending := Some PSample, en_send_buf := Some (encode (sample_cmd m))\<rparr>)"
  using assms
  by (simp add: step_sample_def sample_cmd_def parse_with_def exact_def)

lemma step_sample_other:
  assumes "\<not> good_reply raw" "\<not> retry_reply raw"
  shows "\<exists>e. step_sample m raw = enroll_fail m e"
  using assms
  by (auto simp: good_reply_def retry_reply_def step_sample_def sample_cmd_def parse_with_def
      exact_def classify_retry_iff classify_ok_iff split: status.splits)

lemma step_collision_clear:
  assumes "clear_reply raw"
  shows "step_collision m raw =
    (Send (encode (commit_cmd (sub_id (en_slot m)))),
     m\<lparr>en_pending := Some PCommit, en_state := Committing,
       en_send_buf := Some (encode (commit_cmd (sub_id (en_slot m))))\<rparr>)"
  using assms
  by (simp add: clear_reply_def step_collision_def parse_with_def exact_def enroll_queue_def Let_def)

lemma step_collision_other:
  "\<not> clear_reply raw \<Longrightarrow> \<exists>e. step_collision m raw = enroll_fail m e"
  by (auto simp: clear_reply_def step_collision_def parse_with_def exact_def)

lemma step_commit_good:
  assumes "good_reply raw"
  shows "step_commit m raw =
    (Complete (en_slot m),
     m\<lparr>en_pending := None, en_send_buf := None, en_state := Done (en_slot m)\<rparr>)"
  using assms by (simp add: good_reply_def step_commit_def commit_cmd_def parse_with_def exact_def)

lemma step_commit_other:
  "\<not> good_reply raw \<Longrightarrow> \<exists>e. step_commit m raw = enroll_fail m e"
  by (auto simp: good_reply_def step_commit_def commit_cmd_def parse_with_def exact_def
      classify_ok_iff split: status.splits)

text \<open>One step of a machine, by what it waits for and what it is told.\<close>

lemma enroll_step_cases:
  obtains (good) "en_pending m = Some PSample" "good_reply raw" "enroll_step m raw = step_sample m raw"
    | (retry) r where "en_pending m = Some PSample" "length raw = 2" "raw ! 1 = retry_code r"
        "enroll_step m raw = step_sample m raw"
    | (clear) "en_pending m = Some PCollision" "clear_reply raw" "enroll_step m raw = step_collision m raw"
    | (commit) "en_pending m = Some PCommit" "good_reply raw" "enroll_step m raw = step_commit m raw"
    | (fail) e where "enroll_step m raw = enroll_fail m e"
proof (cases "en_pending m")
  case None
  then show thesis using fail by (simp add: enroll_step_def)
next
  case (Some p)
  then have step: "enroll_step m raw =
      (case p of PSample \<Rightarrow> step_sample m raw | PCollision \<Rightarrow> step_collision m raw
       | PCommit \<Rightarrow> step_commit m raw)"
    by (simp add: enroll_step_def split: pending.split)
  show thesis
  proof (cases p)
    case PSample
    with Some step good retry fail show thesis
      using step_sample_other [of raw m] by (auto simp: retry_reply_def)
  next
    case PCollision
    with Some step clear fail show thesis using step_collision_other [of raw m] by auto
  next
    case PCommit
    with Some step commit fail show thesis using step_commit_other [of raw m] by auto
  qed
qed

lemmas enroll_step_results =
  step_sample_good step_sample_retry step_collision_clear step_commit_good enroll_fail_def

subsection \<open>The invariant\<close>

text \<open>
  The bytes queued are those of the pending command, a machine waiting for a sample still needs
  one, and the state names agree with what is pending.
\<close>

definition enroll_inv :: "enroll \<Rightarrow> bool" where
  "enroll_inv m \<longleftrightarrow>
     (\<forall>out. en_send_buf m = Some out \<longrightarrow> map_option encode (pending_command m) = Some out) \<and>
     (case en_pending m of
        Some PSample \<Rightarrow>
          (en_collected m < en_needed m \<or> en_collected m = 0) \<and>
          en_state m \<in> {Started (en_slot m), AwaitingTouch (en_collected m) (en_needed m)}
      | Some PCollision \<Rightarrow>
          en_needed m \<le> en_collected m \<and> 0 < en_collected m \<and>
          en_state m = AwaitingTouch (en_collected m) (en_needed m)
      | Some PCommit \<Rightarrow>
          en_needed m \<le> en_collected m \<and> 0 < en_collected m \<and> en_state m = Committing
      | None \<Rightarrow> en_state m \<in> {Idle, Done (en_slot m), Failed})"

lemma enroll_inv_new: "enroll_inv (with_total slot attempts)"
  by (simp add: enroll_inv_def with_total_def)

lemma enroll_inv_start: "en_collected m = 0 \<Longrightarrow> enroll_inv (snd (enroll_start m))"
  by (simp add: enroll_inv_def enroll_start_def enroll_queue_def pending_command_def
      sample_cmd_def Let_def)

lemma enroll_inv_take_send: "enroll_inv m \<Longrightarrow> enroll_inv (snd (take_send m))"
  by (simp add: enroll_inv_def take_send_def pending_command_def sample_cmd_def
      split: option.splits pending.splits)

lemma sample_counter_no_wrap:
  "enroll_inv m \<Longrightarrow> en_pending m = Some PSample \<Longrightarrow>
   unat (en_collected m + 1) = unat (en_collected m) + 1"
  by (auto simp: enroll_inv_def dest: unat_byte_Suc)

lemma byte_Suc_pos: "unat (c + 1 :: byte) = unat c + 1 \<Longrightarrow> 0 < c + 1"
  by (simp add: byte_less_unat)

lemma enroll_inv_step: "enroll_inv m \<Longrightarrow> enroll_inv (snd (enroll_step m raw))"
proof (cases m raw rule: enroll_step_cases)
  case good
  assume inv: "enroll_inv m"
  have pos: "0 < en_collected m + 1"
    using sample_counter_no_wrap [OF inv good(1)] by (rule byte_Suc_pos)
  show ?thesis
    using good inv pos
    by (auto simp: step_sample_good enroll_inv_def pending_command_def sample_cmd_def not_le)
next
  case (retry r)
  assume "enroll_inv m"
  then show ?thesis
    using retry by (auto simp: step_sample_retry enroll_inv_def pending_command_def sample_cmd_def)
next
  case clear
  assume "enroll_inv m"
  then show ?thesis
    using clear by (auto simp: step_collision_clear enroll_inv_def pending_command_def)
qed (auto simp: step_commit_good enroll_fail_def enroll_inv_def)

text \<open>Slot and total never change.\<close>

lemma enroll_step_frame [frame_simps]:
  "en_slot (snd (enroll_step m raw)) = en_slot m"
  "en_needed (snd (enroll_step m raw)) = en_needed m"
  by (cases m raw rule: enroll_step_cases; simp add: enroll_step_results)+

lemma enroll_start_frame [frame_simps]:
  "en_slot (snd (enroll_start m)) = en_slot m"
  "en_needed (snd (enroll_start m)) = en_needed m"
  "en_collected (snd (enroll_start m)) = en_collected m"
  "en_pending (snd (enroll_start m)) = Some PSample"
  by (simp_all add: enroll_start_def enroll_queue_def Let_def)

subsection \<open>The replies that complete an enrolment\<close>

fun enroll_run :: "enroll \<Rightarrow> byte list list \<Rightarrow> enroll_action list \<times> enroll" where
  "enroll_run m [] = ([], m)"
| "enroll_run m (x # xs) =
     (let (a, m1) = enroll_step m x; (acts, m2) = enroll_run m1 xs in (a # acts, m2))"

definition run_completes :: "enroll \<Rightarrow> byte list list \<Rightarrow> byte \<Rightarrow> bool" where
  "run_completes m xs i \<longleftrightarrow> xs \<noteq> [] \<and> last (fst (enroll_run m xs)) = Complete i"

lemma fst_enroll_run_Nil [simp]: "fst (enroll_run m xs) = [] \<longleftrightarrow> xs = []"
  by (cases xs) (auto split: prod.splits)

lemma run_completes_Nil [simp]: "\<not> run_completes m [] i"
  by (simp add: run_completes_def)

lemma run_completes_Cons:
  "run_completes m (x # xs) i \<longleftrightarrow>
     (if xs = [] then fst (enroll_step m x) = Complete i
      else run_completes (snd (enroll_step m x)) xs i)"
  by (cases xs) (auto simp: run_completes_def Let_def split: prod.splits)

text \<open>A machine with nothing pending stays dead.\<close>

lemma run_idle: "en_pending m = None \<Longrightarrow> \<not> run_completes m xs i"
proof (induction xs arbitrary: m)
  case (Cons x xs)
  then show ?case by (simp add: run_completes_Cons enroll_step_def enroll_fail_def)
qed simp

lemma run_commit:
  assumes "en_pending m = Some PCommit"
  shows "run_completes m xs i \<longleftrightarrow> (\<exists>com. xs = [com] \<and> good_reply com \<and> i = en_slot m)"
proof (cases xs)
  case (Cons x ys)
  have idle: "en_pending (snd (enroll_step m x)) = None"
    using assms by (cases m x rule: enroll_step_cases)
      (auto simp: step_commit_good enroll_fail_def)
  have "fst (enroll_step m x) = Complete i \<longleftrightarrow> good_reply x \<and> i = en_slot m"
    using assms step_commit_other [of x m]
    by (cases "good_reply x") (auto simp: enroll_step_def step_commit_good enroll_fail_def)
  with Cons idle show ?thesis by (auto simp: run_completes_Cons run_idle)
qed simp

lemma run_collision:
  assumes "en_pending m = Some PCollision"
  shows "run_completes m xs i \<longleftrightarrow>
    (\<exists>coll com. xs = [coll, com] \<and> clear_reply coll \<and> good_reply com \<and> i = en_slot m)"
proof (cases xs)
  case (Cons x ys)
  show ?thesis
  proof (cases "clear_reply x")
    case True
    then have p: "en_pending (snd (enroll_step m x)) = Some PCommit"
      and s: "en_slot (snd (enroll_step m x)) = en_slot m"
      and f: "fst (enroll_step m x) \<noteq> Complete i"
      using assms by (simp_all add: enroll_step_def step_collision_clear)
    from run_commit [OF p] s
    have rest: "run_completes (snd (enroll_step m x)) ys i \<longleftrightarrow>
        (\<exists>com. ys = [com] \<and> good_reply com \<and> i = en_slot m)" by simp
    have "run_completes m xs i \<longleftrightarrow> (\<exists>com. ys = [com] \<and> good_reply com \<and> i = en_slot m)"
      using f by (auto simp: Cons run_completes_Cons rest)
    with True Cons show ?thesis by auto
  next
    case False
    then obtain e where "enroll_step m x = enroll_fail m e"
      using assms step_collision_other [of x m] by (auto simp: enroll_step_def)
    with False Cons show ?thesis by (auto simp: run_completes_Cons enroll_fail_def run_idle)
  qed
qed simp

text \<open>
  The language of one enrolment that still lacks \<open>k\<close> good samples: any retries in between, the
  last sample a good one, then a clear collision check, then an accepted commit.
\<close>

definition enroll_language :: "nat \<Rightarrow> byte list list \<Rightarrow> bool" where
  "enroll_language k xs \<longleftrightarrow>
     (\<exists>samples lst coll com. xs = samples @ [lst, coll, com] \<and>
        (\<forall>x \<in> set samples. good_reply x \<or> retry_reply x) \<and>
        length (filter good_reply samples) + 1 = k \<and>
        good_reply lst \<and> clear_reply coll \<and> good_reply com)"

lemma enroll_languageI:
  "xs = samples @ [lst, coll, com] \<Longrightarrow> \<forall>x \<in> set samples. good_reply x \<or> retry_reply x \<Longrightarrow>
   length (filter good_reply samples) + 1 = k \<Longrightarrow> good_reply lst \<Longrightarrow> clear_reply coll \<Longrightarrow>
   good_reply com \<Longrightarrow> enroll_language k xs"
  unfolding enroll_language_def by blast

lemma enroll_languageE:
  assumes "enroll_language k xs"
  obtains samples lst coll com where
    "xs = samples @ [lst, coll, com]" "\<forall>x \<in> set samples. good_reply x \<or> retry_reply x"
    "length (filter good_reply samples) + 1 = k" "good_reply lst" "clear_reply coll" "good_reply com"
  using assms unfolding enroll_language_def by blast

lemma enroll_language_Nil [simp]: "\<not> enroll_language k []"
  by (simp add: enroll_language_def)

lemma enroll_language_Cons:
  "enroll_language k (x # xs) \<longleftrightarrow>
     (good_reply x \<and> (if k = 1 then (\<exists>coll com. xs = [coll, com] \<and> clear_reply coll \<and> good_reply com)
        else 0 < k \<and> enroll_language (k - 1) xs)) \<or>
     (retry_reply x \<and> enroll_language k xs)"
  (is "?L \<longleftrightarrow> ?R")
proof
  assume ?L
  then obtain samples lst coll com where
    eq: "x # xs = samples @ [lst, coll, com]"
    and ok: "\<forall>x \<in> set samples. good_reply x \<or> retry_reply x"
    and k: "length (filter good_reply samples) + 1 = k"
    and rest: "good_reply lst" "clear_reply coll" "good_reply com"
    by (rule enroll_languageE)
  show ?R
  proof (cases samples)
    case Nil
    with eq k rest show ?thesis by auto
  next
    case (Cons y ys)
    with eq have x: "y = x" and xs: "xs = ys @ [lst, coll, com]" by auto
    have lang: "enroll_language (length (filter good_reply ys) + 1) xs"
      unfolding enroll_language_def using xs ok rest Cons by auto
    from ok Cons x have "good_reply x \<or> retry_reply x" by simp
    then show ?thesis
    proof
      assume g: "good_reply x"
      with k Cons x have "k = length (filter good_reply ys) + 2" by simp
      with g lang show ?thesis by simp
    next
      assume r: "retry_reply x"
      with k Cons x good_not_retry [of x] have "k = length (filter good_reply ys) + 1" by auto
      with r lang show ?thesis by simp
    qed
  qed
next
  assume ?R
  then consider (last) coll com where "good_reply x" "k = 1" "xs = [coll, com]"
      "clear_reply coll" "good_reply com"
    | (good) "good_reply x" "k \<noteq> 1" "0 < k" "enroll_language (k - 1) xs"
    | (retry) "retry_reply x" "enroll_language k xs"
    by (auto split: if_splits)
  then show ?L
  proof cases
    case last
    then show ?thesis by (intro enroll_languageI [of _ "[]" x coll com]) auto
  next
    case good
    then obtain samples lst coll com where
      "xs = samples @ [lst, coll, com]" "\<forall>x \<in> set samples. good_reply x \<or> retry_reply x"
      "length (filter good_reply samples) + 1 = k - 1"
      "good_reply lst" "clear_reply coll" "good_reply com"
      by (blast elim: enroll_languageE)
    with good show ?thesis by (intro enroll_languageI [of _ "x # samples" lst coll com]) auto
  next
    case retry
    then obtain samples lst coll com where
      "xs = samples @ [lst, coll, com]" "\<forall>x \<in> set samples. good_reply x \<or> retry_reply x"
      "length (filter good_reply samples) + 1 = k"
      "good_reply lst" "clear_reply coll" "good_reply com"
      by (blast elim: enroll_languageE)
    with retry good_not_retry [of x] show ?thesis
      by (intro enroll_languageI [of _ "x # samples" lst coll com]) auto
  qed
qed

definition samples_left :: "enroll \<Rightarrow> nat" where
  "samples_left m = max 1 (unat (en_needed m) - unat (en_collected m))"

lemma run_samples:
  assumes "enroll_inv m" "en_pending m = Some PSample"
  shows "run_completes m xs i \<longleftrightarrow> enroll_language (samples_left m) xs \<and> i = en_slot m"
  using assms
proof (induction xs arbitrary: m)
  case Nil
  then show ?case by simp
next
  case (Cons x xs)
  let ?m = "snd (enroll_step m x)"
  have inv: "enroll_inv ?m" using Cons.prems(1) by (rule enroll_inv_step)
  have slot: "en_slot ?m = en_slot m" "en_needed ?m = en_needed m" by (simp_all add: frame_simps)
  have wrap: "unat (en_collected m + 1) = unat (en_collected m) + 1"
    using Cons.prems by (rule sample_counter_no_wrap)
  consider (good) "good_reply x" | (retry) "retry_reply x" "\<not> good_reply x"
    | (other) "\<not> good_reply x" "\<not> retry_reply x" by blast
  then show ?case
  proof cases
    case good
    have step: "enroll_step m x = step_sample m x"
      using Cons.prems(2) by (simp add: enroll_step_def)
    then have f: "fst (enroll_step m x) \<noteq> Complete i"
      using good by (simp add: step_sample_good)
    show ?thesis
    proof (cases "en_needed m \<le> en_collected m + 1")
      case True
      then have p: "en_pending ?m = Some PCollision" and k: "samples_left m = 1"
        using good step wrap by (auto simp: step_sample_good samples_left_def byte_le_unat)
      note rest = run_collision [OF p, of xs i, unfolded slot]
      show ?thesis using good good_not_retry [OF good] k f
        by (auto simp: run_completes_Cons rest enroll_language_Cons)
    next
      case False
      then have p: "en_pending ?m = Some PSample"
        and k: "samples_left ?m = samples_left m - 1" "samples_left m \<noteq> 1" "0 < samples_left m"
        using good step wrap
        by (auto simp: step_sample_good samples_left_def byte_le_unat)
      note rest = Cons.IH [OF inv p, unfolded slot k(1)]
      show ?thesis using good good_not_retry [OF good] k(2,3) f
        by (auto simp: run_completes_Cons rest enroll_language_Cons)
    qed
  next
    case retry
    then obtain r where r: "length x = 2" "x ! 1 = retry_code r" by (auto simp: retry_reply_def)
    have step: "enroll_step m x = (EmitRetry r, m\<lparr>en_pending := Some PSample,
        en_send_buf := Some (encode (sample_cmd m))\<rparr>)"
      using Cons.prems(2) r by (simp add: enroll_step_def step_sample_retry)
    then have p: "en_pending ?m = Some PSample" and k: "samples_left ?m = samples_left m"
      by (simp_all add: samples_left_def)
    have f: "fst (enroll_step m x) \<noteq> Complete i" using step by simp
    note rest = Cons.IH [OF inv p, unfolded slot k]
    show ?thesis using retry f
      by (auto simp: run_completes_Cons rest enroll_language_Cons)
  next
    case other
    then obtain e where "enroll_step m x = enroll_fail m e"
      using Cons.prems(2) step_sample_other [of x m] by (auto simp: enroll_step_def)
    with other show ?thesis
      by (auto simp: run_completes_Cons enroll_language_Cons enroll_fail_def run_idle)
  qed
qed

subsection \<open>Properties\<close>

text \<open>C13: An enrolment completes on exactly one language of replies: retries and good samples in any
  order, the number of good samples the machine asked for with the last one good, then a collision
  check that finds nothing, then an accepted commit; and it completes with the slot it was made
  for.  No other sequence of replies makes it report \<open>Complete\<close>.\<close>

theorem enroll_completes_iff:
  "run_completes (snd (enroll_start (with_total slot n))) xs i \<longleftrightarrow>
     enroll_language (max 1 (unat n)) xs \<and> i = slot"
proof -
  let ?m = "snd (enroll_start (with_total slot n))"
  have inv: "enroll_inv ?m" by (rule enroll_inv_start) (simp add: with_total_def)
  have p: "en_pending ?m = Some PSample" by (simp add: frame_simps)
  show ?thesis using run_samples [OF inv p, of xs i]
    by (simp add: samples_left_def frame_simps) (simp add: with_total_def)
qed

text \<open>C39: Whatever the device answers, the machine's queued bytes always are those of the command it
  waits for, it asks for a sample only while it lacks one, and its sample counter never wraps.\<close>

theorem enroll_machine_invariant:
  assumes "enroll_inv m"
  shows "enroll_inv (snd (enroll_step m raw)) \<and> enroll_inv (snd (take_send m)) \<and>
    (en_pending m = Some PSample \<longrightarrow> unat (en_collected m + 1) = unat (en_collected m) + 1)"
  using enroll_inv_step [OF assms] enroll_inv_take_send [OF assms] sample_counter_no_wrap [OF assms]
  by blast

theorem enroll_machine_invariant_witness:
  "enroll_inv (snd (enroll_step (snd (enroll_start (enroll_new 2))) [0x40, 0]))"
  using enroll_machine_invariant [OF enroll_inv_start, of "enroll_new 2" "[0x40, 0]"]
  by (simp add: enroll_new_def with_total_def)

end
