(* ===== verification/Algo.thy ===== *)
theory Algo
  imports EnrollMachine
begin

text \<open>
  The crate \<open>elanprint-algo\<close>: the D-Bus status strings (\<open>status.rs\<close>), the attempt budget
  (\<open>policy.rs\<close>) and the login session (\<open>session.rs\<close>).  The session grants only on a final
  \<open>verify-match\<close> that arrives while it waits; the lemmas below bound the tries it spends and
  characterise the runs that grant.
\<close>

subsection \<open>Status strings\<close>

definition enroll_COMPLETED :: string where "enroll_COMPLETED = ''enroll-completed''"
definition enroll_FAILED :: string where "enroll_FAILED = ''enroll-failed''"
definition enroll_STAGE_PASSED :: string where "enroll_STAGE_PASSED = ''enroll-stage-passed''"
definition enroll_SWIPE_TOO_SHORT :: string where "enroll_SWIPE_TOO_SHORT = ''enroll-swipe-too-short''"
definition enroll_NOT_CENTERED :: string where "enroll_NOT_CENTERED = ''enroll-finger-not-centered''"
definition enroll_REMOVE_AND_RETRY :: string where "enroll_REMOVE_AND_RETRY = ''enroll-remove-and-retry''"
definition enroll_DATA_FULL :: string where "enroll_DATA_FULL = ''enroll-data-full''"
definition enroll_DUPLICATE :: string where "enroll_DUPLICATE = ''enroll-duplicate''"
definition enroll_DISCONNECTED :: string where "enroll_DISCONNECTED = ''enroll-disconnected''"
definition enroll_UNKNOWN_ERROR :: string where "enroll_UNKNOWN_ERROR = ''enroll-unknown-error''"

definition verify_MATCH :: string where "verify_MATCH = ''verify-match''"
definition verify_NO_MATCH :: string where "verify_NO_MATCH = ''verify-no-match''"
definition verify_SWIPE_TOO_SHORT :: string where "verify_SWIPE_TOO_SHORT = ''verify-swipe-too-short''"
definition verify_NOT_CENTERED :: string where "verify_NOT_CENTERED = ''verify-finger-not-centered''"
definition verify_REMOVE_AND_RETRY :: string where "verify_REMOVE_AND_RETRY = ''verify-remove-and-retry''"
definition verify_DISCONNECTED :: string where "verify_DISCONNECTED = ''verify-disconnected''"
definition verify_UNKNOWN_ERROR :: string where "verify_UNKNOWN_ERROR = ''verify-unknown-error''"

lemmas enroll_strings =
  enroll_COMPLETED_def enroll_FAILED_def enroll_STAGE_PASSED_def enroll_SWIPE_TOO_SHORT_def
  enroll_NOT_CENTERED_def enroll_REMOVE_AND_RETRY_def enroll_DATA_FULL_def enroll_DUPLICATE_def
  enroll_DISCONNECTED_def enroll_UNKNOWN_ERROR_def

lemmas verify_strings =
  verify_MATCH_def verify_NO_MATCH_def verify_SWIPE_TOO_SHORT_def verify_NOT_CENTERED_def
  verify_REMOVE_AND_RETRY_def verify_DISCONNECTED_def verify_UNKNOWN_ERROR_def

lemma verify_strings_distinct:
  "distinct [verify_MATCH, verify_NO_MATCH, verify_SWIPE_TOO_SHORT, verify_NOT_CENTERED,
     verify_REMOVE_AND_RETRY, verify_DISCONNECTED, verify_UNKNOWN_ERROR]"
  by (simp add: verify_strings)

lemma verify_strings_distinct_rev:
  "distinct (rev [verify_MATCH, verify_NO_MATCH, verify_SWIPE_TOO_SHORT, verify_NOT_CENTERED,
     verify_REMOVE_AND_RETRY, verify_DISCONNECTED, verify_UNKNOWN_ERROR])"
  unfolding distinct_rev by (rule verify_strings_distinct)

lemma enroll_strings_distinct:
  "distinct [enroll_COMPLETED, enroll_FAILED, enroll_STAGE_PASSED, enroll_SWIPE_TOO_SHORT,
     enroll_NOT_CENTERED, enroll_REMOVE_AND_RETRY, enroll_DATA_FULL, enroll_DUPLICATE,
     enroll_DISCONNECTED, enroll_UNKNOWN_ERROR]"
  by (simp add: enroll_strings)

lemma enroll_strings_distinct_rev:
  "distinct (rev [enroll_COMPLETED, enroll_FAILED, enroll_STAGE_PASSED, enroll_SWIPE_TOO_SHORT,
     enroll_NOT_CENTERED, enroll_REMOVE_AND_RETRY, enroll_DATA_FULL, enroll_DUPLICATE,
     enroll_DISCONNECTED, enroll_UNKNOWN_ERROR])"
  unfolding distinct_rev by (rule enroll_strings_distinct)

lemmas status_neq [simp] =
  verify_strings_distinct [simplified] verify_strings_distinct_rev [simplified]
  enroll_strings_distinct [simplified] enroll_strings_distinct_rev [simplified]

fun enroll_retry :: "retry \<Rightarrow> string" where
  "enroll_retry Dirty = enroll_REMOVE_AND_RETRY"
| "enroll_retry AreaTooSmall = enroll_SWIPE_TOO_SHORT"
| "enroll_retry _ = enroll_NOT_CENTERED"

fun verify_retry :: "retry \<Rightarrow> string" where
  "verify_retry Dirty = verify_REMOVE_AND_RETRY"
| "verify_retry AreaTooSmall = verify_SWIPE_TOO_SHORT"
| "verify_retry _ = verify_NOT_CENTERED"

definition verify_status :: "status \<Rightarrow> string option" where
  "verify_status s =
     (case verify_classify s of
        Ok (VMatch _) \<Rightarrow> Some verify_MATCH
      | Ok VNoMatch \<Rightarrow> Some verify_NO_MATCH
      | Ok (VRetry r) \<Rightarrow> Some (verify_retry r)
      | Err _ \<Rightarrow> Some verify_UNKNOWN_ERROR)"

fun enroll_failure :: "enroll_error \<Rightarrow> string" where
  "enroll_failure EMaxEnrolled = enroll_DATA_FULL"
| "enroll_failure (ECollision _) = enroll_DUPLICATE"
| "enroll_failure (EParse _) = enroll_UNKNOWN_ERROR"
| "enroll_failure (EDevice _ _) = enroll_FAILED"
| "enroll_failure EUnexpectedReply = enroll_FAILED"

text \<open>Only an ok status byte becomes \<open>verify-match\<close>.\<close>

lemma verify_status_match_iff: "verify_status s = Some verify_MATCH \<longleftrightarrow> (\<exists>i. s = StOk i)"
proof (cases s)
  case (StRetry r)
  then show ?thesis by (cases r) (simp_all add: verify_status_def verify_classify_def)
qed (simp_all add: verify_status_def verify_classify_def)

subsection \<open>The attempt budget\<close>

record attempt_policy = max_tries :: u32

definition policy_new :: "byte \<Rightarrow> attempt_policy" where
  "policy_new n = \<lparr>max_tries = ucast (max n 1)\<rparr>"

definition pam_default :: attempt_policy where
  "pam_default = policy_new 3"

definition allows :: "attempt_policy \<Rightarrow> u32 \<Rightarrow> bool" where
  "allows p used \<longleftrightarrow> used < max_tries p"

text \<open>\<open>saturating_sub\<close>.\<close>

definition left :: "attempt_policy \<Rightarrow> u32 \<Rightarrow> u32" where
  "left p used = (if used \<le> max_tries p then max_tries p - used else 0)"

lemma unat_max_tries: "unat (max_tries (policy_new n)) = unat (max n 1)"
  using unat_byte_bound [of "max n 1"]
  by (simp add: policy_new_def unsigned_ucast_eq take_bit_nat_eq_self)

lemma max_tries_range:
  "0 < unat (max_tries (policy_new n))" "unat (max_tries (policy_new n)) \<le> 255"
proof -
  note eq = unat_max_tries [of n]
  have "1 \<le> max n 1" by simp
  then have "1 \<le> unat (max n 1)" by (simp only: byte_le_unat) simp
  with eq unat_byte_bound [of "max n 1"]
  show "0 < unat (max_tries (policy_new n))" "unat (max_tries (policy_new n)) \<le> 255" by simp_all
qed

subsection \<open>The session\<close>

datatype session_state =
    SIdle | Waiting u32 | Succeeded | Denied | LockedOut | SFailed

datatype signal =
    Status string bool
  | FingerSelected string
  | Disconnected
  | Cancelled

datatype login_action =
    Prompt string
  | Granted string
  | Deny string
  | Locked
  | AFailed string
  | AIdle

datatype session_error = UnknownString string | NoSession

record session =
  s_user :: string
  s_policy :: attempt_policy
  s_state :: session_state
  s_selected :: "string option"

definition session_with_policy :: "string \<Rightarrow> attempt_policy \<Rightarrow> session" where
  "session_with_policy user policy =
     \<lparr>s_user = user, s_policy = policy, s_state = SIdle, s_selected = None\<rparr>"

definition session_new :: "string \<Rightarrow> session" where
  "session_new user = session_with_policy user pam_default"

definition session_begin :: "session \<Rightarrow> login_action \<times> session" where
  "session_begin s = (Prompt ''touch the sensor'', s\<lparr>s_state := Waiting 0\<rparr>)"

definition status_is_retry :: "string \<Rightarrow> bool" where
  "status_is_retry r \<longleftrightarrow>
     r = verify_SWIPE_TOO_SHORT \<or> r = verify_NOT_CENTERED \<or> r = verify_REMOVE_AND_RETRY"

definition hint :: "string \<Rightarrow> string" where
  "hint r =
     (if r = verify_NOT_CENTERED then ''center the finger and retry''
      else if r = verify_REMOVE_AND_RETRY then ''lift the finger and retry''
      else ''touch the sensor again'')"

definition step_status :: "session \<Rightarrow> string \<Rightarrow> bool \<Rightarrow> (session_error + login_action) \<times> session" where
  "step_status s r fin =
     (case s_state s of
        Waiting failures \<Rightarrow>
          (if r = verify_MATCH then
             (if \<not> fin then (Err (UnknownString r), s)
              else (Ok (Granted (s_user s)), s\<lparr>s_state := Succeeded\<rparr>))
           else if r = verify_NO_MATCH then
             (let used = failures + 1 in
              if allows (s_policy s) used then
                (Ok (Deny (''no match, '' @ show_nat (unat (left (s_policy s) used)) @ '' tries left'')),
                 s\<lparr>s_state := Waiting used\<rparr>)
              else (Ok Locked, s\<lparr>s_state := LockedOut\<rparr>))
           else if status_is_retry r then (Ok (Prompt (hint r)), s)
           else if r = verify_DISCONNECTED then
             (Ok (AFailed ''reader disconnected''), s\<lparr>s_state := SFailed\<rparr>)
           else if r = verify_UNKNOWN_ERROR then
             (Ok (AFailed ''reader error''), s\<lparr>s_state := SFailed\<rparr>)
           else (Err (UnknownString r), s))
      | _ \<Rightarrow> (Err NoSession, s))"

fun session_step :: "session \<Rightarrow> signal \<Rightarrow> (session_error + login_action) \<times> session" where
  "session_step s Cancelled = (Ok AIdle, s\<lparr>s_state := SIdle\<rparr>)"
| "session_step s Disconnected = (Ok (AFailed ''reader disconnected''), s\<lparr>s_state := SFailed\<rparr>)"
| "session_step s (FingerSelected finger) =
     (Ok (Prompt ''touch the sensor''), s\<lparr>s_selected := Some finger\<rparr>)"
| "session_step s (Status r fin) = step_status s r fin"

subsection \<open>Runs of a session\<close>

fun session_run :: "session \<Rightarrow> signal list \<Rightarrow> (session_error + login_action) list \<times> session" where
  "session_run s [] = ([], s)"
| "session_run s (x # xs) =
     (let (a, s1) = session_step s x; (as, s2) = session_run s1 xs in (a # as, s2))"

lemma session_run_append:
  "session_run s (xs @ ys) =
     (let (as, s1) = session_run s xs; (bs, s2) = session_run s1 ys in (as @ bs, s2))"
  by (induction xs arbitrary: s) (auto simp: Let_def split: prod.splits)

lemma session_step_frame [frame_simps]:
  "s_user (snd (session_step s x)) = s_user s"
  "s_policy (snd (session_step s x)) = s_policy s"
  by (cases x; auto simp: step_status_def Let_def split: session_state.splits)+

lemma session_run_frame [frame_simps]:
  "s_user (snd (session_run s xs)) = s_user s"
  "s_policy (snd (session_run s xs)) = s_policy s"
proof (induction xs arbitrary: s)
  case (Cons x xs)
  case 1
  show ?case using Cons [of "snd (session_step s x)"] by (simp add: Let_def split_def frame_simps)
next
  case (Cons x xs)
  case 2
  show ?case using Cons [of "snd (session_step s x)"] by (simp add: Let_def split_def frame_simps)
qed simp_all

lemma session_step_granted:
  "fst (session_step s x) = Ok (Granted u) \<longleftrightarrow>
     (\<exists>n. s_state s = Waiting n) \<and> x = Status verify_MATCH True \<and> u = s_user s"
  by (cases x) (auto simp: step_status_def Let_def split: session_state.splits)

lemma session_step_succeeded:
  "s_state s \<noteq> Succeeded \<Longrightarrow>
   s_state (snd (session_step s x)) = Succeeded \<longleftrightarrow> (\<exists>u. fst (session_step s x) = Ok (Granted u))"
  by (cases x) (auto simp: step_status_def Let_def split: session_state.splits)

text \<open>The failures counted always are fewer than the tries allowed, so the counter never wraps.\<close>

definition session_inv :: "session \<Rightarrow> bool" where
  "session_inv s \<longleftrightarrow>
     (\<exists>n. s_policy s = policy_new n) \<and> s_state s \<noteq> Denied \<and>
     (case s_state s of Waiting f \<Rightarrow> unat f < unat (max_tries (s_policy s)) | _ \<Rightarrow> True)"

lemma session_inv_new: "session_inv (session_with_policy user (policy_new n))"
  by (auto simp: session_inv_def session_with_policy_def)

lemma session_inv_begin: "session_inv s \<Longrightarrow> session_inv (snd (session_begin s))"
  by (auto simp: session_inv_def session_begin_def max_tries_range)

lemma session_counter_no_wrap:
  assumes "session_inv s" "s_state s = Waiting f"
  shows "unat (f + 1) = unat f + 1"
proof -
  from assms obtain n where "unat f < unat (max_tries (policy_new n))"
    by (auto simp: session_inv_def)
  with max_tries_range(2) [of n] have "unat f + 1 < 2 ^ 32" by simp
  then show ?thesis by (simp add: unat_word_ariths)
qed

lemma session_inv_step: "session_inv s \<Longrightarrow> session_inv (snd (session_step s x))"
proof (cases x)
  case (Status r fin)
  assume "session_inv s"
  then show ?thesis using Status
    by (auto simp: session_inv_def step_status_def Let_def allows_def word_less_nat_alt
        split: session_state.splits)
qed (auto simp: session_inv_def split: session_state.splits)

lemma session_inv_run: "session_inv s \<Longrightarrow> session_inv (snd (session_run s xs))"
proof (induction xs arbitrary: s)
  case (Cons x xs)
  then show ?case using Cons.IH [OF session_inv_step [OF Cons.prems, of x]]
    by (simp add: Let_def split_def)
qed simp

subsection \<open>Tries spent\<close>

text \<open>
  What a waiting session does with a string of statuses: misses count, retries and unknown
  strings do not, and the rest ends the wait.
\<close>

definition is_miss :: "signal \<Rightarrow> bool" where
  "is_miss x \<longleftrightarrow> (\<exists>fin. x = Status verify_NO_MATCH fin)"

text \<open>A signal that leaves a waiting session waiting without a miss.\<close>

definition is_idle_signal :: "signal \<Rightarrow> bool" where
  "is_idle_signal x \<longleftrightarrow>
     (case x of
        FingerSelected _ \<Rightarrow> True
      | Status r fin \<Rightarrow>
          r \<notin> {verify_NO_MATCH, verify_DISCONNECTED, verify_UNKNOWN_ERROR} \<and>
          (r = verify_MATCH \<longrightarrow> \<not> fin)
      | _ \<Rightarrow> False)"

lemma session_step_idle:
  assumes "s_state s = Waiting f" "is_idle_signal x"
  shows "s_state (snd (session_step s x)) = Waiting f"
  using assms by (cases x) (auto simp: is_idle_signal_def step_status_def)

lemma session_step_miss:
  assumes "s_state s = Waiting f" "is_miss x"
  shows "s_state (snd (session_step s x)) =
    (if allows (s_policy s) (f + 1) then Waiting (f + 1) else LockedOut)"
  using assms by (auto simp: is_miss_def step_status_def Let_def)

lemma session_misses_wait:
  assumes "session_inv s" "s_state s = Waiting f"
    and "\<forall>x \<in> set xs. is_miss x \<or> is_idle_signal x"
    and "unat f + length (filter is_miss xs) < unat (max_tries (s_policy s))"
  shows "\<exists>g. s_state (snd (session_run s xs)) = Waiting g \<and> unat g = unat f + length (filter is_miss xs)"
  using assms
proof (induction xs arbitrary: s f)
  case Nil
  then show ?case by simp
next
  case (Cons x xs)
  let ?s = "snd (session_step s x)"
  have run: "snd (session_run s (x # xs)) = snd (session_run ?s xs)"
    by (simp add: Let_def split_def)
  have inv: "session_inv ?s" using Cons.prems(1) by (rule session_inv_step)
  have wrap: "unat (f + 1) = unat f + 1"
    using Cons.prems(1,2) by (rule session_counter_no_wrap)
  show ?case
  proof (cases "is_miss x")
    case True
    with Cons.prems(4) wrap have "allows (s_policy s) (f + 1)"
      by (simp add: allows_def word_less_nat_alt)
    then have st: "s_state ?s = Waiting (f + 1)"
      using session_step_miss [OF Cons.prems(2) True] by simp
    show ?thesis
      using Cons.IH [OF inv st] Cons.prems(3,4) True wrap run by (simp add: frame_simps)
  next
    case False
    with Cons.prems(3) have "is_idle_signal x" by simp
    then have st: "s_state ?s = Waiting f" using session_step_idle [OF Cons.prems(2)] by simp
    show ?thesis
      using Cons.IH [OF inv st] Cons.prems(3,4) False run by (simp add: frame_simps)
  qed
qed

text \<open>A session locks exactly with the last try it allows.\<close>

lemma session_lockout:
  assumes "session_inv s" "s_state s = Waiting 0"
    and "\<forall>x \<in> set xs. is_miss x \<or> is_idle_signal x"
    and "length (filter is_miss xs) + 1 = unat (max_tries (s_policy s))"
    and "is_miss x"
  shows "s_state (snd (session_run s (xs @ [x]))) = LockedOut"
proof -
  from session_misses_wait [OF assms(1,2,3)] assms(4) obtain g where
    g: "s_state (snd (session_run s xs)) = Waiting g" "unat g = length (filter is_miss xs)"
    by auto
  have inv: "session_inv (snd (session_run s xs))" using assms(1) by (rule session_inv_run)
  have "unat (g + 1) = unat (max_tries (s_policy s))"
    using session_counter_no_wrap [OF inv g(1)] g(2) assms(4) by simp
  then have "\<not> allows (s_policy s) (g + 1)" by (simp add: allows_def word_less_nat_alt)
  then show ?thesis
    using session_step_miss [OF g(1) assms(5)]
    by (simp add: session_run_append Let_def split_def frame_simps)
qed

text \<open>A session that has ended stays ended until the next \<open>begin\<close>: nothing is granted.\<close>

lemma session_ended_step:
  assumes "\<forall>f. s_state s \<noteq> Waiting f"
  shows "\<forall>f. s_state (snd (session_step s x)) \<noteq> Waiting f"
  using assms by (cases x) (auto simp: step_status_def split: session_state.splits)

lemma session_ended_run:
  assumes "\<forall>f. s_state s \<noteq> Waiting f"
  shows "Ok (Granted u) \<notin> set (fst (session_run s xs))"
  using assms
proof (induction xs arbitrary: s)
  case (Cons x xs)
  have "fst (session_step s x) \<noteq> Ok (Granted u)"
    using Cons.prems by (simp add: session_step_granted)
  moreover have "Ok (Granted u) \<notin> set (fst (session_run (snd (session_step s x)) xs))"
    using Cons.IH [OF session_ended_step [OF Cons.prems]] .
  ultimately show ?case by (auto simp: Let_def split_def)
qed simp

subsection \<open>Properties\<close>

text \<open>A login session grants exactly when it is waiting and the signal is a final
  \<open>verify-match\<close>; it then names the user it was made for.  Its state becomes \<open>Succeeded\<close> in no
  other way, so a status string it does not know never lets anybody in.\<close>

theorem session_grants_iff:
  "(fst (session_step s x) = Ok (Granted u) \<longleftrightarrow>
      (\<exists>n. s_state s = Waiting n) \<and> x = Status verify_MATCH True \<and> u = s_user s) \<and>
   (s_state s \<noteq> Succeeded \<longrightarrow>
      (s_state (snd (session_step s x)) = Succeeded \<longleftrightarrow>
         (\<exists>u. fst (session_step s x) = Ok (Granted u))))"
  using session_step_granted session_step_succeeded by blast

theorem session_grants_iff_witness:
  "s_state (snd (session_step (snd (session_begin (session_new ''u''))) (Status verify_MATCH True))) =
     Succeeded"
  using session_grants_iff
    [of "snd (session_begin (session_new ''u''))" "Status verify_MATCH True" "''u''"]
  by (simp add: session_begin_def session_new_def session_with_policy_def)

text \<open>The attempt budget: a session that began with a budget of \<open>n\<close> tries (at least one) locks
  out exactly at its last allowed miss, whatever retries, finger hints and unknown strings come
  in between, its failure counter cannot wrap, and after that no signal grants.\<close>

theorem session_locks_out:
  assumes "\<forall>x \<in> set xs. is_miss x \<or> is_idle_signal x" and "is_miss x"
    and "length (filter is_miss xs) + 1 = unat (max n 1)"
  shows "s_state (snd (session_run
      (snd (session_begin (session_with_policy user (policy_new n)))) (xs @ [x]))) = LockedOut \<and>
    Ok (Granted u) \<notin> set (fst (session_run
      (snd (session_run (snd (session_begin (session_with_policy user (policy_new n)))) (xs @ [x]))) ys))"
proof -
  let ?s = "snd (session_begin (session_with_policy user (policy_new n)))"
  have inv: "session_inv ?s" by (intro session_inv_begin session_inv_new)
  have w: "s_state ?s = Waiting 0" by (simp add: session_begin_def)
  have p: "s_policy ?s = policy_new n" by (simp add: session_begin_def session_with_policy_def)
  have k: "length (filter is_miss xs) + 1 = unat (max_tries (s_policy ?s))"
    using assms(3) by (simp add: p unat_max_tries)
  have "s_state (snd (session_run ?s (xs @ [x]))) = LockedOut"
    by (rule session_lockout [OF inv w assms(1) k assms(2)])
  then show ?thesis by (simp add: session_ended_run)
qed

theorem session_locks_out_witness:
  "s_state (snd (session_run (snd (session_begin (session_with_policy ''u'' (policy_new 2))))
     ([Status verify_NO_MATCH True, Status verify_NOT_CENTERED False] @ [Status verify_NO_MATCH True])))
   = LockedOut"
  by (rule session_locks_out [THEN conjunct1]) (auto simp: is_miss_def is_idle_signal_def max_def byte_le_unat)

end
