(* ===== verification/TestsProto.thy ===== *)
theory TestsProto
  imports Usb Algo
begin

text \<open>
  The unit tests of \<open>elanprint-proto\<close>, \<open>elanprint-algo\<close> and \<open>elanprint-usb\<close>, run on the model.  A
  test module is the list of its tests, each with the name of the source and the conjunction of its
  assertions, with inputs and expected values as they stand there; a \<open>panic!\<close> of a test is
  \<open>False\<close>.  That all of them pass is evaluated in the kernel: the definitions agree with the
  authors' own examples of what the code does.
\<close>

definition all_pass :: "(string \<times> bool) list \<Rightarrow> bool" where
  "all_pass tests = list_all snd tests"

subsection \<open>\<open>elanprint-proto/src/lib.rs\<close>\<close>

definition proto_tests :: "(string \<times> bool) list" where
  "proto_tests =
     [(''fw_version_encodes'', encode CFwVersion = [0x40, 0x19]),
      (''sensor_size_encodes'', encode CSensorSize = [0x00, 0x0c]),
      (''enrolled_num_encodes'', encode CEnrolledNum = [0x40, 0xff, 0x04]),
      (''finger_info_appends_id'', encode (CFingerInfo 3) = [0x40, 0xff, 0x12, 0x03]),
      (''encoded_len_matches'',
         length (encode CFwVersion) = 2 \<and> length (encode CSensorSize) = 2 \<and>
         length (encode CEnrolledNum) = 3 \<and> length (encode (CFingerInfo 0)) = 4),
      (''abort_encodes'', encode CAbort = [0x40, 0xff, 0x02]),
      (''abort_no_reply'', expected_len CAbort = 0 \<and> parse CAbort [] = Ok (RAbort None)),
      (''abort_parses_reply'', parse CAbort [0x40, 0x00] = Ok (RAbort (Some (StOk 0)))),
      (''verify_encodes'', encode CVerify = [0x40, 0xff, 0x03]),
      (''verify_on_touch_wait'',
         reply_endpoint CVerify = EpTouchWait \<and> endpoint_address EpTouchWait = 0x84),
      (''verify_timeout_longer'', cmd_timeout CVerify > cmd_timeout CFwVersion),
      (''verify_fd_not_enrolled'', parse CVerify [0x40, 0xfd] = Ok (RVerify 0x40 NotEnrolled)),
      (''verify_low_byte_match'', parse CVerify [0x40, 0x02] = Ok (RVerify 0x40 (StOk 2))),
      (''read_only_on_status'',
         list_all (\<lambda>cmd. reply_endpoint cmd = EpStatus)
           [CFwVersion, CSensorSize, CEnrolledNum, CFingerInfo 0]),
      (''status_endpoint_is_0x83'', endpoint_address EpStatus = 0x83),
      (''fw_version_parses'', parse CFwVersion [0x01, 0x08] = Ok (RFwVersion 1 8)),
      (''sensor_size_off_by_one'',
         parse CSensorSize [0x37, 0x00, 0x77, 0x00] = Ok (RSensorSize 0x38 0x78)),
      (''enrolled_num_byte_one'', parse CEnrolledNum [0x40, 0x02] = Ok (REnrolledNum 2)),
      (''short_fw_version_fails'',
         (case parse CFwVersion [0x01] of Err (UnexpectedLength _ _ _) \<Rightarrow> True | _ \<Rightarrow> False))]"

text \<open>\<open>vec![0u8; 70]\<close>.\<close>

definition zeros70 :: "byte list" where
  "zeros70 = replicate 70 0"

definition proto_tests2 :: "(string \<times> bool) list" where
  "proto_tests2 =
     [(''finger_info_empty'',
         parse (CFingerInfo 4) (zeros70[69 := 0xff]) = Ok (RFingerInfo 4 SlotEmpty)),
      (''finger_info_byte_one_ff_means_stuck'',
         parse (CFingerInfo 0) (zeros70[1 := 0xff]) = Ok (RFingerInfo 0 SlotStuck)),
      (''finger_info_two_byte_form_carries_an_error_code'',
         parse (CFingerInfo 1) [0x40, 0xfd] = Ok (RFingerInfo 1 (SlotError 0xfd))),
      (''finger_info_populated_slot_keeps_all_seventy_bytes'',
         (let raw = zeros70[1 := 0x00, 2 := 0xab, 69 := 0x01] in
          case parse (CFingerInfo 2) raw of
            Ok (RFingerInfo _ (SlotEnrolled kept)) \<Rightarrow> kept = raw | _ \<Rightarrow> False)),
      (''enroll_encodes_slot_and_counters'',
         (let cmd = CEnroll 0 TOTAL_ENROLL_ATTEMPTS 3 in
          encode cmd = [0x40, 0xff, 0x01, 0x00, 0x08, 0x03, 0x00] \<and>
          length (encode cmd) = 7 \<and> reply_endpoint cmd = EpTouchWait)),
      (''enroll_zero_status_is_a_good_sample'',
         parse (CEnroll 0 8 0) [0x40, 0x00] = Ok (REnroll 0x40 (StOk 0))),
      (''enroll_dd_stops_the_loop'',
         parse (CEnroll 0 8 0) [0x40, 0xdd] = Ok (REnroll 0x40 MaxEnrolled))]"

definition proto_tests3 :: "(string \<times> bool) list" where
  "proto_tests3 =
     [(''collision_no_clash_gives_none'',
         parse CCheckCollision [0x40, 0x00, 0x00] = Ok (RCheckCollision 0x40 None)),
      (''collision_reports_the_clashing_id'',
         parse CCheckCollision [0x40, 0x01, 0x02] = Ok (RCheckCollision 0x40 (Some 0x02))),
      (''commit_is_72_bytes_with_sub_id_first'',
         (let out = encode (commit_cmd (sub_id 0)) in
          length out = 72 \<and> take 3 out = [0x40, 0xff, 0x11] \<and> out ! 3 = 0xf5 \<and>
          list_all (\<lambda>b. b = 0) (drop 4 out))),
      (''sub_id_matches_the_documented_formula'', sub_id 0 = 0xf5 \<and> sub_id 1 = 0xf6),
      (''commit_zero_status_is_success'',
         parse (commit_cmd 0xf5) [0x40, 0x00] = Ok (RCommit 0x40 (StOk 0))),
      (''delete_encodes_id_and_zero'', encode (CDelete 2) = [0x40, 0xff, 0x05, 0x02, 0x00]),
      (''delete_subsid_takes_bytes_two_onward'',
         (case delete_subsid_cmd 0xf5 (zeros70[2 := 0xab]) of
            Ok cmd \<Rightarrow>
              (let out = encode cmd in length out = 72 \<and> out ! 3 = 0xf5 \<and> out ! 4 = 0xab)
          | Err _ \<Rightarrow> False)),
      (''wipe_all_sends_three_bytes_expects_none'',
         encode CWipeAll = [0x40, 0xff, 0x99] \<and> expected_len CWipeAll = 0 \<and> is_destructive CWipeAll),
      (''enroll_and_commit_are_destructive'',
         is_destructive (CEnroll 0 8 0) \<and> is_destructive (commit_cmd 0xf5) \<and>
         \<not> is_destructive CVerify),
      (''read_register_masks_to_sixty_four'',
         encode (CReadRegister 0) = [0x40, 0x40] \<and> encode (CReadRegister 63) = [0x40, 0x7f] \<and>
         encode (CReadRegister 70) = [0x40, 0x46])]"

lemma proto_tests_pass: "all_pass (proto_tests @ proto_tests2 @ proto_tests3)"
  by code_simp

subsection \<open>\<open>elanprint-proto/src/status.rs\<close>\<close>

definition status_tests :: "(string \<times> bool) list" where
  "status_tests =
     [(''ok_range'', classify 0x00 = StOk 0x00 \<and> classify 0x0f = StOk 0x0f),
      (''retries_retry'',
         list_all (\<lambda>b. is_retry (classify b)) [0x41, 0x42, 0x43, 0x44, 0xfb, 0xfe]),
      (''max_enrolled'', classify 0xdd = MaxEnrolled \<and> \<not> is_retry (classify 0xdd)),
      (''not_enrolled'', classify 0xfd = NotEnrolled),
      (''unknown_byte'', classify 0x99 = Unknown 0x99),
      (''verify_match'', verify_classify (StOk 2) = Ok (VMatch 2)),
      (''verify_no_match'', verify_classify NotEnrolled = Ok VNoMatch),
      (''verify_retry'', verify_classify (StRetry Dirty) = Ok (VRetry Dirty)),
      (''verify_max_enrolled_err'', \<not> is_ok (verify_classify MaxEnrolled))]"

subsection \<open>\<open>elanprint-proto/src/enroll.rs\<close>\<close>

text \<open>\<open>sm.pending_read().map(|(ep, len, _)| (ep, len))\<close>.\<close>

definition read_where :: "enroll \<Rightarrow> (reply_ep \<times> nat) option" where
  "read_where sm = map_option (\<lambda>(ep, len, _). (ep, len)) (pending_read sm)"

definition endpoint_tests :: "(string \<times> bool) list" where
  "endpoint_tests =
     [(''the_collision_check_is_read_on_status_not_touch_wait'',
         (let (started, sm) = enroll_start (with_total 0 2);
              turn = (\<lambda>sm. snd (take_send (snd (enroll_step sm [0x40, 0x00]))))
          in started = Send [0x40, 0xff, 0x01, 0x00, 0x02, 0x00, 0x00] \<and>
             read_where sm = Some (EpTouchWait, 2) \<and>
             read_where (turn (turn sm)) = Some (EpStatus, 3))),
      (''the_commit_is_read_on_status'',
         (let sm = snd (enroll_start (with_total 0 1));
              sm = snd (take_send (snd (enroll_step sm [0x40, 0x00])));
              sm = snd (enroll_step sm [0x40, 0x00, 0xff])
          in read_where sm = Some (EpStatus, 2))),
      (''a_finished_machine_has_nothing_pending'',
         (let sm = snd (enroll_start (with_total 0 1));
              sm = snd (take_send (snd (enroll_step sm [0x40, 0x00])));
              sm = snd (enroll_step sm [0x40, 0x00, 0xff]);
              (finished, sm) = enroll_step sm [0x40, 0x00]
          in finished = Complete 0 \<and> pending_read sm = None))]"

definition sample_ok :: "byte list" where
  "sample_ok = [0x40, 0x00]"

text \<open>The loop of \<open>drive_ok\<close> over \<open>done\<close>: the machine it returns, if no assertion failed.\<close>

fun drive_samples :: "byte \<Rightarrow> byte list \<Rightarrow> enroll \<Rightarrow> enroll option" where
  "drive_samples n [] sm = Some sm"
| "drive_samples n (k # ks) sm =
     (let (action, sm) = enroll_step sm sample_ok in
      if action \<noteq> EmitProgress k n then None
      else
        (case take_send sm of
           (Some send, sm) \<Rightarrow>
             (if k < n then
                (if send = Send [0x40, 0xff, 0x01, 0x00, n, k, 0x00] then drive_samples n ks sm else None)
              else (if send = Send [0x40, 0xff, 0x10] then drive_samples n ks sm else None))
         | (None, _) \<Rightarrow> None))"

definition drive_ok :: "byte \<Rightarrow> enroll option" where
  "drive_ok n =
     (case enroll_start (with_total 0 n) of
        (Send first, sm) \<Rightarrow>
          (if first = [0x40, 0xff, 0x01, 0x00, n, 0x00, 0x00]
           then drive_samples n (map word_of_nat [1..<Suc (unat n)]) sm else None)
      | _ \<Rightarrow> None)"

definition enroll_tests :: "(string \<times> bool) list" where
  "enroll_tests =
     [(''full_sequence_reaches_the_collision_check'',
         (case drive_ok 3 of Some sm \<Rightarrow> en_state sm = AwaitingTouch 3 3 | None \<Rightarrow> False)),
      (''no_collision_sends_commit_then_completes'',
         (case drive_ok 2 of
            Some sm \<Rightarrow>
              (case enroll_step sm [0x40, 0x00, 0x00] of
                 (Send bytes, sm) \<Rightarrow>
                   length bytes = 72 \<and> take 4 bytes = [0x40, 0xff, 0x11, 0xf5] \<and>
                   en_state sm = Committing \<and>
                   (let (action, sm) = enroll_step sm [0x40, 0x00] in
                    action = Complete 0 \<and> en_state sm = Done 0)
               | _ \<Rightarrow> False)
          | None \<Rightarrow> False)),
      (''collision_aborts_before_commit'',
         (case drive_ok 1 of
            Some sm \<Rightarrow>
              (let (action, sm) = enroll_step sm [0x40, 0x01, 0x02] in
               action = Fail (ECollision 2) \<and> en_state sm = Failed \<and> fst (take_send sm) = None)
          | None \<Rightarrow> False)),
      (''retry_does_not_advance_the_counter'',
         (let (action, sm) = enroll_step (snd (enroll_start (with_total 0 8))) [0x40, 0xfe];
              (send, sm) = take_send sm
          in action = EmitRetry AreaTooSmall \<and>
             send = Some (Send [0x40, 0xff, 0x01, 0x00, 0x08, 0x00, 0x00]) \<and>
             en_collected sm = 0 \<and> fst (enroll_step sm sample_ok) = EmitProgress 1 8)),
      (''slot_limit_stops_the_loop'',
         (let (action, sm) = enroll_step (snd (enroll_start (with_total 0 8))) [0x40, 0xdd] in
          action = Fail EMaxEnrolled \<and> en_state sm = Failed)),
      (''commit_error_is_a_failure_not_a_save'',
         (case drive_ok 1 of
            Some sm \<Rightarrow>
              (case enroll_step sm [0x40, 0x00, 0x00] of
                 (Send _, sm) \<Rightarrow>
                   (case enroll_step sm [0x40, 0xfb] of
                      (Fail (EDevice _ _), sm) \<Rightarrow> en_state sm = Failed | _ \<Rightarrow> False)
               | _ \<Rightarrow> False)
          | None \<Rightarrow> False)),
      (''short_reply_is_a_parse_failure'',
         (case enroll_step (snd (enroll_start (with_total 0 2))) [0x40] of
            (Fail (EParse _), _) \<Rightarrow> True | _ \<Rightarrow> False))]"

lemma enroll_tests_pass: "all_pass (status_tests @ endpoint_tests @ enroll_tests)"
  by code_simp

subsection \<open>\<open>elanprint-algo\<close>\<close>

definition status_string_tests :: "(string \<times> bool) list" where
  "status_string_tests =
     [(''move_hints_mean_not_centered'',
         enroll_retry MoveDown = enroll_NOT_CENTERED \<and> verify_retry MoveLeft = verify_NOT_CENTERED),
      (''dirty_means_remove_and_retry'',
         enroll_retry Dirty = enroll_REMOVE_AND_RETRY \<and> verify_retry Dirty = verify_REMOVE_AND_RETRY),
      (''small_area_is_a_short_press'',
         enroll_retry AreaTooSmall = enroll_SWIPE_TOO_SHORT \<and>
         verify_retry AreaTooSmall = verify_SWIPE_TOO_SHORT),
      (''fd_is_no_match'', verify_status NotEnrolled = Some verify_NO_MATCH),
      (''slot_limit_is_data_full'', enroll_failure EMaxEnrolled = enroll_DATA_FULL),
      (''collision_is_duplicate'', enroll_failure (ECollision 2) = enroll_DUPLICATE),
      (''strings_come_from_the_live_xml'',
         enroll_STAGE_PASSED = ''enroll-stage-passed'' \<and> enroll_COMPLETED = ''enroll-completed'' \<and>
         enroll_DISCONNECTED = ''enroll-disconnected'' \<and>
         enroll_UNKNOWN_ERROR = ''enroll-unknown-error'' \<and> verify_MATCH = ''verify-match'' \<and>
         verify_DISCONNECTED = ''verify-disconnected'' \<and>
         verify_UNKNOWN_ERROR = ''verify-unknown-error'')]"

definition policy_tests :: "(string \<times> bool) list" where
  "policy_tests =
     [(''three_failures_lock_out'',
         allows pam_default 0 \<and> allows pam_default 2 \<and> \<not> allows pam_default 3 \<and>
         left pam_default 1 = 2 \<and> left pam_default 9 = 0),
      (''zero_max_clamps_to_one'', \<not> allows (policy_new 0) 1)]"

definition session_tests :: "(string \<times> bool) list" where
  "session_tests =
     (let (prompt, started) = session_begin (session_new ''u'');
          is_deny = (\<lambda>r. case r of Ok (Deny _) \<Rightarrow> True | _ \<Rightarrow> False) in
     [(''match_grants_the_claimed_user'',
         prompt = Prompt ''touch the sensor'' \<and>
         (let (action, s) = session_step started (Status verify_MATCH True) in
          action = Ok (Granted ''u'') \<and> s_state s = Succeeded)),
      (''match_without_done_is_not_a_grant'',
         (let (action, s) = session_step started (Status verify_MATCH False) in
          \<not> is_ok action \<and> s_state s \<noteq> Succeeded)),
      (''three_misses_lock_out'',
         (let (first, s) = session_step started (Status verify_NO_MATCH True);
              (second, s) = session_step s (Status verify_NO_MATCH True);
              (third, s) = session_step s (Status verify_NO_MATCH True) in
          is_deny first \<and> is_deny second \<and> third = Ok Locked \<and> s_state s = LockedOut)),
      (''retries_prompt_without_spending_tries'',
         (let (first, s) = session_step started (Status verify_NOT_CENTERED False);
              (second, s) = session_step s (Status verify_NO_MATCH True) in
          first = Ok (Prompt ''center the finger and retry'') \<and> is_deny second \<and>
          s_state s = Waiting 1)),
      (''unknown_string_fails_closed'',
         (let (action, s) = session_step started (Status ''verify-something-new'' True) in
          \<not> is_ok action \<and> s_state s \<noteq> Succeeded)),
      (''disconnect_and_cancel_are_distinct'',
         fst (session_step started Disconnected) = Ok (AFailed ''reader disconnected'') \<and>
         fst (session_step started Cancelled) = Ok AIdle)])"

subsection \<open>\<open>elanprint-usb\<close>\<close>

definition usb_tests :: "(string \<times> bool) list" where
  "usb_tests =
     [(''endpoint_addresses_match_the_protocol_table'',
         endpoint_address EpImage = 0x82 \<and> endpoint_address EpStatus = 0x83 \<and>
         endpoint_address EpTouchWait = 0x84),
      (''touch_wait_is_not_status'', endpoint_address EpTouchWait \<noteq> endpoint_address EpStatus),
      (''hex_formats_lowercase_space_separated'', hex [0x40, 0xff, 0x02] = ''40 ff 02''),
      (''hex_of_empty_is_empty'', hex [] = [])]"

lemma algo_tests_pass: "all_pass (status_string_tests @ policy_tests @ session_tests @ usb_tests)"
  by code_simp

subsection \<open>\<open>elanprint-proto/tests/replay.rs\<close>\<close>

datatype wire_frame = Out "byte list" | In "byte list"

text \<open>\<open>tests/fixtures/enroll_ok.json\<close>, an enrolment captured on the sensor.\<close>

definition enroll_ok_frames :: "wire_frame list" where
  "enroll_ok_frames =
     [Out [0x40, 0xff, 0x01, 0x00, 0x08, 0x00, 0x00],
      In [0x40, 0x00],
      Out [0x40, 0xff, 0x01, 0x00, 0x08, 0x01, 0x00],
      In [0x40, 0x00],
      Out [0x40, 0xff, 0x01, 0x00, 0x08, 0x02, 0x00],
      In [0x40, 0x00],
      Out [0x40, 0xff, 0x01, 0x00, 0x08, 0x03, 0x00],
      In [0x40, 0x00],
      Out [0x40, 0xff, 0x01, 0x00, 0x08, 0x04, 0x00],
      In [0x40, 0x00],
      Out [0x40, 0xff, 0x01, 0x00, 0x08, 0x05, 0x00],
      In [0x40, 0x00],
      Out [0x40, 0xff, 0x01, 0x00, 0x08, 0x06, 0x00],
      In [0x40, 0x00],
      Out [0x40, 0xff, 0x01, 0x00, 0x08, 0x07, 0x00],
      In [0x40, 0x00],
      Out [0x40, 0xff, 0x10],
      In [0x40, 0x00, 0x00],
      Out
        [0x40, 0xff, 0x11, 0xf5, 0x00, 0x00, 0x00, 0x00, 0x00, 0x00, 0x00, 0x00, 0x00, 0x00,
         0x00, 0x00, 0x00, 0x00, 0x00, 0x00, 0x00, 0x00, 0x00, 0x00, 0x00, 0x00, 0x00, 0x00,
         0x00, 0x00, 0x00, 0x00, 0x00, 0x00, 0x00, 0x00, 0x00, 0x00, 0x00, 0x00, 0x00, 0x00,
         0x00, 0x00, 0x00, 0x00, 0x00, 0x00, 0x00, 0x00, 0x00, 0x00, 0x00, 0x00, 0x00, 0x00,
         0x00, 0x00, 0x00, 0x00, 0x00, 0x00, 0x00, 0x00, 0x00, 0x00, 0x00, 0x00, 0x00, 0x00,
         0x00, 0x00],
      In [0x40, 0x00]]"

text \<open>The loop over the frames: the state in which the machine ends, if no assertion failed.\<close>

fun replay :: "wire_frame list \<Rightarrow> enroll \<Rightarrow> enroll_state option" where
  "replay [] sm = Some (en_state sm)"
| "replay (In reply # rest) sm =
     (case enroll_step sm reply of
        (EmitProgress _ _, sm) \<Rightarrow>
          (case (take_send sm, rest) of
             ((Some (Send bytes), sm), Out captured # rest) \<Rightarrow>
               (if bytes = captured then replay rest sm else None)
           | _ \<Rightarrow> None)
      | (Send bytes, sm) \<Rightarrow>
          (case rest of
             Out captured # rest \<Rightarrow> (if bytes = captured then replay rest sm else None)
           | _ \<Rightarrow> None)
      | (Complete i, sm) \<Rightarrow> (if rest = [] \<and> i = 0 then replay rest sm else None)
      | _ \<Rightarrow> None)"
| "replay (Out _ # rest) sm = None"

definition enroll_sequence_from_capture :: bool where
  "enroll_sequence_from_capture \<longleftrightarrow>
     (case (enroll_start (enroll_new 0), enroll_ok_frames) of
        ((Send first, sm), Out captured # rest) \<Rightarrow> first = captured \<and> replay rest sm = Some (Done 0)
      | _ \<Rightarrow> False)"

lemma capture_replays: enroll_sequence_from_capture
  by code_simp

end
