(* ===== verification/PamStack.thy ===== *)
theory PamStack
  imports RustStr
begin

text \<open>
  Wiring the module into a PAM stack: the line predicates of \<open>preflight.rs\<close> and the text edits of
  \<open>pam.rs\<close> in \<open>elanprint-keyring-setup\<close>.  The lemmas say where the line lands, that wiring twice
  changes nothing, and that unwiring gives the old text back.
\<close>

subsection \<open>Lines\<close>

definition MODULE :: string where "MODULE = ''pam_elanprint_keyring.so''"

definition is_our_line :: "string \<Rightarrow> bool" where
  "is_our_line line =
     (let line = trim_start line in \<not> starts_with line ''#'' \<and> contains_str line MODULE)"

definition is_keyring_auth :: "string \<Rightarrow> bool" where
  "is_keyring_auth line =
     (let trimmed = trim_start line in
      if starts_with trimmed ''#'' then False
      else first_word trimmed = Some ''auth'' \<and> contains_str trimmed ''pam_gnome_keyring.so'')"

definition LINE :: string where
  "LINE = ''auth'' @ [TAB] @ ''optional'' @ [TAB] @ ''pam_elanprint_keyring.so''"

text \<open>\<open>Iterator::position\<close>.\<close>

fun position :: "('a \<Rightarrow> bool) \<Rightarrow> 'a list \<Rightarrow> nat option" where
  "position P [] = None"
| "position P (x # xs) = (if P x then Some 0 else map_option Suc (position P xs))"

subsection \<open>Edits\<close>

datatype change = Added string | AlreadyPresent

definition pam_insert :: "string \<Rightarrow> string + change" where
  "pam_insert text =
     (if list_ex is_our_line (lines text) then Ok AlreadyPresent
      else
        (case position is_keyring_auth (lines text) of
           None \<Rightarrow> Err ''no pam_gnome_keyring auth line to insert above''
         | Some at \<Rightarrow>
             (let ls = lines text in
              if at > length ls then Err ''refusing to write outside the file''
              else Ok (Added (unlines (take at ls @ LINE # drop at ls))))))"

definition pam_remove :: "string \<Rightarrow> string option" where
  "pam_remove text =
     (if \<not> list_ex is_our_line (lines text) then None
      else Some (unlines (filter (\<lambda>l. \<not> is_our_line l) (lines text))))"

subsection \<open>Lines of a text\<close>

lemma position_split:
  "position P xs = Some n \<Longrightarrow>
   \<exists>x. xs = take n xs @ x # drop (Suc n) xs \<and> P x \<and> (\<forall>y \<in> set (take n xs). \<not> P y) \<and> n < length xs"
  by (induction xs arbitrary: n) (auto split: if_splits)

lemma position_None: "position P xs = None \<longleftrightarrow> (\<forall>x \<in> set xs. \<not> P x)"
  by (induction xs) auto

lemma clean_lineI: "NL \<notin> set l \<Longrightarrow> CR \<notin> set l \<Longrightarrow> clean_line l"
  unfolding clean_line_def by (metis last_in_set)

lemma lines_clean: "CR \<notin> set s \<Longrightarrow> \<forall>l \<in> set (lines s). clean_line l"
proof (induction s rule: lines.induct)
  case (1 s)
  show ?case
  proof (cases "dropWhile (\<lambda>c. c \<noteq> NL) s")
    case Nil
    then have "NL \<notin> set s" by (auto simp: dropWhile_eq_Nil_conv)
    then show ?thesis using "1.prems"
      by (cases "s = []") (auto simp: lines_no_nl clean_lineI)
  next
    case (Cons d rest)
    then have s: "s = takeWhile (\<lambda>c. c \<noteq> NL) s @ d # rest" "s \<noteq> []"
      using takeWhile_dropWhile_id [of "\<lambda>c. c \<noteq> NL" s] by auto
    have d: "d = NL" using Cons by (simp add: dropWhile_eq_Cons_conv)
    have head: "NL \<notin> set (takeWhile (\<lambda>c. c \<noteq> NL) s)" by (auto dest: set_takeWhileD)
    have cr: "CR \<notin> set (takeWhile (\<lambda>c. c \<noteq> NL) s)" "CR \<notin> set rest"
      using "1.prems" s(1) by (metis Un_iff set_append, metis Un_iff list.set_intros(2) set_append)
    from s(1) d have "lines s = strip_cr (takeWhile (\<lambda>c. c \<noteq> NL) s) # lines rest"
      using lines_nl_append [OF head] by metis
    moreover have "clean_line (takeWhile (\<lambda>c. c \<noteq> NL) s)"
      using head cr(1) by (rule clean_lineI)
    moreover have "\<forall>l \<in> set (lines rest). clean_line l"
      using "1.IH" [OF s(2) Cons] cr(2) by blast
    ultimately show ?thesis by simp
  qed
qed

lemma unlines_Cons: "ls \<noteq> [] \<Longrightarrow> unlines (l # ls) = l @ NL # unlines ls"
  by (cases ls) (simp_all add: unlines_def)

text \<open>A text of complete lines without carriage returns is the concatenation of its lines.\<close>

lemma unlines_lines: "CR \<notin> set s \<Longrightarrow> s \<noteq> [] \<Longrightarrow> last s = NL \<Longrightarrow> unlines (lines s) = s"
proof (induction s rule: lines.induct)
  case (1 s)
  show ?case
  proof (cases "dropWhile (\<lambda>c. c \<noteq> NL) s")
    case Nil
    then have "NL \<notin> set s" by (auto simp: dropWhile_eq_Nil_conv)
    then show ?thesis using "1.prems" last_in_set by metis
  next
    case (Cons d rest)
    let ?head = "takeWhile (\<lambda>c. c \<noteq> NL) s"
    have d: "d = NL" using Cons by (simp add: dropWhile_eq_Cons_conv)
    have s: "s = ?head @ NL # rest" using Cons d takeWhile_dropWhile_id [of "\<lambda>c. c \<noteq> NL" s] by simp
    have head: "NL \<notin> set ?head" by (auto dest: set_takeWhileD)
    have cr: "CR \<notin> set ?head" "CR \<notin> set rest"
      using "1.prems"(1) s by (metis Un_iff set_append, metis Un_iff list.set_intros(2) set_append)
    have clean: "strip_cr ?head = ?head"
      using clean_lineI [OF head cr(1)] by simp
    have ls: "lines s = ?head # lines rest"
      using lines_nl_append [OF head, of rest] s clean by metis
    show ?thesis
    proof (cases "rest = []")
      case True
      then show ?thesis using ls s by (simp add: unlines_def)
    next
      case False
      have "last s = last rest" using s False by (metis last_appendR last_ConsR list.distinct(1))
      then have "unlines (lines rest) = rest"
        using "1.IH" [OF "1.prems"(2) Cons cr(2) False] "1.prems"(3) by simp
      moreover have "lines rest \<noteq> []" using calculation False
        by (cases "lines rest") (auto simp: lines.simps [of rest] split: list.splits)
      ultimately show ?thesis using ls s unlines_Cons [of "lines rest" ?head] by simp
    qed
  qed
qed

lemma LINE_ours: "is_our_line LINE"
  by code_simp

lemma LINE_not_keyring: "\<not> is_keyring_auth LINE"
  by code_simp

lemma LINE_clean: "clean_line LINE"
  by code_simp

subsection \<open>What the edits do\<close>

lemma pam_insert_added:
  assumes "pam_insert text = Ok (Added out)"
  obtains before k after where "lines text = before @ k # after" "is_keyring_auth k"
    "\<forall>l \<in> set before. \<not> is_keyring_auth l" "\<forall>l \<in> set (lines text). \<not> is_our_line l"
    "out = unlines (before @ LINE # k # after)"
proof -
  from assms obtain at where at: "position is_keyring_auth (lines text) = Some at"
    "out = unlines (take at (lines text) @ LINE # drop at (lines text))"
    "\<not> list_ex is_our_line (lines text)"
    by (auto simp: pam_insert_def Let_def split: if_splits option.splits)
  from position_split [OF at(1)] obtain k where
    k: "lines text = take at (lines text) @ k # drop (Suc at) (lines text)" "is_keyring_auth k"
      "\<forall>y \<in> set (take at (lines text)). \<not> is_keyring_auth y" "at < length (lines text)" by blast
  then have "drop at (lines text) = k # drop (Suc at) (lines text)"
    by (metis append_eq_conv_conj append_take_drop_id same_append_eq)
  with at k that [of "take at (lines text)" k "drop (Suc at) (lines text)"] show thesis
    by (simp add: list_ex_iff)
qed

lemma pam_insert_out_lines:
  assumes "CR \<notin> set text" "lines text = before @ k # after"
  shows "lines (unlines (before @ LINE # k # after)) = before @ LINE # k # after"
  using lines_clean [OF assms(1)] assms(2) LINE_clean by (intro lines_unlines) auto

lemma pam_insert_wires: "pam_insert text = Ok (Added out) \<Longrightarrow> CR \<notin> set text \<Longrightarrow> list_ex is_our_line (lines out)"
proof -
  assume a: "pam_insert text = Ok (Added out)" "CR \<notin> set text"
  from a(1) obtain before k after where "lines text = before @ k # after"
    "out = unlines (before @ LINE # k # after)" by (rule pam_insert_added)
  then show ?thesis using pam_insert_out_lines [OF a(2)] LINE_ours by simp
qed

lemma pam_remove_unwires:
  assumes "CR \<notin> set text" "pam_remove text = Some out"
  shows "\<not> list_ex is_our_line (lines out)"
proof (cases "filter (\<lambda>l. \<not> is_our_line l) (lines text) = []")
  case True
  then have "out = [NL]" using assms(2) by (simp add: pam_remove_def unlines_def split: if_splits)
  then have "lines out = [[]]" using lines_nl_append [of "[]" "[]"] by (simp add: strip_cr_def)
  then show ?thesis by (simp add: is_our_line_def trim_start_def MODULE_def)
next
  case False
  have "\<forall>l \<in> set (filter (\<lambda>l. \<not> is_our_line l) (lines text)). clean_line l"
    using lines_clean [OF assms(1)] by simp
  then have "lines out = filter (\<lambda>l. \<not> is_our_line l) (lines text)"
    using assms(2) lines_unlines [OF False] by (auto simp: pam_remove_def split: if_splits)
  then show ?thesis by (simp add: list_ex_iff)
qed

lemma wire_roundtrip:
  assumes "CR \<notin> set text" "text \<noteq> []" "last text = NL" and "pam_insert text = Ok (Added out)"
  shows "pam_remove out = Some text \<and> pam_insert out = Ok AlreadyPresent \<and> pam_remove text = None"
proof -
  from assms(4) obtain before k after where b: "lines text = before @ k # after"
    "\<forall>l \<in> set (lines text). \<not> is_our_line l" "out = unlines (before @ LINE # k # after)"
    by (rule pam_insert_added)
  then have out: "lines out = before @ LINE # k # after" using pam_insert_out_lines [OF assms(1)] by simp
  have "filter (\<lambda>l. \<not> is_our_line l) (lines out) = lines text"
    using b(1,2) out LINE_ours by (simp add: filter_id_conv)
  then have "pam_remove out = Some text"
    using out LINE_ours unlines_lines [OF assms(1-3)] by (simp add: pam_remove_def)
  then show ?thesis using b(2) out LINE_ours by (simp add: pam_insert_def pam_remove_def list_ex_iff)
qed

subsection \<open>Properties\<close>

text \<open>Where the module lands: the edit adds one line, directly above the first auth line of the
  keyring module, and keeps every other line in its order; it leaves a stack that has the module
  alone and refuses a stack with no keyring auth line.\<close>

theorem wire_lands_above_keyring:
  assumes "CR \<notin> set text"
  shows "case pam_insert text of
      Ok (Added out) \<Rightarrow> (\<exists>before k after. lines text = before @ k # after \<and> is_keyring_auth k \<and>
        (\<forall>l \<in> set before. \<not> is_keyring_auth l) \<and> lines out = before @ LINE # k # after)
    | Ok AlreadyPresent \<Rightarrow> (\<exists>l \<in> set (lines text). is_our_line l)
    | Err _ \<Rightarrow> (\<forall>l \<in> set (lines text). \<not> is_our_line l \<and> \<not> is_keyring_auth l)"
proof (cases "\<exists>out. pam_insert text = Ok (Added out)")
  case True
  then obtain out where out: "pam_insert text = Ok (Added out)" by blast
  from out obtain before k after where b: "lines text = before @ k # after" "is_keyring_auth k"
    "\<forall>l \<in> set before. \<not> is_keyring_auth l" "out = unlines (before @ LINE # k # after)"
    by (rule pam_insert_added)
  then have "lines out = before @ LINE # k # after" using pam_insert_out_lines [OF assms] by simp
  with out b show ?thesis by auto
next
  case False
  consider (err) e where "pam_insert text = Err e" | (present) "pam_insert text = Ok AlreadyPresent"
    using False by (cases "pam_insert text"; cases "projr (pam_insert text)") auto
  then show ?thesis
  proof cases
    case err
    then have "position is_keyring_auth (lines text) = None" "\<not> list_ex is_our_line (lines text)"
      by (auto simp: pam_insert_def Let_def split: if_splits option.splits dest!: position_split)
    with err show ?thesis by (simp add: position_None list_ex_iff)
  next
    case present
    then show ?thesis by (auto simp: pam_insert_def Let_def list_ex_iff split: if_splits option.splits)
  qed
qed

definition sample_stack :: string where
  "sample_stack = ''auth required pam_fprintd.so'' @ [NL] @ ''auth optional pam_gnome_keyring.so'' @ [NL]
     @ ''session optional pam_gnome_keyring.so auto_start'' @ [NL]"

definition sample_wired :: string where
  "sample_wired = ''auth required pam_fprintd.so'' @ [NL] @ LINE @ [NL]
     @ ''auth optional pam_gnome_keyring.so'' @ [NL]
     @ ''session optional pam_gnome_keyring.so auto_start'' @ [NL]"

lemma sample_stack_insert: "pam_insert sample_stack = Ok (Added sample_wired)"
  by code_simp

lemma sample_stack_plain: "CR \<notin> set sample_stack" "sample_stack \<noteq> []" "last sample_stack = NL"
  by code_simp+

theorem wire_lands_above_keyring_witness:
  "\<exists>before k after. lines sample_wired = before @ LINE # k # after \<and> is_keyring_auth k"
  using wire_lands_above_keyring [OF sample_stack_plain(1)] by (auto simp: sample_stack_insert)

text \<open>Unwiring undoes wiring: on a text of complete lines, taking the module out of a stack it was
  added to gives the very text back; adding it again to the wired text changes nothing; and the
  text before, which had no line of ours, is none to take the module out of.\<close>

theorem unwire_undoes_wire:
  assumes "CR \<notin> set text" "text \<noteq> []" "last text = NL" and "pam_insert text = Ok (Added out)"
  shows "pam_remove out = Some text \<and> pam_insert out = Ok AlreadyPresent \<and> pam_remove text = None"
  using assms by (rule wire_roundtrip)

theorem unwire_undoes_wire_witness: "pam_remove sample_wired = Some sample_stack"
  using unwire_undoes_wire [OF sample_stack_plain sample_stack_insert] by simp

end
