(* ===== verification/Utf8.thy ===== *)
theory Utf8
  imports RustStr
begin

text \<open>
  \<open>String::from_utf8_lossy\<close> and the character counts of \<open>str\<close>, on the bytes of a string.  A byte
  sequence that is not UTF-8 loses each maximal broken piece to the three bytes of the
  replacement character.
\<close>

abbreviation byte_of :: "char \<Rightarrow> nat" where "byte_of c \<equiv> of_char c"

definition is_cont :: "char \<Rightarrow> bool" where
  "is_cont c \<longleftrightarrow> 0x80 \<le> byte_of c \<and> byte_of c \<le> 0xBF"

text \<open>The second bytes a lead byte of three or four bytes allows.\<close>

definition second_ok :: "char \<Rightarrow> char \<Rightarrow> bool" where
  "second_ok b c \<longleftrightarrow> is_cont c \<and>
     (byte_of b = 0xE0 \<longrightarrow> 0xA0 \<le> byte_of c) \<and> (byte_of b = 0xED \<longrightarrow> byte_of c \<le> 0x9F) \<and>
     (byte_of b = 0xF0 \<longrightarrow> 0x90 \<le> byte_of c) \<and> (byte_of b = 0xF4 \<longrightarrow> byte_of c \<le> 0x8F)"

definition REPLACEMENT :: string where
  "REPLACEMENT = [CHR 0xEF, CHR 0xBF, CHR 0xBD]"

text \<open>The longest start of the bytes that is one character, or is broken: its length, and whether
  it is whole.\<close>

definition utf8_step :: "string \<Rightarrow> nat \<times> bool" where
  "utf8_step s =
     (case s of
        [] \<Rightarrow> (0, True)
      | b # bs \<Rightarrow>
          (if byte_of b < 0x80 then (1, True)
           else if 0xC2 \<le> byte_of b \<and> byte_of b \<le> 0xDF then
             (case bs of c # _ \<Rightarrow> (if is_cont c then (2, True) else (1, False)) | [] \<Rightarrow> (1, False))
           else if 0xE0 \<le> byte_of b \<and> byte_of b \<le> 0xEF then
             (case bs of
                c # cs \<Rightarrow>
                  (if second_ok b c then
                     (case cs of d # _ \<Rightarrow> (if is_cont d then (3, True) else (2, False)) | [] \<Rightarrow> (2, False))
                   else (1, False))
              | [] \<Rightarrow> (1, False))
           else if 0xF0 \<le> byte_of b \<and> byte_of b \<le> 0xF4 then
             (case bs of
                c # cs \<Rightarrow>
                  (if second_ok b c then
                     (case cs of
                        d # ds \<Rightarrow>
                          (if is_cont d then
                             (case ds of e # _ \<Rightarrow> (if is_cont e then (4, True) else (3, False)) | [] \<Rightarrow> (3, False))
                           else (2, False))
                      | [] \<Rightarrow> (2, False))
                   else (1, False))
              | [] \<Rightarrow> (1, False))
           else (1, False)))"

lemma utf8_step_pos: "s \<noteq> [] \<Longrightarrow> 0 < fst (utf8_step s)"
  by (simp add: utf8_step_def split: list.split)

function from_utf8_lossy :: "string \<Rightarrow> string" where
  "from_utf8_lossy s =
     (if s = [] then []
      else (case utf8_step s of
              (n, whole) \<Rightarrow> (if whole then take n s else REPLACEMENT) @ from_utf8_lossy (drop n s)))"
  by pat_completeness auto
termination
proof (relation "measure length")
  fix s :: string and n whole
  assume "s \<noteq> []" "(n, whole) = utf8_step s"
  then have "0 < n" using utf8_step_pos [of s] by (metis fst_conv)
  with \<open>s \<noteq> []\<close> show "(drop n s, s) \<in> measure length" by (cases s) auto
qed simp

declare from_utf8_lossy.simps [simp del]

lemma from_utf8_lossy_Nil [simp]: "from_utf8_lossy [] = []"
  by (simp add: from_utf8_lossy.simps)

lemma from_utf8_lossy_ascii: "\<forall>c \<in> set s. byte_of c < 0x80 \<Longrightarrow> from_utf8_lossy s = s"
proof (induction s)
  case (Cons c cs)
  then have "utf8_step (c # cs) = (1, True)" by (simp add: utf8_step_def)
  then have "from_utf8_lossy (c # cs) = c # from_utf8_lossy cs"
    by (subst from_utf8_lossy.simps) simp
  with Cons show ?case by simp
qed simp

text \<open>\<open>chars().count()\<close> and \<open>chars().take(n)\<close>: a character starts at each byte that continues none.\<close>

definition char_count :: "string \<Rightarrow> nat" where
  "char_count s = length (filter (\<lambda>c. \<not> is_cont c) s)"

fun take_chars :: "nat \<Rightarrow> string \<Rightarrow> string" where
  "take_chars n [] = []"
| "take_chars n (c # cs) =
     (if is_cont c then c # take_chars n cs
      else (case n of 0 \<Rightarrow> [] | Suc m \<Rightarrow> c # take_chars m cs))"

lemma char_count_take: "char_count (take_chars n s) \<le> n"
  by (induction n s rule: take_chars.induct) (auto simp: char_count_def split: nat.splits)

lemma set_take_chars: "set (take_chars n s) \<subseteq> set s"
  by (induction n s rule: take_chars.induct) (auto split: nat.splits)

text \<open>A line feed comes only from a line feed.\<close>

lemma lossy_no_nl: "NL \<notin> set s \<Longrightarrow> NL \<notin> set (from_utf8_lossy s)"
proof (induction s rule: from_utf8_lossy.induct)
  case (1 s)
  show ?case
  proof (cases "s = []")
    case False
    obtain n whole where st: "utf8_step s = (n, whole)" by fastforce
    have "NL \<notin> set (drop n s)" "NL \<notin> set (take n s)"
      using "1.prems" by (auto dest: in_set_dropD in_set_takeD)
    moreover have "NL \<notin> set REPLACEMENT" by (simp add: REPLACEMENT_def NL_def)
    moreover have "NL \<notin> set (from_utf8_lossy (drop n s))"
      using "1.IH" [OF False st [symmetric]] calculation(1) by simp
    ultimately show ?thesis using False st
      by (subst from_utf8_lossy.simps) (simp split: if_split)
  qed simp
qed

lemma trim_subset: "set (trim s) \<subseteq> set s"
  by (auto simp: trim_def trim_end_matches_def trim_start_def dest!: set_dropWhileD)

end
