(* ===== verification/PamModule.thy ===== *)
theory PamModule
  imports Utf8
begin

text \<open>
  The crate \<open>pam-elanprint-keyring\<close>: the PAM module that unseals the keyring secret and puts it in
  \<open>PAM_AUTHTOK\<close>.  The helper process is a record of what the module can see of it; libpam's
  \<open>pam_set_item\<close> is a parameter.  The lemmas say that no path fails a login, what may become the
  token, and that nothing of the secret reaches the log.
\<close>

definition PAM_SUCCESS :: int where "PAM_SUCCESS = 0"
definition PAM_IGNORE :: int where "PAM_IGNORE = 25"

definition SYSTEMD_CREDS :: string where "SYSTEMD_CREDS = ''/usr/bin/systemd-creds''"
definition TIMEOUT :: string where "TIMEOUT = ''2s''"
definition GRACE :: nat where "GRACE = 200"
definition STDERR_CAP :: nat where "STDERR_CAP = 4096"
definition LINE_CAP :: nat where "LINE_CAP = 200"

subsection \<open>The helper process\<close>

record exit_status =
  ex_success :: bool
  ex_text :: string

datatype poll = TwExited exit_status | TwRunning | TwError

text \<open>
  What a started helper shows: whether threads can be made to read it (their creation panics
  otherwise), the bytes of its output once it is closed (\<open>None\<close> after the timeout), the answers of
  \<open>try_wait\<close> with the extra time each turn takes, and its standard error (\<open>None\<close> after the grace).
\<close>

record child =
  ch_spawn :: "string + unit"
  ch_pipes :: bool
  ch_threads :: bool
  ch_stdout :: "(string + string) option"
  ch_polls :: "nat \<Rightarrow> poll"
  ch_delays :: "nat \<Rightarrow> nat"
  ch_stderr :: "string option"

text \<open>Time in milliseconds; gives the status and the number of polls made.\<close>

function reap :: "(nat \<Rightarrow> poll) \<Rightarrow> (nat \<Rightarrow> nat) \<Rightarrow> nat \<Rightarrow> nat \<Rightarrow> nat \<Rightarrow> exit_status option \<times> nat" where
  "reap polls delays deadline n now =
     (case polls n of
        TwExited st \<Rightarrow> (Some st, Suc n)
      | TwRunning \<Rightarrow>
          (if now < deadline then reap polls delays deadline (Suc n) (now + 5 + delays n)
           else (None, Suc n))
      | TwError \<Rightarrow> (None, Suc n))"
  by pat_completeness auto
termination by (relation "measure (\<lambda>(_, _, deadline, _, now). deadline - now)") auto

declare reap.simps [simp del]

definition pam_log :: "string \<Rightarrow> string list \<Rightarrow> string list" where
  "pam_log message l = l @ [''<83>pam_elanprint_keyring: '' @ message]"

definition first_line :: "string \<Rightarrow> string" where
  "first_line bytes =
     (let head = takeWhile (\<lambda>b. b \<noteq> NL) bytes; line = trim (from_utf8_lossy head) in
      if char_count line > LINE_CAP then take_chars LINE_CAP line else line)"

definition trim_eol :: "string \<Rightarrow> string" where
  "trim_eol bytes = trim_end_matches (\<lambda>b. b = NL \<or> b = CR) bytes"

text \<open>\<open>None\<close> is a panic.\<close>

definition run :: "string \<Rightarrow> child \<Rightarrow> string list \<Rightarrow> string option option \<times> string list" where
  "run program c l =
     (case ch_spawn c of
        Err e \<Rightarrow> (Some None, pam_log (program @ '' did not start: '' @ e) l)
      | Ok _ \<Rightarrow>
          (if \<not> ch_pipes c then (Some None, l)
           else if \<not> ch_threads c then (None, l)
           else
             (let captured = ch_stdout c;
                  status = fst (reap (ch_polls c) (ch_delays c) GRACE 0 0);
                  clean = (case status of Some s \<Rightarrow> ex_success s | None \<Rightarrow> False);
                  l1 = (if clean then l
                        else
                          (let why = (case ch_stderr c of
                                 Some bytes \<Rightarrow> first_line (take STDERR_CAP bytes) | None \<Rightarrow> []);
                               outcome = (case status of Some s \<Rightarrow> ex_text s | None \<Rightarrow> ''killed'')
                           in if why = [] then pam_log (program @ '' '' @ outcome @ '', no stderr'') l
                              else pam_log (program @ '' '' @ outcome @ '': '' @ why) l))
              in case captured of
                   Some (Err e) \<Rightarrow> (Some None, pam_log (''reading '' @ program @ '' failed: '' @ e) l1)
                 | None \<Rightarrow> (Some None, pam_log (program @ '' timed out after '' @ TIMEOUT) l1)
                 | Some (Ok bytes) \<Rightarrow> (if \<not> clean then (Some None, l1) else (Some (Some bytes), l1)))))"

definition decrypt :: "child \<Rightarrow> string list \<Rightarrow> string option option \<times> string list" where
  "decrypt c l =
     (case run SYSTEMD_CREDS c l of
        (None, l1) \<Rightarrow> (None, l1)
      | (Some None, l1) \<Rightarrow> (Some None, l1)
      | (Some (Some out), l1) \<Rightarrow>
          (let out = trim_eol out in
           if out = [] then (Some None, pam_log ''unsealed secret is empty'' l1)
           else (Some (Some out), l1)))"

text \<open>\<open>CString::new\<close>: refuses a NUL byte inside.\<close>

definition to_token :: "string \<Rightarrow> string list \<Rightarrow> string option \<times> string list" where
  "to_token secret l =
     (if CHR 0x00 \<in> set secret
      then (None, pam_log ''secret holds a NUL byte, cannot be a keyring password'' l)
      else (Some secret, l))"

subsection \<open>The module\<close>

text \<open>The authtok libpam holds, and the messages sent to the system log.\<close>

record pam =
  pm_authtok :: "string option"
  pm_log :: "string list"

text \<open>\<open>pam_set_item\<close> maps the item held and the new C string to its return code and the item then
  held; \<open>show_int\<close> prints a return code.\<close>

type_synonym set_item = "string option \<Rightarrow> string \<Rightarrow> int \<times> string option"

definition show_int :: "int \<Rightarrow> string" where
  "show_int i = (if i < 0 then CHR ''-'' # show_nat (nat (- i)) else show_nat (nat i))"

definition supply_authtok :: "set_item \<Rightarrow> child \<Rightarrow> pam \<Rightarrow> int option \<times> pam" where
  "supply_authtok set_item c p =
     (case decrypt c (pm_log p) of
        (None, l) \<Rightarrow> (None, p\<lparr>pm_log := l\<rparr>)
      | (Some None, l) \<Rightarrow> (Some PAM_IGNORE, p\<lparr>pm_log := l\<rparr>)
      | (Some (Some secret), l) \<Rightarrow>
          (case to_token secret l of
             (None, l1) \<Rightarrow> (Some PAM_IGNORE, p\<lparr>pm_log := l1\<rparr>)
           | (Some token, l1) \<Rightarrow>
               (case set_item (pm_authtok p) token of
                  (rc, item) \<Rightarrow>
                    (Some PAM_IGNORE,
                     p\<lparr>pm_authtok := item,
                       pm_log := (if rc \<noteq> PAM_SUCCESS
                         then pam_log (''pam_set_item returned '' @ show_int rc @ '', keyring left locked'') l1
                         else l1)\<rparr>))))"

definition pam_sm_authenticate :: "set_item \<Rightarrow> child \<Rightarrow> pam \<Rightarrow> int \<times> pam" where
  "pam_sm_authenticate set_item c p =
     (case supply_authtok set_item c p of
        (Some rc, p1) \<Rightarrow> (rc, p1)
      | (None, p1) \<Rightarrow> (PAM_IGNORE, p1\<lparr>pm_log := pam_log ''panicked, keyring left locked'' (pm_log p1)\<rparr>))"

definition pam_sm_setcred :: "pam \<Rightarrow> int \<times> pam" where
  "pam_sm_setcred p = (PAM_SUCCESS, p)"

subsection \<open>Lemmas\<close>

lemma reap_bound: "5 * snd (reap polls delays deadline n now) \<le> 5 * n + (deadline - now) + 9"
proof (induction polls delays deadline n now rule: reap.induct)
  case (1 polls delays deadline n now)
  show ?case
  proof (cases "polls n = TwRunning \<and> now < deadline")
    case True
    then have step: "reap polls delays deadline n now =
        reap polls delays deadline (Suc n) (now + 5 + delays n)"
      by (subst reap.simps) simp
    show ?thesis
    proof (cases "now + 5 + delays n \<le> deadline")
      case le: True
      have "5 * snd (reap polls delays deadline (Suc n) (now + 5 + delays n)) \<le>
          5 * Suc n + (deadline - (now + 5 + delays n)) + 9"
        using "1.IH" True by simp
      then show ?thesis using step True le by simp
    next
      case False
      then have "snd (reap polls delays deadline (Suc n) (now + 5 + delays n)) = Suc (Suc n)"
        by (subst reap.simps) (simp split: poll.split)
      moreover have "1 \<le> deadline - now" using conjunct2 [OF True] by linarith
      moreover have "snd (reap polls delays deadline n now) = Suc (Suc n)"
        using calculation(1) step by simp
      ultimately show ?thesis by linarith
    qed
  next
    case False
    then have "snd (reap polls delays deadline n now) = Suc n"
      by (subst reap.simps) (auto split: poll.split)
    then show ?thesis by simp
  qed
qed

lemma trim_eol_strip: "\<forall>c \<in> set t. c = NL \<or> c = CR \<Longrightarrow> trim_eol (s @ t) = trim_eol s"
proof (induction t arbitrary: s rule: rev_induct)
  case (snoc x xs)
  have "trim_eol ((s @ xs) @ [x]) = trim_eol (s @ xs)"
    using snoc.prems by (simp add: trim_eol_def trim_end_matches_def)
  with snoc show ?case by simp
qed simp

lemma trim_eol_id: "s \<noteq> [] \<Longrightarrow> last s \<noteq> NL \<Longrightarrow> last s \<noteq> CR \<Longrightarrow> trim_eol s = s"
  by (cases s rule: rev_cases) (simp_all add: trim_eol_def trim_end_matches_def)

text \<open>A helper that ends well within the limits, having written these bytes.\<close>

definition clean_exit :: "child \<Rightarrow> bool" where
  "clean_exit c \<longleftrightarrow> ch_spawn c = Ok () \<and> ch_pipes c \<and> ch_threads c \<and>
     (case fst (reap (ch_polls c) (ch_delays c) GRACE 0 0) of Some s \<Rightarrow> ex_success s | None \<Rightarrow> False)"

lemma run_bytes: "run program c l = (Some (Some bytes), l1) \<longleftrightarrow>
    clean_exit c \<and> ch_stdout c = Some (Ok bytes) \<and> l1 = l"
  by (cases "ch_spawn c"; cases "ch_stdout c")
    (auto simp: run_def clean_exit_def Let_def split: sum.splits option.splits if_splits)

lemma decrypt_some: "decrypt c l = (Some (Some s), l1) \<longleftrightarrow>
    clean_exit c \<and> (\<exists>bytes. ch_stdout c = Some (Ok bytes) \<and> s = trim_eol bytes) \<and> s \<noteq> [] \<and> l1 = l"
  using run_bytes [of SYSTEMD_CREDS c l]
  by (auto simp: decrypt_def Let_def split: prod.splits option.splits if_splits)

lemma supply_authtok_ignores: "supply_authtok set_item c p = (Some rc, p1) \<Longrightarrow> rc = PAM_IGNORE"
  by (auto simp: supply_authtok_def split: prod.splits option.splits)

lemma authtok_effect:
  "case pam_sm_authenticate set_item c p of (_, p') \<Rightarrow>
     (if \<exists>bytes. clean_exit c \<and> ch_stdout c = Some (Ok bytes) \<and> trim_eol bytes \<noteq> [] \<and>
           CHR 0x00 \<notin> set (trim_eol bytes)
      then pm_authtok p' = snd (set_item (pm_authtok p) (trim_eol (projr (the (ch_stdout c)))))
      else pm_authtok p' = pm_authtok p)"
proof (cases "\<exists>s l1. decrypt c (pm_log p) = (Some (Some s), l1)")
  case True
  then obtain s l1 where d: "decrypt c (pm_log p) = (Some (Some s), l1)" by blast
  then obtain bytes where b: "clean_exit c" "ch_stdout c = Some (Ok bytes)" "s = trim_eol bytes" "s \<noteq> []"
    using decrypt_some by blast
  then show ?thesis using d
    by (auto simp: pam_sm_authenticate_def supply_authtok_def to_token_def split: prod.split)
next
  case False
  then have no: "\<not> (\<exists>bytes. clean_exit c \<and> ch_stdout c = Some (Ok bytes) \<and> trim_eol bytes \<noteq> [] \<and>
      CHR 0x00 \<notin> set (trim_eol bytes))"
    using decrypt_some [of c "pm_log p"] by blast
  obtain r l1 where d: "decrypt c (pm_log p) = (r, l1)" by fastforce
  with False have "r = None \<or> r = Some None" by (cases r; cases "the r") auto
  then have "pm_authtok (snd (pam_sm_authenticate set_item c p)) = pm_authtok p"
    using d by (auto simp: pam_sm_authenticate_def supply_authtok_def)
  with no show ?thesis by (simp only: case_prod_beta if_False)
qed

subsection \<open>Properties\<close>

text \<open>C17: No login can fail on the module: whatever the helper does, however libpam answers and even
  when it panics, it returns PAM_IGNORE; its setcred returns PAM_SUCCESS.  Waiting for the helper to
  end takes at most 41 polls.\<close>

theorem pam_never_fails_login:
  "fst (pam_sm_authenticate set_item c p) = PAM_IGNORE \<and> pam_sm_setcred p = (PAM_SUCCESS, p) \<and>
   snd (reap (ch_polls c) (ch_delays c) GRACE 0 0) \<le> 41"
proof -
  have "5 * snd (reap (ch_polls c) (ch_delays c) GRACE 0 0) \<le> 209"
    using reap_bound [of "ch_polls c" "ch_delays c" GRACE 0 0] by (simp add: GRACE_def)
  then have "snd (reap (ch_polls c) (ch_delays c) GRACE 0 0) \<le> 41" by linarith
  moreover have "fst (pam_sm_authenticate set_item c p) = PAM_IGNORE"
    by (cases "supply_authtok set_item c p") (auto simp: pam_sm_authenticate_def
        split: option.split dest: supply_authtok_ignores)
  ultimately show ?thesis by (simp add: pam_sm_setcred_def)
qed

text \<open>C16: What becomes the login token: the module leaves libpam's item alone unless the helper
  started, ended well within its limits and wrote a secret that, without its trailing line ends, is
  not empty and holds no NUL byte; then it hands exactly those bytes to libpam, once.\<close>

theorem authtok_only_from_clean_helper:
  "case pam_sm_authenticate set_item c p of (_, p') \<Rightarrow>
     (if \<exists>bytes. clean_exit c \<and> ch_stdout c = Some (Ok bytes) \<and> trim_eol bytes \<noteq> [] \<and>
           CHR 0x00 \<notin> set (trim_eol bytes)
      then pm_authtok p' = snd (set_item (pm_authtok p) (trim_eol (projr (the (ch_stdout c)))))
      else pm_authtok p' = pm_authtok p)"
  by (rule authtok_effect)

text \<open>C36: Nothing of the secret reaches the log: two runs that differ only in the secret the helper
  wrote, both usable as a keyring password, log the same messages when libpam answers both alike.\<close>

theorem log_independent_of_secret:
  assumes "ch_stdout c = Some (Ok a)" "ch_stdout c' = Some (Ok b)" "c' = c\<lparr>ch_stdout := Some (Ok b)\<rparr>"
    and "trim_eol a \<noteq> []" "trim_eol b \<noteq> []" "CHR 0x00 \<notin> set a" "CHR 0x00 \<notin> set b"
    and "\<forall>item t t'. fst (set_item item t) = fst (set_item item t')"
  shows "pm_log (snd (pam_sm_authenticate set_item c p)) = pm_log (snd (pam_sm_authenticate set_item c' p))"
proof -
  have nul: "CHR 0x00 \<notin> set (trim_eol a)" "CHR 0x00 \<notin> set (trim_eol b)"
    using assms(6,7) by (auto simp: trim_eol_def trim_end_matches_def dest!: set_dropWhileD)
  have clean: "clean_exit c' = clean_exit c" using assms(3) by (simp add: clean_exit_def)
  show ?thesis
  proof (cases "clean_exit c")
    case True
    then have "decrypt c (pm_log p) = (Some (Some (trim_eol a)), pm_log p)"
      "decrypt c' (pm_log p) = (Some (Some (trim_eol b)), pm_log p)"
      using assms(1,2,4,5) clean by (simp_all add: decrypt_some)
    moreover obtain rc i j where "set_item (pm_authtok p) (trim_eol a) = (rc, i)"
      "set_item (pm_authtok p) (trim_eol b) = (rc, j)" using assms(8) by (metis prod.collapse)
    ultimately show ?thesis using nul
      by (simp add: pam_sm_authenticate_def supply_authtok_def to_token_def)
  next
    case False
    have "run SYSTEMD_CREDS c' l = run SYSTEMD_CREDS c l" for l
      using False assms(1-3)
      by (auto simp: run_def clean_exit_def Let_def split: sum.split option.split)
    moreover have "fst (decrypt c (pm_log p)) = None \<or> fst (decrypt c (pm_log p)) = Some None"
      using False decrypt_some [of c "pm_log p"] by (metis not_None_eq prod.collapse)
    moreover have "decrypt c' (pm_log p) = decrypt c (pm_log p)"
      using calculation(1) by (simp add: decrypt_def)
    ultimately show ?thesis
      by (auto simp: pam_sm_authenticate_def supply_authtok_def split: prod.split option.split)
  qed
qed

definition sample_child :: "string \<Rightarrow> child" where
  "sample_child out =
     \<lparr>ch_spawn = Ok (), ch_pipes = True, ch_threads = True, ch_stdout = Some (Ok out),
      ch_polls = (\<lambda>n. if n < 2 then TwRunning else TwExited \<lparr>ex_success = True, ex_text = ''exit status: 0''\<rparr>),
      ch_delays = (\<lambda>_. 0), ch_stderr = Some []\<rparr>"

theorem log_independent_of_secret_witness:
  "pm_log (snd (pam_sm_authenticate (\<lambda>_ t. (0, Some t)) (sample_child ''s3cret'') \<lparr>pm_authtok = None, pm_log = []\<rparr>)) =
   pm_log (snd (pam_sm_authenticate (\<lambda>_ t. (0, Some t)) (sample_child ''other'') \<lparr>pm_authtok = None, pm_log = []\<rparr>))"
  by (rule log_independent_of_secret [where a = "''s3cret''" and b = "''other''"])
    (simp_all add: sample_child_def trim_eol_def trim_end_matches_def NL_def CR_def)

text \<open>A line of the helper's error output that is logged holds no line feed and has at most 200
  characters, whatever bytes the helper wrote.\<close>

theorem logged_line_bounded:
  "char_count (first_line bytes) \<le> LINE_CAP \<and> NL \<notin> set (first_line bytes)"
proof -
  have "NL \<notin> set (takeWhile (\<lambda>b. b \<noteq> NL) bytes)" by (auto dest: set_takeWhileD)
  then have "NL \<notin> set (trim (from_utf8_lossy (takeWhile (\<lambda>b. b \<noteq> NL) bytes)))"
    using lossy_no_nl trim_subset by blast
  then show ?thesis
    using char_count_take set_take_chars [of LINE_CAP] by (auto simp: first_line_def Let_def)
qed

end
