(* ===== verification/Sensor.thy ===== *)
theory Sensor
  imports Usb
begin

text \<open>
  What the sensor says about itself (\<open>elanprint-login/src/sensor.rs\<close>), read from sysfs, and the texts
  the window makes of it.  A device directory is a function from the name of a file to what reading it
  gives; the listing of the directory may fail as a whole or at an entry.
\<close>

unbundle bit_operations_syntax

subsection \<open>Numbers in base sixteen\<close>

definition hex_val :: "char \<Rightarrow> nat option" where
  "hex_val c =
     (let n = (of_char c :: nat) in
      if 48 \<le> n \<and> n \<le> 57 then Some (n - 48)
      else if 97 \<le> n \<and> n \<le> 102 then Some (n - 87)
      else if 65 \<le> n \<and> n \<le> 70 then Some (n - 55)
      else None)"

text \<open>\<open>from_str_radix(raw, 16)\<close>: as \<open>parse\<close>, with digits of either case.\<close>

fun hex_digits :: "nat \<Rightarrow> nat \<Rightarrow> string \<Rightarrow> nat option" where
  "hex_digits mx acc [] = Some acc"
| "hex_digits mx acc (c # cs) =
     (case hex_val c of
        None \<Rightarrow> None
      | Some d \<Rightarrow> (let n = 16 * acc + d in if n \<le> mx then hex_digits mx n cs else None))"

definition parse_hex :: "nat \<Rightarrow> string \<Rightarrow> nat option" where
  "parse_hex mx s =
     (case s of
        [] \<Rightarrow> None
      | c # cs \<Rightarrow> (if c = CHR ''+'' then (if cs = [] then None else hex_digits mx 0 cs)
                  else hex_digits mx 0 s))"

subsection \<open>The sensor\<close>

type_synonym dir = "string \<Rightarrow> io_error + string"

definition SENSOR_VID :: string where "SENSOR_VID = ''04f3''"
definition SENSOR_PID :: string where "SENSOR_PID = ''0c90''"

record sensor =
  sn_vendor :: string
  sn_product :: string
  sn_manufacturer :: "string option"
  sn_name :: "string option"
  sn_bus :: "string option"
  sn_firmware :: "string option"

definition sensor_title :: "sensor \<Rightarrow> string" where
  "sensor_title s =
     (case (sn_manufacturer s, sn_name s) of
        (Some m, Some n) \<Rightarrow> m @ '' '' @ n
      | (None, Some n) \<Rightarrow> n
      | (Some m, None) \<Rightarrow> m @ '' '' @ sn_vendor s @ '':'' @ sn_product s
      | (None, None) \<Rightarrow> ''ELAN '' @ sn_vendor s @ '':'' @ sn_product s)"

definition sensor_address :: "sensor \<Rightarrow> string" where
  "sensor_address s =
     (case sn_bus s of
        Some b \<Rightarrow> sn_vendor s @ '':'' @ sn_product s @ '' on USB bus '' @ b
      | None \<Rightarrow> sn_vendor s @ '':'' @ sn_product s)"

definition sensor_ids :: "sensor \<Rightarrow> string" where
  "sensor_ids s = sn_vendor s @ '':'' @ sn_product s"

datatype found = Supported sensor | Unsupported sensor | NoSensor

definition attr :: "dir \<Rightarrow> string \<Rightarrow> string option" where
  "attr d name =
     (case d name of
        Err _ \<Rightarrow> None
      | Ok content \<Rightarrow> (let t = trim content in if t = [] then None else Some t))"

definition nibble :: "nat \<Rightarrow> u16 \<Rightarrow> u16" where
  "nibble k v = drop_bit k v AND 0xf"

definition firmware :: "string \<Rightarrow> string option" where
  "firmware raw =
     (case parse_hex 65535 raw of
        None \<Rightarrow> None
      | Some n \<Rightarrow>
          (let v = word_of_nat n;
               major = nibble 12 v * 10 + nibble 8 v;
               minor = nibble 4 v * 10 + nibble 0 v
           in Some (show_nat (unat major) @ ''.'' @ show_nat (unat minor))))"

text \<open>The body of the loop of \<open>scan\<close>: the sensor of a directory, if it is from ELAN.\<close>

definition dir_sensor :: "dir \<Rightarrow> sensor option" where
  "dir_sensor d =
     (case attr d ''idVendor'' of
        None \<Rightarrow> None
      | Some vendor \<Rightarrow>
          (if vendor \<noteq> SENSOR_VID then None
           else (case attr d ''idProduct'' of
               None \<Rightarrow> None
             | Some product \<Rightarrow>
                 Some \<lparr>sn_vendor = vendor, sn_product = product, sn_manufacturer = attr d ''manufacturer'',
                   sn_name = attr d ''product'', sn_bus = attr d ''busnum'',
                   sn_firmware = Option.bind (attr d ''bcdDevice'') firmware\<rparr>)))"

fun scan_loop :: "(io_error + dir) list \<Rightarrow> sensor option \<Rightarrow> found" where
  "scan_loop [] other = (case other of Some s \<Rightarrow> Unsupported s | None \<Rightarrow> NoSensor)"
| "scan_loop (Err _ # rest) other = scan_loop rest other"
| "scan_loop (Ok d # rest) other =
     (case dir_sensor d of
        None \<Rightarrow> scan_loop rest other
      | Some s \<Rightarrow> (if sn_product s = SENSOR_PID then Supported s else scan_loop rest (Some s)))"

definition scan :: "io_error + (io_error + dir) list \<Rightarrow> found" where
  "scan listing = (case listing of Err _ \<Rightarrow> NoSensor | Ok entries \<Rightarrow> scan_loop entries None)"

subsection \<open>What is shown of it\<close>

datatype weight = Plain | Weak | Warning

text \<open>\<open>sensor_identity\<close>: the lines shown without a connection.\<close>

definition sensor_identity :: "found \<Rightarrow> (string \<times> weight) list" where
  "sensor_identity f =
     (case f of
        Supported s \<Rightarrow> [(sensor_title s, Plain), (sensor_address s, Weak)]
      | Unsupported s \<Rightarrow>
          [(''Found ELAN '' @ sensor_ids s @ '', which this driver does not support.'', Warning),
           (''Only 04f3:0c90 is supported.'', Weak)]
      | NoSensor \<Rightarrow> [(''No ELAN fingerprint sensor on this machine.'', Weak)])"

text \<open>\<open>sensor_info\<close>: the rows of the panel shown once connected, from the fingers and the stages.\<close>

definition sensor_info :: "found \<Rightarrow> string list \<Rightarrow> byte \<Rightarrow> (string \<times> string) list option" where
  "sensor_info f fingers stages =
     (case f of
        Supported s \<Rightarrow>
          Some [(''Device'', sensor_title s),
            (''Firmware'', case sn_firmware s of Some v \<Rightarrow> v | None \<Rightarrow> ''unknown''),
            (''Enrol stages'', if stages > 0 then show_nat (unat stages) else ''unknown until claimed''),
            (''Templates enrolled'', show_nat (length (filter (\<lambda>g. g \<noteq> ''any'') fingers)))]
      | _ \<Rightarrow> None)"

subsection \<open>Properties\<close>

lemma nibble_unat: "unat (nibble k v) = unat v div 2 ^ k mod 16"
proof -
  have "nibble k v = take_bit 4 (drop_bit k v)"
    by (simp add: nibble_def take_bit_eq_mask mask_eq_exp_minus_1)
  then have "unat (nibble k v) = take_bit 4 (drop_bit k (unat v))"
    by (simp only: unsigned_take_bit_eq unat_drop_bit_eq)
  then show ?thesis by (simp add: take_bit_eq_mod drop_bit_eq_div)
qed

lemma two_nibbles: "unat (nibble j v * 10 + nibble k v) = unat v div 2 ^ j mod 16 * 10 + unat v div 2 ^ k mod 16"
proof -
  have "unat (nibble j v) < 16" "unat (nibble k v) < 16" by (simp_all add: nibble_unat)
  then have "unat (nibble j v) * 10 + unat (nibble k v) < 2 ^ 16" by simp
  then show ?thesis
    by (simp add: unat_word_ariths nibble_unat [symmetric])
qed

text \<open>The version read from four digits that are decimal.\<close>

definition bcd :: "nat \<Rightarrow> nat \<Rightarrow> string" where
  "bcd major minor = map hex_digit [major div 10, major mod 10, minor div 10, minor mod 10]"

lemma hex_val_digit: "d < 10 \<Longrightarrow> hex_val (hex_digit d) = Some d"
  by (simp add: hex_val_def hex_digit_def)

lemma hex_digit_not_plus: "d < 10 \<Longrightarrow> hex_digit d \<noteq> CHR ''+''"
proof
  assume d: "d < 10" and "hex_digit d = CHR ''+''"
  then have "(of_char (hex_digit d) :: nat) = 43" by simp
  with d show False by (simp add: hex_digit_def)
qed

lemma parse_bcd:
  assumes "a < 10" "b < 10" "c < 10" "d < 10"
  shows "parse_hex 65535 (map hex_digit [a, b, c, d]) = Some (4096 * a + 256 * b + 16 * c + d)"
  using assms by (simp add: parse_hex_def hex_digit_not_plus hex_val_digit Let_def)

lemma power4_16: "(2 :: nat) ^ 4 = 16"
  by simp

lemma four_digits:
  fixes a b c d :: nat
  assumes "a < 10" "b < 10" "c < 10" "d < 10"
  defines "n \<equiv> 4096 * a + 256 * b + 16 * c + d"
  shows "n < 65536" "n div 2 ^ 12 mod 16 = a" "n div 2 ^ 8 mod 16 = b" "n div 2 ^ 4 mod 16 = c" "n div 2 ^ 0 mod 16 = d"
proof -
  have q: "n div 4096 = a" "n div 256 = 16 * a + b" "n div 16 = 16 * (16 * a + b) + c"
    using assms by (auto simp: n_def intro!: div_nat_eqI)
  then show "n div 2 ^ 12 mod 16 = a" "n div 2 ^ 8 mod 16 = b" using assms(1-4) by simp_all
  have "(16 * m + c) mod 16 = c" for m using assms(3) by simp
  then show "n div 2 ^ 4 mod 16 = c" using q(3) by (subst power4_16) (simp only: q(3))
  have "(16 * m + d) mod 16 = d" for m using assms(4) by simp
  moreover have "n = 16 * (256 * a + 16 * b + c) + d" by (simp add: n_def)
  ultimately have "n mod 16 = d" by metis
  then show "n div 2 ^ 0 mod 16 = d" by (simp only: power_0 div_by_1)
  show "n < 65536" using assms unfolding n_def by linarith
qed

text \<open>The firmware version is read as it is packed: for every version of two two-digit numbers, the
  four digits of \<open>bcdDevice\<close> give back exactly the two numbers, without leading zeros, and the 16-bit
  arithmetic never wraps.\<close>

theorem firmware_roundtrip:
  assumes "major < 100" and "minor < 100"
  shows "firmware (bcd major minor) = Some (show_nat major @ ''.'' @ show_nat minor)"
proof -
  let ?a = "major div 10" and ?b = "major mod 10" and ?c = "minor div 10" and ?d = "minor mod 10"
  let ?n = "4096 * ?a + 256 * ?b + 16 * ?c + ?d" and ?v = "word_of_nat (4096 * ?a + 256 * ?b + 16 * ?c + ?d) :: u16"
  have lt: "?a < 10" "?b < 10" "?c < 10" "?d < 10" using assms by auto
  note n_facts = four_digits [OF lt]
  have n: "unat ?v = ?n"
  proof -
    have "unat (word_of_nat k :: u16) = k" if "k < 65536" for k
      using that by (simp add: unsigned_of_nat take_bit_eq_mod)
    from this [OF n_facts(1)] show ?thesis .
  qed
  have "unat (nibble 12 ?v * 10 + nibble 8 ?v) = major" "unat (nibble 4 ?v * 10 + nibble 0 ?v) = minor"
    unfolding two_nibbles n n_facts by simp_all
  then show ?thesis using parse_bcd [OF lt] by (simp only: firmware_def bcd_def option.case Let_def)
qed

theorem firmware_roundtrip_witness: "firmware ''0108'' = Some ''1.8'' \<and> firmware ''0112'' = Some ''1.12''"
proof -
  have "bcd 1 8 = ''0108''" "bcd 1 12 = ''0112''" "show_nat 1 = ''1''" "show_nat 8 = ''8''" "show_nat 12 = ''12''"
    by code_simp+
  then show ?thesis using firmware_roundtrip [of 1 8] firmware_roundtrip [of 1 12] by simp
qed

text \<open>The scan finds the supported reader wherever it is listed: unreadable entries and devices of
  other makers are passed over, the first 04f3:0c90 is returned, another ELAN device (the last one)
  only when there is none.\<close>

definition readable_dirs :: "(io_error + dir) list \<Rightarrow> dir list" where
  "readable_dirs entries = List.map_filter (\<lambda>e. case e of Ok d \<Rightarrow> Some d | Err _ \<Rightarrow> None) entries"

theorem scan_prefers_supported:
  "scan (Ok entries) =
     (let elan = List.map_filter dir_sensor (readable_dirs entries) in
      case List.find (\<lambda>s. sn_product s = SENSOR_PID) elan of
        Some s \<Rightarrow> Supported s
      | None \<Rightarrow> (if elan = [] then NoSensor else Unsupported (last elan)))"
proof -
  have "scan_loop entries other =
     (let elan = List.map_filter dir_sensor (readable_dirs entries) in
      case List.find (\<lambda>s. sn_product s = SENSOR_PID) elan of
        Some s \<Rightarrow> Supported s
      | None \<Rightarrow> (case if elan = [] then other else Some (last elan) of Some s \<Rightarrow> Unsupported s | None \<Rightarrow> NoSensor))"
    for other
    by (induction entries other rule: scan_loop.induct)
      (auto simp: readable_dirs_def List.map_filter_simps Let_def split: option.split)
  then show ?thesis by (auto simp: scan_def Let_def split: option.split)
qed

end
