(* ===== verification/TestsKeyring.thy ===== *)
theory TestsKeyring
  imports TestsProto PamStack PamModule Sensor
begin

text \<open>
  The unit tests of \<open>elanprint-keyring-setup\<close>, \<open>pam-elanprint-keyring\<close> and of \<open>sensor.rs\<close> in
  \<open>elanprint-login\<close>, run on the model, as in \<open>TestsProto\<close>.  The tests of the module that start a real
  program are given the helper process that this program is.
\<close>

subsection \<open>\<open>elanprint-keyring-setup/src/pam.rs\<close> and \<open>preflight.rs\<close>\<close>

definition STACK :: string where
  "STACK = unlines
     [''#%PAM-1.0'', ''auth    requisite       pam_nologin.so'',
      ''auth'' @ [TAB] @ ''required'' @ [TAB] @ ''pam_fprintd.so'',
      ''auth    optional        pam_gnome_keyring.so'', ''@include common-account'',
      ''session optional        pam_gnome_keyring.so auto_start'']"

text \<open>\<open>match insert(..) { Ok(Change::Added(text)) => text, _ => String::new() }\<close>, and
  \<open>matches(..).count()\<close> for a pattern that does not overlap with itself.\<close>

definition added_text :: "string + change \<Rightarrow> string" where
  "added_text r = (case r of Ok (Added content) \<Rightarrow> content | _ \<Rightarrow> [])"

fun match_count :: "string \<Rightarrow> string \<Rightarrow> nat" where
  "match_count pat [] = 0"
| "match_count pat (c # s) = (if starts_with (c # s) pat then Suc (match_count pat s) else match_count pat s)"

definition pam_tests :: "(string \<times> bool) list" where
  "pam_tests =
     (let out = added_text (pam_insert STACK) in
     [(''the_line_lands_directly_above_the_keyring_module'',
         (case (position (\<lambda>l. contains_str l MODULE) (lines out), position is_keyring_auth (lines out)) of
            (Some a, Some b) \<Rightarrow> a + 1 = b | _ \<Rightarrow> False)),
      (''the_session_line_is_left_alone'',
         contains_str out ''session optional        pam_gnome_keyring.so auto_start'' \<and>
         match_count MODULE out = 1),
      (''inserting_twice_changes_nothing'', pam_insert out = Ok AlreadyPresent),
      (''remove_undoes_insert'', pam_remove out = Some STACK),
      (''remove_reports_nothing_to_do'', pam_remove STACK = None),
      (''a_stack_without_the_keyring_module_is_refused'',
         \<not> is_ok (pam_insert (''auth required pam_fprintd.so'' @ [NL])))])"

definition preflight_tests :: "(string \<times> bool) list" where
  "preflight_tests =
     [(''the_keyring_auth_line_is_found_but_not_the_session_one'',
         is_keyring_auth ''auth    optional        pam_gnome_keyring.so'' \<and>
         is_keyring_auth (''auth'' @ [TAB] @ ''optional'' @ [TAB] @ ''pam_gnome_keyring.so'') \<and>
         \<not> is_keyring_auth ''session optional        pam_gnome_keyring.so auto_start'' \<and>
         \<not> is_keyring_auth ''# auth optional pam_gnome_keyring.so'' \<and>
         \<not> is_keyring_auth ''auth required pam_fprintd.so''),
      (''a_commented_out_module_line_does_not_count_as_wired'',
         is_our_line ''auth optional pam_elanprint_keyring.so'' \<and>
         \<not> is_our_line ''# auth optional pam_elanprint_keyring.so'' \<and>
         \<not> is_our_line ''auth optional pam_gnome_keyring.so'')]"

definition STACK_WIRED :: string where
  "STACK_WIRED = unlines
     [''#%PAM-1.0'', ''auth    requisite       pam_nologin.so'',
      ''auth'' @ [TAB] @ ''required'' @ [TAB] @ ''pam_fprintd.so'', LINE,
      ''auth    optional        pam_gnome_keyring.so'', ''@include common-account'',
      ''session optional        pam_gnome_keyring.so auto_start'']"

lemma stack_inserted: "pam_insert STACK = Ok (Added STACK_WIRED)"
  by code_simp

lemma stack_removed: "pam_remove STACK_WIRED = Some STACK"
  by code_simp

lemma stack_inserted_twice: "pam_insert STACK_WIRED = Ok AlreadyPresent"
  by code_simp

lemma stack_nothing_to_remove: "pam_remove STACK = None"
  by code_simp

lemma stack_positions:
  "position (\<lambda>l. contains_str l MODULE) (lines STACK_WIRED) = Some 3 \<and>
   position is_keyring_auth (lines STACK_WIRED) = Some 4"
  by code_simp

lemma stack_session_line:
  "contains_str STACK_WIRED ''session optional        pam_gnome_keyring.so auto_start''"
  "match_count MODULE STACK_WIRED = 1"
  by code_simp+

lemma stack_refused: "\<not> is_ok (pam_insert (''auth required pam_fprintd.so'' @ [NL]))"
  by code_simp

lemma pam_tests_pass: "all_pass pam_tests"
proof -
  have "added_text (pam_insert STACK) = STACK_WIRED"
    by (simp add: added_text_def stack_inserted)
  then show ?thesis
    using stack_positions stack_session_line stack_refused
    by (simp add: all_pass_def pam_tests_def stack_inserted_twice stack_removed stack_nothing_to_remove)
qed

lemma preflight_tests_pass: "all_pass preflight_tests"
  by code_simp

subsection \<open>\<open>pam-elanprint-keyring/src/lib.rs\<close>\<close>

definition PAM_AUTHTOK :: int where "PAM_AUTHTOK = 6"

text \<open>A program that writes \<open>out\<close> and \<open>err\<close> and ends with exit code \<open>code\<close>; one that never ends; one
  that is not there.\<close>

definition ends_with :: "nat \<Rightarrow> string \<Rightarrow> string \<Rightarrow> child" where
  "ends_with code out err =
     \<lparr>ch_spawn = Ok (), ch_pipes = True, ch_threads = True, ch_stdout = Some (Ok out),
      ch_polls = (\<lambda>_. TwExited \<lparr>ex_success = (code = 0), ex_text = ''exit status: '' @ show_nat code\<rparr>),
      ch_delays = (\<lambda>_. 0), ch_stderr = Some err\<rparr>"

definition never_ends :: child where
  "never_ends = (ends_with 0 [] [])\<lparr>ch_stdout := None, ch_polls := (\<lambda>_. TwRunning), ch_stderr := None\<rparr>"

definition not_there :: child where
  "not_there = (ends_with 0 [] [])\<lparr>ch_spawn := Err ''No such file or directory''\<rparr>"

definition module_tests :: "(string \<times> bool) list" where
  "module_tests =
     [(''constants_match_the_shipped_pam_header'', PAM_SUCCESS = 0 \<and> PAM_AUTHTOK = 6 \<and> PAM_IGNORE = 25),
      (''setcred_succeeds_or_the_auth_stack_breaks'',
         fst (pam_sm_setcred \<lparr>pm_authtok = None, pm_log = []\<rparr>) = PAM_SUCCESS),
      (''a_missing_helper_is_not_fatal'', fst (decrypt not_there []) = Some None),
      (''a_hanging_helper_is_killed_and_reported_as_nothing'',
         fst (run ''/usr/bin/sleep'' never_ends []) = Some None),
      (''a_failing_helper_yields_nothing'', fst (run ''/usr/bin/false'' (ends_with 1 [] []) []) = Some None),
      (''a_failure_with_stderr_still_yields_nothing'',
         fst (run ''/bin/sh'' (ends_with 3 [] (''sealed key unavailable'' @ [NL])) []) = Some None),
      (''stderr_reduces_to_one_bounded_line'',
         first_line (''boom'' @ NL # ''second line'' @ [NL]) = ''boom'' \<and>
         first_line ''  padded  '' = ''padded'' \<and> first_line [] = [] \<and>
         first_line [CHR 0xff, CHR 0xfe] \<noteq> [] \<and>
         char_count (first_line (replicate 500 CHR ''x'')) = LINE_CAP),
      (''stdout_is_captured'',
         fst (run ''/usr/bin/printf'' (ends_with 0 ''opensesame'' []) []) = Some (Some ''opensesame'')),
      (''trailing_newlines_go_but_inner_bytes_stay'',
         trim_eol (''secret'' @ [NL]) = ''secret'' \<and> trim_eol (''secret'' @ [CR, NL, NL]) = ''secret'' \<and>
         trim_eol (''se'' @ NL # ''cret'') = ''se'' @ NL # ''cret'' \<and> trim_eol [] = []),
      (''an_interior_nul_is_refused'', fst (to_token (''one'' @ CHR 0x00 # ''two'') []) = None),
      (''a_plain_secret_becomes_a_c_string'', fst (to_token ''opensesame'' []) = Some ''opensesame'')]"

lemma take_replicate: "take_chars n (replicate m CHR ''x'') = replicate (min n m) CHR ''x''"
  by (induction m arbitrary: n) (simp_all add: is_cont_def split: nat.split)

lemma capped_line: "char_count (first_line (replicate 500 CHR ''x'')) = LINE_CAP"
proof -
  let ?s = "replicate 500 CHR ''x''"
  have "takeWhile (\<lambda>b. b \<noteq> NL) ?s = ?s" by (simp add: takeWhile_eq_all_conv NL_def)
  moreover have "from_utf8_lossy ?s = ?s" by (rule from_utf8_lossy_ascii) simp
  moreover have "trim ?s = ?s"
    by (simp add: trim_def trim_start_def trim_end_matches_def dropWhile_eq_self_iff is_space_def)
  moreover have "char_count (replicate n CHR ''x'') = n" for n by (simp add: char_count_def is_cont_def)
  ultimately show ?thesis by (simp add: first_line_def Let_def LINE_CAP_def take_replicate)
qed

lemma module_tests_pass: "all_pass module_tests"
  by (simp add: all_pass_def module_tests_def capped_line) code_simp

subsection \<open>\<open>elanprint-login/src/sensor.rs\<close>\<close>

definition sensor_tests :: "(string \<times> bool) list" where
  "sensor_tests =
     (let s = \<lparr>sn_vendor = ''04f3'', sn_product = ''0c90'', sn_manufacturer = None, sn_name = None,
               sn_bus = Some ''1'', sn_firmware = None\<rparr> in
     [(''bcd_device_reads_as_a_version'',
         firmware ''0108'' = Some ''1.8'' \<and> firmware ''0200'' = Some ''2.0'' \<and>
         firmware ''0112'' = Some ''1.12'' \<and> firmware ''zzzz'' = None),
      (''a_unit_with_no_strings_still_has_a_title'',
         sensor_title s = ''ELAN 04f3:0c90'' \<and> sensor_address s = ''04f3:0c90 on USB bus 1''),
      (''strings_are_used_when_the_unit_populates_them'',
         sensor_title (s\<lparr>sn_manufacturer := Some ''ELAN'', sn_name := Some ''ELAN:ARM-M4'',
           sn_firmware := Some ''1.8''\<rparr>) = ''ELAN ELAN:ARM-M4'')])"

lemma sensor_tests_pass: "all_pass sensor_tests"
  by (simp add: all_pass_def sensor_tests_def sensor_title_def sensor_address_def firmware_def
      parse_hex_def hex_val_def nibble_def show_nat.simps digit_char_def) code_simp

end
