(* ===== verification/Store.thy ===== *)
theory Store
  imports Proto
begin

text \<open>
  The crate \<open>elanprint-store\<close> (\<open>lib.rs\<close>): which finger of which user sits in which slot, its
  JSON file, the slots an enrolment may write, and the comparison with a device scan.  The file
  system is a map from paths (lists of components) to texts with a fault oracle on the operations;
  \<open>serde_json\<close> is a pair of functions in the environment.  The lemmas give the refinement to a
  partial map from (user, finger) to slots, slot uniqueness, and the atomicity of \<open>save\<close>.
\<close>

subsection \<open>The file system\<close>

type_synonym path = "string list"

text \<open>
  \<open>fs_fault n\<close> is the failure of the \<open>n\<close>-th operation, with the number of bytes a failing write
  leaves behind.  A crash before operation \<open>n\<close> leaves the same files as a fault there.
\<close>

record fsys =
  fs_files :: "path \<Rightarrow> string option"
  fs_count :: nat
  fs_fault :: "nat \<Rightarrow> (io_error \<times> nat) option"
  fs_salt :: "64 word"

definition fs_tick :: "fsys \<Rightarrow> fsys" where
  "fs_tick fs = fs\<lparr>fs_count := fs_count fs + 1\<rparr>"

definition read_to_string :: "path \<Rightarrow> fsys \<Rightarrow> (io_error + string) \<times> fsys" where
  "read_to_string p fs =
     (case fs_fault fs (fs_count fs) of
        Some (e, _) \<Rightarrow> (Err e, fs_tick fs)
      | None \<Rightarrow> (case fs_files fs p of
          Some text \<Rightarrow> (Ok text, fs_tick fs) | None \<Rightarrow> (Err IoNotFound, fs_tick fs)))"

definition create_dir_all :: "path \<Rightarrow> fsys \<Rightarrow> (io_error + unit) \<times> fsys" where
  "create_dir_all p fs =
     (case fs_fault fs (fs_count fs) of
        Some (e, _) \<Rightarrow> (Err e, fs_tick fs) | None \<Rightarrow> (Ok (), fs_tick fs))"

text \<open>Open with \<open>write\<close>, \<open>create\<close> and \<open>truncate\<close>.\<close>

definition open_truncate :: "path \<Rightarrow> fsys \<Rightarrow> (io_error + unit) \<times> fsys" where
  "open_truncate p fs =
     (case fs_fault fs (fs_count fs) of
        Some (e, _) \<Rightarrow> (Err e, fs_tick fs)
      | None \<Rightarrow> (Ok (), fs_tick (fs\<lparr>fs_files := (fs_files fs)(p := Some [])\<rparr>)))"

definition write_all :: "path \<Rightarrow> string \<Rightarrow> fsys \<Rightarrow> (io_error + unit) \<times> fsys" where
  "write_all p text fs =
     (case fs_fault fs (fs_count fs) of
        Some (e, n) \<Rightarrow> (Err e, fs_tick (fs\<lparr>fs_files := (fs_files fs)(p := Some (take n text))\<rparr>))
      | None \<Rightarrow> (Ok (), fs_tick (fs\<lparr>fs_files := (fs_files fs)(p := Some text)\<rparr>)))"

definition sync_all :: "fsys \<Rightarrow> (io_error + unit) \<times> fsys" where
  "sync_all fs =
     (case fs_fault fs (fs_count fs) of
        Some (e, _) \<Rightarrow> (Err e, fs_tick fs) | None \<Rightarrow> (Ok (), fs_tick fs))"

definition rename_file :: "path \<Rightarrow> path \<Rightarrow> fsys \<Rightarrow> (io_error + unit) \<times> fsys" where
  "rename_file a b fs =
     (case fs_fault fs (fs_count fs) of
        Some (e, _) \<Rightarrow> (Err e, fs_tick fs)
      | None \<Rightarrow> (case fs_files fs a of
          None \<Rightarrow> (Err IoNotFound, fs_tick fs)
        | Some text \<Rightarrow> (Ok (), fs_tick (fs\<lparr>fs_files := (fs_files fs)(a := None, b := Some text)\<rparr>))))"

lemmas fs_ops = read_to_string_def create_dir_all_def open_truncate_def write_all_def sync_all_def
  rename_file_def fs_tick_def

definition path_parent :: "path \<Rightarrow> path option" where
  "path_parent p = (if p = [] then None else Some (butlast p))"

subsection \<open>Data\<close>

definition DEFAULT_PATH :: path where
  "DEFAULT_PATH = [''var'', ''lib'', ''elanprint'', ''prints.json'']"

definition MAX_SLOT :: byte where "MAX_SLOT = 15"

definition FINGER_NAMES :: "string list" where
  "FINGER_NAMES =
     [''left-thumb'', ''left-index-finger'', ''left-middle-finger'', ''left-ring-finger'',
      ''left-little-finger'', ''right-thumb'', ''right-index-finger'', ''right-middle-finger'',
      ''right-ring-finger'', ''right-little-finger'']"

definition is_valid_finger :: "string \<Rightarrow> bool" where
  "is_valid_finger name \<longleftrightarrow> name \<in> set FINGER_NAMES"

type_synonym fingers = "(string, byte) btree"
type_synonym prints = "(string, fingers) btree"

datatype store_error =
    StIo io_error
  | StParse string
  | BadFinger string
  | SlotTaken byte string string

record store =
  st_path :: path
  st_prints :: prints

text \<open>\<open>serde_json\<close>, the process id and the variable \<open>ELANPRINT_ENROLL_STAGES\<close>.\<close>

record env =
  json_parse :: "string \<Rightarrow> string + prints"
  json_print :: "prints \<Rightarrow> string + string"
  env_pid :: nat
  env_stages :: "string option"

subsection \<open>Operations\<close>

definition store_open :: "env \<Rightarrow> path \<Rightarrow> fsys \<Rightarrow> (store_error + store) \<times> fsys" where
  "store_open env path fs =
     (case read_to_string path fs of
        (Ok text, fs1) \<Rightarrow>
          (case json_parse env text of
             Ok p \<Rightarrow> (Ok \<lparr>st_path = path, st_prints = p\<rparr>, fs1)
           | Err e \<Rightarrow> (Err (StParse e), fs1))
      | (Err e, fs1) \<Rightarrow>
          (if e = IoNotFound then (Ok \<lparr>st_path = path, st_prints = []\<rparr>, fs1)
           else (Err (StIo e), fs1)))"

text \<open>All entries in iteration order.\<close>

definition entries :: "prints \<Rightarrow> (string \<times> string \<times> byte) list" where
  "entries p = concat (map (\<lambda>(u, fingers). map (\<lambda>(f, s). (u, f, s)) fingers) p)"

definition store_insert :: "string \<Rightarrow> string \<Rightarrow> byte \<Rightarrow> store \<Rightarrow> (store_error + unit) \<times> store" where
  "store_insert user finger slot st =
     (if \<not> is_valid_finger finger then (Err (BadFinger finger), st)
      else
        (case List.find (\<lambda>(u, f, s). s = slot \<and> (u \<noteq> user \<or> f \<noteq> finger)) (entries (st_prints st)) of
           Some (u, f, _) \<Rightarrow> (Err (SlotTaken slot u f), st)
         | None \<Rightarrow>
             (let fingers = (case bt_get (st_prints st) user of Some m \<Rightarrow> m | None \<Rightarrow> []) in
              (Ok (), st\<lparr>st_prints := bt_insert user (bt_insert finger slot fingers) (st_prints st)\<rparr>))))"

definition store_remove :: "string \<Rightarrow> string \<Rightarrow> store \<Rightarrow> store" where
  "store_remove user finger st =
     (case bt_get (st_prints st) user of
        None \<Rightarrow> st
      | Some fingers \<Rightarrow>
          (let fingers' = bt_remove finger fingers in
           if fingers' = [] then st\<lparr>st_prints := bt_remove user (st_prints st)\<rparr>
           else st\<lparr>st_prints := bt_insert user fingers' (st_prints st)\<rparr>))"

definition tmp_name :: "nat \<Rightarrow> 64 word \<Rightarrow> string" where
  "tmp_name pid n = ''.prints.'' @ show_nat pid @ ''.'' @ show_nat (unat n) @ ''.tmp''"

definition store_save :: "env \<Rightarrow> store \<Rightarrow> fsys \<Rightarrow> (store_error + unit) \<times> fsys" where
  "store_save env st fs =
     (case path_parent (st_path st) of
        None \<Rightarrow> (Err (StIo IoNotFound), fs)
      | Some dir \<Rightarrow>
          (case create_dir_all dir fs of
             (Err e, fs1) \<Rightarrow> (Err (StIo e), fs1)
           | (Ok _, fs1) \<Rightarrow>
               (let n = fs_salt fs1; fs1 = fs1\<lparr>fs_salt := n + 1\<rparr>;
                    tmp = dir @ [tmp_name (env_pid env) n] in
                case json_print env (st_prints st) of
                  Err e \<Rightarrow> (Err (StParse e), fs1)
                | Ok text \<Rightarrow>
                    (case open_truncate tmp fs1 of
                       (Err e, fs2) \<Rightarrow> (Err (StIo e), fs2)
                     | (Ok _, fs2) \<Rightarrow>
                         (case write_all tmp text fs2 of
                            (Err e, fs3) \<Rightarrow> (Err (StIo e), fs3)
                          | (Ok _, fs3) \<Rightarrow>
                              (case sync_all fs3 of
                                 (Err e, fs4) \<Rightarrow> (Err (StIo e), fs4)
                               | (Ok _, fs4) \<Rightarrow>
                                   (case rename_file tmp (st_path st) fs4 of
                                      (Err e, fs5) \<Rightarrow> (Err (StIo e), fs5)
                                    | (Ok _, fs5) \<Rightarrow> (Ok (), fs5))))))))"

text \<open>The inclusive range of bytes \<open>a..=b\<close>.\<close>

definition byte_range :: "byte \<Rightarrow> byte \<Rightarrow> byte list" where
  "byte_range a b = map word_of_nat [unat a..<Suc (unat b)]"

definition writable_slots :: "byte \<Rightarrow> byte list \<Rightarrow> byte list" where
  "writable_slots count tracked = filter (\<lambda>i. i \<notin> set tracked) (byte_range count MAX_SLOT)"

definition tracked_slots :: "prints \<Rightarrow> byte list" where
  "tracked_slots p = remdups_adj (sort (concat (map (\<lambda>e. map snd (snd e)) p)))"

record entry_status =
  es_user :: string
  es_finger :: string
  es_slot :: byte
  es_stale :: bool
  es_reason :: string

record sync_report =
  sr_confirmed :: "entry_status list"
  sr_unconfirmed :: "entry_status list"
  sr_stale :: "entry_status list"
  sr_warnings :: "string list"

definition empty_report :: sync_report where
  "empty_report = \<lparr>sr_confirmed = [], sr_unconfirmed = [], sr_stale = [], sr_warnings = []\<rparr>"

definition entry_status_of :: "string \<times> string \<times> byte \<Rightarrow> bool \<Rightarrow> string \<Rightarrow> entry_status" where
  "entry_status_of e stale reason =
     \<lparr>es_user = fst e, es_finger = fst (snd e), es_slot = snd (snd e), es_stale = stale,
      es_reason = reason\<rparr>"

definition reconcile_entry ::
  "(byte, slot_state) btree \<Rightarrow> string \<times> string \<times> byte \<Rightarrow> sync_report \<Rightarrow> sync_report" where
  "reconcile_entry by_slot e rep =
     (case bt_get by_slot (snd (snd e)) of
        Some (SlotEnrolled _) \<Rightarrow>
          rep\<lparr>sr_confirmed := sr_confirmed rep @
               [entry_status_of e False ''70 byte record present'']\<rparr>
      | Some SlotEmpty \<Rightarrow>
          rep\<lparr>sr_stale := sr_stale rep @ [entry_status_of e True ''70 byte record reads empty'']\<rparr>
      | Some SlotStuck \<Rightarrow>
          rep\<lparr>sr_unconfirmed := sr_unconfirmed rep @
               [entry_status_of e False ''sensor reports stuck, run verify to clear'']\<rparr>
      | Some (SlotError _) \<Rightarrow>
          rep\<lparr>sr_unconfirmed := sr_unconfirmed rep @
               [entry_status_of e False ''2 byte form, empty and invalid read alike'']\<rparr>
      | None \<Rightarrow>
          rep\<lparr>sr_unconfirmed := sr_unconfirmed rep @
               [entry_status_of e False ''slot outside the scanned range'']\<rparr>)"

definition is_enrolled_slot :: "slot_state \<Rightarrow> bool" where
  "is_enrolled_slot s = (case s of SlotEnrolled _ \<Rightarrow> True | _ \<Rightarrow> False)"

definition add_warning :: "string \<Rightarrow> sync_report \<Rightarrow> sync_report" where
  "add_warning w rep = rep\<lparr>sr_warnings := sr_warnings rep @ [w]\<rparr>"

definition reconcile :: "prints \<Rightarrow> byte \<Rightarrow> (byte \<times> slot_state) list \<Rightarrow> sync_report" where
  "reconcile p count records =
     (if count = 0 then
        empty_report\<lparr>sr_stale :=
          map (\<lambda>e. entry_status_of e True ''device holds nothing, enrolled_num is 0'') (entries p)\<rparr>
      else
        (let by_slot = bt_collect records;
             rep = fold (reconcile_entry by_slot) (entries p) empty_report;
             claimed = sum_list (map (\<lambda>e. length (snd e)) p);
             rep = (if claimed > unat count then
                      add_warning (''store claims '' @ show_nat claimed @
                        '' fingers but the device counts '' @ show_nat (unat count) @ '', '' @
                        show_nat (length (sr_stale rep)) @ '' proven stale'') rep
                    else rep)
         in fold (\<lambda>(i, state) rep.
               if is_enrolled_slot state \<and> i \<notin> snd ` snd ` set (entries p)
               then add_warning (''slot '' @ show_nat (unat i) @
                      '' holds a template the store does not track'') rep
               else rep) records rep))"

subsection \<open>The mapping as a partial function\<close>

definition slot_of :: "prints \<Rightarrow> string \<times> string \<Rightarrow> byte option" where
  "slot_of p k = (case bt_get p (fst k) of None \<Rightarrow> None | Some m \<Rightarrow> bt_get m (snd k))"

definition prints_wf :: "prints \<Rightarrow> bool" where
  "prints_wf p \<longleftrightarrow> bt_ok p \<and> (\<forall>e \<in> set p. bt_ok (snd e))"

lemma prints_wf_Nil [simp]: "prints_wf []"
  by (simp add: prints_wf_def)

lemma prints_wf_inner: "prints_wf p \<Longrightarrow> bt_get p u = Some m \<Longrightarrow> bt_ok m"
  by (force simp: prints_wf_def dest: bt_get_SomeD)

lemma entries_iff: "prints_wf p \<Longrightarrow> (u, f, s) \<in> set (entries p) \<longleftrightarrow> slot_of p (u, f) = Some s"
proof -
  assume wf: "prints_wf p"
  then have ok: "bt_ok p" by (simp add: prints_wf_def)
  have "(u, f, s) \<in> set (entries p) \<longleftrightarrow> (\<exists>m. (u, m) \<in> set p \<and> (f, s) \<in> set m)"
    by (force simp: entries_def)
  also have "\<dots> \<longleftrightarrow> (\<exists>m. bt_get p u = Some m \<and> bt_get m f = Some s)"
    using bt_get_in [OF ok] bt_get_in prints_wf_inner [OF wf] by metis
  also have "\<dots> \<longleftrightarrow> slot_of p (u, f) = Some s"
    by (simp add: slot_of_def split: option.split)
  finally show ?thesis .
qed

lemma prints_wf_insert: "prints_wf p \<Longrightarrow> bt_ok m \<Longrightarrow> prints_wf (bt_insert u m p)"
  using set_bt_insert [of u m p] by (fastforce simp: prints_wf_def bt.ok_ins)

lemma prints_wf_remove: "prints_wf p \<Longrightarrow> prints_wf (bt_remove u p)"
  by (auto simp: prints_wf_def bt.ok_del) (auto simp: bt_remove_def)

text \<open>Some other entry holds the slot.\<close>

definition slot_held :: "prints \<Rightarrow> string \<times> string \<Rightarrow> byte \<Rightarrow> bool" where
  "slot_held p k slot \<longleftrightarrow> (\<exists>k'. k' \<noteq> k \<and> slot_of p k' = Some slot)"

lemma slot_held_find:
  assumes "prints_wf p"
  shows "List.find (\<lambda>(u, f, s). s = slot \<and> (u \<noteq> user \<or> f \<noteq> finger)) (entries p) = None \<longleftrightarrow>
    \<not> slot_held p (user, finger) slot"
  using entries_iff [OF assms] by (fastforce simp: find_None_iff slot_held_def)

lemma find_member: "List.find P xs = Some x \<Longrightarrow> x \<in> set xs \<and> P x"
  by (induction xs) (auto split: if_splits)

lemma slot_held_found:
  assumes "prints_wf p"
    and "List.find (\<lambda>(u, f, s). s = slot \<and> (u \<noteq> user \<or> f \<noteq> finger)) (entries p) = Some (u, f, s)"
  shows "(u, f) \<noteq> (user, finger) \<and> slot_of p (u, f) = Some slot"
proof -
  from assms(2) have "(u, f, s) \<in> set (entries p)" "s = slot" "u \<noteq> user \<or> f \<noteq> finger"
    by (auto dest!: find_member)
  then show ?thesis using entries_iff [OF assms(1)] by auto
qed

lemma insert_refused:
  assumes "prints_wf (st_prints st)"
    and "\<not> is_valid_finger finger \<or> slot_held (st_prints st) (user, finger) slot"
  shows "\<exists>e. store_insert user finger slot st = (Err e, st)"
  using assms slot_held_find [OF assms(1), of slot user finger]
  by (auto simp: store_insert_def split: option.splits)

lemma insert_accepted:
  assumes "prints_wf (st_prints st)" "is_valid_finger finger"
    and "\<not> slot_held (st_prints st) (user, finger) slot"
  shows "fst (store_insert user finger slot st) = Ok ()"
    and "prints_wf (st_prints (snd (store_insert user finger slot st)))"
    and "slot_of (st_prints (snd (store_insert user finger slot st))) =
      (slot_of (st_prints st))((user, finger) \<mapsto> slot)"
proof -
  define m where "m = (case bt_get (st_prints st) user of Some m \<Rightarrow> m | None \<Rightarrow> [])"
  have step: "store_insert user finger slot st =
      (Ok (), st\<lparr>st_prints := bt_insert user (bt_insert finger slot m) (st_prints st)\<rparr>)"
    using assms(2) iffD2 [OF slot_held_find [OF assms(1)] assms(3)]
    by (simp only: store_insert_def m_def not_True_eq_False if_False option.case Let_def)
  have "bt_ok m" using prints_wf_inner [OF assms(1)] by (simp add: m_def split: option.split)
  then show "prints_wf (st_prints (snd (store_insert user finger slot st)))"
    using assms(1) by (simp add: step prints_wf_insert bt.ok_ins)
  show "fst (store_insert user finger slot st) = Ok ()" by (simp add: step)
  show "slot_of (st_prints (snd (store_insert user finger slot st))) =
      (slot_of (st_prints st))((user, finger) \<mapsto> slot)"
    by (rule ext) (auto simp: step slot_of_def bt_get_insert m_def bt.get_emp split: option.split)
qed

lemma store_insert_path [frame_simps]: "st_path (snd (store_insert u f s st)) = st_path st"
  by (simp add: store_insert_def Let_def split: option.split prod.split)

lemma store_remove_path [frame_simps]: "st_path (store_remove u f st) = st_path st"
  by (simp add: store_remove_def Let_def split: option.split)

lemma remove_wf: "prints_wf (st_prints st) \<Longrightarrow> prints_wf (st_prints (store_remove u f st))"
  by (cases "bt_get (st_prints st) u")
     (auto simp: store_remove_def Let_def intro: prints_wf_insert prints_wf_remove bt.ok_del
      prints_wf_inner)

lemma bt_remove_empty: "bt_remove k m = [] \<Longrightarrow> bt_get m k' = None \<or> k' = k"
  using bt_get_remove [of k m k'] by (auto simp: bt_get_def split: if_splits)

lemma remove_slot_of:
  "slot_of (st_prints (store_remove u f st)) = (slot_of (st_prints st))((u, f) := None)"
proof (rule ext)
  fix k
  show "slot_of (st_prints (store_remove u f st)) k = ((slot_of (st_prints st))((u, f) := None)) k"
  proof (cases "bt_get (st_prints st) u")
    case None
    then show ?thesis by (cases k) (simp add: slot_of_def store_remove_def)
  next
    case (Some m)
    show ?thesis
    proof (cases "bt_remove f m = []")
      case True
      with Some bt_remove_empty [OF this, of "snd k"] show ?thesis
        by (cases k) (auto simp: slot_of_def store_remove_def bt_get_remove)
    next
      case False
      with Some show ?thesis
        by (cases k) (auto simp: slot_of_def store_remove_def bt_get_remove bt_get_insert)
    qed
  qed
qed

text \<open>No slot is mapped twice.\<close>

definition unique_slots :: "('k \<Rightarrow> byte option) \<Rightarrow> bool" where
  "unique_slots m \<longleftrightarrow> (\<forall>k k' x. m k = Some x \<longrightarrow> m k' = Some x \<longrightarrow> k = k')"

lemma unique_slotsD: "unique_slots m \<Longrightarrow> m k = Some x \<Longrightarrow> m k' = Some x \<Longrightarrow> k = k'"
  unfolding unique_slots_def by blast

lemma unique_slots_upd:
  assumes "unique_slots m" "\<forall>k'. k' \<noteq> k \<longrightarrow> m k' \<noteq> Some x"
  shows "unique_slots (m(k \<mapsto> x))"
  unfolding unique_slots_def
proof (intro allI impI)
  fix a b y
  assume "(m(k \<mapsto> x)) a = Some y" "(m(k \<mapsto> x)) b = Some y"
  then show "a = b"
    using assms(2) unique_slotsD [OF assms(1), of a y b] by (auto split: if_splits)
qed

lemma unique_slots_del: "unique_slots m \<Longrightarrow> unique_slots (m(k := None))"
  by (simp add: unique_slots_def)

subsection \<open>The registry interface\<close>

text \<open>
  What the rest of the program relies on: a registry of slots by user and finger.  An insert
  succeeds exactly for a valid finger and a slot no other entry holds.
\<close>

locale slot_registry =
  fixes ok :: "'s \<Rightarrow> bool"
    and look :: "'s \<Rightarrow> string \<times> string \<Rightarrow> byte option"
    and ins :: "string \<Rightarrow> string \<Rightarrow> byte \<Rightarrow> 's \<Rightarrow> (store_error + unit) \<times> 's"
    and rem :: "string \<Rightarrow> string \<Rightarrow> 's \<Rightarrow> 's"
  assumes ins_ok: "ok s \<Longrightarrow> is_valid_finger f \<Longrightarrow> \<forall>k. k \<noteq> (u, f) \<longrightarrow> look s k \<noteq> Some x \<Longrightarrow>
      fst (ins u f x s) = Ok () \<and> ok (snd (ins u f x s)) \<and>
      look (snd (ins u f x s)) = (look s)((u, f) \<mapsto> x)"
    and ins_err: "ok s \<Longrightarrow> \<not> is_valid_finger f \<or> (\<exists>k. k \<noteq> (u, f) \<and> look s k = Some x) \<Longrightarrow>
      \<exists>e. ins u f x s = (Err e, s)"
    and rem_ok: "ok s \<Longrightarrow> ok (rem u f s)"
    and look_rem: "ok s \<Longrightarrow> look (rem u f s) = (look s)((u, f) := None)"
begin

lemma ins_iff:
  assumes "ok s"
  shows "fst (ins u f x s) = Ok () \<longleftrightarrow>
    is_valid_finger f \<and> (\<forall>k. k \<noteq> (u, f) \<longrightarrow> look s k \<noteq> Some x)"
  using ins_ok [OF assms, of f u x] ins_err [OF assms, of f u x] by fastforce

lemma ins_keeps_ok: "ok s \<Longrightarrow> ok (snd (ins u f x s))"
  using ins_ok [of s f u x] ins_err [of s f u x] by fastforce

lemma ins_look:
  assumes "ok s"
  shows "look (snd (ins u f x s)) =
    (if fst (ins u f x s) = Ok () then (look s)((u, f) \<mapsto> x) else look s)"
proof (cases "fst (ins u f x s) = Ok ()")
  case True
  then show ?thesis using ins_iff [OF assms, of u f x] ins_ok [OF assms, of f u x] by simp
next
  case False
  then have "\<not> is_valid_finger f \<or> (\<exists>k. k \<noteq> (u, f) \<and> look s k = Some x)"
    using ins_iff [OF assms, of u f x] by blast
  then obtain e where "ins u f x s = (Err e, s)" using ins_err [OF assms] by blast
  then show ?thesis by simp
qed

text \<open>Slots stay unique.\<close>

lemma ins_keeps_unique:
  assumes "ok s" "unique_slots (look s)"
  shows "unique_slots (look (snd (ins u f x s)))"
proof (cases "fst (ins u f x s) = Ok ()")
  case True
  then have free: "\<forall>k. k \<noteq> (u, f) \<longrightarrow> look s k \<noteq> Some x" using ins_iff [OF assms(1)] by simp
  have "look (snd (ins u f x s)) = (look s)((u, f) \<mapsto> x)" using True ins_look [OF assms(1)] by simp
  with unique_slots_upd [OF assms(2) free] show ?thesis by simp
next
  case False
  then show ?thesis using ins_look [OF assms(1)] assms(2) by simp
qed

lemma rem_keeps_unique: "ok s \<Longrightarrow> unique_slots (look s) \<Longrightarrow> unique_slots (look (rem u f s))"
  by (simp add: look_rem unique_slots_del)

text \<open>Removing an entry frees its slot for any other entry.\<close>

lemma ins_after_rem:
  assumes "ok s" "unique_slots (look s)" and "look s (u, f) = Some x" "is_valid_finger f'"
  shows "fst (ins u' f' x (rem u f s)) = Ok ()"
proof -
  have "look (rem u f s) k \<noteq> Some x" for k
    using unique_slotsD [OF assms(2) _ assms(3), of k] by (auto simp: look_rem [OF assms(1)])
  then show ?thesis using assms(4) ins_iff [OF rem_ok [OF assms(1)]] by simp
qed

end

definition store_wf :: "store \<Rightarrow> bool" where
  "store_wf st \<longleftrightarrow> prints_wf (st_prints st)"

definition store_slot :: "store \<Rightarrow> string \<times> string \<Rightarrow> byte option" where
  "store_slot st = slot_of (st_prints st)"

interpretation registry: slot_registry store_wf store_slot store_insert store_remove
proof unfold_locales
  fix s f u x
  assume "store_wf s" "is_valid_finger f" "\<forall>k. k \<noteq> (u, f) \<longrightarrow> store_slot s k \<noteq> Some x"
  then show "fst (store_insert u f x s) = Ok () \<and> store_wf (snd (store_insert u f x s)) \<and>
      store_slot (snd (store_insert u f x s)) = (store_slot s)((u, f) \<mapsto> x)"
    using insert_accepted [of s f u x] by (auto simp: store_wf_def store_slot_def slot_held_def)
next
  fix s f u x
  assume "store_wf s" "\<not> is_valid_finger f \<or> (\<exists>k. k \<noteq> (u, f) \<and> store_slot s k = Some x)"
  then show "\<exists>e. store_insert u f x s = (Err e, s)"
    using insert_refused [of s f u x] by (auto simp: store_wf_def store_slot_def slot_held_def)
qed (simp_all add: store_wf_def store_slot_def remove_wf remove_slot_of)

subsection \<open>Saving\<close>

definition save_tmp :: "env \<Rightarrow> store \<Rightarrow> fsys \<Rightarrow> path" where
  "save_tmp env st fs = butlast (st_path st) @ [tmp_name (env_pid env) (fs_salt fs)]"

text \<open>The store file is not named like a temporary file of the store.\<close>

definition plain_path :: "path \<Rightarrow> bool" where
  "plain_path p \<longleftrightarrow> p \<noteq> [] \<and> \<not> starts_with (last p) ''.prints.''"

lemma save_tmp_neq: "plain_path (st_path st) \<Longrightarrow> save_tmp env st fs \<noteq> st_path st"
proof
  assume plain: "plain_path (st_path st)" and eq: "save_tmp env st fs = st_path st"
  have "last (st_path st) = tmp_name (env_pid env) (fs_salt fs)"
    by (subst eq [symmetric]) (simp add: save_tmp_def)
  with plain show False by (simp add: plain_path_def tmp_name_def)
qed

text \<open>Outcome of a save by the file it replaces: all of the new text, or nothing changed.\<close>

lemma save_cases:
  assumes "st_path st \<noteq> []" "save_tmp env st fs \<noteq> st_path st"
  obtains (saved) content fs' where "json_print env (st_prints st) = Ok content"
      "store_save env st fs = (Ok (), fs')" "fs_files fs' (st_path st) = Some content"
      "\<And>q. q \<noteq> st_path st \<Longrightarrow> q \<noteq> save_tmp env st fs \<Longrightarrow> fs_files fs' q = fs_files fs q"
      "fs_files fs' (save_tmp env st fs) = None"
    | (failed) e fs' where "store_save env st fs = (Err e, fs')"
      "\<And>q. q \<noteq> save_tmp env st fs \<Longrightarrow> fs_files fs' q = fs_files fs q"
proof -
  have tmp: "butlast (st_path st) @ [tmp_name (env_pid env) (fs_salt fs)] = save_tmp env st fs"
    by (simp add: save_tmp_def)
  note ops = store_save_def path_parent_def fs_ops Let_def
  show thesis
  proof (cases "json_print env (st_prints st)")
    case (Inl e)
    show thesis
    proof (cases "fs_fault fs (fs_count fs)")
      case None
      show thesis by (rule failed) (simp add: ops assms Inl None, simp add: ops assms Inl None)
    next
      case (Some x)
      show thesis by (cases x, rule failed) (simp add: ops assms Some, simp add: ops assms Some)
    qed
  next
    case (Inr content)
    let ?c = "fs_count fs" and ?f = "fs_fault fs"
    consider (f0) "?f ?c \<noteq> None" | (f1) "?f ?c = None" "?f (Suc ?c) \<noteq> None"
      | (f2) "?f ?c = None" "?f (Suc ?c) = None" "?f (Suc (Suc ?c)) \<noteq> None"
      | (f3) "?f ?c = None" "?f (Suc ?c) = None" "?f (Suc (Suc ?c)) = None" "?f (Suc (Suc (Suc ?c))) \<noteq> None"
      | (f4) "?f ?c = None" "?f (Suc ?c) = None" "?f (Suc (Suc ?c)) = None" "?f (Suc (Suc (Suc ?c))) = None"
          "?f (Suc (Suc (Suc (Suc ?c)))) \<noteq> None"
      | (f5) "?f ?c = None" "?f (Suc ?c) = None" "?f (Suc (Suc ?c)) = None" "?f (Suc (Suc (Suc ?c))) = None"
          "?f (Suc (Suc (Suc (Suc ?c)))) = None" by blast
    then show thesis
    proof cases
      case f5
      with saved [OF Inr] assms Inr show thesis by (auto simp: ops tmp)
    qed (insert failed assms Inr, auto simp: ops tmp)
  qed
qed

lemma save_no_fault:
  assumes "st_path st \<noteq> []" "save_tmp env st fs \<noteq> st_path st"
    and "\<forall>n. fs_fault fs n = None" "json_print env (st_prints st) = Ok content"
  shows "fst (store_save env st fs) = Ok ()"
  using assms by (simp add: store_save_def path_parent_def fs_ops Let_def)

lemma save_fault_frame [frame_simps]: "fs_fault (snd (store_save env st fs)) = fs_fault fs"
  by (simp add: store_save_def fs_ops Let_def split: option.split sum.split)

lemma store_open_reads:
  assumes "fs_fault fs (fs_count fs) = None"
  shows "fst (store_open env path fs) =
    (case fs_files fs path of
       None \<Rightarrow> Ok \<lparr>st_path = path, st_prints = []\<rparr>
     | Some text \<Rightarrow> (case json_parse env text of
         Ok p \<Rightarrow> Ok \<lparr>st_path = path, st_prints = p\<rparr> | Err e \<Rightarrow> Err (StParse e)))"
  using assms by (simp add: store_open_def fs_ops split: option.split sum.split)

subsection \<open>Slots and the report\<close>

lemma byte_range_set: "i \<in> set (byte_range a b) \<longleftrightarrow> a \<le> i \<and> i \<le> b"
proof
  assume "i \<in> set (byte_range a b)"
  then obtain n where n: "i = word_of_nat n" "unat a \<le> n" "n \<le> unat b"
    by (auto simp: byte_range_def)
  then have "unat i = n" using unat_byte_bound [of b] by (simp add: unat_of_nat)
  with n show "a \<le> i \<and> i \<le> b" by (simp add: byte_le_unat)
next
  assume "a \<le> i \<and> i \<le> b"
  then have "unat i \<in> set [unat a..<Suc (unat b)]" by (simp add: byte_le_unat del: upt_Suc)
  then have "(word_of_nat (unat i) :: byte) \<in> word_of_nat ` set [unat a..<Suc (unat b)]"
    by (rule imageI)
  then show "i \<in> set (byte_range a b)" by (simp add: byte_range_def)
qed

lemma byte_range_sorted: "sorted_wrt (<) (byte_range a b)"
proof -
  have "sorted_wrt (\<lambda>m n. (word_of_nat m :: byte) < word_of_nat n) [unat a..<Suc (unat b)]"
  proof (rule sorted_wrt_mono_rel [OF _ sorted_wrt_upt])
    fix m n assume "m \<in> set [unat a..<Suc (unat b)]" "n \<in> set [unat a..<Suc (unat b)]" "m < n"
    then have "n < 256" "m < n" using unat_byte_bound [of b] by auto
    then show "(word_of_nat m :: byte) < word_of_nat n"
      by (simp add: byte_less_unat unat_of_nat)
  qed
  then show ?thesis by (simp add: byte_range_def sorted_wrt_map del: upt_Suc)
qed

lemma writable_slots_iff:
  "i \<in> set (writable_slots count tracked) \<longleftrightarrow> count \<le> i \<and> i \<le> MAX_SLOT \<and> i \<notin> set tracked"
  by (auto simp: writable_slots_def byte_range_set)

lemma writable_slots_sorted: "sorted_wrt (<) (writable_slots count tracked)"
  by (simp add: writable_slots_def filter_sorted_wrt byte_range_sorted)

lemma tracked_slots_iff:
  assumes "prints_wf p"
  shows "i \<in> set (tracked_slots p) \<longleftrightarrow> (\<exists>k. slot_of p k = Some i)"
proof -
  have "i \<in> set (tracked_slots p) \<longleftrightarrow> (\<exists>u f. (u, f, i) \<in> set (entries p))"
    by (force simp: tracked_slots_def entries_def)
  then show ?thesis using entries_iff [OF assms] by auto
qed

lemma dedup_sorted: "sorted (xs :: byte list) \<Longrightarrow> sorted_wrt (<) (remdups_adj xs)"
proof (induction xs rule: remdups_adj.induct)
  case (3 x y xs)
  then show ?case by (cases "x = y") (auto simp: less_le)
qed simp_all

lemma tracked_slots_sorted: "sorted_wrt (<) (tracked_slots p)"
  by (simp add: tracked_slots_def dedup_sorted)

text \<open>The claims of the report, taken apart by what the scan says of an entry's slot.\<close>

definition verdict :: "(byte, slot_state) btree \<Rightarrow> byte \<Rightarrow> string" where
  "verdict by_slot s =
     (case bt_get by_slot s of
        Some (SlotEnrolled _) \<Rightarrow> ''confirmed''
      | Some SlotEmpty \<Rightarrow> ''stale''
      | _ \<Rightarrow> ''unconfirmed'')"

definition es_key :: "entry_status \<Rightarrow> string \<times> string \<times> byte" where
  "es_key e = (es_user e, es_finger e, es_slot e)"

lemma reconcile_entry_keys:
  "map es_key (sr_confirmed (reconcile_entry bs e rep)) =
     map es_key (sr_confirmed rep) @ (if verdict bs (snd (snd e)) = ''confirmed'' then [e] else [])"
  "map es_key (sr_stale (reconcile_entry bs e rep)) =
     map es_key (sr_stale rep) @ (if verdict bs (snd (snd e)) = ''stale'' then [e] else [])"
  "map es_key (sr_unconfirmed (reconcile_entry bs e rep)) =
     map es_key (sr_unconfirmed rep) @ (if verdict bs (snd (snd e)) = ''unconfirmed'' then [e] else [])"
  by (auto simp: reconcile_entry_def verdict_def es_key_def entry_status_of_def
      split: option.splits slot_state.splits)

lemma reconcile_fold_keys:
  "map es_key (sr_confirmed (fold (reconcile_entry bs) es rep)) =
     map es_key (sr_confirmed rep) @ filter (\<lambda>e. verdict bs (snd (snd e)) = ''confirmed'') es"
  "map es_key (sr_stale (fold (reconcile_entry bs) es rep)) =
     map es_key (sr_stale rep) @ filter (\<lambda>e. verdict bs (snd (snd e)) = ''stale'') es"
  "map es_key (sr_unconfirmed (fold (reconcile_entry bs) es rep)) =
     map es_key (sr_unconfirmed rep) @ filter (\<lambda>e. verdict bs (snd (snd e)) = ''unconfirmed'') es"
  by (induction es arbitrary: rep) (simp_all add: reconcile_entry_keys)

lemma fold_warnings_frame:
  assumes "\<And>x rep. sr_confirmed (h x rep) = sr_confirmed rep \<and> sr_stale (h x rep) = sr_stale rep \<and>
    sr_unconfirmed (h x rep) = sr_unconfirmed rep"
  shows "sr_confirmed (fold h xs rep) = sr_confirmed rep \<and> sr_stale (fold h xs rep) = sr_stale rep \<and>
    sr_unconfirmed (fold h xs rep) = sr_unconfirmed rep"
  using assms by (induction xs arbitrary: rep) simp_all

lemma reconcile_keys:
  assumes "count \<noteq> 0"
    and bs_def: "bs = bt_collect records"
  shows "map es_key (sr_confirmed (reconcile p count records)) =
      filter (\<lambda>e. verdict bs (snd (snd e)) = ''confirmed'') (entries p)"
    and "map es_key (sr_stale (reconcile p count records)) =
      filter (\<lambda>e. verdict bs (snd (snd e)) = ''stale'') (entries p)"
    and "map es_key (sr_unconfirmed (reconcile p count records)) =
      filter (\<lambda>e. verdict bs (snd (snd e)) = ''unconfirmed'') (entries p)"
proof -
  let ?h = "\<lambda>(i, state) rep. if is_enrolled_slot state \<and> i \<notin> snd ` snd ` set (entries p)
    then add_warning (''slot '' @ show_nat (unat i) @ '' holds a template the store does not track'') rep
    else rep"
  have frame: "sr_confirmed (?h x rep) = sr_confirmed rep \<and> sr_stale (?h x rep) = sr_stale rep \<and>
      sr_unconfirmed (?h x rep) = sr_unconfirmed rep" for x rep
    by (cases x) (simp add: add_warning_def)
  note warn = fold_warnings_frame [of ?h, OF frame]
  have empty: "sr_confirmed empty_report = []" "sr_stale empty_report = []"
      "sr_unconfirmed empty_report = []"
    by (simp_all add: empty_report_def)
  note keys = reconcile_fold_keys [of bs "entries p" empty_report, unfolded empty list.map append_Nil]
  have add: "sr_confirmed (add_warning w r) = sr_confirmed r"
    "sr_stale (add_warning w r) = sr_stale r" "sr_unconfirmed (add_warning w r) = sr_unconfirmed r" for w r
    by (simp_all add: add_warning_def)
  show "map es_key (sr_confirmed (reconcile p count records)) =
      filter (\<lambda>e. verdict bs (snd (snd e)) = ''confirmed'') (entries p)"
    "map es_key (sr_stale (reconcile p count records)) =
      filter (\<lambda>e. verdict bs (snd (snd e)) = ''stale'') (entries p)"
    "map es_key (sr_unconfirmed (reconcile p count records)) =
      filter (\<lambda>e. verdict bs (snd (snd e)) = ''unconfirmed'') (entries p)"
    using assms(1) keys by (simp_all add: reconcile_def Let_def warn add bs_def)
qed


subsection \<open>Properties\<close>

text \<open>C38: An insert is accepted exactly for a known finger name and a slot no other entry holds; an
  accepted insert changes the mapping at that user and finger only, a refused one changes nothing,
  and no slot ever belongs to two entries.\<close>

theorem store_insert_refines:
  assumes "store_wf st"
  shows "(fst (store_insert user finger slot st) = Ok () \<longleftrightarrow>
      is_valid_finger finger \<and> (\<forall>k. k \<noteq> (user, finger) \<longrightarrow> store_slot st k \<noteq> Some slot)) \<and>
    store_slot (snd (store_insert user finger slot st)) =
      (if fst (store_insert user finger slot st) = Ok () then (store_slot st)((user, finger) \<mapsto> slot)
       else store_slot st) \<and>
    store_wf (snd (store_insert user finger slot st)) \<and>
    (unique_slots (store_slot st) \<longrightarrow>
       unique_slots (store_slot (snd (store_insert user finger slot st))))"
  using registry.ins_iff [OF assms] registry.ins_look [OF assms] registry.ins_keeps_ok [OF assms]
    registry.ins_keeps_unique [OF assms] by blast

definition sample_store :: store where
  "sample_store = \<lparr>st_path = DEFAULT_PATH, st_prints = [(''alice'', [(''left-thumb'', 3)])]\<rparr>"

lemma sample_store_wf: "store_wf sample_store"
  by (simp add: store_wf_def sample_store_def prints_wf_def bt_ok_def)

theorem store_insert_refines_witness:
  "fst (store_insert ''bob'' ''right-thumb'' 3 sample_store) \<noteq> Ok ()"
proof -
  have "store_slot sample_store (''alice'', ''left-thumb'') = Some 3"
    by (simp add: store_slot_def slot_of_def sample_store_def bt_get_def)
  then show ?thesis
    using store_insert_refines [OF sample_store_wf, of "''bob''" "''right-thumb''" 3] by auto
qed

text \<open>Removing an entry deletes exactly that entry, keeps slots unique, and frees its slot: the
  slot can at once be given to any other user and finger.\<close>

theorem store_remove_frees:
  assumes "store_wf st" and "unique_slots (store_slot st)"
    and "store_slot st (user, finger) = Some slot" and "is_valid_finger finger'"
  shows "store_slot (store_remove user finger st) = (store_slot st)((user, finger) := None) \<and>
    store_wf (store_remove user finger st) \<and>
    unique_slots (store_slot (store_remove user finger st)) \<and>
    fst (store_insert user' finger' slot (store_remove user finger st)) = Ok ()"
  using registry.look_rem [OF assms(1)] registry.rem_ok [OF assms(1)]
    registry.rem_keeps_unique [OF assms(1,2)] registry.ins_after_rem [OF assms] by blast

theorem store_remove_frees_witness:
  "fst (store_insert ''bob'' ''right-thumb'' 3 (store_remove ''alice'' ''left-thumb'' sample_store)) =
     Ok ()"
proof -
  have "unique_slots (store_slot sample_store)" "store_slot sample_store (''alice'', ''left-thumb'') = Some 3"
    by (auto simp: unique_slots_def store_slot_def slot_of_def sample_store_def bt_get_def
        split: if_splits)
  then show ?thesis
    using store_remove_frees [OF sample_store_wf, of "''alice''" "''left-thumb''" 3 "''right-thumb''"]
    by (simp add: is_valid_finger_def FINGER_NAMES_def)
qed

text \<open>C20: Saving is atomic whatever operation of the file system fails, or wherever it is interrupted:
  afterwards the store file holds the complete new text if \<open>save\<close> returned Ok and exactly what it
  held before otherwise, and no other file but the temporary one is touched.\<close>

theorem save_atomic:
  assumes "plain_path (st_path st)"
  shows "case store_save env st fs of (r, fs') \<Rightarrow>
    (case r of
       Ok _ \<Rightarrow> (\<exists>content. json_print env (st_prints st) = Ok content \<and>
          fs_files fs' (st_path st) = Some content)
     | Err _ \<Rightarrow> fs_files fs' (st_path st) = fs_files fs (st_path st)) \<and>
    (\<forall>q. q \<noteq> st_path st \<longrightarrow> q \<noteq> save_tmp env st fs \<longrightarrow> fs_files fs' q = fs_files fs q)"
proof -
  have ne: "st_path st \<noteq> []" using assms by (simp add: plain_path_def)
  have tmp: "save_tmp env st fs \<noteq> st_path st" using assms by (rule save_tmp_neq)
  show ?thesis
    by (rule save_cases [OF ne tmp]) (use tmp in auto)
qed

definition quiet_fs :: fsys where
  "quiet_fs = \<lparr>fs_files = (\<lambda>_. None), fs_count = 0, fs_fault = (\<lambda>_. None), fs_salt = 0\<rparr>"

definition full_disk_fs :: fsys where
  "full_disk_fs = quiet_fs\<lparr>fs_files := [DEFAULT_PATH \<mapsto> ''old''],
     fs_fault := (\<lambda>n. if n = 2 then Some (IoOther 28, 5) else None)\<rparr>"

definition sample_env :: env where
  "sample_env = \<lparr>json_parse = (\<lambda>t. if t = ''{}'' then Ok [] else Ok (st_prints sample_store)),
     json_print = (\<lambda>p. Ok (if p = [] then ''{}'' else ''{alice}'')), env_pid = 7, env_stages = None\<rparr>"

lemma sample_store_plain: "plain_path (st_path sample_store)"
  by (simp add: sample_store_def plain_path_def DEFAULT_PATH_def)

theorem save_atomic_witness:
  "fs_files (snd (store_save sample_env sample_store full_disk_fs)) DEFAULT_PATH = Some ''old''"
proof -
  have "fst (store_save sample_env sample_store full_disk_fs) = Err (StIo (IoOther 28))"
    by (simp add: store_save_def sample_env_def sample_store_def full_disk_fs_def quiet_fs_def fs_ops
        path_parent_def DEFAULT_PATH_def Let_def)
  with save_atomic [OF sample_store_plain, where env = sample_env and fs = full_disk_fs]
  show ?thesis by (simp add: split_def) (simp add: sample_store_def full_disk_fs_def)
qed

text \<open>What was saved is what is read back: with a working file system and a JSON codec that reads
  what it printed, \<open>save\<close> succeeds and opening the file gives the same store.\<close>

theorem save_then_open:
  assumes "plain_path (st_path st)" and "\<forall>n. fs_fault fs n = None"
    and "json_print env (st_prints st) = Ok content" and "json_parse env content = Ok (st_prints st)"
  shows "fst (store_save env st fs) = Ok () \<and>
    fst (store_open env (st_path st) (snd (store_save env st fs))) = Ok st"
proof -
  have ne: "st_path st \<noteq> []" using assms by (simp add: plain_path_def)
  have tmp: "save_tmp env st fs \<noteq> st_path st" using assms(1) by (rule save_tmp_neq)
  have ok: "fst (store_save env st fs) = Ok ()"
    using save_no_fault [OF ne tmp assms(2,3)] .
  have "fs_fault (snd (store_save env st fs)) n = None" for n
    using assms(2) ne by (simp add: save_fault_frame)
  note open_it = store_open_reads [OF this]
  show ?thesis
    by (rule save_cases [OF ne tmp]) (use ok assms(3,4) open_it [of env "st_path st"] in auto)
qed

theorem save_then_open_witness:
  "fst (store_open sample_env DEFAULT_PATH (snd (store_save sample_env sample_store quiet_fs))) =
     Ok sample_store"
  using save_then_open [OF sample_store_plain, of quiet_fs sample_env "''{alice}''"]
  by (simp add: quiet_fs_def sample_env_def sample_store_def)

text \<open>The slots an enrolment may write are exactly those from the device's count up to 15 that no
  user's entry names, in increasing order; so a slot below the count or one the store tracks is
  never offered.\<close>

theorem writable_slots_safe:
  assumes "prints_wf p"
  shows "(i \<in> set (writable_slots count (tracked_slots p)) \<longleftrightarrow>
      count \<le> i \<and> i \<le> MAX_SLOT \<and> (\<forall>k. slot_of p k \<noteq> Some i)) \<and>
    sorted_wrt (<) (writable_slots count (tracked_slots p)) \<and> sorted_wrt (<) (tracked_slots p)"
  using writable_slots_iff [of i count] tracked_slots_iff [OF assms, of i] writable_slots_sorted
    tracked_slots_sorted by blast

theorem writable_slots_safe_witness:
  "3 \<notin> set (writable_slots 2 (tracked_slots (st_prints sample_store)))"
proof -
  have "slot_of (st_prints sample_store) (''alice'', ''left-thumb'') = Some 3"
    by (simp add: slot_of_def sample_store_def bt_get_def)
  then show ?thesis
    using writable_slots_safe [of "st_prints sample_store" 3 2] sample_store_wf
    by (auto simp: store_wf_def)
qed

text \<open>The sync report classifies every entry of the store exactly once, in the order of the store:
  an entry is stale exactly when the device counts no finger at all or the last record scanned for
  its slot reads empty, and confirmed exactly when that record is an enrolled one; a two byte reply
  or a slot outside the scan never makes it stale.\<close>

theorem reconcile_partitions:
  "map es_key (sr_stale (reconcile p count records)) =
     filter (\<lambda>e. count = 0 \<or> map_of (rev records) (snd (snd e)) = Some SlotEmpty) (entries p) \<and>
   map es_key (sr_confirmed (reconcile p count records)) =
     filter (\<lambda>e. count \<noteq> 0 \<and> (\<exists>r. map_of (rev records) (snd (snd e)) = Some (SlotEnrolled r))) (entries p) \<and>
   map es_key (sr_unconfirmed (reconcile p count records)) =
     filter (\<lambda>e. count \<noteq> 0 \<and> map_of (rev records) (snd (snd e)) \<noteq> Some SlotEmpty \<and>
       (\<forall>r. map_of (rev records) (snd (snd e)) \<noteq> Some (SlotEnrolled r))) (entries p)"
proof (cases "count = 0")
  case True
  then show ?thesis
    by (simp add: reconcile_def empty_report_def es_key_def entry_status_of_def comp_def)
next
  case False
  have v: "(verdict (bt_collect records) s = ''stale'') = (map_of (rev records) s = Some SlotEmpty)"
    "(verdict (bt_collect records) s = ''confirmed'') = (\<exists>r. map_of (rev records) s = Some (SlotEnrolled r))"
    "(verdict (bt_collect records) s = ''unconfirmed'') = (map_of (rev records) s \<noteq> Some SlotEmpty \<and>
       (\<forall>r. map_of (rev records) s \<noteq> Some (SlotEnrolled r)))" for s
    by (auto simp: verdict_def bt_collect_get split: option.splits slot_state.splits)
  show ?thesis using False by (simp add: reconcile_keys [OF False refl] v)
qed

end
