(* ===== verification/StoreRace.thy ===== *)
theory StoreRace
  imports Store
begin

text \<open>
  Several saves of the same store file at once: the \<open>SALT\<close> of \<open>Store::save\<close> and the test
  \<open>concurrent_saves_leave_a_parseable_file\<close> of \<open>elanprint-store/src/lib.rs\<close>.  \<open>saver_step\<close> cuts
  \<open>save\<close> at its calls of the file system and at the counter; \<open>saver_alone\<close> shows that its steps in a
  row are \<open>store_save\<close>.  A step of a race lets one saver take one step; the savers are threads of any
  number of processes, each process with its own counter.  The invariant \<open>race_ok\<close> says that no
  two savers share a temporary file, and that the store file is never a mixture.
\<close>

subsection \<open>One saver, step by step\<close>

text \<open>What a saver does when it runs next.\<close>

datatype save_pc = PcStart | PcSalt | PcPrint | PcOpen | PcWrite | PcSync | PcRename
  | PcEnd "store_error + unit"

text \<open>A thread inside \<open>save\<close>: \<open>sav_num\<close> is its \<open>n\<close>, \<open>sav_content\<close> its \<open>text\<close>.\<close>

record saver =
  sav_env :: env
  sav_store :: store
  sav_pc :: save_pc
  sav_num :: "64 word option"
  sav_content :: string

definition saver_new :: "env \<Rightarrow> store \<Rightarrow> saver" where
  "saver_new env st =
     \<lparr>sav_env = env, sav_store = st, sav_pc = PcStart, sav_num = None, sav_content = []\<rparr>"

definition sav_tmp :: "saver \<Rightarrow> path" where
  "sav_tmp s = butlast (st_path (sav_store s)) @ [tmp_name (env_pid (sav_env s)) (the (sav_num s))]"

text \<open>The operator \<open>?\<close> on a call of the file system: go on, or return the error.\<close>

definition io_then :: "save_pc \<Rightarrow> saver \<Rightarrow> (io_error + unit) \<times> fsys \<Rightarrow> saver \<times> fsys" where
  "io_then pc s res =
     (case res of
        (Err e, fs) \<Rightarrow> (s\<lparr>sav_pc := PcEnd (Err (StIo e))\<rparr>, fs)
      | (Ok _, fs) \<Rightarrow> (s\<lparr>sav_pc := pc\<rparr>, fs))"

definition saver_step :: "saver \<Rightarrow> fsys \<Rightarrow> saver \<times> fsys" where
  "saver_step s fs =
     (case sav_pc s of
        PcStart \<Rightarrow>
          (case path_parent (st_path (sav_store s)) of
             None \<Rightarrow> (s\<lparr>sav_pc := PcEnd (Err (StIo IoNotFound))\<rparr>, fs)
           | Some dir \<Rightarrow> io_then PcSalt s (create_dir_all dir fs))
      | PcSalt \<Rightarrow>
          (s\<lparr>sav_num := Some (fs_salt fs), sav_pc := PcPrint\<rparr>, fs\<lparr>fs_salt := fs_salt fs + 1\<rparr>)
      | PcPrint \<Rightarrow>
          (case json_print (sav_env s) (st_prints (sav_store s)) of
             Err e \<Rightarrow> (s\<lparr>sav_pc := PcEnd (Err (StParse e))\<rparr>, fs)
           | Ok content \<Rightarrow> (s\<lparr>sav_content := content, sav_pc := PcOpen\<rparr>, fs))
      | PcOpen \<Rightarrow> io_then PcWrite s (open_truncate (sav_tmp s) fs)
      | PcWrite \<Rightarrow> io_then PcSync s (write_all (sav_tmp s) (sav_content s) fs)
      | PcSync \<Rightarrow> io_then PcRename s (sync_all fs)
      | PcRename \<Rightarrow> io_then (PcEnd (Ok ())) s (rename_file (sav_tmp s) (st_path (sav_store s)) fs)
      | PcEnd r \<Rightarrow> (s, fs))"

fun saver_run :: "nat \<Rightarrow> saver \<times> fsys \<Rightarrow> saver \<times> fsys" where
  "saver_run 0 x = x"
| "saver_run (Suc n) x = saver_run n (saver_step (fst x) (snd x))"

lemma saver_run_end [simp]: "sav_pc s = PcEnd r \<Longrightarrow> saver_run n (s, fs) = (s, fs)"
  by (induction n) (simp_all add: saver_step_def)

lemma saver_run_io:
  "saver_run n (io_then pc s res) =
     (case res of
        (Err e, fs) \<Rightarrow> (s\<lparr>sav_pc := PcEnd (Err (StIo e))\<rparr>, fs)
      | (Ok _, fs) \<Rightarrow> saver_run n (s\<lparr>sav_pc := pc\<rparr>, fs))"
  by (simp add: io_then_def split: prod.split sum.split)

text \<open>What \<open>save\<close> still has to do from a given point on.\<close>

definition rest_of :: "saver \<times> fsys \<Rightarrow> (store_error + unit) \<times> fsys \<Rightarrow> bool" where
  "rest_of x y \<longleftrightarrow> sav_pc (fst x) = PcEnd (fst y) \<and> snd x = snd y"

lemma rest_io:
  assumes "\<And>u fs'. res = (Ok u, fs') \<Longrightarrow> rest_of (saver_run n (s\<lparr>sav_pc := pc\<rparr>, fs')) (k fs')"
  shows "rest_of (saver_run n (io_then pc s res))
    (case res of (Err e, fs') \<Rightarrow> (Err (StIo e), fs') | (Ok _, fs') \<Rightarrow> k fs')"
  using assms by (simp add: saver_run_io rest_of_def split: prod.split sum.split)

lemma rest_step:
  "rest_of (saver_run n (saver_step s fs)) y \<Longrightarrow> rest_of (saver_run (Suc n) (s, fs)) y"
  by simp

text \<open>Undisturbed, the steps are the whole \<open>save\<close>.\<close>

lemma saver_alone: "rest_of (saver_run 7 (saver_new env st, fs)) (store_save env st fs)"
proof (cases "path_parent (st_path st)")
  case None
  then show ?thesis
    by (simp add: numeral_eq_Suc saver_step_def saver_new_def store_save_def rest_of_def)
next
  case (Some dir)
  note step = saver_step_def saver_new_def Let_def sav_tmp_def
  have seven: "saver_run 7 = saver_run (Suc (Suc (Suc (Suc (Suc (Suc (Suc 0)))))))"
    by (simp add: numeral_eq_Suc)
  have dir: "dir = butlast (st_path st)" using Some by (simp add: path_parent_def split: if_splits)
  show ?thesis
    unfolding seven store_save_def Some option.case
    apply (rule rest_step, simp add: step Some del: saver_run.simps(2), rule rest_io)
    apply (rule rest_step, simp add: step del: saver_run.simps(2))
    apply (rule rest_step, simp add: step del: saver_run.simps(2) split: sum.split)
    apply (intro conjI allI impI, simp add: rest_of_def del: saver_run.simps(2), unfold dir)
    apply (rule rest_step, simp add: step del: saver_run.simps(2), rule rest_io)+
    apply (rule rest_step, simp add: step del: saver_run.simps(2))
    apply (simp add: io_then_def rest_of_def split: prod.split sum.split)
    done
qed

subsection \<open>Temporary names\<close>

lemma show_nat_inj: "show_nat a = show_nat b \<Longrightarrow> a = b"
  by (metis le_add1 le_add2 option.inject parse_digits_show)

lemma digit_no_dot: "d < 10 \<Longrightarrow> CHR ''.'' \<noteq> digit_char d"
proof
  assume "d < 10" "CHR ''.'' = digit_char d"
  then have "digit_val (CHR ''.'') = Some d" by (simp add: digit_val_digit_char)
  then show False by (simp add: digit_val_def)
qed

lemma show_nat_no_dot: "CHR ''.'' \<notin> set (show_nat n)"
proof (induction n rule: show_nat.induct)
  case (1 n)
  then show ?case
    by (subst show_nat.simps) (simp add: digit_no_dot)
qed

lemma split_at_dot:
  assumes "CHR ''.'' \<notin> set a" "CHR ''.'' \<notin> set b"
    and "a @ CHR ''.'' # x = b @ CHR ''.'' # y"
  shows "a = b \<and> x = y"
  using assms by (induction a arbitrary: b) (case_tac b; auto)+

lemma tmp_name_inj: "tmp_name p n = tmp_name q m \<Longrightarrow> p = q \<and> n = m"
proof -
  assume "tmp_name p n = tmp_name q m"
  then have "show_nat p @ CHR ''.'' # (show_nat (unat n) @ ''.tmp'') =
      show_nat q @ CHR ''.'' # (show_nat (unat m) @ ''.tmp'')"
    by (simp add: tmp_name_def)
  from split_at_dot [OF show_nat_no_dot show_nat_no_dot this]
  have "show_nat p = show_nat q" "show_nat (unat n) = show_nat (unat m)" by simp_all
  then show ?thesis by (simp add: word_unat_eq_iff show_nat_inj)
qed

subsection \<open>The race\<close>

text \<open>The shared files, the counter \<open>SALT\<close> of each process, and the savers.\<close>

record race =
  rc_fs :: fsys
  rc_salts :: "nat \<Rightarrow> 64 word"
  rc_savers :: "saver list"

definition sav_pid :: "saver \<Rightarrow> nat" where
  "sav_pid s = env_pid (sav_env s)"

definition sav_ended :: "saver \<Rightarrow> bool" where
  "sav_ended s = (case sav_pc s of PcEnd _ \<Rightarrow> True | _ \<Rightarrow> False)"

text \<open>One step of saver \<open>i\<close>, with the counter of its process.\<close>

definition race_turn :: "nat \<Rightarrow> race \<Rightarrow> race" where
  "race_turn i w =
     (let s = rc_savers w ! i;
          res = saver_step s ((rc_fs w)\<lparr>fs_salt := rc_salts w (sav_pid s)\<rparr>) in
      w\<lparr>rc_fs := snd res, rc_salts := (rc_salts w)(sav_pid s := fs_salt (snd res)),
        rc_savers := (rc_savers w)[i := fst res]\<rparr>)"

inductive race_step :: "race \<Rightarrow> race \<Rightarrow> bool" where
  race_stepI: "i < length (rc_savers w) \<Longrightarrow> \<not> sav_ended (rc_savers w ! i) \<Longrightarrow> race_step w (race_turn i w)"

inductive_cases race_stepE: "race_step w w'"

text \<open>Some saves of the file \<open>P\<close> are about to start, fewer than the counter can number.\<close>

definition race_start :: "path \<Rightarrow> race \<Rightarrow> bool" where
  "race_start P w \<longleftrightarrow> plain_path P \<and> length (rc_savers w) < 2 ^ 64 \<and>
     list_all (\<lambda>s. s = saver_new (sav_env s) (sav_store s) \<and> st_path (sav_store s) = P) (rc_savers w)"

subsection \<open>What one step does\<close>

text \<open>Where a saver is, what it has settled, and what its temporary file holds by then.\<close>

definition sav_ok :: "path \<Rightarrow> (path \<Rightarrow> string option) \<Rightarrow> saver \<Rightarrow> bool" where
  "sav_ok P files s \<longleftrightarrow> st_path (sav_store s) = P \<and>
     (let printed = (json_print (sav_env s) (st_prints (sav_store s)) = Ok (sav_content s)) in
      case sav_pc s of
        PcStart \<Rightarrow> sav_num s = None
      | PcSalt \<Rightarrow> sav_num s = None
      | PcPrint \<Rightarrow> sav_num s \<noteq> None
      | PcOpen \<Rightarrow> sav_num s \<noteq> None \<and> printed
      | PcWrite \<Rightarrow> sav_num s \<noteq> None \<and> printed
      | PcSync \<Rightarrow> sav_num s \<noteq> None \<and> printed \<and> files (sav_tmp s) = Some (sav_content s)
      | PcRename \<Rightarrow> sav_num s \<noteq> None \<and> printed \<and> files (sav_tmp s) = Some (sav_content s)
      | PcEnd r \<Rightarrow> r = Ok () \<longrightarrow> printed)"

lemma sav_ok_frame:
  "sav_ok P files s \<Longrightarrow> (sav_num s \<noteq> None \<Longrightarrow> files' (sav_tmp s) = files (sav_tmp s)) \<Longrightarrow> sav_ok P files' s"
  by (auto simp: sav_ok_def Let_def split: save_pc.splits)

lemma sav_tmp_neq: "plain_path P \<Longrightarrow> st_path (sav_store s) = P \<Longrightarrow> sav_tmp s \<noteq> P"
proof
  assume plain: "plain_path P" and eq: "sav_tmp s = P"
  have "last P = tmp_name (env_pid (sav_env s)) (the (sav_num s))"
    by (subst eq [symmetric]) (simp add: sav_tmp_def)
  with plain show False by (simp add: plain_path_def tmp_name_def)
qed

lemma sav_tmp_inj:
  "sav_tmp s = sav_tmp t \<Longrightarrow> sav_pid s = sav_pid t \<and> the (sav_num s) = the (sav_num t)"
  by (auto simp: sav_tmp_def sav_pid_def dest: tmp_name_inj)

lemmas step_defs = saver_step_def io_then_def fs_ops

lemma step_same: "sav_env (fst (saver_step s fs)) = sav_env s \<and> sav_store (fst (saver_step s fs)) = sav_store s"
  by (simp add: step_defs split: save_pc.split option.split sum.split prod.split)

lemma step_num:
  "sav_num (fst (saver_step s fs)) = (if sav_pc s = PcSalt then Some (fs_salt fs) else sav_num s) \<and>
   fs_salt (snd (saver_step s fs)) = (if sav_pc s = PcSalt then fs_salt fs + 1 else fs_salt fs)"
  by (simp add: step_defs split: save_pc.split option.split sum.split prod.split)

lemma step_keeps_ok:
  assumes "sav_ok P (fs_files fs) s" "sav_tmp s \<noteq> P"
  shows "sav_ok P (fs_files (snd (saver_step s fs))) (fst (saver_step s fs))"
  using assms by (cases "sav_pc s")
    (auto simp: sav_ok_def Let_def step_defs sav_tmp_def split: option.split sum.split prod.split)

lemma step_files:
  assumes "sav_ok P (fs_files fs) s" "q \<noteq> P" "sav_num s \<noteq> None \<Longrightarrow> q \<noteq> sav_tmp s"
  shows "fs_files (snd (saver_step s fs)) q = fs_files fs q"
  using assms by (cases "sav_pc s")
    (simp_all add: sav_ok_def Let_def step_defs split: option.split sum.split prod.split)

lemma step_target:
  assumes "sav_ok P (fs_files fs) s" "sav_tmp s \<noteq> P" "\<not> sav_ended s"
  shows "fs_files (snd (saver_step s fs)) P =
    (if sav_pc (fst (saver_step s fs)) = PcEnd (Ok ()) then Some (sav_content (fst (saver_step s fs)))
     else fs_files fs P)"
  using assms by (cases "sav_pc s")
    (simp_all add: sav_ok_def sav_ended_def Let_def step_defs split: option.split sum.split prod.split)

subsection \<open>The invariant\<close>

text \<open>The savers of process \<open>p\<close> that have taken a number.\<close>

definition numbered :: "nat \<Rightarrow> saver list \<Rightarrow> nat set" where
  "numbered p xs = {i. i < length xs \<and> sav_pid (xs ! i) = p \<and> sav_num (xs ! i) \<noteq> None}"

text \<open>The numbers of a process are handed out in order from where its counter was.\<close>

definition nums_ok :: "(nat \<Rightarrow> 64 word) \<Rightarrow> race \<Rightarrow> bool" where
  "nums_ok c0 w \<longleftrightarrow> length (rc_savers w) < 2 ^ 64 \<and>
     (\<forall>p. rc_salts w p = c0 p + word_of_nat (card (numbered p (rc_savers w)))) \<and>
     (\<forall>i < length (rc_savers w). \<forall>n. sav_num (rc_savers w ! i) = Some n \<longrightarrow>
        (\<exists>k < card (numbered (sav_pid (rc_savers w ! i)) (rc_savers w)).
           n = c0 (sav_pid (rc_savers w ! i)) + word_of_nat k)) \<and>
     (\<forall>i < length (rc_savers w). \<forall>j < length (rc_savers w). i \<noteq> j \<longrightarrow>
        sav_num (rc_savers w ! i) \<noteq> None \<longrightarrow> sav_num (rc_savers w ! j) \<noteq> None \<longrightarrow>
        (sav_pid (rc_savers w ! i), sav_num (rc_savers w ! i)) \<noteq>
        (sav_pid (rc_savers w ! j), sav_num (rc_savers w ! j)))"

lemma numbered_finite [simp]: "finite (numbered p xs)"
  by (simp add: numbered_def)

lemma numbered_same:
  assumes "i < length xs" "sav_pid s = sav_pid (xs ! i)" "sav_num s = sav_num (xs ! i)"
  shows "numbered p (xs[i := s]) = numbered p xs"
  using assms by (auto simp: numbered_def nth_list_update)

lemma numbered_more:
  assumes "i < length xs" "sav_pid s = sav_pid (xs ! i)" "sav_num s \<noteq> None"
  shows "numbered p (xs[i := s]) = (if p = sav_pid s then insert i (numbered p xs) else numbered p xs)"
  using assms by (auto simp: numbered_def nth_list_update)

lemma numbered_room:
  assumes "i < length xs" "sav_num (xs ! i) = None"
  shows "i \<notin> numbered p xs" and "card (numbered p xs) < length xs"
proof -
  show "i \<notin> numbered p xs" using assms by (simp add: numbered_def)
  then have "numbered p xs \<noteq> {..<length xs}" using assms(1) by blast
  moreover have "numbered p xs \<subseteq> {..<length xs}" by (auto simp only: numbered_def mem_Collect_eq lessThan_iff)
  ultimately have "numbered p xs \<subset> {..<length xs}" by blast
  then show "card (numbered p xs) < length xs" using psubset_card_mono [of "{..<length xs}"] by simp
qed

lemma salt_fresh:
  assumes "k < m" "m < 2 ^ 64"
  shows "c + (word_of_nat k :: 64 word) \<noteq> c + word_of_nat m"
proof
  assume "c + (word_of_nat k :: 64 word) = c + word_of_nat m"
  then have "take_bit 64 k = take_bit 64 m" by (simp add: word_of_nat_eq_iff)
  moreover have "take_bit 64 k = k" by (rule take_bit_nat_eq_self, rule less_trans [OF assms])
  moreover have "take_bit 64 m = m" by (rule take_bit_nat_eq_self [OF assms(2)])
  ultimately show False using assms(1) by simp
qed

lemma nums_ok_same:
  assumes "nums_ok c0 w" "rc_salts w' = rc_salts w" "rc_savers w' = (rc_savers w)[i := s]"
    and "i < length (rc_savers w)" "sav_pid s = sav_pid (rc_savers w ! i)"
    and "sav_num s = sav_num (rc_savers w ! i)"
  shows "nums_ok c0 w'"
proof -
  have each: "length (rc_savers w') = length (rc_savers w) \<and>
      sav_pid (rc_savers w' ! j) = sav_pid (rc_savers w ! j) \<and>
      sav_num (rc_savers w' ! j) = sav_num (rc_savers w ! j)" for j
    using assms(3-6) by (simp add: nth_list_update)
  have "numbered p (rc_savers w') = numbered p (rc_savers w)" for p
    using assms(3-6) numbered_same by simp
  with each assms(1,2) show ?thesis by (simp add: nums_ok_def)
qed

lemma nums_ok_salt:
  assumes nums: "nums_ok c0 w" and i: "i < length (rc_savers w)"
    and none: "sav_num (rc_savers w ! i) = None"
    and pid: "sav_pid s = sav_pid (rc_savers w ! i)" and num: "sav_num s = Some (rc_salts w (sav_pid s))"
    and salts: "rc_salts w' = (rc_salts w)(sav_pid s := rc_salts w (sav_pid s) + 1)"
    and savers: "rc_savers w' = (rc_savers w)[i := s]"
  shows "nums_ok c0 w'"
proof -
  let ?xs = "rc_savers w" and ?p = "sav_pid s"
  let ?m = "card (numbered ?p ?xs)"
  note room = numbered_room [OF i none]
  have len: "length ?xs < 2 ^ 64" using nums by (simp add: nums_ok_def)
  have card: "card (numbered p (?xs[i := s])) = (if p = ?p then Suc ?m else card (numbered p ?xs))" for p
    using numbered_more [OF i pid] num room(1) by simp
  have salt: "rc_salts w p = c0 p + word_of_nat (card (numbered p ?xs))" for p
    using nums by (simp add: nums_ok_def)
  have old: "\<exists>k < card (numbered (sav_pid (?xs ! j)) ?xs). n = c0 (sav_pid (?xs ! j)) + word_of_nat k"
    if "j < length ?xs" "sav_num (?xs ! j) = Some n" for j n
    using nums that by (simp add: nums_ok_def)
  have fresh: "sav_num (?xs ! j) \<noteq> sav_num s" if "j < length ?xs" "sav_pid (?xs ! j) = ?p" for j
  proof
    assume "sav_num (?xs ! j) = sav_num s"
    with old [OF that(1)] num that(2) salt obtain k where "k < ?m"
      "c0 ?p + word_of_nat ?m = c0 ?p + word_of_nat k" by auto
    with salt_fresh [of k ?m "c0 ?p"] room(2) [of ?p] len show False by simp
  qed
  have apart: "(sav_pid (?xs ! j), sav_num (?xs ! j)) \<noteq> (sav_pid (?xs ! k), sav_num (?xs ! k))"
    if "j < length ?xs" "k < length ?xs" "j \<noteq> k" "sav_num (?xs ! j) \<noteq> None" "sav_num (?xs ! k) \<noteq> None"
    for j k using nums that unfolding nums_ok_def by blast
  show ?thesis
    unfolding nums_ok_def
  proof (intro conjI allI impI)
    show "length (rc_savers w') < 2 ^ 64" using len by (simp add: savers)
    show "rc_salts w' p = c0 p + word_of_nat (card (numbered p (rc_savers w')))" for p
      using salt by (simp add: salts savers card)
  next
    fix j n assume "j < length (rc_savers w')" "sav_num (rc_savers w' ! j) = Some n"
    then show "\<exists>k < card (numbered (sav_pid (rc_savers w' ! j)) (rc_savers w')).
        n = c0 (sav_pid (rc_savers w' ! j)) + word_of_nat k"
      using old [of j n] num salt [of ?p] i
      by (cases "j = i") (auto simp: savers card less_Suc_eq)
  next
    fix j k assume "j < length (rc_savers w')" "k < length (rc_savers w')" "j \<noteq> k"
      "sav_num (rc_savers w' ! j) \<noteq> None" "sav_num (rc_savers w' ! k) \<noteq> None"
    then show "(sav_pid (rc_savers w' ! j), sav_num (rc_savers w' ! j)) \<noteq>
        (sav_pid (rc_savers w' ! k), sav_num (rc_savers w' ! k))"
      using apart [of j k] fresh [of j] fresh [of k] i by (auto simp: savers nth_list_update split: if_splits)
  qed
qed

text \<open>The store file holds what it held, or the whole text of a saver that has returned Ok.\<close>

definition file_intact :: "path \<Rightarrow> string option \<Rightarrow> race \<Rightarrow> bool" where
  "file_intact P before w \<longleftrightarrow>
     (if list_ex (\<lambda>s. sav_pc s = PcEnd (Ok ())) (rc_savers w)
      then list_ex (\<lambda>s. sav_pc s = PcEnd (Ok ()) \<and>
             json_print (sav_env s) (st_prints (sav_store s)) = Ok (sav_content s) \<and>
             fs_files (rc_fs w) P = Some (sav_content s)) (rc_savers w)
      else fs_files (rc_fs w) P = before)"

definition race_ok :: "path \<Rightarrow> string option \<Rightarrow> (nat \<Rightarrow> 64 word) \<Rightarrow> race \<Rightarrow> bool" where
  "race_ok P before c0 w \<longleftrightarrow> nums_ok c0 w \<and>
     list_all (sav_ok P (fs_files (rc_fs w))) (rc_savers w) \<and> file_intact P before w"

lemma ex_update:
  assumes "i < length xs" "\<not> Q (xs ! i)"
  shows "list_ex Q (xs[i := s]) \<longleftrightarrow> Q s \<or> list_ex Q xs"
  using assms by (auto simp: list_ex_length nth_list_update)

lemma race_turn_ok:
  assumes plain: "plain_path P" and ok: "race_ok P before c0 w"
    and i: "i < length (rc_savers w)" and live: "\<not> sav_ended (rc_savers w ! i)"
  shows "race_ok P before c0 (race_turn i w)"
proof -
  define s fs where "s = rc_savers w ! i" and "fs = (rc_fs w)\<lparr>fs_salt := rc_salts w (sav_pid s)\<rparr>"
  define s' fs' where "s' = fst (saver_step s fs)" and "fs' = snd (saver_step s fs)"
  have turn: "rc_fs (race_turn i w) = fs'"
    "rc_savers (race_turn i w) = (rc_savers w)[i := s']"
    "rc_salts (race_turn i w) = (rc_salts w)(sav_pid s := fs_salt fs')"
    by (simp_all add: race_turn_def Let_def s_def fs_def s'_def fs'_def)
  have nums: "nums_ok c0 w" and each: "sav_ok P (fs_files fs) t" if "t \<in> set (rc_savers w)" for t
    using ok that by (simp_all add: race_ok_def list_all_iff fs_def)
  have s: "s \<in> set (rc_savers w)" using i by (simp add: s_def)
  note ok_s = each [OF s]
  have "st_path (sav_store s) = P" using ok_s by (simp add: sav_ok_def)
  note tmp = sav_tmp_neq [OF plain this]
  have pid: "sav_pid s' = sav_pid s" using step_same [of s fs] by (simp add: s'_def sav_pid_def)
  have "nums_ok c0 (race_turn i w)"
  proof (cases "sav_pc s = PcSalt")
    case True
    then have "sav_num s = None" using ok_s by (simp add: sav_ok_def)
    then show ?thesis
      using nums_ok_salt [OF nums [OF s] i, of s' "race_turn i w"] True step_num [of s fs] pid turn
      by (simp add: s_def [symmetric] s'_def [symmetric] fs'_def [symmetric]) (simp add: fs_def)
  next
    case False
    then have "fs_salt fs' = rc_salts w (sav_pid s)" "sav_num s' = sav_num s"
      using step_num [of s fs] by (simp_all add: s'_def fs'_def) (simp add: fs_def)
    then show ?thesis
      using nums_ok_same [OF nums [OF s], of "race_turn i w" i s'] i pid turn by (simp add: s_def)
  qed
  moreover have "sav_ok P (fs_files fs') ((rc_savers w)[i := s'] ! j)" if j: "j < length (rc_savers w)" for j
  proof (cases "j = i")
    case True
    then show ?thesis using step_keeps_ok [OF ok_s tmp] i by (simp add: s'_def fs'_def)
  next
    case False
    let ?t = "rc_savers w ! j"
    have ok_t: "sav_ok P (fs_files fs) ?t" using each j by simp
    have "fs_files fs' (sav_tmp ?t) = fs_files fs (sav_tmp ?t)" if "sav_num ?t \<noteq> None"
      unfolding fs'_def
    proof (rule step_files [OF ok_s])
      show "sav_tmp ?t \<noteq> P" using sav_tmp_neq [OF plain] ok_t by (simp add: sav_ok_def)
      assume "sav_num s \<noteq> None"
      then have "(sav_pid ?t, sav_num ?t) \<noteq> (sav_pid s, sav_num s)"
        using nums [OF s] that i j False unfolding nums_ok_def s_def by blast
      then show "sav_tmp ?t \<noteq> sav_tmp s"
        using sav_tmp_inj [of ?t s] that \<open>sav_num s \<noteq> None\<close> by auto
    qed
    with sav_ok_frame [OF ok_t] show ?thesis using False by simp
  qed
  moreover have "file_intact P before (race_turn i w)"
  proof -
    let ?ended = "\<lambda>s. sav_pc s = PcEnd (Ok ())"
    let ?good = "\<lambda>files s. ?ended s \<and> json_print (sav_env s) (st_prints (sav_store s)) = Ok (sav_content s) \<and>
      files P = Some (sav_content s)"
    have stopped: "\<not> ?ended (rc_savers w ! i)" using live by (auto simp: sav_ended_def)
    note target = step_target [OF ok_s tmp live [folded s_def], folded s'_def fs'_def]
    have "fs_files fs = fs_files (rc_fs w)" by (simp add: fs_def)
    with ok target have same: "\<not> ?ended s' \<Longrightarrow> fs_files fs' P = fs_files (rc_fs w) P" by simp
    show ?thesis
    proof (cases "?ended s'")
      case True
      have "sav_ok P (fs_files fs') s'" using step_keeps_ok [OF ok_s tmp] by (simp add: s'_def fs'_def)
      with True target have "?good (fs_files fs') s'" by (simp add: sav_ok_def)
      then show ?thesis using i by (auto simp: file_intact_def turn list_ex_length intro: exI [of _ i])
    next
      case False
      then show ?thesis
        using ok same stopped ex_update [OF i, of ?ended s'] ex_update [OF i, of "?good (fs_files fs')" s']
        by (simp add: race_ok_def file_intact_def turn)
    qed
  qed
  ultimately show ?thesis by (simp add: race_ok_def turn list_all_length)
qed

lemma race_start_each:
  assumes "race_start P w" "t \<in> set (rc_savers w)"
  shows "sav_pc t = PcStart \<and> sav_num t = None \<and> st_path (sav_store t) = P"
proof -
  have "t = saver_new (sav_env t) (sav_store t)" "st_path (sav_store t) = P"
    using assms by (auto simp: race_start_def list_all_iff)
  then show ?thesis by (metis saver_new_def saver.select_convs(3,4))
qed

lemma race_start_ok:
  assumes start: "race_start P w"
  shows "race_ok P (fs_files (rc_fs w) P) (rc_salts w) w"
proof -
  note each = race_start_each [OF start]
  have "numbered p (rc_savers w) = {}" for p using each by (auto simp: numbered_def)
  then have "nums_ok (rc_salts w) w" using start each by (auto simp: nums_ok_def race_start_def)
  moreover have "\<not> list_ex (\<lambda>s. sav_pc s = PcEnd (Ok ())) (rc_savers w)" using each by (auto simp: list_ex_iff)
  ultimately show ?thesis
    using each by (simp add: race_ok_def list_all_iff sav_ok_def file_intact_def)
qed

lemma race_reach_ok:
  assumes "plain_path P" "race_step\<^sup>*\<^sup>* w w'" "race_ok P before c0 w"
  shows "race_ok P before c0 w'"
  using assms(2,3)
proof (induction rule: rtranclp_induct)
  case (step w1 w2)
  then show ?case using race_turn_ok [OF assms(1)] by (auto elim!: race_stepE)
qed simp

subsection \<open>The end of a race\<close>

definition pc_rank :: "save_pc \<Rightarrow> nat" where
  "pc_rank pc =
     (case pc of PcStart \<Rightarrow> 7 | PcSalt \<Rightarrow> 6 | PcPrint \<Rightarrow> 5 | PcOpen \<Rightarrow> 4 | PcWrite \<Rightarrow> 3
      | PcSync \<Rightarrow> 2 | PcRename \<Rightarrow> 1 | PcEnd _ \<Rightarrow> 0)"

definition race_rank :: "race \<Rightarrow> nat" where
  "race_rank w = sum_list (map (\<lambda>s. pc_rank (sav_pc s)) (rc_savers w))"

lemma step_rank: "\<not> sav_ended s \<Longrightarrow> pc_rank (sav_pc (fst (saver_step s fs))) < pc_rank (sav_pc s)"
  by (cases "sav_pc s")
    (simp_all add: sav_ended_def pc_rank_def step_defs split: option.split sum.split prod.split)

lemma race_step_rank: "race_step w w' \<Longrightarrow> race_rank w' < race_rank w"
proof (erule race_stepE)
  fix i assume i: "i < length (rc_savers w)" and live: "\<not> sav_ended (rc_savers w ! i)"
    and w': "w' = race_turn i w"
  let ?r = "map (\<lambda>s. pc_rank (sav_pc s)) (rc_savers w)"
  define s' where "s' = fst (saver_step (rc_savers w ! i)
    ((rc_fs w)\<lparr>fs_salt := rc_salts w (sav_pid (rc_savers w ! i))\<rparr>))"
  have "pc_rank (sav_pc s') < ?r ! i" using step_rank [OF live] i by (simp add: s'_def)
  then have "sum_list (?r[i := pc_rank (sav_pc s')]) < sum_list ?r"
    using i elem_le_sum_list [of i ?r] by (simp add: sum_list_update)
  then show "race_rank w' < race_rank w"
    by (simp add: race_rank_def w' race_turn_def Let_def map_update s'_def)
qed

lemma race_steps_rank: "(race_step ^^ n) w w' \<Longrightarrow> n + race_rank w' \<le> race_rank w"
proof (induction n arbitrary: w')
  case (Suc n)
  then show ?case using race_step_rank by fastforce
qed simp

lemma race_start_rank: "race_start P w \<Longrightarrow> race_rank w = 7 * length (rc_savers w)"
proof -
  assume "race_start P w"
  then have "map (\<lambda>s. pc_rank (sav_pc s)) (rc_savers w) = map (\<lambda>_. 7) (rc_savers w)"
    using race_start_each by (auto simp: pc_rank_def)
  then show ?thesis by (simp add: race_rank_def sum_list_triv del: map_eq_conv)
qed

text \<open>With a working file system and contents that can be printed nothing fails.\<close>

definition race_calm :: "race \<Rightarrow> bool" where
  "race_calm w \<longleftrightarrow> (\<forall>n. fs_fault (rc_fs w) n = None) \<and>
     (\<forall>s \<in> set (rc_savers w). is_ok (json_print (sav_env s) (st_prints (sav_store s))) \<and>
        (case sav_pc s of PcEnd r \<Rightarrow> r = Ok () | _ \<Rightarrow> True))"

lemma step_calm:
  assumes "sav_ok P (fs_files fs) s" "P \<noteq> []" "\<forall>n. fs_fault fs n = None"
    and "is_ok (json_print (sav_env s) (st_prints (sav_store s)))"
    and "case sav_pc s of PcEnd r \<Rightarrow> r = Ok () | _ \<Rightarrow> True"
  shows "case sav_pc (fst (saver_step s fs)) of PcEnd r \<Rightarrow> r = Ok () | _ \<Rightarrow> True"
  using assms by (cases "sav_pc s")
    (auto simp: sav_ok_def step_defs path_parent_def is_ok_iff split: sum.split)

lemma step_fault: "fs_fault (snd (saver_step s fs)) = fs_fault fs"
  by (simp add: step_defs split: save_pc.split option.split sum.split prod.split)

lemma race_turn_calm:
  assumes "plain_path P" "race_ok P before c0 w" "i < length (rc_savers w)" "race_calm w"
  shows "race_calm (race_turn i w)"
proof -
  define s fs where "s = rc_savers w ! i" and "fs = (rc_fs w)\<lparr>fs_salt := rc_salts w (sav_pid s)\<rparr>"
  have s: "s \<in> set (rc_savers w)" using assms(3) by (simp add: s_def)
  have ok: "sav_ok P (fs_files fs) s" using assms(2) s by (simp add: race_ok_def list_all_iff fs_def)
  have fault: "\<forall>n. fs_fault fs n = None" using assms(4) by (simp add: race_calm_def fs_def)
  let ?s' = "fst (saver_step s fs)"
  have "is_ok (json_print (sav_env ?s') (st_prints (sav_store ?s'))) \<and>
      (case sav_pc ?s' of PcEnd r \<Rightarrow> r = Ok () | _ \<Rightarrow> True)"
    using step_calm [OF ok _ fault] assms(1,4) s step_same [of s fs]
    by (simp add: race_calm_def plain_path_def)
  then show ?thesis
    using assms(4) fault set_update_subset_insert [of "rc_savers w" i ?s']
    by (auto simp: race_calm_def race_turn_def Let_def step_fault s_def [symmetric] fs_def [symmetric])
qed

text \<open>Who saves what does not change.\<close>

definition saved_stores :: "race \<Rightarrow> (env \<times> store) list" where
  "saved_stores w = map (\<lambda>s. (sav_env s, sav_store s)) (rc_savers w)"

lemma race_turn_stores: "i < length (rc_savers w) \<Longrightarrow> saved_stores (race_turn i w) = saved_stores w"
  using step_same by (simp add: saved_stores_def race_turn_def Let_def map_update list_update_same_conv)

lemma race_reach_calm:
  assumes "race_start P w" "race_step\<^sup>*\<^sup>* w w'" "race_calm w"
  shows "race_calm w' \<and> saved_stores w' = saved_stores w"
  using assms(2)
proof (induction rule: rtranclp_induct)
  case (step w1 w2)
  have plain: "plain_path P" using assms(1) by (simp add: race_start_def)
  have "race_ok P (fs_files (rc_fs w) P) (rc_salts w) w1"
    using race_reach_ok [OF plain step(1) race_start_ok [OF assms(1)]] .
  then show ?case
    using step race_turn_calm [OF plain] race_turn_stores by (auto elim!: race_stepE)
qed (simp add: assms(3))

lemma race_stuck: "(\<forall>w'. \<not> race_step w w') \<longleftrightarrow> list_all sav_ended (rc_savers w)"
  by (auto simp: list_all_length elim!: race_stepE intro: race_stepI)

subsection \<open>Properties\<close>

text \<open>A schedule: the savers in the order in which they take their steps.\<close>

fun turns_ok :: "nat list \<Rightarrow> race \<Rightarrow> bool" where
  "turns_ok [] w \<longleftrightarrow> True"
| "turns_ok (i # is) w \<longleftrightarrow>
     i < length (rc_savers w) \<and> \<not> sav_ended (rc_savers w ! i) \<and> turns_ok is (race_turn i w)"

lemma turns_steps: "turns_ok is w \<Longrightarrow> (race_step ^^ length is) w (fold race_turn is w)"
proof (induction "is" arbitrary: w)
  case (Cons i "is")
  then have "race_step w (race_turn i w)" by (simp add: race_stepI)
  with Cons show ?case by (simp add: relpowp_Suc_I2 del: relpowp.simps)
qed simp

definition sample_race :: race where
  "sample_race = \<lparr>rc_fs = quiet_fs, rc_salts = (\<lambda>_. 0),
     rc_savers = [saver_new sample_env sample_store,
                  saver_new sample_env (sample_store\<lparr>st_prints := []\<rparr>)]\<rparr>"

lemma sample_race_start: "race_start DEFAULT_PATH sample_race"
  using sample_store_plain
  by (simp add: race_start_def sample_race_def saver_new_def) (simp add: sample_store_def)

lemmas turn_simps = race_turn_def saver_step_def io_then_def fs_ops sample_race_def saver_new_def
  sample_env_def sample_store_def quiet_fs_def DEFAULT_PATH_def path_parent_def sav_ended_def
  sav_tmp_def sav_pid_def Let_def

text \<open>C21: However many saves of the store run at once, in threads of one process or of several, and
  however their steps mix and fail: at every moment, so also after a crash, the store file holds what
  it held at first, if no save has succeeded yet, and else the complete text of a save that has.\<close>

theorem concurrent_saves_intact:
  assumes "race_start P w" and "race_step\<^sup>*\<^sup>* w w'"
  shows "if list_ex (\<lambda>s. sav_pc s = PcEnd (Ok ())) (rc_savers w')
    then list_ex (\<lambda>s. sav_pc s = PcEnd (Ok ()) \<and>
           json_print (sav_env s) (st_prints (sav_store s)) = Ok (sav_content s) \<and>
           fs_files (rc_fs w') P = Some (sav_content s)) (rc_savers w')
    else fs_files (rc_fs w') P = fs_files (rc_fs w) P"
proof -
  have "plain_path P" using assms(1) by (simp add: race_start_def)
  from race_reach_ok [OF this assms(2) race_start_ok [OF assms(1)]] show ?thesis
    by (simp add: race_ok_def file_intact_def)
qed

theorem concurrent_saves_intact_witness:
  "fs_files (rc_fs (fold race_turn [0, 1, 0, 1, 0, 1, 0, 1, 0, 1] sample_race)) DEFAULT_PATH = None"
proof -
  let ?is = "[0, 1, 0, 1, 0, 1, 0, 1, 0, 1]"
  have "turns_ok ?is sample_race" by (simp add: turn_simps)
  from relpowp_imp_rtranclp [OF turns_steps [OF this]]
  have "race_step\<^sup>*\<^sup>* sample_race (fold race_turn ?is sample_race)" .
  from concurrent_saves_intact [OF sample_race_start this]
  show ?thesis by (simp add: turn_simps)
qed

text \<open>C22: On a working file system the saves always come to an end, after seven steps each, whatever
  the schedule; then all have succeeded, and the file parses, to the store of one of them.\<close>

theorem concurrent_saves_parse:
  assumes "race_start P w" and "rc_savers w \<noteq> []" and "\<forall>n. fs_fault (rc_fs w) n = None"
    and "\<forall>s \<in> set (rc_savers w). \<exists>content.
      json_print (sav_env s) (st_prints (sav_store s)) = Ok content \<and>
      json_parse env content = Ok (st_prints (sav_store s))"
    and "(race_step ^^ n) w w'"
  shows "n \<le> 7 * length (rc_savers w) \<and>
    ((\<forall>w''. \<not> race_step w' w'') \<longrightarrow>
       list_all (\<lambda>s. sav_pc s = PcEnd (Ok ())) (rc_savers w') \<and>
       (\<exists>s \<in> set (rc_savers w). fst (store_open env P (rc_fs w')) = Ok (sav_store s)))"
proof (intro conjI impI)
  show "n \<le> 7 * length (rc_savers w)"
    using race_steps_rank [OF assms(5)] race_start_rank [OF assms(1)] by simp
next
  assume "\<forall>w''. \<not> race_step w' w''"
  then have ended: "list_all sav_ended (rc_savers w')" by (simp add: race_stuck)
  have plain: "plain_path P" using assms(1) by (simp add: race_start_def)
  have reach: "race_step\<^sup>*\<^sup>* w w'" using relpowp_imp_rtranclp [OF assms(5)] .
  have "race_calm w"
    using assms(3,4) race_start_each [OF assms(1)] by (fastforce simp: race_calm_def is_ok_iff)
  from race_reach_calm [OF assms(1) reach this]
  have calm: "race_calm w'" and stores: "saved_stores w' = saved_stores w" by simp_all
  show all: "list_all (\<lambda>s. sav_pc s = PcEnd (Ok ())) (rc_savers w')"
    unfolding list_all_iff
  proof
    fix s assume "s \<in> set (rc_savers w')"
    with ended calm show "sav_pc s = PcEnd (Ok ())"
      by (cases "sav_pc s") (force simp: list_all_iff sav_ended_def race_calm_def)+
  qed
  have "rc_savers w' \<noteq> []" using stores assms(2) by (auto simp: saved_stores_def)
  with all have "list_ex (\<lambda>s. sav_pc s = PcEnd (Ok ())) (rc_savers w')"
    by (cases "rc_savers w'") simp_all
  with race_reach_ok [OF plain reach race_start_ok [OF assms(1)]] obtain s where
    s: "s \<in> set (rc_savers w')" "json_print (sav_env s) (st_prints (sav_store s)) = Ok (sav_content s)"
      "fs_files (rc_fs w') P = Some (sav_content s)"
    by (auto simp: race_ok_def file_intact_def list_ex_iff)
  have "(sav_env s, sav_store s) \<in> set (saved_stores w')" using s(1) by (simp add: saved_stores_def)
  then obtain t where t: "t \<in> set (rc_savers w)" "sav_env t = sav_env s" "sav_store t = sav_store s"
    by (auto simp: stores) (auto simp: saved_stores_def)
  have "st_path (sav_store t) = P" using race_start_each [OF assms(1) t(1)] by simp
  moreover have "json_parse env (sav_content s) = Ok (st_prints (sav_store t))"
    using assms(4) t s(2) by fastforce
  moreover have "fs_fault (rc_fs w') (fs_count (rc_fs w')) = None" using calm by (simp add: race_calm_def)
  ultimately have "fst (store_open env P (rc_fs w')) = Ok (sav_store t)"
    using s(3) store_open_reads by (cases "sav_store t") simp
  with t(1) show "\<exists>s \<in> set (rc_savers w). fst (store_open env P (rc_fs w')) = Ok (sav_store s)" by blast
qed

theorem concurrent_saves_parse_witness:
  "let w = fold race_turn [0, 1, 0, 1, 0, 1, 0, 1, 0, 1, 0, 1, 1, 0] sample_race in
   \<exists>s \<in> set (rc_savers sample_race). fst (store_open sample_env DEFAULT_PATH (rc_fs w)) = Ok (sav_store s)"
proof -
  let ?is = "[0, 1, 0, 1, 0, 1, 0, 1, 0, 1, 0, 1, 1, 0]"
  have "turns_ok ?is sample_race" by (simp add: turn_simps)
  note steps = turns_steps [OF this]
  have "\<forall>w''. \<not> race_step (fold race_turn ?is sample_race) w''"
    unfolding race_stuck by (simp add: turn_simps)
  then show ?thesis
    using concurrent_saves_parse [OF sample_race_start _ _ _ steps, of sample_env]
    by (simp add: Let_def del: fold_simps) (simp add: turn_simps)
qed

end
