(* ===== verification/Access.thy ===== *)
theory Access
  imports RustStr
begin

text \<open>
  Who may act on whose fingerprints (\<open>elanprintd/src/access.rs\<close>).  The name service is what
  \<open>getent\<close> printed, an argument; a uid is a number below \<open>2 ^ 32\<close>.  The lemmas show that only the
  record of exactly the user asked for counts, and that an unknown user opens nothing.
\<close>

definition UID_MAX :: nat where "UID_MAX = 4294967295"

text \<open>One account record: the uid, if the line is that of the user and its third field is a number.\<close>

definition passwd_uid :: "string \<Rightarrow> string \<Rightarrow> nat option" where
  "passwd_uid user line =
     (case split_on CHR '':'' line of
        name # _ # uid # _ \<Rightarrow> (if name \<noteq> user then None else parse_uint UID_MAX (trim uid))
      | _ \<Rightarrow> None)"

fun find_uid :: "string \<Rightarrow> string list \<Rightarrow> nat option" where
  "find_uid user [] = None"
| "find_uid user (l # ls) = (case passwd_uid user l of Some u \<Rightarrow> Some u | None \<Rightarrow> find_uid user ls)"

definition uid_for_user :: "string \<Rightarrow> string \<Rightarrow> nat option" where
  "uid_for_user passwd user = (if user = [] then None else find_uid user (lines passwd))"

definition may_act :: "nat \<Rightarrow> nat option \<Rightarrow> bool" where
  "may_act caller target = (if caller = 0 then True else target = Some caller)"

text \<open>What running \<open>getent passwd user\<close> gives within the time limit; the output is \<open>None\<close> when it is
  not UTF-8.\<close>

datatype getent_result = CannotRun | TimedOut | Exited bool "string option"

definition lookup_uid :: "(string \<Rightarrow> getent_result) \<Rightarrow> string \<Rightarrow> nat option" where
  "lookup_uid getent user =
     (if user = [] \<or> CHR '':'' \<in> set user \<or> NL \<in> set user then None
      else
        (case getent user of
           CannotRun \<Rightarrow> None
         | TimedOut \<Rightarrow> None
         | Exited success output \<Rightarrow>
             (if \<not> success then None
              else (case output of None \<Rightarrow> None | Some line \<Rightarrow> uid_for_user line user))))"

subsection \<open>Lemmas\<close>

lemma passwd_uid_Some:
  "passwd_uid user line = Some u \<longleftrightarrow>
     (\<exists>pw uid rest. split_on CHR '':'' line = user # pw # uid # rest \<and> parse_uint UID_MAX (trim uid) = Some u)"
  by (auto simp: passwd_uid_def split: list.splits if_splits)

lemma find_uid_Some:
  "find_uid user ls = Some u \<Longrightarrow> \<exists>l \<in> set ls. passwd_uid user l = Some u"
  by (induction ls) (auto split: option.splits)

lemma find_uid_first:
  "passwd_uid user l = Some u \<Longrightarrow> \<forall>l' \<in> set before. passwd_uid user l' = None \<Longrightarrow>
   find_uid user (before @ l # rest) = Some u"
  by (induction before) auto

text \<open>A printed account record.\<close>

definition passwd_line :: "string \<Rightarrow> string \<Rightarrow> nat \<Rightarrow> string \<Rightarrow> string" where
  "passwd_line user pw uid rest =
     user @ CHR '':'' # pw @ CHR '':'' # show_nat uid @ CHR '':'' # rest"

lemma digit_char_no_colon: "n < 10 \<Longrightarrow> digit_char n \<noteq> CHR '':''"
proof
  assume "n < 10" "digit_char n = CHR '':''"
  then have "digit_val CHR '':'' = Some n" using digit_val_digit_char [of n] by simp
  then show False by (simp add: digit_val_def)
qed

lemma digit_char_no_space: "n < 10 \<Longrightarrow> \<not> is_space (digit_char n)"
proof
  assume "n < 10" and s: "is_space (digit_char n)"
  then have "digit_val (digit_char n) = Some n" using digit_val_digit_char by simp
  with s show False by (auto simp: is_space_def digit_val_def)
qed

lemma show_nat_chars: "c \<in> set (show_nat n) \<Longrightarrow> \<exists>d < 10. c = digit_char d"
proof (induction n rule: show_nat.induct)
  case (1 n)
  show ?case
  proof (cases "n < 10")
    case True
    with "1.prems" show ?thesis by (subst (asm) show_nat.simps) auto
  next
    case False
    with "1.prems" have "c \<in> set (show_nat (n div 10)) \<or> c = digit_char (n mod 10)"
      by (subst (asm) show_nat.simps) auto
    with "1.IH" [OF False] show ?thesis by (metis mod_less_divisor zero_less_numeral)
  qed
qed

lemma trim_no_space: "\<forall>c \<in> set s. \<not> is_space c \<Longrightarrow> trim s = s"
proof -
  assume s: "\<forall>c \<in> set s. \<not> is_space c"
  have drop: "dropWhile is_space t = t" if "\<forall>c \<in> set t. \<not> is_space c" for t
    using that by (cases t) auto
  show ?thesis using drop [of s] drop [of "rev s"] s
    by (simp add: trim_def trim_start_def trim_end_matches_def)
qed

lemma passwd_uid_line:
  assumes "CHR '':'' \<notin> set user" "CHR '':'' \<notin> set pw" "uid \<le> UID_MAX"
  shows "passwd_uid user (passwd_line user pw uid rest) = Some uid"
proof -
  have "CHR '':'' \<notin> set (show_nat uid)" using show_nat_chars digit_char_no_colon by metis
  then have "split_on CHR '':'' (passwd_line user pw uid rest) =
      user # pw # show_nat uid # split_on CHR '':'' rest"
    using assms(1,2) by (simp add: passwd_line_def split_on_append)
  moreover have "trim (show_nat uid) = show_nat uid"
    using show_nat_chars digit_char_no_space by (intro trim_no_space) metis
  ultimately show ?thesis using parse_uint_show [OF assms(3)] by (simp add: passwd_uid_def)
qed

lemma lookup_uid_Some:
  assumes "lookup_uid getent user = Some u"
  shows "user \<noteq> [] \<and> CHR '':'' \<notin> set user \<and> NL \<notin> set user \<and>
    (\<exists>text line pw uid rest. getent user = Exited True (Some text) \<and> line \<in> set (lines text) \<and>
       split_on CHR '':'' line = user # pw # uid # rest \<and> parse_uint UID_MAX (trim uid) = Some u) \<and>
    u \<le> UID_MAX"
proof -
  from assms have ok: "user \<noteq> []" "CHR '':'' \<notin> set user" "NL \<notin> set user"
    by (auto simp: lookup_uid_def split: if_splits)
  with assms obtain out where g: "getent user = Exited True (Some out)" "uid_for_user out user = Some u"
    by (auto simp: lookup_uid_def split: getent_result.splits if_splits option.splits)
  then obtain line where l: "line \<in> set (lines out)" "passwd_uid user line = Some u"
    using ok(1) by (auto simp: uid_for_user_def dest: find_uid_Some)
  then obtain pw uid rest where "split_on CHR '':'' line = user # pw # uid # rest"
    "parse_uint UID_MAX (trim uid) = Some u" by (auto simp: passwd_uid_Some)
  with ok g l show ?thesis using parse_uint_le by blast
qed

subsection \<open>Properties\<close>

text \<open>Access needs an account record of exactly that user: a caller who is not root may act on a
  user's prints only when the name service answered with a line whose first field is that very
  name and whose third field is the caller's uid; empty names and names with a colon or a line
  feed are never looked up.\<close>

theorem access_needs_own_record:
  assumes "may_act caller (lookup_uid getent user)" and "caller \<noteq> 0"
  shows "user \<noteq> [] \<and> CHR '':'' \<notin> set user \<and> NL \<notin> set user \<and>
    (\<exists>out line pw uid rest. getent user = Exited True (Some out) \<and> line \<in> set (lines out) \<and>
       split_on CHR '':'' line = user # pw # uid # rest \<and> parse_uint UID_MAX (trim uid) = Some caller)"
proof -
  have "lookup_uid getent user = Some caller" using assms by (simp add: may_act_def)
  from lookup_uid_Some [OF this] show ?thesis by blast
qed

text \<open>The account record an NSS backend prints for a user is understood: among lines of other
  users, the line \<open>name:password:uid:...\<close> of the user gives exactly that uid, so its owner is let in
  and any other uid but root is refused.\<close>

theorem own_record_grants:
  assumes "user \<noteq> []" and "CHR '':'' \<notin> set user" and "NL \<notin> set user" and "CHR '':'' \<notin> set pw"
    and "uid \<le> UID_MAX" and "getent user = Exited True (Some out)"
    and "lines out = before @ passwd_line user pw uid rest # after"
    and "\<forall>l \<in> set before. passwd_uid user l = None"
  shows "lookup_uid getent user = Some uid \<and>
    (may_act caller (lookup_uid getent user) \<longleftrightarrow> caller = 0 \<or> caller = uid)"
  using assms passwd_uid_line [OF assms(2,4,5)] find_uid_first [of user _ uid before after]
  by (auto simp: lookup_uid_def uid_for_user_def may_act_def)

definition sample_getent :: "string \<Rightarrow> getent_result" where
  "sample_getent user =
     (if user = ''alice'' then Exited True (Some (passwd_line ''alice'' ''x'' 1000 ''1000::/home/alice:/bin/sh''))
      else Exited False (Some []))"

lemma show_1000: "show_nat 1000 = ''1000''"
  by code_simp

lemma sample_getent_lines:
  "lines (passwd_line ''alice'' ''x'' 1000 ''1000::/home/alice:/bin/sh'') =
     [passwd_line ''alice'' ''x'' 1000 ''1000::/home/alice:/bin/sh'']"
  by (rule lines_no_nl) (simp_all add: passwd_line_def show_1000 NL_def)

theorem own_record_grants_witness:
  "may_act 1000 (lookup_uid sample_getent ''alice'') \<and> \<not> may_act 1001 (lookup_uid sample_getent ''alice'')"
proof -
  note g = own_record_grants [where getent = sample_getent and user = "''alice''" and pw = "''x''" and
      uid = 1000 and before = "[]" and after = "[]" and rest = "''1000::/home/alice:/bin/sh''" and
      out = "passwd_line ''alice'' ''x'' 1000 ''1000::/home/alice:/bin/sh''"]
  have "may_act c (lookup_uid sample_getent ''alice'') \<longleftrightarrow> c = 0 \<or> c = 1000" for c
    by (rule g [THEN conjunct2])
      (simp_all add: NL_def UID_MAX_def sample_getent_def sample_getent_lines)
  then show ?thesis by simp
qed

lemma sample_lookup: "lookup_uid sample_getent ''alice'' = Some 1000"
proof -
  have "passwd_uid ''alice'' (passwd_line ''alice'' ''x'' 1000 ''1000::/home/alice:/bin/sh'') = Some 1000"
    by (rule passwd_uid_line) (simp_all add: UID_MAX_def)
  then show ?thesis
    by (simp add: lookup_uid_def sample_getent_def NL_def uid_for_user_def sample_getent_lines)
qed

theorem access_needs_own_record_witness:
  "\<exists>out. sample_getent ''alice'' = Exited True (Some out)"
  using access_needs_own_record [of 1000 sample_getent "''alice''"]
  by (auto simp: sample_lookup may_act_def)

end
