(* ===== verification/TestsStore.thy ===== *)
theory TestsStore
  imports TestsProto StoreRace Access
begin

text \<open>
  The unit tests of \<open>elanprint-store\<close> and of \<open>elanprintd/src/access.rs\<close>, run on the model, as in
  \<open>TestsProto\<close>.  In the place of \<open>serde_json\<close> they use a codec of lines that are easy to evaluate.
  The tests of \<open>access.rs\<close> that ask the name service of the machine are given its documented answers;
  those that read the service unit are about a configuration file.
\<close>

subsection \<open>A codec\<close>

definition print_lines :: "prints \<Rightarrow> string" where
  "print_lines p =
     concat (map (\<lambda>(u, f, s). u @ ''/'' @ f @ ''/'' @ show_nat (unat s) @ '';'') (entries p))"

fun parse_lines :: "string list \<Rightarrow> prints \<Rightarrow> string + prints" where
  "parse_lines [] p = Ok p"
| "parse_lines (l # ls) p =
     (if l = [] then parse_lines ls p
      else
        (case split_on CHR ''/'' l of
           [u, f, s] \<Rightarrow>
             (case parse_uint 255 s of
                Some n \<Rightarrow>
                  parse_lines ls (bt_insert u (bt_insert f (word_of_nat n)
                    (case bt_get p u of Some m \<Rightarrow> m | None \<Rightarrow> [])) p)
              | None \<Rightarrow> Err ''not a slot'')
         | _ \<Rightarrow> Err ''not an entry''))"

definition line_env :: env where
  "line_env =
     \<lparr>json_parse = (\<lambda>t. parse_lines (split_on CHR '';'' t) []), json_print = (\<lambda>p. Ok (print_lines p)),
      env_pid = 7, env_stages = None\<rparr>"

subsection \<open>\<open>elanprint-store/src/lib.rs\<close>\<close>

text \<open>A path in the directory for temporary files, and the loops of \<open>entry\<close>, \<open>or_default\<close> and
  \<open>insert\<close> that set up a map.\<close>

definition tmp_path :: "string \<Rightarrow> path" where
  "tmp_path tag = [''tmp'', ''elanprint-store-7-'' @ tag @ ''.json'']"

fun prints_of :: "(string \<times> string \<times> byte) list \<Rightarrow> prints \<Rightarrow> prints" where
  "prints_of [] p = p"
| "prints_of ((u, f, s) # es) p =
     prints_of es (bt_insert u (bt_insert f s (case bt_get p u of Some m \<Rightarrow> m | None \<Rightarrow> [])) p)"

definition store_tests :: "(string \<times> bool) list" where
  "store_tests =
     [(''finger_names_match_fprintd'',
         is_valid_finger ''right-index-finger'' \<and> \<not> is_valid_finger ''Right Index'' \<and>
         \<not> is_valid_finger ''right-index''),
      (''insert_rejects_bad_names_and_taken_slots'',
         (let st = \<lparr>st_path = tmp_path ''reject'', st_prints = []\<rparr>;
              (r1, st) = store_insert ''u'' ''nope'' 1 st;
              (r2, st) = store_insert ''u'' ''right-index-finger'' 1 st;
              (r3, st) = store_insert ''v'' ''left-thumb'' 1 st;
              (r4, st) = store_insert ''u'' ''left-thumb'' 2 st
          in \<not> is_ok r1 \<and> is_ok r2 \<and> \<not> is_ok r3 \<and> is_ok r4)),
      (''save_and_reload_roundtrip'',
         (let path = tmp_path ''roundtrip'';
              (r1, st) = store_insert ''u'' ''right-index-finger'' 3 \<lparr>st_path = path, st_prints = []\<rparr>;
              (r2, fs) = store_save line_env st quiet_fs
          in is_ok r1 \<and> is_ok r2 \<and>
             (case fst (store_open line_env path fs) of
                Ok b \<Rightarrow> slot_of (st_prints b) (''u'', ''right-index-finger'') = Some 3
              | Err _ \<Rightarrow> False))),
      (''missing_file_opens_empty'',
         (case fst (store_open line_env (tmp_path ''missing'') quiet_fs) of
            Ok st \<Rightarrow> st_prints st = [] | Err _ \<Rightarrow> False))]"

definition reconcile_tests :: "(string \<times> bool) list" where
  "reconcile_tests =
     [(''empty_device_makes_everything_stale'',
         (let report = reconcile (prints_of [(''u'', ''right-index-finger'', 1)] []) 0
                [(1, SlotError 0xff)]
          in length (sr_stale report) = 1 \<and> sr_confirmed report = [])),
      (''two_byte_form_alone_never_proves_stale'',
         (let report = reconcile
                (prints_of [(''u'', ''right-index-finger'', 1), (''u'', ''left-thumb'', 2)] []) 1
                [(1, SlotError 0xff), (2, SlotError 0xff)]
          in sr_stale report = [] \<and> length (sr_unconfirmed report) = 2 \<and>
             length (sr_warnings report) = 1)),
      (''seventy_byte_record_confirms_and_contradicts'',
         (let report = reconcile
                (prints_of [(''u'', ''right-index-finger'', 1), (''u'', ''left-thumb'', 2)] []) 1
                [(1, SlotEnrolled (zeros70[69 := 0x01])), (2, SlotEmpty)]
          in length (sr_confirmed report) = 1 \<and> length (sr_stale report) = 1 \<and>
             es_slot (sr_stale report ! 0) = 2))]"

definition slot_tests :: "(string \<times> bool) list" where
  "slot_tests =
     [(''the_device_count_is_the_floor_not_the_store'',
         writable_slots 1 [] ! 0 = 1 \<and> writable_slots 0 [] ! 0 = 0 \<and> writable_slots 3 [] ! 0 = 3),
      (''empty_store_never_reopens_a_counted_slot'',
         list_all (\<lambda>count. 0 \<notin> set (writable_slots count [])) (byte_range 1 MAX_SLOT)),
      (''the_store_only_removes_candidates'',
         0 \<notin> set (writable_slots 0 [0, 1]) \<and> 1 \<notin> set (writable_slots 0 [0, 1]) \<and>
         writable_slots 0 [0, 1] ! 0 = 2),
      (''a_full_device_offers_nothing'', writable_slots (MAX_SLOT + 1) [] = []),
      (''tracked_slots_are_sorted_and_unique'',
         tracked_slots (prints_of [(''u'', ''left-thumb'', 2), (''v'', ''right-thumb'', 2),
           (''v'', ''left-index-finger'', 0)] []) = [0, 2])]"

text \<open>Four threads, released by a barrier: here in turns.\<close>

definition race_of_four :: "string \<Rightarrow> race" where
  "race_of_four tag =
     \<lparr>rc_fs = quiet_fs, rc_salts = (\<lambda>_. 0),
      rc_savers = map (\<lambda>n. saver_new line_env
        (snd (store_insert ''u'' ''right-index-finger'' n \<lparr>st_path = tmp_path tag, st_prints = []\<rparr>)))
        [0, 1, 2, 3]\<rparr>"

definition concurrent_saves_leave_a_parseable_file :: "nat list \<Rightarrow> bool" where
  "concurrent_saves_leave_a_parseable_file schedule \<longleftrightarrow>
     (let w = fold race_turn schedule (race_of_four ''concurrent'') in
      list_all (\<lambda>s. sav_pc s = PcEnd (Ok ())) (rc_savers w) \<and>
      (case fst (store_open line_env (tmp_path ''concurrent'') (rc_fs w)) of
         Ok b \<Rightarrow> (case bt_get (st_prints b) ''u'' of Some m \<Rightarrow> length m = 1 | None \<Rightarrow> False)
       | Err _ \<Rightarrow> False))"

lemma store_tests_pass: "all_pass (store_tests @ reconcile_tests @ slot_tests)"
  by code_simp

lemma concurrent_test_passes:
  "concurrent_saves_leave_a_parseable_file (concat (replicate 7 [0, 1, 2, 3]))"
  by code_simp

subsection \<open>\<open>elanprintd/src/access.rs\<close>\<close>

definition PASSWD_SAMPLE :: string where
  "PASSWD_SAMPLE = unlines
     [''root:x:0:0:root:/root:/bin/bash'',
      ''daemon:x:1:1:daemon:/usr/sbin:/usr/sbin/nologin'',
      ''gdm:x:128:135:Gnome Display Manager:/var/lib/gdm3:/bin/false'',
      ''alice:x:1000:1000:Alice:/home/alice:/bin/bash'',
      ''mallory:x:1001:1001:Mallory:/home/mallory:/bin/bash'']"

definition access_tests :: "(string \<times> bool) list" where
  "access_tests =
     (let uid = uid_for_user PASSWD_SAMPLE in
     [(''uid_comes_from_the_third_field'',
         uid ''root'' = Some 0 \<and> uid ''alice'' = Some 1000 \<and> uid ''mallory'' = Some 1001 \<and>
         uid ''gdm'' = Some 128),
      (''an_unknown_or_empty_name_has_no_uid'',
         uid ''nobody-here'' = None \<and> uid [] = None \<and> uid ''praw'' = None \<and> uid ''alice2'' = None),
      (''a_name_only_matches_the_first_field'', uid ''1000'' = None \<and> uid ''/home/alice'' = None),
      (''root_may_act_on_anyone'', may_act 0 (Some 1000) \<and> may_act 0 (Some 0) \<and> may_act 0 None),
      (''a_user_may_act_on_themselves_only'',
         may_act 1000 (Some 1000) \<and> \<not> may_act 1000 (Some 1001) \<and> \<not> may_act 1001 (Some 1000) \<and>
         \<not> may_act 1000 (Some 0)),
      (''an_unknown_target_is_refused_for_everyone_but_root'',
         \<not> may_act 1000 None \<and> \<not> may_act 1001 None \<and> may_act 0 None),
      (''nobody_but_root_and_the_owner_can_reach_a_delete'',
         (let root = 0; alice = 1000; mallory = 1001; gdm = 128 in
          may_act root (uid ''alice'') \<and> may_act alice (uid ''alice'') \<and>
          \<not> may_act mallory (uid ''alice'') \<and> \<not> may_act gdm (uid ''alice'') \<and>
          \<not> may_act mallory (uid ''ghost'') \<and> \<not> may_act alice (uid ''root'') \<and>
          may_act root (uid ''root''))),
      (''every_local_uid_is_refused_against_every_other'',
         (let users = [(''alice'', 1000), (''mallory'', 1001), (''gdm'', 128)] in
          list_all (\<lambda>(_, caller). list_all (\<lambda>(target_name, target).
            may_act caller (uid target_name) = (caller = target)) users) users))])"

text \<open>What \<open>getent passwd\<close> answers: the record of root, and exit code 2 for an unknown account.\<close>

definition root_only :: "string \<Rightarrow> getent_result" where
  "root_only user =
     (if user = ''root'' then Exited True (Some (unlines [''root:x:0:0:root:/root:/bin/bash'']))
      else Exited False (Some []))"

definition nss_tests :: "(string \<times> bool) list" where
  "nss_tests =
     [(''nss_resolves_root_to_zero'', lookup_uid root_only ''root'' = Some 0),
      (''nss_refuses_a_missing_account'', lookup_uid root_only ''elanprint-no-such-account'' = None),
      (''nss_refuses_a_malformed_name'',
         lookup_uid root_only [] = None \<and> lookup_uid root_only ''a:b'' = None \<and>
         lookup_uid root_only (''a'' @ NL # ''root'') = None)]"

lemma passwd_sample_lines:
  "lines PASSWD_SAMPLE =
     [''root:x:0:0:root:/root:/bin/bash'', ''daemon:x:1:1:daemon:/usr/sbin:/usr/sbin/nologin'',
      ''gdm:x:128:135:Gnome Display Manager:/var/lib/gdm3:/bin/false'',
      ''alice:x:1000:1000:Alice:/home/alice:/bin/bash'',
      ''mallory:x:1001:1001:Mallory:/home/mallory:/bin/bash'']"
  unfolding PASSWD_SAMPLE_def by (rule lines_unlines) (simp_all add: clean_line_def NL_def CR_def)

lemma root_only_lines: "lines (unlines [''root:x:0:0:root:/root:/bin/bash'']) = [''root:x:0:0:root:/root:/bin/bash'']"
  by (rule lines_unlines) (simp_all add: clean_line_def NL_def CR_def)

lemmas uid_simps = uid_for_user_def passwd_uid_def parse_uint_def trim_def trim_start_def
  trim_end_matches_def is_space_def digit_val_def UID_MAX_def Let_def

lemma sample_uids:
  "uid_for_user PASSWD_SAMPLE ''root'' = Some 0"
  "uid_for_user PASSWD_SAMPLE ''gdm'' = Some 128"
  "uid_for_user PASSWD_SAMPLE ''alice'' = Some 1000"
  "uid_for_user PASSWD_SAMPLE ''mallory'' = Some 1001"
  by (simp_all add: passwd_sample_lines uid_simps)

lemma sample_strangers:
  "list_all (\<lambda>name. uid_for_user PASSWD_SAMPLE name = None)
     [''nobody-here'', [], ''praw'', ''alice2'', ''1000'', ''/home/alice'', ''ghost'']"
  by (simp add: passwd_sample_lines uid_simps)

lemma access_tests_pass: "all_pass access_tests"
  using sample_strangers
  by (simp add: all_pass_def access_tests_def sample_uids Let_def may_act_def)

lemma nss_tests_pass: "all_pass nss_tests"
  by (simp add: all_pass_def nss_tests_def lookup_uid_def root_only_def root_only_lines uid_simps NL_def)

end
