(* ===== verification/Worker.thy ===== *)
theory Worker
  imports Algo Usb Store
begin

text \<open>
  The daemon's worker (\<open>elanprintd/src/worker.rs\<close>): the claimed USB session, the operations the
  D-Bus calls run on it, and the sink that reports an operation's events.  The transport is a
  script: the answers the device will give to the commands sent, in order; when the script is used
  up the device stays silent and a command times out.  Every command handed to the transport is
  logged with its handle, endpoint and answer in \<open>wk_wire\<close>, so that the lemmas can speak about
  what reaches the chip.  A cancel token is a function of the number of wire events so far.
\<close>

subsection \<open>Events and errors\<close>

datatype op_event =
    EnrollStatus string bool
  | VerifyStatus string bool
  | VerifyFingerSelected string

fun is_terminal :: "op_event \<Rightarrow> bool" where
  "is_terminal (EnrollStatus _ fin) = fin"
| "is_terminal (VerifyStatus _ fin) = fin"
| "is_terminal (VerifyFingerSelected _) = False"

datatype op_kind = OpEnroll | OpVerify

datatype worker_error =
    WUsb usb_error
  | WProto proto_error
  | WStore store_error
  | WBusy
  | WUnclaimed
  | WBadFinger string
  | WNoPrints string
  | WNotEnrolled string
  | WAlreadyEnrolled string
  | WEnroll enroll_error
  | WCancelled

definition enroll_terminal :: "worker_error \<Rightarrow> string" where
  "enroll_terminal e =
     (case e of
        WEnroll inner \<Rightarrow> enroll_failure inner
      | WUsb UDisconnected \<Rightarrow> enroll_DISCONNECTED
      | WAlreadyEnrolled _ \<Rightarrow> enroll_DUPLICATE
      | _ \<Rightarrow> enroll_FAILED)"

definition verify_terminal :: "worker_error \<Rightarrow> string" where
  "verify_terminal e =
     (case e of
        WUsb UDisconnected \<Rightarrow> verify_DISCONNECTED
      | WNoPrints _ \<Rightarrow> verify_NO_MATCH
      | WNotEnrolled _ \<Rightarrow> verify_NO_MATCH
      | _ \<Rightarrow> verify_UNKNOWN_ERROR)"

subsection \<open>The sink\<close>

record op_sink =
  sk_events :: "op_event list" \<comment> \<open>what was sent on \<open>tx\<close>\<close>
  sk_kind :: op_kind
  sk_terminal_sent :: bool

definition sink_new :: "op_kind \<Rightarrow> op_sink" where
  "sink_new kind = \<lparr>sk_events = [], sk_kind = kind, sk_terminal_sent = False\<rparr>"

definition sink_emit :: "op_event \<Rightarrow> op_sink \<Rightarrow> op_sink" where
  "sink_emit ev sk =
     sk\<lparr>sk_terminal_sent := sk_terminal_sent sk \<or> is_terminal ev, sk_events := sk_events sk @ [ev]\<rparr>"

definition sink_close :: "worker_error + unit \<Rightarrow> op_sink \<Rightarrow> op_sink" where
  "sink_close result sk =
     (if sk_terminal_sent sk then sk
      else
        (let content = (case (sk_kind sk, result) of
               (OpEnroll, Err e) \<Rightarrow> enroll_terminal e
             | (OpVerify, Err e) \<Rightarrow> verify_terminal e
             | (OpEnroll, Ok _) \<Rightarrow> enroll_UNKNOWN_ERROR
             | (OpVerify, Ok _) \<Rightarrow> verify_UNKNOWN_ERROR);
             event = (case sk_kind sk of
               OpEnroll \<Rightarrow> EnrollStatus content True
             | OpVerify \<Rightarrow> VerifyStatus content True)
         in sink_emit event sk))"

subsection \<open>Claim and busy flags\<close>

record op_state =
  os_claimed :: bool
  os_busy :: bool
  os_user :: "string option"

definition op_state_default :: op_state where
  "op_state_default = \<lparr>os_claimed = False, os_busy = False, os_user = None\<rparr>"

definition try_begin :: "op_state \<Rightarrow> (worker_error + unit) \<times> op_state" where
  "try_begin os =
     (if \<not> os_claimed os then (Err WUnclaimed, os)
      else if os_busy os then (Err WBusy, os)
      else (Ok (), os\<lparr>os_busy := True\<rparr>))"

text \<open>Dropping the \<open>OpToken\<close>.\<close>

definition drop_token :: "op_state \<Rightarrow> op_state" where
  "drop_token os = os\<lparr>os_busy := False\<rparr>"

record delete_intent =
  di_user :: string
  di_finger :: string

definition from_user_request :: "string \<Rightarrow> string \<Rightarrow> delete_intent" where
  "from_user_request user finger = \<lparr>di_user = user, di_finger = finger\<rparr>"

subsection \<open>The worker and its wire\<close>

text \<open>A wire event: a handle was opened, or bytes were handed to a handle, with the
  endpoint read and the length wanted, and answered so.\<close>

datatype wire_event =
    Opened nat
  | Cmd nat "byte list" reply_ep nat "usb_error + byte list"

datatype cancel_state = Live | FiresDuring | AlreadyCancelled

type_synonym cancel = "nat \<Rightarrow> cancel_state"

record worker =
  wk_usb :: "nat option" \<comment> \<open>the handle held, numbered by its open\<close>
  wk_claimed :: "string option"
  wk_armed :: bool
  wk_store_path :: path
  wk_state :: op_state
  wk_firmware :: "(byte \<times> byte) option"
  wk_opens :: "(usb_error + unit) list" \<comment> \<open>results of opens to come\<close>
  wk_script :: "(usb_error + byte list) list" \<comment> \<open>answers to come\<close>
  wk_wire :: "wire_event list"
  wk_fs :: fsys
  wk_sink :: op_sink \<comment> \<open>the sink of the running operation\<close>

definition worker_new :: "path \<Rightarrow> fsys \<Rightarrow> (usb_error + unit) list \<Rightarrow> (usb_error + byte list) list \<Rightarrow> worker"
  where "worker_new path fs opens script =
     \<lparr>wk_usb = None, wk_claimed = None, wk_armed = False, wk_store_path = path,
      wk_state = op_state_default, wk_firmware = None, wk_opens = opens, wk_script = script,
      wk_wire = [], wk_fs = fs, wk_sink = sink_new OpVerify\<rparr>"

type_synonym 'a op = "worker \<Rightarrow> (worker_error + 'a) \<times> worker"

text \<open>The question mark of Rust: go on with the value, or return the error.\<close>

definition try_op :: "'a op \<Rightarrow> ('a \<Rightarrow> 'b op) \<Rightarrow> 'b op" where
  "try_op m k w = (case m w of (Err e, w1) \<Rightarrow> (Err e, w1) | (Ok x, w1) \<Rightarrow> k x w1)"

definition ok_op :: "'a \<Rightarrow> 'a op" where
  "ok_op x w = (Ok x, w)"

definition err_op :: "worker_error \<Rightarrow> 'a op" where
  "err_op e w = (Err e, w)"

definition set_armed :: "bool \<Rightarrow> worker \<Rightarrow> worker" where
  "set_armed b w = w\<lparr>wk_armed := b\<rparr>"

definition emit :: "op_event \<Rightarrow> worker \<Rightarrow> worker" where
  "emit ev w = w\<lparr>wk_sink := sink_emit ev (wk_sink w)\<rparr>"

text \<open>\<open>Store::open\<close> and \<open>Store::save\<close> on the worker's file system.\<close>

definition open_store :: "env \<Rightarrow> store op" where
  "open_store env w =
     (case store_open env (wk_store_path w) (wk_fs w) of
        (r, fs) \<Rightarrow> (map_sum WStore id r, w\<lparr>wk_fs := fs\<rparr>))"

definition save_store :: "env \<Rightarrow> store \<Rightarrow> unit op" where
  "save_store env st w =
     (case store_save env st (wk_fs w) of
        (r, fs) \<Rightarrow> (map_sum WStore id r, w\<lparr>wk_fs := fs\<rparr>))"

text \<open>\<open>Transport::cmd\<close> and \<open>Transport::open\<close>.\<close>

definition transport_cmd ::
  "nat \<Rightarrow> byte list \<Rightarrow> reply_ep \<Rightarrow> nat \<Rightarrow> nat \<Rightarrow> worker \<Rightarrow> (usb_error + byte list) \<times> worker" where
  "transport_cmd h out ep len timeout w =
     (case wk_script w of
        [] \<Rightarrow> (Err (UTimeout timeout),
          w\<lparr>wk_wire := wk_wire w @ [Cmd h out ep len (Err (UTimeout timeout))]\<rparr>)
      | a # as \<Rightarrow> (a, w\<lparr>wk_script := as, wk_wire := wk_wire w @ [Cmd h out ep len a]\<rparr>))"

definition transport_open :: "nat op" where
  "transport_open w =
     (let h = length (wk_wire w) in
      case wk_opens w of
        [] \<Rightarrow> (Err (WUsb UNotFound), w)
      | Err e # os \<Rightarrow> (Err (WUsb e), w\<lparr>wk_opens := os\<rparr>)
      | Ok _ # os \<Rightarrow> (Ok h, w\<lparr>wk_opens := os, wk_wire := wk_wire w @ [Opened h]\<rparr>))"

subsection \<open>Operations\<close>

definition get_usb :: "nat op" where
  "get_usb w = (case wk_usb w of None \<Rightarrow> (Err WUnclaimed, w) | Some h \<Rightarrow> (Ok h, w))"

definition claim_user :: "string op" where
  "claim_user w = (case wk_claimed w of None \<Rightarrow> (Err WUnclaimed, w) | Some u \<Rightarrow> (Ok u, w))"

definition read_firmware :: "worker \<Rightarrow> (byte \<times> byte) option \<times> worker" where
  "read_firmware w =
     (case wk_usb w of
        None \<Rightarrow> (None, w)
      | Some h \<Rightarrow>
          (case transport_cmd h (encode CFwVersion) EpStatus (expected_len CFwVersion) (cmd_timeout CFwVersion) w of
             (Err _, w1) \<Rightarrow> (None, w1)
           | (Ok raw, w1) \<Rightarrow>
               (case parse CFwVersion raw of
                  Ok (RFwVersion major minor) \<Rightarrow> (Some (major, minor), w1)
                | _ \<Rightarrow> (None, w1))))"

definition send_arm :: "byte op" where
  "send_arm w =
     (case wk_usb w of
        None \<Rightarrow> (Err WUnclaimed, w)
      | Some h \<Rightarrow>
          (case transport_cmd h (encode CEnrolledNum) EpStatus (expected_len CEnrolledNum) (cmd_timeout CEnrolledNum) w of
             (Err e, w1) \<Rightarrow> (Err (WUsb e), w1)
           | (Ok raw, w1) \<Rightarrow>
               (case parse CEnrolledNum raw of
                  Err e \<Rightarrow> (Err (WProto e), w1)
                | Ok (REnrolledNum count) \<Rightarrow> (Ok count, w1)
                | Ok _ \<Rightarrow> (Err (WEnroll EUnexpectedReply), w1))))"

definition claim :: "string \<Rightarrow> unit op" where
  "claim user w =
     (if os_busy (wk_state w) then (Err WBusy, w)
      else if (case wk_claimed w of Some other \<Rightarrow> other \<noteq> user | None \<Rightarrow> False) then (Err WBusy, w)
      else
        (case (if wk_usb w = None then
                 (case transport_open w of
                    (Err e, w1) \<Rightarrow> (Err e, w1)
                  | (Ok h, w1) \<Rightarrow> (Ok (), w1\<lparr>wk_usb := Some h\<rparr>))
               else (Ok (), w)) of
           (Err e, w1) \<Rightarrow> (Err e, w1)
         | (Ok _, w1) \<Rightarrow>
             (let w2 = (if wk_firmware w1 = None then
                          (case read_firmware w1 of (fw, w2) \<Rightarrow>
                             (case fw of Some v \<Rightarrow> w2\<lparr>wk_firmware := Some v\<rparr> | None \<Rightarrow> w2))
                        else w1) in
              case send_arm w2 of
                (Err e, w3) \<Rightarrow> (Err e, w3)
              | (Ok count, w3) \<Rightarrow>
                  (Ok (), (set_armed True w3)\<lparr>wk_claimed := Some user,
                     wk_state := (wk_state w3)\<lparr>os_user := Some user, os_claimed := True\<rparr>\<rparr>))))"

definition abort_session :: "worker \<Rightarrow> worker" where
  "abort_session w =
     (case wk_usb w of
        None \<Rightarrow> w
      | Some h \<Rightarrow> snd (transport_cmd h (encode CAbort) EpStatus (expected_len CAbort) (cmd_timeout CAbort) w))"

definition release :: "worker \<Rightarrow> worker" where
  "release w =
     (let w1 = set_armed False (abort_session w) in
      w1\<lparr>wk_claimed := None, wk_state := (wk_state w1)\<lparr>os_user := None, os_claimed := False\<rparr>\<rparr>)"

definition suspend :: "worker \<Rightarrow> worker" where
  "suspend w = set_armed False ((abort_session w)\<lparr>wk_usb := None\<rparr>)"

definition resume :: "worker \<Rightarrow> worker" where
  "resume w = set_armed False (w\<lparr>wk_usb := None\<rparr>)"

definition list_prints :: "env \<Rightarrow> string \<Rightarrow> string list op" where
  "list_prints env user =
     try_op (open_store env) (\<lambda>st w.
       case bt_get (st_prints st) user of
         Some fingers \<Rightarrow> (if fingers \<noteq> [] then (Ok (map fst fingers), w) else (Err (WNoPrints user), w))
       | None \<Rightarrow> (Err (WNoPrints user), w))"

fun status_code :: "status \<Rightarrow> byte" where
  "status_code (StOk b) = b"
| "status_code (StRetry _) = 0xfe"
| "status_code MaxEnrolled = 0xdd"
| "status_code NotEnrolled = 0xfd"
| "status_code (Unknown b) = b"

definition delete_finger :: "env \<Rightarrow> delete_intent \<Rightarrow> unit op" where
  "delete_finger env intent =
     (let user = di_user intent; finger = di_finger intent in
      if \<not> is_valid_finger finger then err_op (WBadFinger finger)
      else
        try_op (open_store env) (\<lambda>st.
          case slot_of (st_prints st) (user, finger) of
            None \<Rightarrow> err_op (WNotEnrolled finger)
          | Some slot \<Rightarrow>
              try_op get_usb (\<lambda>h w.
                case transport_cmd h (encode (CDelete slot)) EpStatus (expected_len (CDelete slot))
                    (cmd_timeout (CDelete slot)) w of
                  (Err e, w1) \<Rightarrow> (Err (WUsb e), w1)
                | (Ok raw, w1) \<Rightarrow>
                    (case parse (CDelete slot) raw of
                       Err e \<Rightarrow> (Err (WProto e), w1)
                     | Ok (RDelete _ st) \<Rightarrow>
                         (if st \<noteq> StOk 0
                          then (Err (WEnroll (EDevice ''delete'' (status_code st))), w1)
                          else try_op (open_store env)
                            (\<lambda>store. save_store env (store_remove user finger store)) w1)
                     | Ok _ \<Rightarrow> (Err (WEnroll EUnexpectedReply), w1)))))"

definition worker_round :: "byte list \<Rightarrow> reply_ep \<Rightarrow> nat \<Rightarrow> nat \<Rightarrow> cancel \<Rightarrow> byte list op" where
  "worker_round out ep len timeout cancel w =
     (case wk_usb w of
        None \<Rightarrow> (Err WUnclaimed, w)
      | Some h \<Rightarrow>
          (case cancel (length (wk_wire w)) of
             AlreadyCancelled \<Rightarrow> (Err WCancelled, w)
           | FiresDuring \<Rightarrow> (Err WCancelled, snd (transport_cmd h out ep len timeout w))
           | Live \<Rightarrow>
               (case transport_cmd h out ep len timeout w of
                  (Ok bytes, w1) \<Rightarrow> (Ok bytes, w1)
                | (Err (ShortRead _ _ data), w1) \<Rightarrow> (Ok data, w1)
                | (Err UCancelled, w1) \<Rightarrow> (Err WCancelled, w1)
                | (Err UDisconnected, w1) \<Rightarrow>
                    (Err (WUsb UDisconnected), w1\<lparr>wk_usb := None, wk_armed := False\<rparr>)
                | (Err (UTimeout d), w1) \<Rightarrow>
                    (Err (WUsb (if ep = EpTouchWait then TouchWaitSilent d else UTimeout d)), w1)
                | (Err e, w1) \<Rightarrow> (Err (WUsb e), w1))))"

text \<open>Each round that gives bytes has used up an answer, so the loops below end.\<close>

lemma transport_cmd_script:
  "transport_cmd h out ep len t w = (r, w1) \<Longrightarrow>
   length (wk_script w1) = length (wk_script w) - 1 \<and> (wk_script w = [] \<longrightarrow> r = Err (UTimeout t))"
  by (auto simp: transport_cmd_def split: list.splits)

lemma worker_round_script:
  "worker_round out ep len t cancel w = (Ok raw, w1) \<Longrightarrow> length (wk_script w1) < length (wk_script w)"
  by (cases "wk_script w")
     (auto simp: worker_round_def transport_cmd_def split: option.splits cancel_state.splits
      sum.splits usb_error.splits)

subsection \<open>Verify\<close>

definition allowed_slots :: "env \<Rightarrow> string \<Rightarrow> string \<Rightarrow> (byte, string) btree op" where
  "allowed_slots env user finger =
     try_op (open_store env) (\<lambda>st w.
       case bt_get (st_prints st) user of
         None \<Rightarrow> (Err (WNoPrints user), w)
       | Some mine \<Rightarrow>
           (if mine = [] then (Err (WNoPrints user), w)
            else if finger = ''any'' then
              (Ok (bt_collect (map (\<lambda>(name, slot). (slot, name)) mine)), w)
            else
              (case bt_get mine finger of
                 Some slot \<Rightarrow> (Ok (bt_collect [(slot, finger)]), w)
               | None \<Rightarrow> (Err (WNotEnrolled finger), w))))"

text \<open>One round of the loop: \<open>Ok True\<close> when it has ended, \<open>Ok False\<close> when it goes on.\<close>

definition verify_round :: "(byte, string) btree \<Rightarrow> cancel \<Rightarrow> bool op" where
  "verify_round allowed cancel w =
     (case worker_round (encode CVerify) EpTouchWait 2 (cmd_timeout CVerify) cancel w of
        (Err e, w1) \<Rightarrow> (Err e, w1)
      | (Ok raw, w1) \<Rightarrow>
          (case parse CVerify raw of
             Err e \<Rightarrow> (Err (WProto e), w1)
           | Ok (RVerify _ status) \<Rightarrow>
               (let fin = (case verify_classify status of Ok (VRetry _) \<Rightarrow> False | _ \<Rightarrow> True);
                    result = (case verify_status status of Some r \<Rightarrow> r | None \<Rightarrow> verify_UNKNOWN_ERROR);
                    (result, w2) =
                      (case verify_classify status of
                         Ok (VMatch i) \<Rightarrow>
                           (case bt_get allowed i of
                              Some name \<Rightarrow> (result, emit (VerifyFingerSelected name) w1)
                            | None \<Rightarrow> (verify_NO_MATCH, w1))
                       | _ \<Rightarrow> (result, w1))
                in (Ok fin, emit (VerifyStatus result fin) w2))
           | Ok _ \<Rightarrow> (Ok True, emit (VerifyStatus verify_UNKNOWN_ERROR True) w1)))"

lemma emit_frame [simp]:
  "wk_script (emit ev w) = wk_script w" "wk_usb (emit ev w) = wk_usb w"
  "wk_wire (emit ev w) = wk_wire w" "wk_fs (emit ev w) = wk_fs w" "wk_armed (emit ev w) = wk_armed w"
  "wk_claimed (emit ev w) = wk_claimed w" "wk_state (emit ev w) = wk_state w"
  "wk_store_path (emit ev w) = wk_store_path w" "wk_firmware (emit ev w) = wk_firmware w"
  "wk_opens (emit ev w) = wk_opens w"
  by (simp_all add: emit_def)

lemma verify_round_script:
  "verify_round allowed cancel w = (Ok b, w1) \<Longrightarrow> length (wk_script w1) < length (wk_script w)"
  by (auto simp: verify_round_def Let_def dest!: worker_round_script
      split: sum.splits prod.splits response.splits verify_outcome.splits option.splits)

function verify_loop :: "(byte, string) btree \<Rightarrow> cancel \<Rightarrow> unit op" where
  "verify_loop allowed cancel w =
     (case verify_round allowed cancel w of
        (Err e, w1) \<Rightarrow> (Err e, w1)
      | (Ok True, w1) \<Rightarrow> (Ok (), w1)
      | (Ok False, w1) \<Rightarrow> verify_loop allowed cancel w1)"
  by pat_completeness auto
termination
  by (relation "measure (\<lambda>(_, _, w). length (wk_script w))") (auto dest!: sym [THEN verify_round_script])

declare verify_loop.simps [simp del]

definition verify_inner :: "env \<Rightarrow> string \<Rightarrow> cancel \<Rightarrow> unit op" where
  "verify_inner env finger cancel w =
     (case (if wk_armed w then (Ok (), w)
            else (case send_arm w of
                    (Err e, w1) \<Rightarrow> (Err e, w1)
                  | (Ok _, w1) \<Rightarrow> (Ok (), set_armed True w1))) of
        (Err e, w1) \<Rightarrow> (Err e, w1)
      | (Ok _, w1) \<Rightarrow>
          try_op claim_user (\<lambda>user.
            if finger \<noteq> ''any'' \<and> \<not> is_valid_finger finger then err_op (WBadFinger finger)
            else try_op (allowed_slots env user finger) (\<lambda>allowed. verify_loop allowed cancel)) w1)"

text \<open>What \<open>verify\<close> and \<open>enroll\<close> share: abort and disarm on error, then close the sink.\<close>

definition finish_op :: "(worker_error + unit) \<times> worker \<Rightarrow> (worker_error + unit) \<times> worker" where
  "finish_op rw =
     (case rw of (result, w) \<Rightarrow>
        (let w1 = (if is_ok result then w else set_armed False (abort_session w)) in
         (result, w1\<lparr>wk_sink := sink_close result (wk_sink w1)\<rparr>)))"

definition verify :: "env \<Rightarrow> string \<Rightarrow> op_sink \<Rightarrow> cancel \<Rightarrow> unit op" where
  "verify env finger sink cancel w = finish_op (verify_inner env finger cancel (w\<lparr>wk_sink := sink\<rparr>))"

subsection \<open>Enroll\<close>

fun probe_slots :: "byte list \<Rightarrow> cancel \<Rightarrow> byte op" where
  "probe_slots [] cancel w = (Err (WEnroll EMaxEnrolled), w)"
| "probe_slots (i # ids) cancel w =
     (case worker_round (encode (CFingerInfo i)) EpStatus (expected_len (CFingerInfo i))
             (cmd_timeout (CFingerInfo i)) cancel w of
        (Err e, w1) \<Rightarrow> (Err e, w1)
      | (Ok raw, w1) \<Rightarrow>
          (case parse (CFingerInfo i) raw of
             Ok (RFingerInfo _ (SlotEnrolled _)) \<Rightarrow> probe_slots ids cancel w1
           | _ \<Rightarrow> (Ok i, w1)))"

definition free_slot :: "env \<Rightarrow> cancel \<Rightarrow> byte op" where
  "free_slot env cancel w =
     (case send_arm w of
        (Err e, w1) \<Rightarrow> (Err e, w1)
      | (Ok count, w1) \<Rightarrow>
          try_op (open_store env) (\<lambda>st.
            probe_slots (writable_slots count (tracked_slots (st_prints st))) cancel)
            (set_armed True w1))"

definition worker_take_send :: "enroll \<Rightarrow> (worker_error + byte list) \<times> enroll" where
  "worker_take_send sm =
     (case take_send sm of
        (Some (Send next), sm1) \<Rightarrow> (Ok next, sm1)
      | (_, sm1) \<Rightarrow> (Err (WEnroll EUnexpectedReply), sm1))"

definition record_print :: "env \<Rightarrow> string \<Rightarrow> string \<Rightarrow> byte \<Rightarrow> unit op" where
  "record_print env finger user i =
     try_op (open_store env) (\<lambda>st w.
       case store_insert user finger i st of
         (Err e, _) \<Rightarrow> (Err (WStore e), w)
       | (Ok _, st1) \<Rightarrow>
           try_op (save_store env st1) (\<lambda>_ w1.
             (Ok (), emit (EnrollStatus enroll_COMPLETED True) w1)) w)"

function enroll_loop :: "env \<Rightarrow> string \<Rightarrow> string \<Rightarrow> cancel \<Rightarrow> enroll \<Rightarrow> byte list \<Rightarrow> unit op" where
  "enroll_loop env finger user cancel sm out w =
     (case pending_read sm of
        None \<Rightarrow> (Err (WEnroll EUnexpectedReply), w)
      | Some (ep, len, timeout) \<Rightarrow>
          (case worker_round out ep len timeout cancel w of
             (Err e, w1) \<Rightarrow> (Err e, w1)
           | (Ok raw, w1) \<Rightarrow>
               (case enroll_step sm raw of
                  (EmitProgress _ _, sm1) \<Rightarrow>
                    (case worker_take_send sm1 of
                       (Err e, _) \<Rightarrow> (Err e, emit (EnrollStatus enroll_STAGE_PASSED False) w1)
                     | (Ok next, sm2) \<Rightarrow> enroll_loop env finger user cancel sm2 next
                         (emit (EnrollStatus enroll_STAGE_PASSED False) w1))
                | (EmitRetry r, sm1) \<Rightarrow>
                    (case worker_take_send sm1 of
                       (Err e, _) \<Rightarrow> (Err e, emit (EnrollStatus (enroll_retry r) False) w1)
                     | (Ok next, sm2) \<Rightarrow> enroll_loop env finger user cancel sm2 next
                         (emit (EnrollStatus (enroll_retry r) False) w1))
                | (Send next, sm1) \<Rightarrow> enroll_loop env finger user cancel sm1 next w1
                | (Complete i, _) \<Rightarrow> record_print env finger user i w1
                | (Fail e, _) \<Rightarrow> (Err (WEnroll e), w1))))"
  by pat_completeness auto
termination
  by (relation "measure (\<lambda>(_, _, _, _, _, _, w). length (wk_script w))")
     (auto dest!: sym [THEN worker_round_script])

declare enroll_loop.simps [simp del]

definition enroll_inner :: "env \<Rightarrow> string \<Rightarrow> cancel \<Rightarrow> unit op" where
  "enroll_inner env finger cancel =
     try_op claim_user (\<lambda>user.
       if \<not> is_valid_finger finger then err_op (WBadFinger finger)
       else try_op (open_store env) (\<lambda>st.
         if slot_of (st_prints st) (user, finger) \<noteq> None then err_op (WAlreadyEnrolled finger)
         else try_op (free_slot env cancel) (\<lambda>slot.
           case enroll_start (with_total slot (enroll_stages (env_stages env))) of
             (Send out, sm) \<Rightarrow> enroll_loop env finger user cancel sm out
           | _ \<Rightarrow> err_op (WEnroll EUnexpectedReply))))"

definition worker_enroll :: "env \<Rightarrow> string \<Rightarrow> op_sink \<Rightarrow> cancel \<Rightarrow> unit op" where
  "worker_enroll env finger sink cancel w =
     finish_op (enroll_inner env finger cancel (w\<lparr>wk_sink := sink\<rparr>))"

end
