(* ===== verification/WorkerWire.thy ===== *)
theory WorkerWire
  imports Worker
begin

text \<open>
  What the worker puts on the wire, over whole histories of calls.  Two rules of the chip: a
  command that waits for a touch must follow an answered \<open>enrolled_num\<close> on the same handle with no
  abort or reopen in between (arming), and flash is erased only when a person asked for it.  The
  contract every operation keeps is the locale \<open>wire_contract\<close>, interpreted by all calls of the worker.
\<close>

subsection \<open>Rules of the wire\<close>

fun arm_step :: "nat option \<Rightarrow> wire_event \<Rightarrow> nat option" where
  "arm_step arm (Opened _) = None"
| "arm_step arm (Cmd h out _ _ ans) =
     (if out = encode CAbort then None
      else if out = encode CEnrolledNum \<and>
              (case ans of Ok raw \<Rightarrow> length raw = 2 | Err _ \<Rightarrow> False) then Some h
      else arm)"

definition armed_handle :: "wire_event list \<Rightarrow> nat option" where
  "armed_handle es = foldl arm_step None es"

fun touch_allowed :: "nat option \<Rightarrow> wire_event \<Rightarrow> bool" where
  "touch_allowed arm (Opened _) = True"
| "touch_allowed arm (Cmd h _ ep _ _) = (ep = EpTouchWait \<longrightarrow> arm = Some h)"

fun arming_ok_from :: "nat option \<Rightarrow> wire_event list \<Rightarrow> bool" where
  "arming_ok_from arm [] = True"
| "arming_ok_from arm (e # es) = (touch_allowed arm e \<and> arming_ok_from (arm_step arm e) es)"

definition arming_ok :: "wire_event list \<Rightarrow> bool" where
  "arming_ok es = arming_ok_from None es"

lemma arming_ok_from_append:
  "arming_ok_from arm (xs @ ys) \<longleftrightarrow> arming_ok_from arm xs \<and> arming_ok_from (foldl arm_step arm xs) ys"
  by (induction xs arbitrary: arm) auto

lemma arming_ok_snoc: "arming_ok (es @ [e]) \<longleftrightarrow> arming_ok es \<and> touch_allowed (armed_handle es) e"
  by (simp add: arming_ok_def armed_handle_def arming_ok_from_append)

lemma armed_handle_snoc [simp]: "armed_handle (es @ [e]) = arm_step (armed_handle es) e"
  by (simp add: armed_handle_def)

lemma arming_ok_Nil [simp]: "arming_ok []"
  by (simp add: arming_ok_def)

fun sent_bytes :: "wire_event list \<Rightarrow> byte list list" where
  "sent_bytes [] = []"
| "sent_bytes (Opened _ # es) = sent_bytes es"
| "sent_bytes (Cmd _ out _ _ _ # es) = out # sent_bytes es"

lemma sent_bytes_append [simp]: "sent_bytes (xs @ ys) = sent_bytes xs @ sent_bytes ys"
  by (induction xs rule: sent_bytes.induct) simp_all

definition erases :: "wire_event list \<Rightarrow> byte list list" where
  "erases es = filter is_erase (sent_bytes es)"

lemma erases_append [simp]: "erases (xs @ ys) = erases xs @ erases ys"
  by (simp add: erases_def)

lemma erases_Nil [simp]: "erases [] = []"
  by (simp add: erases_def)

text \<open>The invariant: the flag is set only when the handle held is the armed one.\<close>

definition worker_inv :: "worker \<Rightarrow> bool" where
  "worker_inv w \<longleftrightarrow>
     arming_ok (wk_wire w) \<and>
     (wk_armed w \<longrightarrow> wk_usb w \<noteq> None \<and> armed_handle (wk_wire w) = wk_usb w)"

lemma worker_inv_new: "worker_inv (worker_new path fs opens script)"
  by (simp add: worker_inv_def worker_new_def)

text \<open>A step that appends to the wire, erases at most \<open>n\<close> times and keeps the invariant.\<close>

definition good_step :: "nat \<Rightarrow> worker \<Rightarrow> worker \<Rightarrow> bool" where
  "good_step n w w' \<longleftrightarrow>
     (\<exists>es. wk_wire w' = wk_wire w @ es \<and> length (erases es) \<le> n) \<and>
     (worker_inv w \<longrightarrow> worker_inv w')"

lemma good_refl [intro]: "good_step n w w"
  by (simp add: good_step_def)

lemma good_trans: "good_step m w w1 \<Longrightarrow> good_step n w1 w2 \<Longrightarrow> good_step (m + n) w w2"
  unfolding good_step_def by (fastforce intro: add_mono)

lemma good_trans0: "good_step 0 w w1 \<Longrightarrow> good_step n w1 w2 \<Longrightarrow> good_step n w w2"
  using good_trans [of 0] by simp

lemma good_mono: "good_step m w w' \<Longrightarrow> m \<le> n \<Longrightarrow> good_step n w w'"
  unfolding good_step_def by (meson order_trans)

text \<open>A change of the fields the rules do not read.\<close>

lemma good_frame:
  "wk_wire w' = wk_wire w \<Longrightarrow> wk_usb w' = wk_usb w \<Longrightarrow> wk_armed w' = wk_armed w \<Longrightarrow> good_step n w w'"
  by (simp add: good_step_def worker_inv_def)

lemma good_try:
  assumes "good_step 0 w (snd (m w))"
    and "\<And>x w1. m w = (Ok x, w1) \<Longrightarrow> good_step n w1 (snd (k x w1))"
  shows "good_step n w (snd (try_op m k w))"
proof (cases "m w")
  case (Pair r w1)
  with assms show ?thesis
    by (cases r) (auto simp: try_op_def intro: good_mono good_trans0)
qed

subsection \<open>Single commands\<close>

lemma transport_cmd_eq:
  "transport_cmd h out ep len t w = (r, w1) \<Longrightarrow>
   w1 = w\<lparr>wk_script := tl (wk_script w), wk_wire := wk_wire w @ [Cmd h out ep len r]\<rparr>"
  by (auto simp: transport_cmd_def split: list.splits)

text \<open>A command that neither ends the session nor waits for a touch.\<close>

definition tame :: "byte list \<Rightarrow> bool" where
  "tame out \<longleftrightarrow> out \<noteq> encode CAbort"

lemma good_cmd:
  assumes "transport_cmd h out ep len t w = (r, w1)" and "wk_usb w = Some h" and "tame out"
    and "ep = EpTouchWait \<longrightarrow> wk_armed w" and "is_erase out \<longrightarrow> 0 < n"
  shows "good_step n w w1"
proof -
  from transport_cmd_eq [OF assms(1)]
  have w1: "wk_wire w1 = wk_wire w @ [Cmd h out ep len r]" "wk_usb w1 = wk_usb w" "wk_armed w1 = wk_armed w"
    by simp_all
  have "length (erases [Cmd h out ep len r]) \<le> n" using assms(5) by (auto simp: erases_def)
  moreover have "worker_inv w \<longrightarrow> worker_inv w1"
    using assms(2-4) w1 by (auto simp: worker_inv_def arming_ok_snoc tame_def)
  ultimately show ?thesis using w1(1) by (auto simp: good_step_def)
qed

lemma tame_encode: "c \<noteq> CAbort \<Longrightarrow> tame (encode c)"
  by (cases c) (simp_all add: tame_def)

lemma not_erase: "c \<notin> range CDelete \<Longrightarrow> c \<noteq> CWipeAll \<Longrightarrow> (\<forall>s t. c \<noteq> CDeleteSubsid s t) \<Longrightarrow>
    \<not> is_erase (encode c)"
  by (auto simp: is_erase_encode)

lemma read_firmware_good: "good_step 0 w (snd (read_firmware w))"
proof (cases "wk_usb w")
  case (Some h)
  obtain r w1 where t: "transport_cmd h (encode CFwVersion) EpStatus (expected_len CFwVersion)
      (cmd_timeout CFwVersion) w = (r, w1)" by fastforce
  have "good_step 0 w w1"
    by (rule good_cmd [OF t Some]) (simp_all add: tame_encode not_erase image_iff del: encode.simps)
  then show ?thesis using t Some
    by (simp add: read_firmware_def del: encode.simps parse.simps split: sum.split response.split)
qed (auto simp: read_firmware_def)

lemma send_arm_cases:
  assumes "send_arm w = (r, w1)"
  obtains (unclaimed) "wk_usb w = None" "w1 = w" "r = Err WUnclaimed"
    | (failed) h e where "wk_usb w = Some h" "r = Err (WUsb e)"
        "w1 = w\<lparr>wk_script := tl (wk_script w), wk_wire := wk_wire w @
           [Cmd h (encode CEnrolledNum) EpStatus 2 (Err e)]\<rparr>"
    | (garbled) h raw e where "wk_usb w = Some h" "r = Err (WProto e)" "length raw \<noteq> 2"
        "w1 = w\<lparr>wk_script := tl (wk_script w), wk_wire := wk_wire w @
           [Cmd h (encode CEnrolledNum) EpStatus 2 (Ok raw)]\<rparr>"
    | (armed) h raw where "wk_usb w = Some h" "r = Ok (raw ! 1)" "length raw = 2"
        "w1 = w\<lparr>wk_script := tl (wk_script w), wk_wire := wk_wire w @
           [Cmd h (encode CEnrolledNum) EpStatus 2 (Ok raw)]\<rparr>"
proof (cases "wk_usb w")
  case None
  with assms show thesis by (intro unclaimed) (auto simp: send_arm_def)
next
  case (Some h)
  obtain a w2 where t: "transport_cmd h (encode CEnrolledNum) EpStatus (expected_len CEnrolledNum)
      (cmd_timeout CEnrolledNum) w = (a, w2)" by fastforce
  note w2 = transport_cmd_eq [OF t]
  show thesis
  proof (cases a)
    case (Inl e)
    with assms Some t w2 show thesis
      by (intro failed [of h e]) (simp_all add: send_arm_def del: encode.simps)
  next
    case (Inr raw)
    show thesis
    proof (cases "length raw = 2")
      case True
      with assms Some t w2 Inr show thesis
        by (intro armed [of h raw]) (simp_all add: send_arm_def parse_with_def exact_def del: encode.simps)
    next
      case False
      with assms Some t w2 Inr show thesis
        by (intro garbled [of h "UnexpectedLength ''enrolled_num'' 2 (length raw)" raw]) (simp_all add: send_arm_def parse_with_def exact_def del: encode.simps)
    qed
  qed
qed

lemma send_arm_good: "good_step 0 w (snd (send_arm w))"
proof -
  obtain r w1 where s: "send_arm w = (r, w1)" by fastforce
  have "wk_usb w = Some h \<Longrightarrow> good_step 0 w
      (w\<lparr>wk_script := tl (wk_script w), wk_wire := wk_wire w @ [Cmd h (encode CEnrolledNum) EpStatus 2 a]\<rparr>)"
    for h a
    by (auto simp: good_step_def worker_inv_def arming_ok_snoc erases_def is_erase_def erase_prefixes_def
        split: sum.splits)
  then show ?thesis
    by (cases rule: send_arm_cases [OF s]) (simp_all add: s good_refl del: encode.simps)
qed

text \<open>After an answered \<open>enrolled_num\<close> the flag may be set.\<close>

lemma set_armed_after_arm:
  "send_arm w = (Ok n, w1) \<Longrightarrow> good_step 0 w (set_armed True w1) \<and> wk_usb w1 = wk_usb w \<and> wk_usb w1 \<noteq> None"
  by (erule send_arm_cases)
     (auto simp: good_step_def worker_inv_def arming_ok_snoc erases_def is_erase_def erase_prefixes_def
      set_armed_def)

lemma abort_session_frame [frame_simps]:
  "wk_usb (abort_session w) = wk_usb w" "wk_armed (abort_session w) = wk_armed w"
  "wk_fs (abort_session w) = wk_fs w" "wk_sink (abort_session w) = wk_sink w"
  "wk_state (abort_session w) = wk_state w" "wk_claimed (abort_session w) = wk_claimed w"
  "wk_store_path (abort_session w) = wk_store_path w"
  by (simp_all add: abort_session_def transport_cmd_def split: option.split list.split)

lemma abort_session_wire:
  "wk_wire (abort_session w) =
     wk_wire w @ (case wk_usb w of None \<Rightarrow> [] | Some h \<Rightarrow>
       [Cmd h (encode CAbort) EpStatus 0
          (case wk_script w of [] \<Rightarrow> Err (UTimeout 1) | a # _ \<Rightarrow> a)])"
  by (simp add: abort_session_def transport_cmd_def split: option.split list.split)

lemma abort_then_disarmed:
  assumes "wk_wire w' = wk_wire (abort_session w)" "\<not> wk_armed w'"
  shows "good_step 0 w w'"
  using assms
  by (auto simp: good_step_def worker_inv_def abort_session_wire arming_ok_snoc erases_def is_erase_def
      erase_prefixes_def split: option.splits)

subsection \<open>The operations\<close>

lemma release_good: "good_step 0 w (release w)"
  by (rule abort_then_disarmed) (simp_all add: release_def set_armed_def Let_def)

lemma suspend_good: "good_step 0 w (suspend w)"
  by (rule abort_then_disarmed) (simp_all add: suspend_def set_armed_def)

lemma resume_good: "good_step 0 w (resume w)"
  by (simp add: resume_def set_armed_def good_step_def worker_inv_def)

lemma open_store_frame [frame_simps]:
  "wk_wire (snd (open_store env w)) = wk_wire w" "wk_usb (snd (open_store env w)) = wk_usb w"
  "wk_armed (snd (open_store env w)) = wk_armed w" "wk_sink (snd (open_store env w)) = wk_sink w"
  "wk_script (snd (open_store env w)) = wk_script w"
  "wk_claimed (snd (open_store env w)) = wk_claimed w"
  "wk_store_path (snd (open_store env w)) = wk_store_path w"
  by (simp_all add: open_store_def split: prod.split)

lemma save_store_frame [frame_simps]:
  "wk_wire (snd (save_store env st w)) = wk_wire w" "wk_usb (snd (save_store env st w)) = wk_usb w"
  "wk_armed (snd (save_store env st w)) = wk_armed w" "wk_sink (snd (save_store env st w)) = wk_sink w"
  "wk_script (snd (save_store env st w)) = wk_script w"
  "wk_store_path (snd (save_store env st w)) = wk_store_path w"
  by (simp_all add: save_store_def split: prod.split)

lemma open_store_good: "good_step 0 w (snd (open_store env w))"
  by (rule good_frame) (simp_all add: frame_simps)

lemma save_store_good: "good_step 0 w (snd (save_store env st w))"
  by (rule good_frame) (simp_all add: frame_simps)

lemma list_prints_good: "good_step 0 w (snd (list_prints env user w))"
  unfolding list_prints_def
  by (rule good_try [OF open_store_good]) (auto split: option.split)

lemma transport_open_good: "\<not> wk_armed w \<Longrightarrow> transport_open w = (r, w1) \<Longrightarrow>
    good_step 0 w w1 \<and> \<not> wk_armed w1"
  by (auto simp: transport_open_def good_step_def worker_inv_def arming_ok_snoc erases_def Let_def
      split: list.splits sum.splits)


lemma transport_open_usb:
  "transport_open w = (r, w1) \<Longrightarrow> wk_usb w1 = wk_usb w \<and> wk_armed w1 = wk_armed w"
  by (auto simp: transport_open_def Let_def split: list.splits sum.splits)

lemma disarmed_handle_good: "\<not> wk_armed w \<Longrightarrow> good_step 0 w (w\<lparr>wk_usb := h\<rparr>)"
  by (simp add: good_step_def worker_inv_def)

text \<open>Taking a handle: nothing is armed while there is none, by the invariant.\<close>

lemma claim_open_good:
  assumes "worker_inv w" "wk_usb w = None" "transport_open w = (Ok h, w1)"
  shows "good_step 0 w (w1\<lparr>wk_usb := Some h\<rparr>)"
proof -
  have off: "\<not> wk_armed w" using assms(1,2) by (auto simp: worker_inv_def)
  have "good_step 0 w w1" "\<not> wk_armed w1" using transport_open_good [OF off assms(3)] by auto
  then show ?thesis using good_trans0 disarmed_handle_good by blast
qed

lemma good_inv: "worker_inv w \<Longrightarrow> good_step n w w1 \<Longrightarrow> worker_inv w1"
  by (simp add: good_step_def)

lemma claim_cases:
  assumes "claim user w = (r, w')"
  obtains (busy) "w' = w" "r = Err WBusy"
      "os_busy (wk_state w) \<or> (\<exists>other. wk_claimed w = Some other \<and> other \<noteq> user)"
    | (unopened) e where "r = Err e" "wk_usb w = None" "transport_open w = (Err e, w')"
    | (went) w1 w2 w3 where "wk_claimed w = None \<or> wk_claimed w = Some user" "\<not> os_busy (wk_state w)"
        "(wk_usb w \<noteq> None \<and> w1 = w) \<or>
         (wk_usb w = None \<and> (\<exists>h w0. transport_open w = (Ok h, w0) \<and> w1 = w0\<lparr>wk_usb := Some h\<rparr>))"
        "w2 = w1 \<or> (\<exists>fw. w2 = (snd (read_firmware w1))\<lparr>wk_firmware := fw\<rparr>)"
        "send_arm w2 = (case r of Err e \<Rightarrow> (Err e, w') | Ok _ \<Rightarrow> send_arm w2)"
        "r = Ok () \<longrightarrow> (\<exists>n. send_arm w2 = (Ok n, w3)) \<and>
           w' = (set_armed True w3)\<lparr>wk_claimed := Some user,
             wk_state := (wk_state w3)\<lparr>os_user := Some user, os_claimed := True\<rparr>\<rparr>"
proof -
  let ?opened = "if wk_usb w = None then (case transport_open w of
      (Err e, w1) \<Rightarrow> (Err e, w1) | (Ok h, w1) \<Rightarrow> (Ok (), w1\<lparr>wk_usb := Some h\<rparr>)) else (Ok (), w)"
  show thesis
  proof (cases "os_busy (wk_state w) \<or> (case wk_claimed w of Some other \<Rightarrow> other \<noteq> user | None \<Rightarrow> False)")
    case True
    with assms show thesis
      by (intro busy) (auto simp: claim_def split: option.splits if_splits)
  next
    case False
    then have free: "wk_claimed w = None \<or> wk_claimed w = Some user" "\<not> os_busy (wk_state w)"
      by (auto split: option.splits)
    obtain a w1 where o: "?opened = (a, w1)" by fastforce
    show thesis
    proof (cases a)
      case (Inl e)
      with o have "wk_usb w = None" "transport_open w = (Err e, w1)"
        by (auto split: if_splits prod.splits sum.splits)
      with assms False o Inl show thesis by (intro unopened [of e]) (auto simp: claim_def)
    next
      case (Inr u)
      define w2 where "w2 = (if wk_firmware w1 = None then
          (case read_firmware w1 of (fw, w2) \<Rightarrow>
            (case fw of Some v \<Rightarrow> w2\<lparr>wk_firmware := Some v\<rparr> | None \<Rightarrow> w2)) else w1)"
      obtain b w3 where s: "send_arm w2 = (b, w3)" by fastforce
      have step: "claim user w = (case (b, w3) of (Err e, w3) \<Rightarrow> (Err e, w3)
          | (Ok count, w3) \<Rightarrow> (Ok (), (set_armed True w3)\<lparr>wk_claimed := Some user,
             wk_state := (wk_state w3)\<lparr>os_user := Some user, os_claimed := True\<rparr>\<rparr>))"
        using False o Inr s by (simp add: claim_def w2_def)
      have o': "(wk_usb w \<noteq> None \<and> w1 = w) \<or>
         (wk_usb w = None \<and> (\<exists>h w0. transport_open w = (Ok h, w0) \<and> w1 = w0\<lparr>wk_usb := Some h\<rparr>))"
        using o Inr by (auto split: if_splits prod.splits sum.splits)
      obtain fw rest where f: "read_firmware w1 = (fw, rest)" by fastforce
      have "rest = rest\<lparr>wk_firmware := wk_firmware rest\<rparr>" by simp
      then have "w2 = w1 \<or> (\<exists>fw. w2 = rest\<lparr>wk_firmware := fw\<rparr>)"
        by (cases fw) (auto simp: w2_def f intro: exI [of _ "wk_firmware rest"])
      then have w2': "w2 = w1 \<or> (\<exists>fw. w2 = (snd (read_firmware w1))\<lparr>wk_firmware := fw\<rparr>)"
        by (simp add: f)
      show thesis
        using free o' w2' s step assms
        by (cases b) (auto intro!: went [of w1 w2 w3])
    qed
  qed
qed

lemma claim_good: 
  assumes inv: "worker_inv w"
  shows "good_step 0 w (snd (claim user w))"
proof -
  obtain r w' where c: "claim user w = (r, w')" by fastforce
  from c have "good_step 0 w w'"
  proof (cases rule: claim_cases)
    case busy
    then show ?thesis by (simp add: good_refl)
  next
    case (unopened e)
    then show ?thesis using transport_open_good inv by (auto simp: worker_inv_def)
  next
    case (went w1 w2 w3)
    have g1: "good_step 0 w w1"
      using went(3) claim_open_good [OF inv] by auto
    have g2: "good_step 0 w1 w2"
    proof (cases "w2 = w1")
      case False
      then obtain fw where "w2 = (snd (read_firmware w1))\<lparr>wk_firmware := fw\<rparr>" using went(4) by blast
      then have "good_step 0 (snd (read_firmware w1)) w2" by (intro good_frame) simp_all
      with read_firmware_good show ?thesis by (rule good_trans0)
    qed auto
    show ?thesis
    proof (cases r)
      case (Inl e)
      with went(5) send_arm_good [of w2] have "good_step 0 w2 w'" by (simp split: prod.splits)
      then show ?thesis using good_trans0 g1 g2 by blast
    next
      case (Inr u)
      then obtain n where s: "send_arm w2 = (Ok n, w3)"
        and w': "w' = (set_armed True w3)\<lparr>wk_claimed := Some user,
             wk_state := (wk_state w3)\<lparr>os_user := Some user, os_claimed := True\<rparr>\<rparr>"
        using went(6) by auto
      have "good_step 0 w2 (set_armed True w3)" using set_armed_after_arm [OF s] by simp
      moreover have "good_step 0 (set_armed True w3) w'" by (rule good_frame) (simp_all add: w')
      ultimately show ?thesis using good_trans0 g1 g2 by blast
    qed
  qed
  then show ?thesis by (simp add: c)
qed


subsection \<open>Rounds and loops\<close>

text \<open>The worker after a command: one answer used, one event logged.\<close>

definition after_cmd :: "nat \<Rightarrow> byte list \<Rightarrow> reply_ep \<Rightarrow> nat \<Rightarrow> usb_error + byte list \<Rightarrow> worker \<Rightarrow> worker" where
  "after_cmd h out ep len a w =
     w\<lparr>wk_script := tl (wk_script w), wk_wire := wk_wire w @ [Cmd h out ep len a]\<rparr>"

text \<open>The bytes a round hands on: a complete answer, or what a short read carried.\<close>

definition answered :: "usb_error + byte list \<Rightarrow> byte list \<Rightarrow> bool" where
  "answered a raw \<longleftrightarrow> a = Ok raw \<or> (\<exists>m n. a = Err (ShortRead m n raw))"

lemma worker_round_cases:
  assumes "worker_round out ep len t cancel w = (r, w1)"
  obtains (unsent) e where "w1 = w" "r = Err e" "e = WUnclaimed \<or> e = WCancelled"
    | (answer) h a raw where "wk_usb w = Some h" "w1 = after_cmd h out ep len a w" "r = Ok raw"
        "answered a raw"
    | (failed) h a e where "wk_usb w = Some h" "r = Err e"
        "w1 = after_cmd h out ep len a w \<or>
         w1 = (after_cmd h out ep len a w)\<lparr>wk_usb := None, wk_armed := False\<rparr>"
proof (cases "wk_usb w")
  case None
  with assms show thesis by (intro unsent [of WUnclaimed]) (auto simp: worker_round_def)
next
  case (Some h)
  obtain a w2 where t: "transport_cmd h out ep len t w = (a, w2)" by fastforce
  have w2: "w2 = after_cmd h out ep len a w" using transport_cmd_eq [OF t] by (simp add: after_cmd_def)
  show thesis
  proof (cases "cancel (length (wk_wire w))")
    case Live
    show thesis
    proof (cases a)
      case (Inr raw)
      with assms Some Live t w2 show thesis
        by (intro answer [of h a raw]) (auto simp: worker_round_def answered_def)
    next
      case (Inl e)
      show thesis
      proof (cases "\<exists>m n raw. e = ShortRead m n raw")
        case True
        then obtain m n raw where "e = ShortRead m n raw" by blast
        with assms Some Live t w2 Inl show thesis
          by (intro answer [of h a raw]) (auto simp: worker_round_def answered_def)
      next
        case False
        with assms Some Live t w2 Inl obtain e' where "r = Err e'" "w1 = w2 \<or>
            w1 = w2\<lparr>wk_usb := None, wk_armed := False\<rparr>"
          by (cases e) (auto simp: worker_round_def)
        with Some w2 show thesis by (intro failed [of h e' a]) auto
      qed
    qed
  next
    case FiresDuring
    with assms Some t w2 show thesis
      by (intro failed [of h WCancelled a]) (auto simp: worker_round_def)
  next
    case AlreadyCancelled
    with assms Some show thesis by (intro unsent [of WCancelled]) (auto simp: worker_round_def)
  qed
qed

lemma after_cmd_frame [simp]:
  "wk_usb (after_cmd h out ep len a w) = wk_usb w" "wk_armed (after_cmd h out ep len a w) = wk_armed w"
  "wk_wire (after_cmd h out ep len a w) = wk_wire w @ [Cmd h out ep len a]"
  "wk_fs (after_cmd h out ep len a w) = wk_fs w" "wk_sink (after_cmd h out ep len a w) = wk_sink w"
  "wk_claimed (after_cmd h out ep len a w) = wk_claimed w"
  "wk_store_path (after_cmd h out ep len a w) = wk_store_path w"
  "wk_state (after_cmd h out ep len a w) = wk_state w"
  "wk_firmware (after_cmd h out ep len a w) = wk_firmware w"
  by (simp_all add: after_cmd_def)

lemma after_cmd_good:
  assumes "wk_usb w = Some h" "tame out" "ep = EpTouchWait \<longrightarrow> wk_armed w" "is_erase out \<longrightarrow> 0 < n"
  shows "good_step n w (after_cmd h out ep len a w)"
proof -
  have "length (erases [Cmd h out ep len a]) \<le> n" using assms(4) by (auto simp: erases_def)
  moreover have "worker_inv w \<longrightarrow> worker_inv (after_cmd h out ep len a w)"
    using assms(1-3) by (auto simp: worker_inv_def arming_ok_snoc tame_def)
  ultimately show ?thesis by (auto simp: good_step_def)
qed

lemma drop_handle_good: "good_step 0 w (w\<lparr>wk_usb := None, wk_armed := False\<rparr>)"
  by (simp add: good_step_def worker_inv_def)

lemma worker_round_good:
  assumes "tame out" "\<not> is_erase out" "ep = EpTouchWait \<longrightarrow> wk_armed w"
    and "worker_round out ep len t cancel w = (r, w1)"
  shows "good_step 0 w w1 \<and> (is_ok r \<longrightarrow> wk_armed w1 = wk_armed w)"
  using assms(4)
proof (cases rule: worker_round_cases)
  case (unsent e)
  then show ?thesis by auto
next
  case (answer h a raw)
  then show ?thesis using after_cmd_good [OF _ assms(1,3)] assms(2) by simp
next
  case (failed h a e)
  then have "good_step 0 w (after_cmd h out ep len a w)"
    using after_cmd_good [OF _ assms(1,3)] assms(2) by simp
  then show ?thesis using failed drop_handle_good good_trans0 by auto
qed

lemma emit_good: "good_step 0 w (emit ev w)"
  by (rule good_frame) simp_all

text \<open>The two outcomes of a verify round by the answer.\<close>

lemma verify_round_eq:
  assumes "worker_round (encode CVerify) EpTouchWait 2 (cmd_timeout CVerify) cancel w = (Ok raw, w1)"
  shows "verify_round allowed cancel w =
    (if length raw \<noteq> 2 then (Err (WProto (UnexpectedLength ''verify'' 2 (length raw))), w1)
     else case classify (raw ! 1) of
       StOk i \<Rightarrow> (case bt_get allowed i of
           Some name \<Rightarrow> (Ok True, emit (VerifyStatus verify_MATCH True) (emit (VerifyFingerSelected name) w1))
         | None \<Rightarrow> (Ok True, emit (VerifyStatus verify_NO_MATCH True) w1))
     | StRetry r \<Rightarrow> (Ok False, emit (VerifyStatus (verify_retry r) False) w1)
     | NotEnrolled \<Rightarrow> (Ok True, emit (VerifyStatus verify_NO_MATCH True) w1)
     | _ \<Rightarrow> (Ok True, emit (VerifyStatus verify_UNKNOWN_ERROR True) w1))"
  using assms
  by (simp add: verify_round_def parse_with_def exact_def verify_classify_def verify_status_def Let_def
      del: encode.simps cmd_timeout.simps split: status.split option.split)

lemma verify_round_err:
  "worker_round (encode CVerify) EpTouchWait 2 (cmd_timeout CVerify) cancel w = (Err e, w1) \<Longrightarrow>
   verify_round allowed cancel w = (Err e, w1)"
  by (simp add: verify_round_def del: encode.simps cmd_timeout.simps)

lemma verify_round_good:
  assumes "wk_armed w" "verify_round allowed cancel w = (r, w1)"
  shows "good_step 0 w w1 \<and> (is_ok r \<longrightarrow> wk_armed w1)"
proof -
  obtain a w2 where t: "worker_round (encode CVerify) EpTouchWait 2 (cmd_timeout CVerify) cancel w = (a, w2)"
    by fastforce
  have g: "good_step 0 w w2 \<and> (is_ok a \<longrightarrow> wk_armed w2 = wk_armed w)"
    by (rule worker_round_good [OF _ _ _ t])
      (simp_all add: tame_encode not_erase image_iff assms(1) del: encode.simps)
  show ?thesis
  proof (cases a)
    case (Inl e)
    with t assms(2) g show ?thesis by (auto simp: verify_round_err)
  next
    case (Inr raw)
    have ev: "good_step 0 w (emit e1 w2)" "good_step 0 w (emit e1 (emit e2 w2))" for e1 e2
      using g good_trans0 emit_good by blast+
    from t Inr verify_round_eq [of cancel w raw w2 allowed] assms(2)
    show ?thesis using g assms(1) Inr ev
      by (auto split: if_splits status.splits option.splits)
  qed
qed

lemma verify_loop_good: "wk_armed w \<Longrightarrow> good_step 0 w (snd (verify_loop allowed cancel w))"
proof (induction allowed cancel w rule: verify_loop.induct)
  case (1 allowed cancel w)
  obtain r w1 where v: "verify_round allowed cancel w = (r, w1)" by fastforce
  have g: "good_step 0 w w1" "is_ok r \<longrightarrow> wk_armed w1"
    using verify_round_good [OF "1.prems" v] by auto
  show ?case
  proof (cases "r = Ok False")
    case True
    then have "good_step 0 w1 (snd (verify_loop allowed cancel w1))"
      using "1.IH" [OF v [symmetric], of False] g(2) by simp
    with g(1) show ?thesis
      by (subst verify_loop.simps) (simp add: v True good_trans0)
  next
    case False
    with g(1) show ?thesis
      by (subst verify_loop.simps) (auto simp: v split: sum.splits bool.splits)
  qed
qed


lemma finish_op_good:
  assumes "good_step 0 w (snd rw)"
  shows "good_step 0 w (snd (finish_op rw))"
proof (cases rw)
  case (Pair r w1)
  show ?thesis
  proof (cases "is_ok r")
    case True
    have "good_step 0 w1 (snd (finish_op rw))"
      using True by (intro good_frame) (simp_all add: finish_op_def Pair)
    with assms Pair show ?thesis by (auto intro: good_trans0)
  next
    case False
    have "good_step 0 w1 (snd (finish_op rw))"
      using False by (intro abort_then_disarmed) (simp_all add: finish_op_def Pair set_armed_def Let_def)
    with assms Pair show ?thesis by (auto intro: good_trans0)
  qed
qed

lemma set_sink_good: "good_step 0 w (w\<lparr>wk_sink := sk\<rparr>)"
  by (rule good_frame) simp_all

lemma claim_user_eq: "claim_user w = (r, w1) \<Longrightarrow> w1 = w"
  by (auto simp: claim_user_def split: option.splits)

lemma claim_user_Ok: "claim_user w = (Ok u, w1) \<longleftrightarrow> w1 = w \<and> wk_claimed w = Some u"
  by (auto simp: claim_user_def split: option.splits)

lemma allowed_slots_frame [frame_simps]:
  "wk_wire (snd (allowed_slots env user finger w)) = wk_wire w"
  "wk_usb (snd (allowed_slots env user finger w)) = wk_usb w"
  "wk_armed (snd (allowed_slots env user finger w)) = wk_armed w"
  "wk_sink (snd (allowed_slots env user finger w)) = wk_sink w"
  "wk_claimed (snd (allowed_slots env user finger w)) = wk_claimed w"
proof -
  have "\<exists>r. allowed_slots env user finger w = (r, snd (open_store env w))"
    by (cases "open_store env w")
      (auto simp: allowed_slots_def try_op_def split: sum.split option.split)
  then show "wk_wire (snd (allowed_slots env user finger w)) = wk_wire w"
    "wk_usb (snd (allowed_slots env user finger w)) = wk_usb w"
    "wk_armed (snd (allowed_slots env user finger w)) = wk_armed w"
    "wk_sink (snd (allowed_slots env user finger w)) = wk_sink w"
    "wk_claimed (snd (allowed_slots env user finger w)) = wk_claimed w"
    by (auto simp: frame_simps)
qed

text \<open>After the arming, the rest of a verify; the claimed user and the file decide first.\<close>

lemma verify_rest_good:
  assumes "wk_armed w"
  shows "good_step 0 w (snd (try_op claim_user (\<lambda>user.
      if finger \<noteq> ''any'' \<and> \<not> is_valid_finger finger then err_op (WBadFinger finger)
      else try_op (allowed_slots env user finger) (\<lambda>allowed. verify_loop allowed cancel)) w))"
proof (rule good_try)
  show "good_step 0 w (snd (claim_user w))"
    using claim_user_eq [of w] by (cases "claim_user w") (auto intro: good_refl)
next
  fix u w1
  assume "claim_user w = (Ok u, w1)"
  then have w1: "w1 = w" by (rule claim_user_eq)
  have "good_step 0 w (snd (try_op (allowed_slots env u finger) (\<lambda>allowed. verify_loop allowed cancel) w))"
  proof (rule good_try)
    show "good_step 0 w (snd (allowed_slots env u finger w))"
      by (rule good_frame) (simp_all add: frame_simps)
    fix allowed w2
    assume "allowed_slots env u finger w = (Ok allowed, w2)"
    then have "wk_armed w2" using allowed_slots_frame(3) [of env u finger w] assms by simp
    then show "good_step 0 w2 (snd (verify_loop allowed cancel w2))" by (rule verify_loop_good)
  qed
  then show "good_step 0 w1 (snd ((if finger \<noteq> ''any'' \<and> \<not> is_valid_finger finger
      then err_op (WBadFinger finger)
      else try_op (allowed_slots env u finger) (\<lambda>allowed. verify_loop allowed cancel)) w1))"
    by (simp add: w1 err_op_def good_refl)
qed

lemma verify_inner_good: "good_step 0 w (snd (verify_inner env finger cancel w))"
proof (cases "wk_armed w")
  case True
  then show ?thesis using verify_rest_good [OF True] by (simp add: verify_inner_def)
next
  case False
  obtain a w1 where s: "send_arm w = (a, w1)" by fastforce
  show ?thesis
  proof (cases a)
    case (Inl e)
    then show ?thesis using send_arm_good [of w] False s by (simp add: verify_inner_def)
  next
    case (Inr n)
    then have "good_step 0 w (set_armed True w1)" using set_armed_after_arm s by blast
    moreover have "wk_armed (set_armed True w1)" by (simp add: set_armed_def)
    ultimately show ?thesis using verify_rest_good good_trans0 False s Inr
      by (simp add: verify_inner_def)
  qed
qed

lemma verify_good: "good_step 0 w (snd (verify env finger sink cancel w))"
  unfolding verify_def
  by (rule finish_op_good) (rule good_trans0 [OF set_sink_good verify_inner_good])

subsection \<open>Enrolment on the wire\<close>

lemma probe_slots_good: "good_step 0 w (snd (probe_slots ids cancel w)) \<and>
    (\<forall>i w1. probe_slots ids cancel w = (Ok i, w1) \<longrightarrow> wk_armed w1 = wk_armed w \<and> i \<in> set ids)"
proof (induction ids cancel w rule: probe_slots.induct)
  case (1 cancel w)
  then show ?case by auto
next
  case (2 i ids cancel w)
  obtain a w1 where t: "worker_round (encode (CFingerInfo i)) EpStatus (expected_len (CFingerInfo i))
      (cmd_timeout (CFingerInfo i)) cancel w = (a, w1)" by fastforce
  have g: "good_step 0 w w1 \<and> (is_ok a \<longrightarrow> wk_armed w1 = wk_armed w)"
    by (rule worker_round_good [OF _ _ _ t])
      (simp_all add: tame_encode not_erase image_iff del: encode.simps)
  show ?case
  proof (cases a)
    case (Inl e)
    with t g show ?thesis by (simp del: encode.simps)
  next
    case (Inr raw)
    show ?thesis
    proof (cases "\<exists>j rec. parse (CFingerInfo i) raw = Ok (RFingerInfo j (SlotEnrolled rec))")
      case True
      then obtain j rec where p: "parse (CFingerInfo i) raw = Ok (RFingerInfo j (SlotEnrolled rec))"
        by blast
      have "probe_slots (i # ids) cancel w = probe_slots ids cancel w1"
        using t Inr p by (simp del: encode.simps parse.simps)
      moreover have IH: "good_step 0 w1 (snd (probe_slots ids cancel w1)) \<and>
          (\<forall>i w2. probe_slots ids cancel w1 = (Ok i, w2) \<longrightarrow> wk_armed w2 = wk_armed w1 \<and> i \<in> set ids)"
        using "2.IH" [OF t [symmetric] Inr p] by simp
      ultimately show ?thesis using g Inr good_trans0 by fastforce
    next
      case False
      then have "probe_slots (i # ids) cancel w = (Ok i, w1)"
        using t Inr by (auto simp del: encode.simps parse.simps
            split: sum.split response.split slot_state.split)
      with g Inr show ?thesis by simp
    qed
  qed
qed

lemma free_slot_good:
  "good_step 0 w (snd (free_slot env cancel w)) \<and>
   (\<forall>i w1. free_slot env cancel w = (Ok i, w1) \<longrightarrow> wk_armed w1)"
proof -
  obtain a w1 where s: "send_arm w = (a, w1)" by fastforce
  show ?thesis
  proof (cases a)
    case (Inl e)
    then show ?thesis using send_arm_good [of w] s by (simp add: free_slot_def)
  next
    case (Inr n)
    let ?w = "set_armed True w1"
    have g: "good_step 0 w ?w" using set_armed_after_arm s Inr by blast
    obtain b w2 where o: "open_store env ?w = (b, w2)" by fastforce
    have g2: "good_step 0 ?w w2" "wk_armed w2"
      using open_store_good [of ?w env] open_store_frame(3) [of env ?w] o by (simp_all add: set_armed_def)
    show ?thesis
    proof (cases b)
      case (Inl e)
      then show ?thesis using s Inr o g g2 good_trans0 by (simp add: free_slot_def try_op_def)
    next
      case (Inr st)
      with s \<open>a = Ok n\<close> o have eq: "free_slot env cancel w =
          probe_slots (writable_slots n (tracked_slots (st_prints st))) cancel w2"
        by (simp add: free_slot_def try_op_def)
      show ?thesis unfolding eq using probe_slots_good g g2 good_trans0 by metis
    qed
  qed
qed

lemma enroll_step_send:
  "enroll_step sm raw = (Send nxt, sm1) \<Longrightarrow> map_option encode (pending_command sm1) = Some nxt"
  by (cases sm raw rule: enroll_step_cases)
     (auto simp: enroll_step_results pending_command_def)

lemma worker_take_send_Ok:
  "enroll_inv sm \<Longrightarrow> worker_take_send sm = (Ok nxt, sm1) \<Longrightarrow>
   enroll_inv sm1 \<and> map_option encode (pending_command sm1) = Some nxt \<and> en_slot sm1 = en_slot sm"
  using enroll_inv_take_send [of sm]
  by (cases "en_send_buf sm")
     (auto simp: worker_take_send_def take_send_def enroll_inv_def pending_command_def sample_cmd_def
      split: option.splits pending.splits)

lemma pending_command_kind:
  "pending_command sm = Some c \<Longrightarrow>
   c = sample_cmd sm \<or> c = CCheckCollision \<or> c = commit_cmd (sub_id (en_slot sm))"
  by (auto simp: pending_command_def split: option.splits pending.splits)

lemma pending_command_safe:
  assumes "pending_command sm = Some c"
  shows "tame (encode c) \<and> \<not> is_erase (encode c)"
  using pending_command_kind [OF assms]
  by (auto simp: tame_encode is_erase_encode sample_cmd_def commit_cmd_def simp del: encode.simps)

text \<open>Insert and save, then the event.\<close>

lemma record_print_good: "good_step 0 w (snd (record_print env finger user i w))"
  unfolding record_print_def
proof (rule good_try [OF open_store_good])
  fix st w1
  show "good_step 0 w1 (snd (case store_insert user finger i st of
      (Err e, _) \<Rightarrow> (Err (WStore e), w1)
    | (Ok _, st1) \<Rightarrow> try_op (save_store env st1) (\<lambda>_ w2.
        (Ok (), emit (EnrollStatus enroll_COMPLETED True) w2)) w1))"
    by (auto split: prod.split sum.split intro!: good_try [OF save_store_good] emit_good)
qed

lemma enroll_loop_good:
  assumes "wk_armed w" "enroll_inv sm" "map_option encode (pending_command sm) = Some out"
  shows "good_step 0 w (snd (enroll_loop env finger user cancel sm out w))"
  using assms
proof (induction env finger user cancel sm out w rule: enroll_loop.induct)
  case (1 env finger user cancel sm out w)
  let ?stage = "emit (EnrollStatus enroll_STAGE_PASSED False)"
  let ?retry = "\<lambda>r. emit (EnrollStatus (enroll_retry r) False)"
  from "1.prems"(3) obtain c where c: "pending_command sm = Some c" "out = encode c" by auto
  have read: "pending_read sm = Some (reply_endpoint c, expected_len c, cmd_timeout c)"
    by (simp add: pending_read_def c)
  obtain a w1 where t: "worker_round out (reply_endpoint c) (expected_len c) (cmd_timeout c) cancel w = (a, w1)"
    by fastforce
  have g: "good_step 0 w w1 \<and> (is_ok a \<longrightarrow> wk_armed w1 = wk_armed w)"
    by (rule worker_round_good [OF _ _ _ t]) (use pending_command_safe [OF c(1)] c(2) "1.prems"(1) in simp_all)
  note IH = "1.IH" [OF read refl refl t [symmetric]]
  show ?case
  proof (cases a)
    case (Inl e)
    with t g read show ?thesis by (subst enroll_loop.simps) simp
  next
    case (Inr raw)
    obtain act sm1 where st: "enroll_step sm raw = (act, sm1)" by fastforce
    have inv1: "enroll_inv sm1" using enroll_inv_step [OF "1.prems"(2), of raw] st by simp
    have armed: "wk_armed w1" using g Inr "1.prems"(1) by simp
    obtain b sm2 where ts: "worker_take_send sm1 = (b, sm2)" by fastforce
    have ev: "good_step 0 w (emit e1 w1)" for e1 using g good_trans0 emit_good by blast
    show ?thesis
    proof (cases act)
      case (Send nxt)
      have "good_step 0 w1 (snd (enroll_loop env finger user cancel sm1 nxt w1))"
        using IH(1) [OF Inr st [symmetric] Send] armed inv1 enroll_step_send st Send by blast
      with g show ?thesis
        by (subst enroll_loop.simps) (auto simp: read t Inr st Send intro: good_trans0)
    next
      case (EmitProgress d n)
      show ?thesis
      proof (cases b)
        case (Inl e)
        with ev show ?thesis by (subst enroll_loop.simps) (simp add: read t Inr st EmitProgress ts)
      next
        case ok: (Inr nxt)
        have "good_step 0 (?stage w1) (snd (enroll_loop env finger user cancel sm2 nxt (?stage w1)))"
          using IH(2) [OF Inr st [symmetric] EmitProgress ts [symmetric] ok] armed
            worker_take_send_Ok [OF inv1, of nxt sm2] ts ok by simp
        with ev show ?thesis
          by (subst enroll_loop.simps) (auto simp: read t Inr st EmitProgress ts ok intro: good_trans0)
      qed
    next
      case (EmitRetry r)
      show ?thesis
      proof (cases b)
        case (Inl e)
        with ev show ?thesis by (subst enroll_loop.simps) (simp add: read t Inr st EmitRetry ts)
      next
        case ok: (Inr nxt)
        have "good_step 0 (?retry r w1) (snd (enroll_loop env finger user cancel sm2 nxt (?retry r w1)))"
          using IH(3) [OF Inr st [symmetric] EmitRetry ts [symmetric] ok] armed
            worker_take_send_Ok [OF inv1, of nxt sm2] ts ok by simp
        with ev show ?thesis
          by (subst enroll_loop.simps) (auto simp: read t Inr st EmitRetry ts ok intro: good_trans0)
      qed
    next
      case (Complete i)
      with g record_print_good show ?thesis
        by (subst enroll_loop.simps) (auto simp: read t Inr st intro: good_trans0)
    next
      case (Fail e)
      with g show ?thesis by (subst enroll_loop.simps) (simp add: read t Inr st)
    qed
  qed
qed


lemma enroll_inner_good: "good_step 0 w (snd (enroll_inner env finger cancel w))"
  unfolding enroll_inner_def
proof (rule good_try)
  show "good_step 0 w (snd (claim_user w))"
    using claim_user_eq [of w] by (cases "claim_user w") (auto intro: good_refl)
next
  fix user w1
  have loop: "good_step 0 w3 (snd ((case enroll_start (with_total slot (enroll_stages (env_stages env))) of
      (Send out, sm) \<Rightarrow> enroll_loop env finger user cancel sm out
    | _ \<Rightarrow> err_op (WEnroll EUnexpectedReply)) w3))" if "wk_armed w3" for slot w3
  proof -
    let ?m = "with_total slot (enroll_stages (env_stages env))"
    have "enroll_inv (snd (enroll_start ?m))" by (rule enroll_inv_start) (simp add: with_total_def)
    then show ?thesis using that
      by (auto simp: enroll_start_def enroll_queue_def Let_def pending_command_def sample_cmd_def
          with_total_def simp del: encode.simps intro!: enroll_loop_good)
  qed
  have "good_step 0 w2 (snd (try_op (free_slot env cancel) (\<lambda>slot.
      case enroll_start (with_total slot (enroll_stages (env_stages env))) of
        (Send out, sm) \<Rightarrow> enroll_loop env finger user cancel sm out
      | _ \<Rightarrow> err_op (WEnroll EUnexpectedReply)) w2))" for w2
    by (rule good_try) (use free_slot_good [of w2 env cancel] loop in auto)
  then show "good_step 0 w1 (snd ((if \<not> is_valid_finger finger then err_op (WBadFinger finger)
      else try_op (open_store env) (\<lambda>st.
        if slot_of (st_prints st) (user, finger) \<noteq> None then err_op (WAlreadyEnrolled finger)
        else try_op (free_slot env cancel) (\<lambda>slot.
          case enroll_start (with_total slot (enroll_stages (env_stages env))) of
            (Send out, sm) \<Rightarrow> enroll_loop env finger user cancel sm out
          | _ \<Rightarrow> err_op (WEnroll EUnexpectedReply)))) w1))"
    by (auto simp: err_op_def good_refl intro!: good_try [OF open_store_good])
qed

lemma worker_enroll_good: "good_step 0 w (snd (worker_enroll env finger sink cancel w))"
  unfolding worker_enroll_def
  by (rule finish_op_good) (rule good_trans0 [OF set_sink_good enroll_inner_good])

subsection \<open>Deletion\<close>

text \<open>The command of a delete and what follows it, for a slot and a handle.\<close>

definition delete_rest :: "env \<Rightarrow> string \<Rightarrow> string \<Rightarrow> byte \<Rightarrow> usb_error + byte list \<Rightarrow> unit op" where
  "delete_rest env user finger slot a w =
     (case a of
        Err e \<Rightarrow> (Err (WUsb e), w)
      | Ok raw \<Rightarrow>
          (if good_reply raw
           then try_op (open_store env) (\<lambda>store. save_store env (store_remove user finger store)) w
           else (Err (if length raw = 2 then WEnroll (EDevice ''delete'' (status_code (classify (raw ! 1))))
                      else WProto (UnexpectedLength ''delete'' 2 (length raw))), w)))"

lemma delete_finger_cases:
  assumes "delete_finger env intent w = (r, w')"
  obtains (refused) e where "r = Err e" "w' = w \<or> w' = snd (open_store env w)"
    | (sent) st w1 h slot a where "is_valid_finger (di_finger intent)" "open_store env w = (Ok st, w1)"
      "slot_of (st_prints st) (di_user intent, di_finger intent) = Some slot" "wk_usb w = Some h"
      "(r, w') = delete_rest env (di_user intent) (di_finger intent) slot a
         (after_cmd h (encode (CDelete slot)) EpStatus 2 a w1)"
proof (cases "is_valid_finger (di_finger intent)")
  case False
  with assms show thesis by (intro refused [of "WBadFinger (di_finger intent)"])
      (auto simp: delete_finger_def err_op_def Let_def)
next
  case valid: True
  obtain b w1 where o: "open_store env w = (b, w1)" by fastforce
  have u: "wk_usb w1 = wk_usb w" using open_store_frame(2) [of env w] o by simp
  show thesis
  proof (cases b)
    case (Inl e)
    with assms valid o show thesis by (intro refused [of e]) (auto simp: delete_finger_def try_op_def Let_def)
  next
    case (Inr st)
    show thesis
    proof (cases "slot_of (st_prints st) (di_user intent, di_finger intent)")
      case None
      with assms valid o Inr show thesis
        by (intro refused [of "WNotEnrolled (di_finger intent)"])
            (auto simp: delete_finger_def try_op_def err_op_def Let_def)
    next
      case slot: (Some slot)
      show thesis
      proof (cases "wk_usb w")
        case None
        with assms valid o Inr slot u show thesis
          by (intro refused [of WUnclaimed])
            (auto simp: delete_finger_def try_op_def get_usb_def Let_def)
      next
        case h: (Some h)
        obtain a w2 where t: "transport_cmd h (encode (CDelete slot)) EpStatus
            (expected_len (CDelete slot)) (cmd_timeout (CDelete slot)) w1 = (a, w2)" by fastforce
        have w2: "w2 = after_cmd h (encode (CDelete slot)) EpStatus 2 a w1"
          using transport_cmd_eq [OF t] by (simp add: after_cmd_def del: encode.simps)
        have "delete_finger env intent w =
            (case a of
               Err e \<Rightarrow> (Err (WUsb e), w2)
             | Ok raw \<Rightarrow>
                 (case parse (CDelete slot) raw of
                    Err e \<Rightarrow> (Err (WProto e), w2)
                  | Ok (RDelete _ st) \<Rightarrow>
                      (if st \<noteq> StOk 0
                       then (Err (WEnroll (EDevice ''delete'' (status_code st))), w2)
                       else try_op (open_store env)
                         (\<lambda>store. save_store env (store_remove (di_user intent) (di_finger intent) store)) w2)
                  | Ok _ \<Rightarrow> (Err (WEnroll EUnexpectedReply), w2)))"
          using valid o Inr slot h u t
          by (simp add: delete_finger_def try_op_def get_usb_def Let_def
              del: encode.simps parse.simps expected_len.simps cmd_timeout.simps split: sum.split)
        also have "\<dots> = delete_rest env (di_user intent) (di_finger intent) slot a w2"
          by (auto simp: delete_rest_def parse_with_def exact_def good_reply_def classify_ok_iff
              split: sum.split)
        finally show thesis using assms valid o Inr slot h w2 by (intro sent [of st w1 slot h a]) auto
      qed
    qed
  qed
qed

lemma delete_rest_good: "good_step 0 w (snd (delete_rest env user finger slot a w))"
  by (auto simp: delete_rest_def split: sum.split intro!: good_try [OF open_store_good] save_store_good)

lemma delete_finger_good: "good_step 1 w (snd (delete_finger env intent w))"
proof -
  obtain r w' where d: "delete_finger env intent w = (r, w')" by fastforce
  from d have "good_step 1 w w'"
  proof (cases rule: delete_finger_cases)
    case (refused e)
    then show ?thesis using open_store_good good_mono by (metis good_refl zero_le_one)
  next
    case (sent st w1 h slot a)
    have g1: "good_step 0 w w1" using open_store_good [of w env] sent(2) by simp
    have u: "wk_usb w1 = Some h" using open_store_frame(2) [of env w] sent(2,4) by simp
    have g2: "good_step 1 w1 (after_cmd h (encode (CDelete slot)) EpStatus 2 a w1)"
      by (rule after_cmd_good [OF u]) (simp_all add: tame_encode del: encode.simps)
    have g3: "good_step 0 (after_cmd h (encode (CDelete slot)) EpStatus 2 a w1) w'"
      using delete_rest_good sent(5) by (metis snd_conv)
    show ?thesis using good_trans0 [OF g1 good_trans [OF g2 g3]] by simp
  qed
  then show ?thesis by (simp add: d)
qed

end
