(* ===== verification/TestsWorker.thy ===== *)
theory TestsWorker
  imports TestsStore WorkerWire
begin

text \<open>
  The regression tests of the daemon's worker (\<open>elanprintd/src/worker/tests.rs\<close>), run on the model, as
  in \<open>TestsProto\<close>.  The fake transport of the tests is the script of answers of the model's worker,
  and what it recorded is the log \<open>wk_wire\<close>.  Left out is \<open>flags_are_readable_while_the_worker_is_held\<close>,
  which measures time: in \<open>Daemon\<close> the flags are read by steps that do not ask for the mutex.
\<close>

subsection \<open>The fake transport\<close>

fun wire_reads :: "wire_event list \<Rightarrow> (byte list \<times> reply_ep \<times> nat) list" where
  "wire_reads [] = []"
| "wire_reads (Cmd _ out ep len _ # es) = (out, ep, len) # wire_reads es"
| "wire_reads (Opened _ # es) = wire_reads es"

definition sent :: "worker \<Rightarrow> byte list list" where
  "sent w = sent_bytes (wk_wire w)"

definition reads :: "worker \<Rightarrow> (byte list \<times> reply_ep \<times> nat) list" where
  "reads w = wire_reads (wk_wire w)"

definition sent_erases :: "worker \<Rightarrow> byte list list" where
  "sent_erases w = erases (wk_wire w)"

subsection \<open>Set up\<close>

definition worker_path :: path where
  "worker_path = [''tmp'', ''elanprintd-test-7.json'']"

definition write_store :: "(string \<times> string \<times> byte) list \<Rightarrow> fsys" where
  "write_store es = quiet_fs\<lparr>fs_files := [worker_path \<mapsto> print_lines (prints_of es [])]\<rparr>"

definition read_store :: "worker \<Rightarrow> prints option" where
  "read_store w =
     (case fst (store_open line_env worker_path (wk_fs w)) of Ok st \<Rightarrow> Some (st_prints st) | Err _ \<Rightarrow> None)"

definition stored_slot :: "worker \<Rightarrow> string \<Rightarrow> string \<Rightarrow> byte option" where
  "stored_slot w user finger = Option.bind (read_store w) (\<lambda>p. slot_of p (user, finger))"

definition claimed_worker :: "byte list list \<Rightarrow> (string \<times> string \<times> byte) list \<Rightarrow> worker" where
  "claimed_worker replies es =
     (let w = worker_new worker_path (write_store es) [] (map Ok replies) in
      w\<lparr>wk_usb := Some 0, wk_claimed := Some ''u'', wk_armed := True,
        wk_state := (wk_state w)\<lparr>os_claimed := True\<rparr>\<rparr>)"

definition claimed_as :: "byte list list \<Rightarrow> (string \<times> string \<times> byte) list \<Rightarrow> string \<Rightarrow> worker" where
  "claimed_as replies es user =
     (let w = claimed_worker replies es in
      w\<lparr>wk_claimed := Some user, wk_state := (wk_state w)\<lparr>os_user := Some user\<rparr>\<rparr>)"

text \<open>\<open>begin\<close> and an operation with a sink of its own; the token is dropped after it.\<close>

definition begin_op :: "worker \<Rightarrow> worker option" where
  "begin_op w =
     (case try_begin (wk_state w) of (Ok _, os) \<Rightarrow> Some (w\<lparr>wk_state := os\<rparr>) | (Err _, _) \<Rightarrow> None)"

definition drop_op :: "worker \<Rightarrow> worker" where
  "drop_op w = w\<lparr>wk_state := drop_token (wk_state w)\<rparr>"

text \<open>What an operation gave, the worker after it, and the events in its channel.\<close>

type_synonym outcome = "(worker_error + unit) \<times> worker \<times> op_event list"

definition run_op :: "(op_sink \<Rightarrow> unit op) \<Rightarrow> op_kind \<Rightarrow> worker \<Rightarrow> outcome option" where
  "run_op f kind w =
     map_option (\<lambda>w. case f (sink_new kind) w of (r, w) \<Rightarrow> (r, drop_op w, sk_events (wk_sink w)))
       (begin_op w)"

definition enroll_with :: "cancel \<Rightarrow> string \<Rightarrow> worker \<Rightarrow> outcome option" where
  "enroll_with cancel finger = run_op (\<lambda>sink. worker_enroll line_env finger sink cancel) OpEnroll"

definition enroll_finger :: "string \<Rightarrow> worker \<Rightarrow> outcome option" where
  "enroll_finger = enroll_with (\<lambda>_. Live)"

definition verify_finger :: "string \<Rightarrow> worker \<Rightarrow> outcome option" where
  "verify_finger finger = run_op (\<lambda>sink. verify line_env finger sink (\<lambda>_. Live)) OpVerify"

definition passes :: "outcome option \<Rightarrow> (worker_error + unit \<Rightarrow> worker \<Rightarrow> op_event list \<Rightarrow> bool) \<Rightarrow> bool" where
  "passes out P = (case out of Some (r, w, events) \<Rightarrow> P r w events | None \<Rightarrow> False)"

definition enrolled_num :: "byte \<Rightarrow> byte list" where
  "enrolled_num count = [0x40, count]"

subsection \<open>The tests\<close>

definition erase_tests :: "(string \<times> bool) list" where
  "erase_tests =
     [(''empty_store_never_hands_out_an_occupied_slot'',
         passes (enroll_finger ''left-index-finger''
             (claimed_worker [enrolled_num 1, [0x40, 0xff], [0x40, 0x00]] []))
           (\<lambda>_ w _.
              (let samples = filter (\<lambda>out. starts_with out [0x40, 0xff, 0x01]) (sent w) in
               samples \<noteq> [] \<and> list_all (\<lambda>sample. sample ! 3 \<noteq> 0) samples \<and> samples ! 0 ! 3 = 1))),
      (''a_disagreeing_store_never_erases'',
         passes (enroll_finger ''left-thumb''
             (claimed_worker [enrolled_num 0, [0x40, 0xff], [0x40, 0x00]] [(''u'', ''right-index-finger'', 3)]))
           (\<lambda>_ w _.
              passes (verify_finger ''right-index-finger'' w)
                (\<lambda>_ w _.
                   (let w = release (snd (list_prints line_env ''u'' w)) in
                    sent_erases w = [] \<and> stored_slot w ''u'' ''right-index-finger'' = Some 3)))),
      (''a_failed_enroll_erases_nothing'',
         passes (enroll_finger ''left-thumb''
             (claimed_worker [enrolled_num 1, [0x40, 0xff], [0x40, 0xdd]] []))
           (\<lambda>r w _. \<not> is_ok r \<and> sent_erases w = [])),
      (''a_cancelled_enroll_erases_nothing'',
         passes (enroll_with (\<lambda>_. AlreadyCancelled) ''left-thumb''
             (claimed_worker [enrolled_num 1, [0x40, 0xff]] []))
           (\<lambda>r w _. \<not> is_ok r \<and> sent_erases w = []))]"

lemma erase_tests_pass: "all_pass erase_tests"
  by code_simp

text \<open>Claim and release, five times over.\<close>

fun claim_release :: "nat \<Rightarrow> worker \<Rightarrow> worker option" where
  "claim_release 0 w = Some w"
| "claim_release (Suc n) w =
     (case claim ''u'' w of (Ok _, w1) \<Rightarrow> claim_release n (release w1) | (Err _, _) \<Rightarrow> None)"

definition claim_release_claim_leaves_the_count_alone :: bool where
  "claim_release_claim_leaves_the_count_alone \<longleftrightarrow>
     (let replies = [0x01, 0x08] # concat (replicate 5 [enrolled_num 1, []]) @ [enrolled_num 1] in
      case claim_release 5 (claimed_worker replies [(''u'', ''right-index-finger'', 0)]) of
        None \<Rightarrow> False
      | Some w \<Rightarrow>
          (let (count, w) = send_arm w in
           count = Ok 1 \<and> sent_erases w = [] \<and>
           list_all (\<lambda>out. out = [0x40, 0xff, 0x04] \<or> out = [0x40, 0xff, 0x02])
             (filter (\<lambda>out. out \<noteq> [0x40, 0x19]) (sent w)) \<and>
           length (filter (\<lambda>out. out = [0x40, 0x19]) (sent w)) = 1))"

definition refusal_tests :: "(string \<times> bool) list" where
  "refusal_tests =
     [(''a_duplicate_finger_name_is_refused'',
         passes (enroll_finger ''left-thumb'' (claimed_worker [enrolled_num 1] [(''u'', ''left-thumb'', 2)]))
           (\<lambda>r w events.
              r = Err (WAlreadyEnrolled ''left-thumb'') \<and> events \<noteq> [] \<and>
              last events = EnrollStatus ''enroll-duplicate'' True \<and>
              filter (\<lambda>out. out \<noteq> [0x40, 0xff, 0x02]) (sent w) = [])),
      (''the_busy_flag_is_taken_once_per_op'',
         (let w = claimed_worker [enrolled_num 0, [0x40, 0xff], [0x40, 0x00]] [] in
          (case begin_op w of Some w1 \<Rightarrow> \<not> is_ok (fst (try_begin (wk_state w1))) | None \<Rightarrow> False) \<and>
          passes (enroll_finger ''left-thumb'' w)
            (\<lambda>_ w _. list_ex (\<lambda>out. starts_with out [0x40, 0xff, 0x01]) (sent w))))]"

definition terminal_tests :: "(string \<times> bool) list" where
  "terminal_tests =
     [(''every_enroll_error_emits_a_terminal_status'',
         list_all (\<lambda>(replies, finger).
           passes (enroll_finger finger (claimed_worker replies []))
             (\<lambda>r _ events. \<not> is_ok r \<and> events \<noteq> [] \<and> is_terminal (last events)))
           [([enrolled_num 0], ''left-thumb''),
            ([enrolled_num 1, [0x40, 0xff], [0x40, 0xdd]], ''left-thumb''),
            ([], ''not-a-finger'')]),
      (''every_verify_error_emits_a_terminal_status'',
         list_all (\<lambda>(es, finger).
           passes (verify_finger finger (claimed_worker [] es))
             (\<lambda>r _ events. \<not> is_ok r \<and> events \<noteq> [] \<and> is_terminal (last events)))
           [([], ''any''),
            ([(''u'', ''left-thumb'', 1)], ''right-thumb''),
            ([(''u'', ''left-thumb'', 1)], ''left-thumb'')])]"

definition delete_tests :: "(string \<times> bool) list" where
  "delete_tests =
     (let w = claimed_worker [[0x40, 0x00]] [(''u'', ''right-index-finger'', 0)] in
     [(''an_explicit_delete_is_the_only_thing_that_erases'',
         (let (r, w) = delete_finger line_env (from_user_request ''u'' ''right-index-finger'') w in
          is_ok r \<and> sent_erases w = [[0x40, 0xff, 0x05, 0x00, 0x00]] \<and> read_store w = Some [])),
      (''a_delete_for_an_untracked_finger_erases_nothing'',
         (let (r, w) = delete_finger line_env (from_user_request ''u'' ''left-thumb'') w in
          \<not> is_ok r \<and> sent_erases w = []))])"

definition an_enrol_reads_every_reply_on_the_right_endpoint :: bool where
  "an_enrol_reads_every_reply_on_the_right_endpoint \<longleftrightarrow>
     (let replies = [enrolled_num 0, [0x40, 0xff]] @ replicate 8 [0x40, 0x00]
            @ [[0x40, 0x00, 0xff], [0x40, 0x00]] in
      passes (enroll_finger ''left-index-finger'' (claimed_worker replies []))
        (\<lambda>r w events.
           is_ok r \<and>
           list_all (\<lambda>(out, ep, len).
             (if starts_with out [0x40, 0xff, 0x01] then ep = EpTouchWait \<and> len = 2
              else if out = [0x40, 0xff, 0x10] then ep = EpStatus \<and> len = 3
              else if starts_with out [0x40, 0xff, 0x11] then ep = EpStatus \<and> len = 2
              else if starts_with out [0x40, 0xff, 0x12] then ep = EpStatus \<and> len = 70
              else True)) (reads w) \<and>
           list_ex (\<lambda>out. starts_with out [0x40, 0xff, 0x11]) (sent w) \<and>
           sent_erases w = [] \<and> stored_slot w ''u'' ''left-index-finger'' = Some 0 \<and>
           events \<noteq> [] \<and> last events = EnrollStatus ''enroll-completed'' True))"

definition an_early_return_still_releases_the_busy_flag :: bool where
  "an_early_return_still_releases_the_busy_flag \<longleftrightarrow>
     passes (enroll_finger ''not-a-finger'' (claimed_worker [] []))
       (\<lambda>r w _. \<not> is_ok r \<and> \<not> os_busy (wk_state w) \<and> is_ok (fst (try_begin (wk_state w))))"

lemma refusal_tests_pass: "all_pass (refusal_tests @ terminal_tests @ delete_tests)"
  by code_simp

lemma worker_tests_pass:
  "claim_release_claim_leaves_the_count_alone" "an_early_return_still_releases_the_busy_flag"
  by code_simp+

lemma endpoint_test_passes: "an_enrol_reads_every_reply_on_the_right_endpoint"
  by code_simp

text \<open>The verifications: what the last event is, and whether a finger was selected.\<close>

definition verifies :: "string \<Rightarrow> worker \<Rightarrow> string \<Rightarrow> string option \<Rightarrow> bool" where
  "verifies finger w status selected =
     passes (verify_finger finger w)
       (\<lambda>r _ events.
          is_ok r \<and> events \<noteq> [] \<and> last events = VerifyStatus status True \<and>
          (case selected of
             Some name \<Rightarrow> VerifyFingerSelected name \<in> set events
           | None \<Rightarrow> list_all (\<lambda>e. case e of VerifyFingerSelected _ \<Rightarrow> False | _ \<Rightarrow> True) events))"

definition match_tests :: "(string \<times> bool) list" where
  "match_tests =
     (let two = [(''u'', ''left-index-finger'', 0), (''u'', ''right-index-finger'', 1)] in
     [(''a_named_verify_refuses_a_different_finger'',
         verifies ''right-index-finger'' (claimed_worker [[0x40, 0x00]] two) ''verify-no-match'' None),
      (''a_named_verify_accepts_its_own_finger'',
         verifies ''right-index-finger'' (claimed_worker [[0x40, 0x01]] two) ''verify-match''
           (Some ''right-index-finger'')),
      (''any_accepts_whichever_finger_matched'',
         list_all (\<lambda>(reply, expected).
           verifies ''any'' (claimed_worker [[0x40, reply]] two) ''verify-match'' (Some expected))
           [(0x00, ''left-index-finger''), (0x01, ''right-index-finger'')])])"

definition cross_user_tests :: "(string \<times> bool) list" where
  "cross_user_tests =
     [(''another_users_template_is_not_a_match'',
         verifies ''any''
           (claimed_as [[0x40, 0x00]]
              [(''alice'', ''left-index-finger'', 0), (''bob'', ''right-index-finger'', 1)] ''bob'')
           ''verify-no-match'' None),
      (''an_orphaned_template_authenticates_nobody'',
         verifies ''any'' (claimed_as [[0x40, 0x03]] [(''bob'', ''right-index-finger'', 1)] ''bob'')
           ''verify-no-match'' None),
      (''any_still_matches_the_users_own_finger'',
         list_all (\<lambda>(reply, expected).
           verifies ''any''
             (claimed_as [[0x40, reply]]
                [(''bob'', ''left-index-finger'', 1), (''bob'', ''right-index-finger'', 2)] ''bob'')
             ''verify-match'' (Some expected))
           [(0x01, ''left-index-finger''), (0x02, ''right-index-finger'')]),
      (''a_user_with_no_prints_cannot_verify'',
         passes (verify_finger ''any'' (claimed_as [[0x40, 0x00]] [(''alice'', ''left-index-finger'', 0)] ''bob''))
           (\<lambda>r w _. (case r of Err (WNoPrints _) \<Rightarrow> True | _ \<Rightarrow> False) \<and>
              [0x40, 0xff, 0x03] \<notin> set (sent w)))]"

lemma match_tests_pass: "all_pass (match_tests @ cross_user_tests)"
  by code_simp

end
