(* ===== verification/WorkerCalls.thy ===== *)
theory WorkerCalls
  imports WorkerWire
begin

text \<open>
  Histories of the worker: any sequence of its calls, with any device, file system and cancel
  tokens.  The contract of a family of calls is the locale \<open>wire_contract\<close>; the calls of the
  worker interpret it, which gives the two safety properties of the wire for every history.  The
  exact effect of a delete, on the wire and on the file, closes the theory.
\<close>

locale wire_contract =
  fixes run :: "'c \<Rightarrow> worker \<Rightarrow> worker" and budget :: "'c \<Rightarrow> nat"
  assumes contract: "worker_inv w \<Longrightarrow> good_step (budget c) w (run c w)"
begin

lemma history: "worker_inv w \<Longrightarrow> good_step (sum_list (map budget cs)) w (fold run cs w)"
proof (induction cs arbitrary: w)
  case Nil
  then show ?case by (simp add: good_refl)
next
  case (Cons c cs)
  have step: "good_step (budget c) w (run c w)" using Cons.prems by (rule contract)
  then have "worker_inv (run c w)" using Cons.prems by (simp add: good_step_def)
  from Cons.IH [OF this] step show ?case by (auto intro: good_trans)
qed

lemma history_inv: "worker_inv w \<Longrightarrow> worker_inv (fold run cs w)"
  using history [of w cs] by (simp add: good_step_def)

lemma history_erases:
  assumes "worker_inv w" "wk_wire w = []"
  shows "length (erases (wk_wire (fold run cs w))) \<le> sum_list (map budget cs)"
  using history [OF assms(1), of cs] assms(2) by (auto simp: good_step_def)

end

datatype worker_call =
    CallClaim string
  | CallRelease
  | CallSuspend
  | CallResume
  | CallList string
  | CallDelete delete_intent
  | CallVerify string op_sink cancel
  | CallEnroll string op_sink cancel

fun run_call :: "env \<Rightarrow> worker_call \<Rightarrow> worker \<Rightarrow> worker" where
  "run_call env (CallClaim user) w = snd (claim user w)"
| "run_call env CallRelease w = release w"
| "run_call env CallSuspend w = suspend w"
| "run_call env CallResume w = resume w"
| "run_call env (CallList user) w = snd (list_prints env user w)"
| "run_call env (CallDelete intent) w = snd (delete_finger env intent w)"
| "run_call env (CallVerify finger sink cancel) w = snd (verify env finger sink cancel w)"
| "run_call env (CallEnroll finger sink cancel) w = snd (worker_enroll env finger sink cancel w)"

fun is_delete_call :: "worker_call \<Rightarrow> bool" where
  "is_delete_call (CallDelete _) = True"
| "is_delete_call _ = False"

interpretation calls: wire_contract "run_call env" "\<lambda>c. if is_delete_call c then 1 else 0" for env
proof unfold_locales
  fix w c
  assume "worker_inv w"
  then show "good_step (if is_delete_call c then 1 else 0) w (run_call env c w)"
    by (cases c)
       (auto intro: claim_good release_good suspend_good resume_good list_prints_good
         delete_finger_good [unfolded One_nat_def] verify_good worker_enroll_good)
qed

lemma sum_deletes: "sum_list (map (\<lambda>c. if is_delete_call c then 1 else 0) cs) =
    length (filter is_delete_call cs)"
  by (induction cs) auto

subsection \<open>What a delete does\<close>

text \<open>
  Any operation of the file system may fail, but a failure is never that of a missing file: \<open>open\<close>
  says so only of a file that is not there.  Then a store that was read is the store of the file.
\<close>

definition fs_honest :: "fsys \<Rightarrow> bool" where
  "fs_honest fs \<longleftrightarrow> (\<forall>n lost. fs_fault fs n \<noteq> Some (IoNotFound, lost))"

lemma fs_honest_fault: "fs_fault fs' = fs_fault fs \<Longrightarrow> fs_honest fs' = fs_honest fs"
  by (simp add: fs_honest_def)

lemma fs_honest_quiet: "\<forall>n. fs_fault fs n = None \<Longrightarrow> fs_honest fs"
  by (simp add: fs_honest_def)

text \<open>The store as it was read.\<close>

lemma open_store_quiet:
  assumes "open_store env w = (Ok st, w1)" "fs_honest (wk_fs w)"
  shows "st_path st = wk_store_path w" "fs_files (wk_fs w1) = fs_files (wk_fs w)"
    "fs_honest (wk_fs w1)" "wk_store_path w1 = wk_store_path w"
    "st_prints st = (case fs_files (wk_fs w) (wk_store_path w) of None \<Rightarrow> []
       | Some content \<Rightarrow> (case json_parse env content of Ok p \<Rightarrow> p | Err _ \<Rightarrow> []))"
  using assms
  by (auto simp: open_store_def store_open_def fs_ops fs_honest_def split: option.splits sum.splits if_splits)

lemma open_store_files:
  "fs_files (wk_fs (snd (open_store env w))) = fs_files (wk_fs w)"
  "fs_fault (wk_fs (snd (open_store env w))) = fs_fault (wk_fs w)"
  by (auto simp: open_store_def store_open_def fs_ops split: option.splits sum.splits)

lemma save_store_effect:
  assumes "plain_path (st_path st)" "save_store env st w = (r, w1)"
  shows "case r of
      Ok _ \<Rightarrow> (\<exists>content. json_print env (st_prints st) = Ok content \<and>
         fs_files (wk_fs w1) (st_path st) = Some content)
    | Err _ \<Rightarrow> fs_files (wk_fs w1) (st_path st) = fs_files (wk_fs w) (st_path st)"
proof -
  have ne: "st_path st \<noteq> []" using assms by (simp add: plain_path_def)
  have tmp: "save_tmp env st (wk_fs w) \<noteq> st_path st" using assms(1) by (rule save_tmp_neq)
  show ?thesis
    by (rule save_cases [OF ne tmp]) (use assms(2) tmp in \<open>auto simp: save_store_def\<close>)
qed

definition store_at :: "env \<Rightarrow> worker \<Rightarrow> prints" where
  "store_at env w =
     (case fs_files (wk_fs w) (wk_store_path w) of
        None \<Rightarrow> []
      | Some content \<Rightarrow> (case json_parse env content of Ok p \<Rightarrow> p | Err _ \<Rightarrow> []))"

definition store_file :: "worker \<Rightarrow> string option" where
  "store_file w = fs_files (wk_fs w) (wk_store_path w)"

lemma delete_rest_effect:
  assumes "plain_path (wk_store_path w)" "fs_honest (wk_fs w)"
    and "delete_rest env user finger slot a w = (r, w')"
  shows "wk_wire w' = wk_wire w \<and>
    (case r of
       Ok _ \<Rightarrow> (\<exists>raw content. a = Ok raw \<and> good_reply raw \<and>
         json_print env (st_prints (store_remove user finger
           \<lparr>st_path = wk_store_path w, st_prints = store_at env w\<rparr>)) = Ok content \<and>
         store_file w' = Some content)
     | Err _ \<Rightarrow> store_file w' = store_file w)"
proof (cases "\<exists>raw. a = Ok raw \<and> good_reply raw")
  case False
  then show ?thesis using assms(3) by (auto simp: delete_rest_def split: sum.splits if_splits)
next
  case True
  then obtain raw where raw: "a = Ok raw" "good_reply raw" by blast
  obtain b w1 where o: "open_store env w = (b, w1)" by fastforce
  show ?thesis
  proof (cases b)
    case (Inl e)
    then show ?thesis using assms(3) raw o open_store_frame(1,7) [of env w] open_store_files [of env w]
      by (auto simp: delete_rest_def try_op_def store_file_def)
  next
    case (Inr st)
    note q = open_store_quiet [OF o [unfolded Inr] assms(2)]
    have st: "st = \<lparr>st_path = wk_store_path w, st_prints = store_at env w\<rparr>"
      using q(1,5) by (simp add: store_at_def)
    have s: "save_store env (store_remove user finger st) w1 = (r, w')"
      using assms(3) raw o Inr by (simp add: delete_rest_def try_op_def)
    have p: "st_path (store_remove user finger st) = wk_store_path w" by (simp add: frame_simps q(1))
    have path: "wk_store_path w' = wk_store_path w" and wire: "wk_wire w' = wk_wire w"
      using save_store_frame(1,6) [of env "store_remove user finger st" w1] s q(4)
        open_store_frame(1) [of env w] o by auto
    from save_store_effect [of "store_remove user finger st" env w1 r w'] p assms(1) s
    have "case r of
        Ok _ \<Rightarrow> (\<exists>content. json_print env (st_prints (store_remove user finger st)) = Ok content \<and>
           fs_files (wk_fs w') (wk_store_path w) = Some content)
      | Err _ \<Rightarrow> fs_files (wk_fs w') (wk_store_path w) = fs_files (wk_fs w1) (wk_store_path w)"
      by (cases r) auto
    then show ?thesis using raw st path wire q(2) by (auto simp: store_file_def split: sum.splits)
  qed
qed

lemma delete_finger_effect:
  assumes "plain_path (wk_store_path w)" "fs_honest (wk_fs w)"
    and "delete_finger env intent w = (r, w')"
  shows "(\<exists>e. r = Err e \<and> wk_wire w' = wk_wire w \<and> store_file w' = store_file w) \<or>
    (\<exists>slot h a. is_valid_finger (di_finger intent) \<and> wk_usb w = Some h \<and>
       slot_of (store_at env w) (di_user intent, di_finger intent) = Some slot \<and>
       wk_wire w' = wk_wire w @ [Cmd h (encode (CDelete slot)) EpStatus 2 a] \<and>
       (case r of
          Ok _ \<Rightarrow> (\<exists>raw content. a = Ok raw \<and> good_reply raw \<and>
            json_print env (st_prints (store_remove (di_user intent) (di_finger intent)
              \<lparr>st_path = wk_store_path w, st_prints = store_at env w\<rparr>)) = Ok content \<and>
            store_file w' = Some content)
        | Err _ \<Rightarrow> store_file w' = store_file w))"
  using assms(3)
proof (cases rule: delete_finger_cases)
  case (refused e)
  then show ?thesis
    using open_store_frame(1,7) [of env w] open_store_files [of env w] by (auto simp: store_file_def)
next
  case (sent st w1 h slot a)
  note q = open_store_quiet [OF sent(2) assms(2)]
  let ?w = "after_cmd h (encode (CDelete slot)) EpStatus 2 a w1"
  have at: "store_at env ?w = store_at env w" "store_file ?w = store_file w"
    "wk_store_path ?w = wk_store_path w"
    using q(2,4) by (simp_all add: store_at_def store_file_def)
  have wire: "wk_wire w1 = wk_wire w" using open_store_frame(1) [of env w] sent(2) by simp
  have "plain_path (wk_store_path ?w)" "fs_honest (wk_fs ?w)"
    using assms(1) q(3,4) by simp_all
  from delete_rest_effect [OF this sent(5) [symmetric]] show ?thesis
    unfolding at using sent(1,3,4) q(5) wire
    by (intro disjI2 exI [of _ slot] exI [of _ h] exI [of _ a]) (simp add: store_at_def)
qed


subsection \<open>Properties\<close>

text \<open>C9: The arming rule holds over every history: whatever calls come in whatever order, with any
  device answers, faults and cancellations, no touch-wait command (verify or enroll) ever reaches a
  handle that has not answered \<open>enrolled_num\<close> since it was opened and last aborted.\<close>

theorem history_arming_ok:
  "arming_ok (wk_wire (fold (run_call env) cs (worker_new path fs opens script)))"
  using calls.history_inv [OF worker_inv_new] by (simp add: worker_inv_def)

text \<open>Flash is erased only on explicit request: over every history the number of erase commands on
  the wire is at most the number of calls of \<open>delete_finger\<close>; in particular a history without such
  a call (claims, verifies, enrolments, suspends, listings) sends no erase command at all.\<close>

theorem history_erases_bounded:
  "length (erases (wk_wire (fold (run_call env) cs (worker_new path fs opens script)))) \<le>
     length (filter is_delete_call cs)"
proof -
  have "wk_wire (worker_new path fs opens script) = []" by (simp add: worker_new_def)
  from calls.history_erases [OF worker_inv_new this, of env cs] show ?thesis
    by (simp only: sum_deletes)
qed

text \<open>C18: A delete sends nothing, or exactly one command: the erase of the slot the store maps that user
  and finger to.  When it returns Ok the device has accepted the erase and the file holds the store
  without that entry; on any error the store file is as it was, whichever operation of the file system
  fails and however (a full disk in the middle of a write, a refused rename), as long as a failure is
  never reported as a missing file, and the store's path has a directory and is not that of the
  temporary file.  An error after the erase was sent leaves the entry in the file.\<close>

theorem delete_finger_exact:
  assumes "plain_path (wk_store_path w)" and "fs_honest (wk_fs w)"
    and "delete_finger env intent w = (r, w')"
  shows "(\<exists>e. r = Err e \<and> wk_wire w' = wk_wire w \<and> store_file w' = store_file w) \<or>
    (\<exists>slot h a. is_valid_finger (di_finger intent) \<and> wk_usb w = Some h \<and>
       slot_of (store_at env w) (di_user intent, di_finger intent) = Some slot \<and>
       wk_wire w' = wk_wire w @ [Cmd h (encode (CDelete slot)) EpStatus 2 a] \<and>
       (case r of
          Ok _ \<Rightarrow> (\<exists>raw content. a = Ok raw \<and> good_reply raw \<and>
            json_print env (st_prints (store_remove (di_user intent) (di_finger intent)
              \<lparr>st_path = wk_store_path w, st_prints = store_at env w\<rparr>)) = Ok content \<and>
            store_file w' = Some content)
        | Err _ \<Rightarrow> store_file w' = store_file w))"
  using assms by (rule delete_finger_effect)

text \<open>A claimed worker whose store maps alice's left thumb to slot 3.\<close>

definition sample_fs :: fsys where
  "sample_fs = quiet_fs\<lparr>fs_files := [DEFAULT_PATH \<mapsto> ''{alice}'']\<rparr>"

definition sample_worker :: "(usb_error + byte list) list \<Rightarrow> worker" where
  "sample_worker script = snd (claim ''alice''
     (worker_new DEFAULT_PATH sample_fs [Ok ()] ([Ok [1, 2], Ok [0x40, 1]] @ script)))"

lemma sample_worker_eq:
  "sample_worker script =
     \<lparr>wk_usb = Some 0, wk_claimed = Some ''alice'', wk_armed = True, wk_store_path = DEFAULT_PATH,
      wk_state = \<lparr>os_claimed = True, os_busy = False, os_user = Some ''alice''\<rparr>,
      wk_firmware = Some (1, 2), wk_opens = [], wk_script = script,
      wk_wire = [Opened 0, Cmd 0 [0x40, 0x19] EpStatus 2 (Ok [1, 2]),
        Cmd 0 [0x40, 0xff, 0x04] EpStatus 2 (Ok [0x40, 1])],
      wk_fs = sample_fs, wk_sink = sink_new OpVerify\<rparr>"
  by (simp add: sample_worker_def worker_new_def claim_def op_state_default_def transport_open_def
      read_firmware_def transport_cmd_def send_arm_def parse_with_def exact_def set_armed_def Let_def)

theorem delete_finger_exact_witness:
  "\<exists>slot. erases (wk_wire (snd (delete_finger sample_env (from_user_request ''alice'' ''left-thumb'')
      (sample_worker [Ok [0x40, 0]])))) = [encode (CDelete slot)]"
proof -
  let ?w = "sample_worker [Ok [0x40, 0]]"
  let ?d = "delete_finger sample_env (from_user_request ''alice'' ''left-thumb'') ?w"
  have plain: "plain_path (wk_store_path ?w)" and quiet: "fs_honest (wk_fs ?w)"
    by (simp_all add: sample_worker_eq sample_fs_def quiet_fs_def plain_path_def DEFAULT_PATH_def fs_honest_def)
  have ok: "fst ?d = Ok ()"
    by (simp add: sample_worker_eq delete_finger_def from_user_request_def is_valid_finger_def
        FINGER_NAMES_def try_op_def open_store_def store_open_def sample_fs_def quiet_fs_def fs_ops
        sample_env_def sample_store_def slot_of_def bt_get_def get_usb_def transport_cmd_def
        parse_with_def exact_def DEFAULT_PATH_def store_remove_def bt_remove_def save_store_def
        store_save_def path_parent_def Let_def)
  have "erases (wk_wire ?w) = []"
    by (simp add: sample_worker_eq erases_def is_erase_def erase_prefixes_def)
  moreover have "is_erase (encode (CDelete slot))" for slot
    by (simp add: is_erase_encode del: encode.simps)
  moreover obtain slot h a where
    "wk_wire (snd ?d) = wk_wire ?w @ [Cmd h (encode (CDelete slot)) EpStatus 2 a]"
    using delete_finger_exact [OF plain quiet prod.collapse [symmetric], where env = sample_env and
        intent = "from_user_request ''alice'' ''left-thumb''"] ok by auto
  ultimately show ?thesis by (auto simp: erases_def simp del: encode.simps)
qed

end
