(* ===== verification/WorkerOps.thy ===== *)
theory WorkerOps
  imports WorkerCalls
begin

text \<open>
  What a client sees of \<open>verify\<close> and \<open>enroll\<close>.  The locale \<open>reporting_op\<close> is the contract of an
  operation on a sink: it reports a terminal event exactly when it returns Ok; the shared ending
  \<open>finish_op\<close> then gives exactly one terminal event, the last one, on every path, and aborts and
  disarms on error.  Both operations interpret it.  Then: whom a verify accepts, and which slot an
  enrolment writes.
\<close>

subsection \<open>One terminal event\<close>

definition sink_open :: "op_sink \<Rightarrow> bool" where
  "sink_open sk \<longleftrightarrow> \<not> sk_terminal_sent sk \<and> (\<forall>e \<in> set (sk_events sk). \<not> is_terminal e)"

definition sink_shut :: "op_sink \<Rightarrow> bool" where
  "sink_shut sk \<longleftrightarrow> sk_terminal_sent sk \<and> sk_events sk \<noteq> [] \<and> is_terminal (last (sk_events sk)) \<and>
     (\<forall>e \<in> set (butlast (sk_events sk)). \<not> is_terminal e)"

lemma sink_open_new [simp]: "sink_open (sink_new k)"
  by (simp add: sink_open_def sink_new_def)

lemma emit_open: "sink_open sk \<Longrightarrow> \<not> is_terminal ev \<Longrightarrow> sink_open (sink_emit ev sk)"
  by (auto simp: sink_open_def sink_emit_def)

lemma emit_shut: "sink_open sk \<Longrightarrow> is_terminal ev \<Longrightarrow> sink_shut (sink_emit ev sk)"
  by (auto simp: sink_open_def sink_shut_def sink_emit_def)

lemma close_shut: "sink_open sk \<Longrightarrow> sink_shut (sink_close r sk)"
  by (auto simp: sink_close_def Let_def sink_open_def intro!: emit_shut split: op_kind.split)

lemma close_again: "sink_shut sk \<Longrightarrow> sink_close r sk = sk"
  by (simp add: sink_close_def sink_shut_def)

lemma wk_sink_emit [simp]: "wk_sink (emit ev w) = sink_emit ev (wk_sink w)"
  by (simp add: emit_def)

definition reported :: "worker_error + unit \<Rightarrow> op_sink \<Rightarrow> bool" where
  "reported r sk \<longleftrightarrow> (if is_ok r then sink_shut sk else sink_open sk)"

locale reporting_op =
  fixes run :: "worker \<Rightarrow> (worker_error + unit) \<times> worker"
  assumes reports: "sink_open (wk_sink w) \<Longrightarrow> reported (fst (run w)) (wk_sink (snd (run w)))"
begin

lemma one_terminal:
  assumes "sink_open (wk_sink w)"
  shows "sink_shut (wk_sink (snd (finish_op (run w))))"
  using reports [OF assms]
  by (auto simp: finish_op_def reported_def Let_def split_def set_armed_def frame_simps close_shut
      close_again split: if_splits)

text \<open>An error ends the chip session: the last thing sent is an abort, and the arming is gone.\<close>

lemma error_aborts:
  assumes "fst (finish_op (run w)) = Err e"
  shows "\<not> wk_armed (snd (finish_op (run w))) \<and>
    (\<forall>h. wk_usb (snd (finish_op (run w))) = Some h \<longrightarrow>
       (\<exists>a. last (wk_wire (snd (finish_op (run w)))) = Cmd h (encode CAbort) EpStatus 0 a))"
  using assms
  by (auto simp: finish_op_def Let_def split_def set_armed_def abort_session_wire frame_simps
      simp del: encode.simps)

end

lemma worker_round_sink [frame_simps]:
  "wk_sink (snd (worker_round out ep len t cancel w)) = wk_sink w"
  "wk_fs (snd (worker_round out ep len t cancel w)) = wk_fs w"
  "wk_store_path (snd (worker_round out ep len t cancel w)) = wk_store_path w"
  "wk_claimed (snd (worker_round out ep len t cancel w)) = wk_claimed w"
proof -
  obtain r w1 where t: "worker_round out ep len t cancel w = (r, w1)" by fastforce
  from t have "wk_sink w1 = wk_sink w \<and> wk_fs w1 = wk_fs w \<and> wk_store_path w1 = wk_store_path w \<and>
      wk_claimed w1 = wk_claimed w"
    by (cases rule: worker_round_cases) auto
  with t show "wk_sink (snd (worker_round out ep len t cancel w)) = wk_sink w"
    "wk_fs (snd (worker_round out ep len t cancel w)) = wk_fs w"
    "wk_store_path (snd (worker_round out ep len t cancel w)) = wk_store_path w"
    "wk_claimed (snd (worker_round out ep len t cancel w)) = wk_claimed w" by simp_all
qed

lemma send_arm_frame [frame_simps]:
  "wk_sink (snd (send_arm w)) = wk_sink w" "wk_fs (snd (send_arm w)) = wk_fs w"
  "wk_store_path (snd (send_arm w)) = wk_store_path w" "wk_claimed (snd (send_arm w)) = wk_claimed w"
proof -
  obtain r w1 where t: "send_arm w = (r, w1)" by fastforce
  from t have "wk_sink w1 = wk_sink w \<and> wk_fs w1 = wk_fs w \<and> wk_store_path w1 = wk_store_path w \<and>
      wk_claimed w1 = wk_claimed w"
    by (cases rule: send_arm_cases) (auto simp del: encode.simps)
  with t show "wk_sink (snd (send_arm w)) = wk_sink w" "wk_fs (snd (send_arm w)) = wk_fs w"
    "wk_store_path (snd (send_arm w)) = wk_store_path w"
    "wk_claimed (snd (send_arm w)) = wk_claimed w" by simp_all
qed

subsection \<open>Verify\<close>

text \<open>
  What one round adds to the events: a retry and no end; or a match of an allowed slot, announced
  with its finger; or another final status.
\<close>

lemma verify_round_cases:
  assumes "verify_round allowed cancel w = (r, w1)"
  obtains (error) e where "r = Err e" "wk_sink w1 = wk_sink w"
    | (retry) q where "r = Ok False" "wk_sink w1 = sink_emit (VerifyStatus (verify_retry q) False) (wk_sink w)"
    | (matched) i name h a raw where "r = Ok True" "bt_get allowed i = Some name"
        "wk_sink w1 = sink_emit (VerifyStatus verify_MATCH True)
           (sink_emit (VerifyFingerSelected name) (wk_sink w))"
        "wk_wire w1 = wk_wire w @ [Cmd h (encode CVerify) EpTouchWait 2 a]"
        "answered a raw" "length raw = 2" "raw ! 1 = i" "i < 16"
    | (other) result where "r = Ok True" "result \<noteq> verify_MATCH"
        "wk_sink w1 = sink_emit (VerifyStatus result True) (wk_sink w)"
proof -
  obtain b w2 where t: "worker_round (encode CVerify) EpTouchWait 2 (cmd_timeout CVerify) cancel w = (b, w2)"
    by fastforce
  have sink: "wk_sink w2 = wk_sink w"
    using worker_round_sink(1) [of "encode CVerify" EpTouchWait 2 "cmd_timeout CVerify" cancel w] t by simp
  show thesis
  proof (cases b)
    case (Inl e)
    with assms t sink show thesis by (intro error [of e]) (auto simp: verify_round_err)
  next
    case (Inr raw)
    note eq = verify_round_eq [OF t [unfolded Inr], of allowed, unfolded assms]
    show thesis
    proof (cases "length raw = 2")
      case False
      with eq sink show thesis
        by (intro error [of "WProto (UnexpectedLength ''verify'' 2 (length raw))"]) auto
    next
      case True
      show thesis
      proof (cases "classify (raw ! 1)")
        case (StOk i)
        then have i: "raw ! 1 = i" "i < 16" by (auto simp: classify_ok_iff)
        show thesis
        proof (cases "bt_get allowed i")
          case None
          with eq True StOk sink show thesis by (intro other [of verify_NO_MATCH]) auto
        next
          case (Some name)
          from t Inr obtain h a where "w2 = after_cmd h (encode CVerify) EpTouchWait 2 a w" "answered a raw"
            by (auto elim!: worker_round_cases simp del: encode.simps)
          with eq True StOk Some i sink show thesis
            by (intro matched [of i name h a raw]) (auto simp del: encode.simps)
        qed
      next
        case (StRetry q)
        with eq True sink show thesis by (intro retry [of q]) auto
      next
        case NotEnrolled
        with eq True sink show thesis by (intro other [of verify_NO_MATCH]) auto
      next
        case MaxEnrolled
        with eq True sink show thesis by (intro other [of verify_UNKNOWN_ERROR]) auto
      next
        case (Unknown c)
        with eq True sink show thesis by (intro other [of verify_UNKNOWN_ERROR]) auto
      qed
    qed
  qed
qed

lemma verify_retry_not_match [simp]: "verify_retry q \<noteq> verify_MATCH" "verify_MATCH \<noteq> verify_retry q"
  by (cases q; simp)+

lemma verify_loop_step:
  "verify_loop allowed cancel w =
     (case verify_round allowed cancel w of
        (Err e, w1) \<Rightarrow> (Err e, w1)
      | (Ok b, w1) \<Rightarrow> if b then (Ok (), w1) else verify_loop allowed cancel w1)"
  by (subst verify_loop.simps) (simp split: prod.split sum.split bool.split)

lemma verify_loop_reports:
  "sink_open (wk_sink w) \<Longrightarrow>
   reported (fst (verify_loop allowed cancel w)) (wk_sink (snd (verify_loop allowed cancel w)))"
proof (induction allowed cancel w rule: verify_loop.induct)
  case (1 allowed cancel w)
  obtain r w1 where v: "verify_round allowed cancel w = (r, w1)" by fastforce
  then show ?case
  proof (cases rule: verify_round_cases)
    case (error e)
    then show ?thesis using "1.prems" v by (simp add: verify_loop_step [of allowed cancel w] reported_def)
  next
    case (retry q)
    then have "sink_open (wk_sink w1)" using "1.prems" by (simp add: emit_open)
    with "1.IH" [OF v [symmetric] retry(1)] show ?thesis
      by (simp add: verify_loop_step [of allowed cancel w] v retry(1))
  next
    case (matched i name h a raw)
    then show ?thesis using "1.prems" v
      by (simp add: verify_loop_step [of allowed cancel w] reported_def emit_open emit_shut)
  next
    case (other result)
    then show ?thesis using "1.prems" v
      by (simp add: verify_loop_step [of allowed cancel w] reported_def emit_open emit_shut)
  qed
qed


lemma verify_loop_frame [frame_simps]:
  "wk_fs (snd (verify_loop allowed cancel w)) = wk_fs w"
proof (induction allowed cancel w rule: verify_loop.induct)
  case (1 allowed cancel w)
  obtain r w1 where v: "verify_round allowed cancel w = (r, w1)" by fastforce
  obtain b w2 where t: "worker_round (encode CVerify) EpTouchWait 2 (cmd_timeout CVerify) cancel w = (b, w2)"
    by fastforce
  have f: "wk_fs w2 = wk_fs w"
    using worker_round_sink(2) [of "encode CVerify" EpTouchWait 2 "cmd_timeout CVerify" cancel w] t by simp
  have "wk_fs w1 = wk_fs w"
  proof (cases b)
    case (Inl e)
    with v t f show ?thesis by (auto simp: verify_round_err)
  next
    case (Inr raw)
    from verify_round_eq [OF t [unfolded Inr], of allowed, unfolded v] f show ?thesis
      by (auto split: if_splits status.splits option.splits)
  qed
  then show ?case using "1.IH" [OF v [symmetric], of False]
    by (cases "r = Ok False") (auto simp: verify_loop_step [of allowed cancel w] v split: sum.splits)
qed

text \<open>A match is reported only for an allowed slot the device has just named.\<close>

definition match_proof :: "(byte, string) btree \<Rightarrow> worker \<Rightarrow> bool" where
  "match_proof allowed w \<longleftrightarrow>
     (\<exists>es pre i name h a raw. bt_get allowed i = Some name \<and>
        wk_wire w = es @ [Cmd h (encode CVerify) EpTouchWait 2 a] \<and>
        answered a raw \<and> length raw = 2 \<and> raw ! 1 = i \<and> i < 16 \<and>
        sk_events (wk_sink w) = pre @ [VerifyFingerSelected name, VerifyStatus verify_MATCH True])"

lemma verify_loop_match:
  assumes "\<forall>b. VerifyStatus verify_MATCH b \<notin> set (sk_events (wk_sink w))"
    and "VerifyStatus verify_MATCH b \<in> set (sk_events (wk_sink (snd (verify_loop allowed cancel w))))"
  shows "fst (verify_loop allowed cancel w) = Ok () \<and> b \<and> match_proof allowed (snd (verify_loop allowed cancel w))"
  using assms
proof (induction allowed cancel w rule: verify_loop.induct)
  case (1 allowed cancel w)
  obtain r w1 where v: "verify_round allowed cancel w = (r, w1)" by fastforce
  then show ?case
  proof (cases rule: verify_round_cases)
    case (error e)
    then show ?thesis using "1.prems" v by (simp add: verify_loop_step [of allowed cancel w])
  next
    case (retry q)
    then have "\<forall>b. VerifyStatus verify_MATCH b \<notin> set (sk_events (wk_sink w1))"
      using "1.prems"(1) by (auto simp: sink_emit_def)
    moreover have "VerifyStatus verify_MATCH b \<in> set (sk_events (wk_sink (snd (verify_loop allowed cancel w1))))"
      using "1.prems"(2) by (simp add: verify_loop_step [of allowed cancel w] v retry(1))
    ultimately show ?thesis using "1.IH" [OF v [symmetric] retry(1)]
      by (simp add: verify_loop_step [of allowed cancel w] v retry(1))
  next
    case (matched i name h a raw)
    have "match_proof allowed w1"
      unfolding match_proof_def using matched
      by (intro exI [of _ "wk_wire w"] exI [of _ "sk_events (wk_sink w)"] exI [of _ i] exI [of _ name]
          exI [of _ h] exI [of _ a] exI [of _ raw]) (simp add: sink_emit_def)
    then show ?thesis using "1.prems" v matched(1,3)
      by (auto simp: verify_loop_step [of allowed cancel w] sink_emit_def)
  next
    case (other result)
    then show ?thesis using "1.prems" v
      by (auto simp: verify_loop_step [of allowed cancel w] sink_emit_def)
  qed
qed

text \<open>The slots a claim owns, read from the store.\<close>

lemma allowed_slots_owned:
  assumes "allowed_slots env user finger w = (Ok allowed, w1)" "bt_get allowed i = Some name"
  shows "\<exists>st. fst (open_store env w) = Ok st \<and> (user, name, i) \<in> set (entries (st_prints st)) \<and>
    (finger = ''any'' \<or> finger = name)"
proof -
  obtain b w2 where o: "open_store env w = (b, w2)" by fastforce
  with assms(1) obtain st where b: "b = Ok st" by (cases b) (auto simp: allowed_slots_def try_op_def)
  from assms(1) o b obtain mine where mine: "bt_get (st_prints st) user = Some mine"
    by (auto simp: allowed_slots_def try_op_def split: option.splits)
  have "(name, i) \<in> set mine \<and> (finger = ''any'' \<or> finger = name)"
  proof (cases "finger = ''any''")
    case True
    with assms(1) o b mine have "allowed = bt_collect (map (\<lambda>(name, slot). (slot, name)) mine)"
      by (auto simp: allowed_slots_def try_op_def split: if_splits)
    with assms(2) have "(i, name) \<in> set (rev (map (\<lambda>(name, slot). (slot, name)) mine))"
      by (intro map_of_SomeD) (simp add: bt_collect_get)
    with True show ?thesis by auto
  next
    case False
    with assms(1) o b mine obtain slot where "bt_get mine finger = Some slot"
      "allowed = bt_collect [(slot, finger)]"
      by (auto simp: allowed_slots_def try_op_def split: if_splits option.splits)
    with assms(2) show ?thesis
      by (auto simp: bt_collect_get split: if_splits dest: bt_get_SomeD)
  qed
  with o b bt_get_SomeD [OF mine] show ?thesis by (force simp: entries_def)
qed

text \<open>The three ways \<open>verify_inner\<close> can go: an error before the loop, or the loop.\<close>

lemma verify_inner_cases:
  obtains (early) e where "fst (verify_inner env finger cancel w) = Err e"
      "wk_sink (snd (verify_inner env finger cancel w)) = wk_sink w"
    | (loop) user allowed w1 w2 where "wk_claimed w = Some user" "wk_fs w1 = wk_fs w"
      "wk_store_path w1 = wk_store_path w"
      "allowed_slots env user finger w1 = (Ok allowed, w2)" "wk_sink w2 = wk_sink w"
      "verify_inner env finger cancel w = verify_loop allowed cancel w2"
      "wk_armed w \<longrightarrow> w1 = w"
proof -
  let ?rest = "\<lambda>w1. try_op claim_user (\<lambda>user.
      if finger \<noteq> ''any'' \<and> \<not> is_valid_finger finger then err_op (WBadFinger finger)
      else try_op (allowed_slots env user finger) (\<lambda>allowed. verify_loop allowed cancel)) w1"
  have rest: thesis if w1: "wk_fs w1 = wk_fs w" "wk_store_path w1 = wk_store_path w"
      "wk_sink w1 = wk_sink w" "wk_claimed w1 = wk_claimed w"
    and eq: "verify_inner env finger cancel w = ?rest w1" and aw: "wk_armed w \<longrightarrow> w1 = w" for w1
  proof (cases "wk_claimed w")
    case None
    with eq w1 show thesis
      by (intro early [of WUnclaimed]) (simp_all add: try_op_def claim_user_def)
  next
    case (Some user)
    show thesis
    proof (cases "finger \<noteq> ''any'' \<and> \<not> is_valid_finger finger")
      case True
      with eq w1 Some show thesis
        by (intro early [of "WBadFinger finger"]) (simp_all add: try_op_def claim_user_def err_op_def)
    next
      case False
      obtain b w2 where a: "allowed_slots env user finger w1 = (b, w2)" by fastforce
      have sk: "wk_sink w2 = wk_sink w" using allowed_slots_frame(4) [of env user finger w1] a w1 by simp
      show thesis
      proof (cases b)
        case (Inl e)
        with False eq w1 Some a sk show thesis
          by (intro early [of e]) (auto simp: try_op_def claim_user_def)
      next
        case (Inr allowed)
        with False eq w1 Some a sk aw show thesis
          by (intro loop [of user w1 allowed w2]) (auto simp: try_op_def claim_user_def)
      qed
    qed
  qed
  show thesis
  proof (cases "wk_armed w")
    case True
    then show thesis by (intro rest [of w]) (simp_all add: verify_inner_def)
  next
    case False
    obtain b w1 where s: "send_arm w = (b, w1)" by fastforce
    note fr = send_arm_frame [of w, unfolded s snd_conv]
    show thesis
    proof (cases b)
      case (Inl e)
      with False s fr show thesis by (intro early [of e]) (simp_all add: verify_inner_def)
    next
      case (Inr n)
      with False s fr show thesis
        by (intro rest [of "set_armed True w1"]) (simp_all add: verify_inner_def set_armed_def)
    qed
  qed
qed

interpretation verify_op: reporting_op "verify_inner env finger cancel" for env finger cancel
proof unfold_locales
  fix w :: worker
  assume sk: "sink_open (wk_sink w)"
  show "reported (fst (verify_inner env finger cancel w)) (wk_sink (snd (verify_inner env finger cancel w)))"
  proof (rule verify_inner_cases [of env finger cancel w])
    fix e
    assume "fst (verify_inner env finger cancel w) = Err e"
      "wk_sink (snd (verify_inner env finger cancel w)) = wk_sink w"
    with sk show ?thesis by (simp add: reported_def)
  next
    fix allowed w2
    assume "wk_sink w2 = wk_sink w" "verify_inner env finger cancel w = verify_loop allowed cancel w2"
    then show ?thesis using verify_loop_reports [of w2 allowed cancel] sk by simp
  qed
qed


lemma verify_match_owned:
  assumes "VerifyStatus verify_MATCH b \<in>
    set (sk_events (wk_sink (snd (verify env finger (sink_new OpVerify) cancel w))))"
  shows "\<exists>user name i st es h a raw pre. wk_claimed w = Some user \<and>
    fst (store_open env (wk_store_path w) (wk_fs w)) = Ok st \<and>
    (user, name, i) \<in> set (entries (st_prints st)) \<and> (finger = ''any'' \<or> finger = name) \<and>
    wk_wire (snd (verify env finger (sink_new OpVerify) cancel w)) =
      es @ [Cmd h (encode CVerify) EpTouchWait 2 a] \<and>
    answered a raw \<and> length raw = 2 \<and> raw ! 1 = i \<and> i < 16 \<and>
    sk_events (wk_sink (snd (verify env finger (sink_new OpVerify) cancel w))) =
      pre @ [VerifyFingerSelected name, VerifyStatus verify_MATCH True]"
proof -
  let ?w = "w\<lparr>wk_sink := sink_new OpVerify\<rparr>"
  let ?i = "verify_inner env finger cancel ?w"
  have new: "sink_open (wk_sink ?w)" "\<forall>b. VerifyStatus verify_MATCH b \<notin> set (sk_events (wk_sink ?w))"
    by (simp_all add: sink_new_def sink_open_def)
  have err: "VerifyStatus verify_MATCH b \<in> set (sk_events (wk_sink (snd ?i)))"
  proof (cases "is_ok (fst ?i)")
    case True
    then have "sink_shut (wk_sink (snd ?i))" using verify_op.reports [OF new(1)] by (simp add: reported_def)
    then show ?thesis using True assms
      by (simp add: verify_def finish_op_def split_def Let_def close_again)
  next
    case False
    have t: "verify_terminal e \<noteq> verify_MATCH" for e
      by (auto simp: verify_terminal_def split: worker_error.split usb_error.split)
    from assms False have
      "VerifyStatus verify_MATCH b \<in> set (sk_events (sink_close (fst ?i) (wk_sink (snd ?i))))"
      by (simp add: verify_def finish_op_def split_def Let_def set_armed_def frame_simps)
    then show ?thesis using False
      by (cases "fst ?i")
        (auto simp: sink_close_def sink_emit_def Let_def t [symmetric] split: if_splits op_kind.splits)
  qed
  show ?thesis
  proof (rule verify_inner_cases [of env finger cancel ?w])
    fix e
    assume "wk_sink (snd ?i) = wk_sink ?w"
    with err new(2) show ?thesis by simp
  next
    fix user allowed w1 w2
    assume l: "wk_claimed ?w = Some user" "wk_fs w1 = wk_fs ?w" "wk_store_path w1 = wk_store_path ?w"
      "allowed_slots env user finger w1 = (Ok allowed, w2)" "wk_sink w2 = wk_sink ?w"
      "?i = verify_loop allowed cancel w2"
    have "\<forall>b. VerifyStatus verify_MATCH b \<notin> set (sk_events (wk_sink w2))" using new(2) l(5) by simp
    from verify_loop_match [OF this] err l(6)
    have ok: "fst ?i = Ok ()" "match_proof allowed (snd ?i)" by simp_all
    then have eq: "wk_wire (snd (verify env finger (sink_new OpVerify) cancel w)) = wk_wire (snd ?i)"
      "wk_sink (snd (verify env finger (sink_new OpVerify) cancel w)) = wk_sink (snd ?i)"
      using verify_op.reports [OF new(1), of env finger cancel]
      by (simp_all add: verify_def finish_op_def split_def Let_def reported_def close_again)
    from ok(2) obtain es pre i name h a raw where m: "bt_get allowed i = Some name"
      "wk_wire (snd ?i) = es @ [Cmd h (encode CVerify) EpTouchWait 2 a]"
      "answered a raw" "length raw = 2" "raw ! 1 = i" "i < 16"
      "sk_events (wk_sink (snd ?i)) = pre @ [VerifyFingerSelected name, VerifyStatus verify_MATCH True]"
      unfolding match_proof_def by blast
    from allowed_slots_owned [OF l(4) m(1)] obtain st where
      st: "fst (open_store env w1) = Ok st" "(user, name, i) \<in> set (entries (st_prints st))"
        "finger = ''any'' \<or> finger = name" by blast
    have "fst (store_open env (wk_store_path w) (wk_fs w)) = Ok st"
      using st(1) l(2,3)
      by (cases "fst (store_open env (wk_store_path w) (wk_fs w))") (auto simp: open_store_def split_def)
    then show ?thesis using l(1) m(2-) st(2,3) unfolding eq by auto
  qed
qed

subsection \<open>A verify that succeeds\<close>

lemma live_round:
  "wk_usb w = Some h \<Longrightarrow> wk_script w = Ok raw # rest \<Longrightarrow>
   worker_round out ep len t (\<lambda>_. Live) w = (Ok raw, after_cmd h out ep len (Ok raw) w)"
  by (simp add: worker_round_def transport_cmd_def after_cmd_def)

lemma verify_loop_accepts:
  assumes "wk_usb w = Some h" "bt_get allowed i = Some name" "i < 16"
    and "wk_script w = map (\<lambda>q. Ok [0x40, retry_code q]) qs @ Ok [0x40, i] # rest"
  shows "fst (verify_loop allowed (\<lambda>_. Live) w) = Ok () \<and>
    sk_events (wk_sink (snd (verify_loop allowed (\<lambda>_. Live) w))) =
      sk_events (wk_sink w) @ map (\<lambda>q. VerifyStatus (verify_retry q) False) qs @
        [VerifyFingerSelected name, VerifyStatus verify_MATCH True]"
  using assms(1,4)
proof (induction qs arbitrary: w)
  case Nil
  have ok: "classify i = StOk i" using assms(3) by (simp add: classify_ok_iff)
  from Nil show ?case
    by (simp add: verify_loop_step verify_round_eq [OF live_round] ok assms(2) sink_emit_def
        del: encode.simps cmd_timeout.simps)
next
  case (Cons q qs)
  let ?w = "after_cmd h (encode CVerify) EpTouchWait 2 (Ok [0x40, retry_code q]) w"
  let ?w' = "emit (VerifyStatus (verify_retry q) False) ?w"
  have step: "verify_loop allowed (\<lambda>_. Live) w = verify_loop allowed (\<lambda>_. Live) ?w'"
    using Cons.prems
    by (subst verify_loop_step)
      (simp add: verify_round_eq [OF live_round] del: encode.simps cmd_timeout.simps)
  have "wk_usb ?w' = Some h" "wk_script ?w' = map (\<lambda>q. Ok [0x40, retry_code q]) qs @ Ok [0x40, i] # rest"
    using Cons.prems by (simp_all add: after_cmd_def)
  from Cons.IH [OF this] show ?case by (simp add: step sink_emit_def)
qed


subsection \<open>Enrolment: the events\<close>

lemma probe_slots_frame [frame_simps]:
  "wk_sink (snd (probe_slots ids cancel w)) = wk_sink w \<and> wk_fs (snd (probe_slots ids cancel w)) = wk_fs w \<and>
   wk_store_path (snd (probe_slots ids cancel w)) = wk_store_path w"
proof (induction ids cancel w rule: probe_slots.induct)
  case (1 cancel w)
  then show ?case by simp
next
  case (2 i ids cancel w)
  obtain a w1 where t: "worker_round (encode (CFingerInfo i)) EpStatus (expected_len (CFingerInfo i))
      (cmd_timeout (CFingerInfo i)) cancel w = (a, w1)" by fastforce
  note f = worker_round_sink [of "encode (CFingerInfo i)" EpStatus "expected_len (CFingerInfo i)"
      "cmd_timeout (CFingerInfo i)" cancel w, unfolded t snd_conv]
  show ?case
  proof (cases "\<exists>raw j rec. a = Ok raw \<and> parse (CFingerInfo i) raw = Ok (RFingerInfo j (SlotEnrolled rec))")
    case True
    then obtain raw j rec where p: "a = Ok raw" "parse (CFingerInfo i) raw = Ok (RFingerInfo j (SlotEnrolled rec))"
      by blast
    then have "probe_slots (i # ids) cancel w = probe_slots ids cancel w1"
      using t by (simp del: encode.simps parse.simps)
    then show ?thesis using "2.IH" [OF t [symmetric] p] f by simp
  next
    case False
    then have "snd (probe_slots (i # ids) cancel w) = w1"
      using t by (auto simp del: encode.simps parse.simps split: sum.split response.split slot_state.split)
    with f show ?thesis by simp
  qed
qed

lemma free_slot_frame [frame_simps]:
  "wk_sink (snd (free_slot env cancel w)) = wk_sink w"
  "wk_store_path (snd (free_slot env cancel w)) = wk_store_path w"
  "fs_files (wk_fs (snd (free_slot env cancel w))) = fs_files (wk_fs w)"
  "fs_fault (wk_fs (snd (free_slot env cancel w))) = fs_fault (wk_fs w)"
proof -
  obtain b w1 where s: "send_arm w = (b, w1)" by fastforce
  note fr = send_arm_frame [of w, unfolded s snd_conv]
  obtain c w2 where o: "open_store env (set_armed True w1) = (c, w2)" by fastforce
  note fo = open_store_frame(4,7) [of env "set_armed True w1", unfolded o snd_conv]
    open_store_files [of env "set_armed True w1", unfolded o snd_conv]
  have "wk_sink (snd (free_slot env cancel w)) = wk_sink w \<and>
    wk_store_path (snd (free_slot env cancel w)) = wk_store_path w \<and>
    fs_files (wk_fs (snd (free_slot env cancel w))) = fs_files (wk_fs w) \<and>
    fs_fault (wk_fs (snd (free_slot env cancel w))) = fs_fault (wk_fs w)"
    using s o fr fo by (cases b; cases c)
      (auto simp: free_slot_def try_op_def set_armed_def probe_slots_frame)
  then show "wk_sink (snd (free_slot env cancel w)) = wk_sink w"
    "wk_store_path (snd (free_slot env cancel w)) = wk_store_path w"
    "fs_files (wk_fs (snd (free_slot env cancel w))) = fs_files (wk_fs w)"
    "fs_fault (wk_fs (snd (free_slot env cancel w))) = fs_fault (wk_fs w)" by auto
qed

lemma record_print_reports:
  assumes "sink_open (wk_sink w)"
  shows "reported (fst (record_print env finger user i w)) (wk_sink (snd (record_print env finger user i w)))"
proof -
  obtain b w1 where o: "open_store env w = (b, w1)" by fastforce
  have s1: "sink_open (wk_sink w1)" using open_store_frame(4) [of env w] o assms by simp
  show ?thesis
  proof (cases b)
    case (Inl e)
    with o s1 show ?thesis by (simp add: record_print_def try_op_def reported_def)
  next
    case (Inr st)
    obtain c st1 where i: "store_insert user finger i st = (c, st1)" by fastforce
    obtain d w2 where v: "save_store env st1 w1 = (d, w2)" by fastforce
    have s2: "sink_open (wk_sink w2)" using save_store_frame(4) [of env st1 w1] v s1 by simp
    show ?thesis using o Inr i v s1 s2
      by (cases c; cases d) (auto simp: record_print_def try_op_def reported_def emit_shut)
  qed
qed

text \<open>One round of the enrolment loop by what the machine answers.\<close>

lemma enroll_loop_step:
  assumes "pending_read sm = Some (ep, len, t)" "worker_round out ep len t cancel w = (a, w1)"
  shows "enroll_loop env finger user cancel sm out w =
    (case a of
       Err e \<Rightarrow> (Err e, w1)
     | Ok raw \<Rightarrow>
         (case enroll_step sm raw of
            (Send out1, sm1) \<Rightarrow> enroll_loop env finger user cancel sm1 out1 w1
          | (Complete i, _) \<Rightarrow> record_print env finger user i w1
          | (Fail e, _) \<Rightarrow> (Err (WEnroll e), w1)
          | (act, sm1) \<Rightarrow>
              (let w2 = emit (EnrollStatus (case act of EmitRetry r \<Rightarrow> enroll_retry r
                    | _ \<Rightarrow> enroll_STAGE_PASSED) False) w1 in
               case worker_take_send sm1 of
                 (Err e, _) \<Rightarrow> (Err e, w2)
               | (Ok out2, sm2) \<Rightarrow> enroll_loop env finger user cancel sm2 out2 w2)))"
  using assms by (subst enroll_loop.simps) (simp split: sum.split prod.split enroll_action.split)

lemma worker_round_no_store: "worker_round out ep len t cancel w = (Err e, w1) \<Longrightarrow> e \<noteq> WStore x"
  by (auto simp: worker_round_def split: option.splits cancel_state.splits prod.splits sum.splits
      usb_error.splits)

text \<open>
  Induction over the loop, for a machine that keeps its invariant and bytes that are those of its
  pending command: a round ends it with an error, completes it, or goes on, perhaps after an event
  that is not terminal.
\<close>

definition quiet_emit :: "worker \<Rightarrow> worker \<Rightarrow> bool" where
  "quiet_emit w w' \<longleftrightarrow> w' = w \<or> (\<exists>ev. \<not> is_terminal ev \<and> w' = emit ev w)"

lemma enroll_loop_induct [consumes 2, case_names stop complete go]:
  assumes "enroll_inv sm" "map_option encode (pending_command sm) = Some out"
    and stop: "\<And>sm w c a e w1 w2. pending_command sm = Some c \<Longrightarrow>
      worker_round (encode c) (reply_endpoint c) (expected_len c) (cmd_timeout c) cancel w = (a, w1) \<Longrightarrow>
      quiet_emit w1 w2 \<Longrightarrow> \<forall>x. e \<noteq> WStore x \<Longrightarrow> P sm w (Err e, w2)"
    and complete: "\<And>sm w raw w1. en_pending sm = Some PCommit \<Longrightarrow> good_reply raw \<Longrightarrow>
      worker_round (encode (commit_cmd (sub_id (en_slot sm)))) EpStatus 2 5 cancel w = (Ok raw, w1) \<Longrightarrow>
      P sm w (record_print env finger user (en_slot sm) w1)"
    and go: "\<And>sm w c raw w1 sm2 w2 res. pending_command sm = Some c \<Longrightarrow>
      worker_round (encode c) (reply_endpoint c) (expected_len c) (cmd_timeout c) cancel w = (Ok raw, w1) \<Longrightarrow>
      en_slot sm2 = en_slot sm \<Longrightarrow> quiet_emit w1 w2 \<Longrightarrow> P sm2 w2 res \<Longrightarrow> P sm w res"
  shows "P sm w (enroll_loop env finger user cancel sm out w)"
  using assms(1,2)
proof (induction "length (wk_script w)" arbitrary: sm out w rule: less_induct)
  case less
  from less.prems(2) obtain c where c: "pending_command sm = Some c" "out = encode c" by auto
  have read: "pending_read sm = Some (reply_endpoint c, expected_len c, cmd_timeout c)"
    by (simp add: pending_read_def c)
  obtain a w1 where t: "worker_round out (reply_endpoint c) (expected_len c) (cmd_timeout c) cancel w = (a, w1)"
    by fastforce
  note step = enroll_loop_step [OF read t, of env finger user]
  note t' = t [unfolded c(2)]
  have q: "quiet_emit w1 w1" by (simp add: quiet_emit_def)
  show ?case
  proof (cases a)
    case (Inl e)
    with stop [OF c(1) t' q] worker_round_no_store t show ?thesis by (auto simp: step)
  next
    case (Inr raw)
    obtain act sm1 where st: "enroll_step sm raw = (act, sm1)" by fastforce
    have slot1: "en_slot sm1 = en_slot sm" using enroll_step_frame(1) [of sm raw] st by simp
    have inv1: "enroll_inv sm1" using enroll_inv_step [OF less.prems(1), of raw] st by simp
    have shorter: "length (wk_script w1) < length (wk_script w)"
      using t Inr worker_round_script by blast
    have event: "P sm w (let w2 = emit ev w1 in case worker_take_send sm1 of
        (Err e, _) \<Rightarrow> (Err e, w2)
      | (Ok out2, sm2) \<Rightarrow> enroll_loop env finger user cancel sm2 out2 w2)" if "\<not> is_terminal ev" for ev
    proof -
      have q2: "quiet_emit w1 (emit ev w1)" using that by (auto simp: quiet_emit_def)
      obtain b sm2 where ts: "worker_take_send sm1 = (b, sm2)" by fastforce
      show ?thesis
      proof (cases b)
        case (Inl e)
        have "\<forall>x. e \<noteq> WStore x" using ts Inl
          by (auto simp: worker_take_send_def split: prod.splits option.splits enroll_action.splits)
        with stop [OF c(1) t' q2] ts Inl show ?thesis by simp
      next
        case ok: (Inr out2)
        note k = worker_take_send_Ok [OF inv1 ts [unfolded ok]]
        have "P sm2 (emit ev w1) (enroll_loop env finger user cancel sm2 out2 (emit ev w1))"
          by (rule less.hyps) (use k shorter in simp_all)
        from go [OF c(1) t' [unfolded Inr] _ q2 this] k slot1 show ?thesis by (simp add: ts ok)
      qed
    qed
    show ?thesis
    proof (cases act)
      case (Send out1)
      have "P sm1 w1 (enroll_loop env finger user cancel sm1 out1 w1)"
        by (rule less.hyps) (use shorter inv1 st Send enroll_step_send in auto)
      from go [OF c(1) t' [unfolded Inr] slot1 q this] show ?thesis by (simp add: step Inr st Send)
    next
      case (Complete i)
      with st have "en_pending sm = Some PCommit \<and> good_reply raw \<and> i = en_slot sm"
        by (cases sm raw rule: enroll_step_cases) (auto simp: enroll_step_results)
      moreover from this have "c = commit_cmd (sub_id (en_slot sm))"
        using c(1) by (simp add: pending_command_def)
      ultimately show ?thesis using complete [of sm raw w w1] t' Inr
        by (simp add: step st Complete commit_cmd_def del: encode.simps)
    next
      case (Fail e)
      with stop [OF c(1) t' q] show ?thesis by (simp add: step Inr st)
    next
      case (EmitProgress d n)
      with event [of "EnrollStatus enroll_STAGE_PASSED False"] show ?thesis by (simp add: step Inr st)
    next
      case (EmitRetry r)
      with event [of "EnrollStatus (enroll_retry r) False"] show ?thesis by (simp add: step Inr st)
    qed
  qed
qed

lemma quiet_emit_open: "quiet_emit w w' \<Longrightarrow> sink_open (wk_sink w) \<Longrightarrow> sink_open (wk_sink w')"
  by (auto simp: quiet_emit_def emit_open)

lemma enroll_loop_reports:
  assumes "enroll_inv sm" "map_option encode (pending_command sm) = Some out" "sink_open (wk_sink w)"
  shows "reported (fst (enroll_loop env finger user cancel sm out w))
    (wk_sink (snd (enroll_loop env finger user cancel sm out w)))"
proof -
  have "sink_open (wk_sink w) \<longrightarrow> (case enroll_loop env finger user cancel sm out w of
      (r, w') \<Rightarrow> reported r (wk_sink w'))"
    using assms(1,2)
  proof (induction rule: enroll_loop_induct)
    case (stop sm w c a e w1 w2)
    then show ?case using worker_round_sink(1) quiet_emit_open
      by (auto simp: reported_def) (metis snd_conv)
  next
    case (complete sm w raw w1)
    then have "wk_sink w1 = wk_sink w"
      using worker_round_sink(1) by (metis snd_conv)
    then show ?case using record_print_reports [of w1] by (auto simp: split_def)
  next
    case (go sm w c raw w1 sm2 w2 res)
    then have "wk_sink w1 = wk_sink w"
      using worker_round_sink(1) by (metis snd_conv)
    with go quiet_emit_open [of w1 w2] show ?case by auto
  qed
  with assms(3) show ?thesis by (simp add: split_def)
qed

end
