(* ===== verification/WorkerEnroll.thy ===== *)
theory WorkerEnroll
  imports WorkerOps
begin

text \<open>
  Enrolment end to end: which slot is chosen, what is sent for it, and what the store file holds
  afterwards.
\<close>

subsection \<open>Choosing the slot\<close>

definition probe_cmd :: "wire_event \<Rightarrow> bool" where
  "probe_cmd e \<longleftrightarrow> (\<exists>h i a. e = Cmd h (encode (CFingerInfo i)) EpStatus 70 a)"

lemma worker_round_wire:
  assumes "worker_round out ep len t cancel w = (r, w1)"
  shows "\<exists>es. wk_wire w1 = wk_wire w @ es \<and> (\<forall>e \<in> set es. \<exists>h a. e = Cmd h out ep len a) \<and>
    (\<forall>raw. r = Ok raw \<longrightarrow> (\<exists>h a. es = [Cmd h out ep len a] \<and> answered a raw))"
  using assms
proof (cases rule: worker_round_cases)
  case (unsent e)
  then show ?thesis by simp
next
  case (answer h a raw)
  then show ?thesis by auto
next
  case (failed h a e)
  then show ?thesis by auto
qed

lemma probe_slots_wire:
  "\<exists>es. wk_wire (snd (probe_slots ids cancel w)) = wk_wire w @ es \<and> (\<forall>e \<in> set es. probe_cmd e)"
proof (induction ids cancel w rule: probe_slots.induct)
  case (1 cancel w)
  then show ?case by simp
next
  case (2 i ids cancel w)
  obtain a w1 where t: "worker_round (encode (CFingerInfo i)) EpStatus (expected_len (CFingerInfo i))
      (cmd_timeout (CFingerInfo i)) cancel w = (a, w1)" by fastforce
  obtain es where es: "wk_wire w1 = wk_wire w @ es" "\<forall>e \<in> set es. probe_cmd e"
    using worker_round_wire [OF t] by (fastforce simp: probe_cmd_def simp del: encode.simps)
  show ?case
  proof (cases "\<exists>raw j rec. a = Ok raw \<and> parse (CFingerInfo i) raw = Ok (RFingerInfo j (SlotEnrolled rec))")
    case True
    then obtain raw j rec where p: "a = Ok raw" "parse (CFingerInfo i) raw = Ok (RFingerInfo j (SlotEnrolled rec))"
      by blast
    then have "probe_slots (i # ids) cancel w = probe_slots ids cancel w1"
      using t by (simp del: encode.simps parse.simps)
    moreover obtain es2 where "wk_wire (snd (probe_slots ids cancel w1)) = wk_wire w1 @ es2"
      "\<forall>e \<in> set es2. probe_cmd e" using "2.IH" [OF t [symmetric] p] by blast
    ultimately show ?thesis using es by (intro exI [of _ "es @ es2"]) auto
  next
    case False
    then have "snd (probe_slots (i # ids) cancel w) = w1"
      using t by (auto simp del: encode.simps parse.simps split: sum.split response.split slot_state.split)
    with es show ?thesis by auto
  qed
qed

lemma probe_slots_no_store: "fst (probe_slots ids cancel w) \<noteq> Err (WStore x)"
proof (induction ids cancel w rule: probe_slots.induct)
  case (1 cancel w)
  then show ?case by simp
next
  case (2 i ids cancel w)
  obtain a w1 where t: "worker_round (encode (CFingerInfo i)) EpStatus (expected_len (CFingerInfo i))
      (cmd_timeout (CFingerInfo i)) cancel w = (a, w1)" by fastforce
  show ?case
  proof (cases a)
    case (Inl e)
    with t worker_round_no_store [OF t [unfolded Inl]] show ?thesis by (simp del: encode.simps)
  next
    case (Inr raw)
    with t "2.IH" [OF t [symmetric] Inr] show ?thesis
      by (auto simp del: encode.simps parse.simps split: sum.split response.split slot_state.split)
  qed
qed

lemma free_slot_no_taken: "fst (free_slot env cancel w) \<noteq> Err (WStore (SlotTaken a b c))"
proof -
  obtain r w1 where s: "send_arm w = (r, w1)" by fastforce
  then have "r \<noteq> Err (WStore (SlotTaken a b c))"
    by (cases rule: send_arm_cases) (auto simp del: encode.simps)
  moreover obtain d w2 where o: "open_store env (set_armed True w1) = (d, w2)" by fastforce
  moreover have "d \<noteq> Err (WStore (SlotTaken a b c))"
    using o by (auto simp: open_store_def store_open_def split: prod.splits sum.splits if_splits)
  ultimately show ?thesis using s probe_slots_no_store
    by (cases r; cases d) (auto simp: free_slot_def try_op_def)
qed

lemma free_slot_wire:
  "\<exists>es. wk_wire (snd (free_slot env cancel w)) = wk_wire w @ es \<and>
     (\<forall>e \<in> set es. probe_cmd e \<or> (\<exists>h a. e = Cmd h (encode CEnrolledNum) EpStatus 2 a))"
proof -
  obtain b w1 where s: "send_arm w = (b, w1)" by fastforce
  then obtain es where es: "wk_wire w1 = wk_wire w @ es"
    "\<forall>e \<in> set es. \<exists>h a. e = Cmd h (encode CEnrolledNum) EpStatus 2 a"
    by (cases rule: send_arm_cases) (auto simp del: encode.simps)
  show ?thesis
  proof (cases b)
    case (Inl e)
    with s es show ?thesis by (auto simp: free_slot_def simp del: encode.simps)
  next
    case (Inr n)
    obtain c w2 where o: "open_store env (set_armed True w1) = (c, w2)" by fastforce
    have w2: "wk_wire w2 = wk_wire w1"
      using open_store_frame(1) [of env "set_armed True w1"] o by (simp add: set_armed_def)
    show ?thesis
    proof (cases c)
      case (Inl e)
      with s Inr o es w2 show ?thesis by (auto simp: free_slot_def try_op_def simp del: encode.simps)
    next
      case st: (Inr st)
      obtain es2 where "wk_wire (snd (probe_slots (writable_slots n (tracked_slots (st_prints st))) cancel w2)) =
          wk_wire w2 @ es2" "\<forall>e \<in> set es2. probe_cmd e" using probe_slots_wire by blast
      with s Inr o st es w2 show ?thesis
        by (intro exI [of _ "es @ es2"]) (auto simp: free_slot_def try_op_def simp del: encode.simps)
    qed
  qed
qed

text \<open>The floor is the count the device has just given, and tracked slots are never chosen.\<close>

lemma free_slot_safe:
  assumes "free_slot env cancel w = (Ok slot, w1)" "fs_honest (wk_fs w)"
  shows "\<exists>h raw es. wk_wire w1 = wk_wire w @ Cmd h (encode CEnrolledNum) EpStatus 2 (Ok raw) # es \<and>
    length raw = 2 \<and> raw ! 1 \<le> slot \<and> slot \<le> MAX_SLOT \<and> slot \<notin> set (tracked_slots (store_at env w)) \<and>
    (\<forall>e \<in> set es. probe_cmd e)"
proof -
  obtain b w2 where s: "send_arm w = (b, w2)" by fastforce
  with assms(1) obtain n where n: "b = Ok n" by (cases b) (auto simp: free_slot_def)
  from s n obtain h raw where arm: "length raw = 2" "n = raw ! 1"
    "wk_wire w2 = wk_wire w @ [Cmd h (encode CEnrolledNum) EpStatus 2 (Ok raw)]"
    by (auto elim!: send_arm_cases simp del: encode.simps)
  let ?w = "set_armed True w2"
  have same: "wk_fs ?w = wk_fs w" "wk_store_path ?w = wk_store_path w" "wk_wire ?w = wk_wire w2"
    using send_arm_frame [of w, unfolded s snd_conv] by (simp_all add: set_armed_def)
  obtain c w3 where o: "open_store env ?w = (c, w3)" by fastforce
  with assms(1) s n obtain st where st: "c = Ok st" by (cases c) (auto simp: free_slot_def try_op_def)
  have tracked: "st_prints st = store_at env w"
    using open_store_quiet(5) [OF o [unfolded st]] assms(2) same by (simp add: store_at_def)
  have p: "probe_slots (writable_slots n (tracked_slots (store_at env w))) cancel w3 = (Ok slot, w1)"
    using assms(1) s n o st tracked by (simp add: free_slot_def try_op_def)
  have "slot \<in> set (writable_slots n (tracked_slots (store_at env w)))"
    using probe_slots_good [of w3 "writable_slots n (tracked_slots (store_at env w))" cancel] p by blast
  moreover have "wk_wire w3 = wk_wire w2" using open_store_frame(1) [of env ?w] o same by simp
  moreover obtain es where "wk_wire w1 = wk_wire w3 @ es" "\<forall>e \<in> set es. probe_cmd e"
    using probe_slots_wire [of "writable_slots n (tracked_slots (store_at env w))" cancel w3] p by auto
  ultimately show ?thesis using arm by (auto simp: writable_slots_iff simp del: encode.simps)
qed

subsection \<open>The loop\<close>

text \<open>The commands an enrolment may send for its slot.\<close>

definition enroll_cmd_for :: "byte \<Rightarrow> wire_event \<Rightarrow> bool" where
  "enroll_cmd_for slot e \<longleftrightarrow>
     (\<exists>h out ep len a. e = Cmd h out ep len a \<and>
        ((\<exists>n k. out = encode (CEnroll slot n k)) \<or> out = encode CCheckCollision \<or>
         out = encode (commit_cmd (sub_id slot))))"

definition accepted_commit :: "byte \<Rightarrow> wire_event list \<Rightarrow> bool" where
  "accepted_commit slot es \<longleftrightarrow>
     (\<exists>es0 h a raw. es = es0 @ [Cmd h (encode (commit_cmd (sub_id slot))) EpStatus 2 a] \<and>
        answered a raw \<and> good_reply raw)"

text \<open>The store file after a recorded enrolment.\<close>

definition recorded :: "env \<Rightarrow> string \<Rightarrow> string \<Rightarrow> byte \<Rightarrow> worker \<Rightarrow> worker \<Rightarrow> bool" where
  "recorded env user finger slot w w' \<longleftrightarrow>
     (\<exists>st content. store_insert user finger slot
          \<lparr>st_path = wk_store_path w, st_prints = store_at env w\<rparr> = (Ok (), st) \<and>
        json_print env (st_prints st) = Ok content \<and> store_file w' = Some content)"

lemma record_print_effect:
  assumes "plain_path (wk_store_path w)" "fs_honest (wk_fs w)"
    and "record_print env finger user i w = (r, w')"
  shows "wk_wire w' = wk_wire w \<and>
    (case r of
       Ok _ \<Rightarrow> recorded env user finger i w w'
     | Err e \<Rightarrow> store_file w' = store_file w \<and>
         (\<forall>a b c. e = WStore (SlotTaken a b c) \<longrightarrow>
            \<not> is_ok (fst (store_insert user finger i \<lparr>st_path = wk_store_path w, st_prints = store_at env w\<rparr>))))"
proof -
  obtain b w1 where o: "open_store env w = (b, w1)" by fastforce
  note fr = open_store_frame(1,7) [of env w, unfolded o snd_conv] open_store_files [of env w, unfolded o snd_conv]
  show ?thesis
  proof (cases b)
    case (Inl e)
    moreover have "e \<noteq> WStore (SlotTaken x y z)" for x y z
      using o Inl by (auto simp: open_store_def store_open_def split: prod.splits sum.splits if_splits)
    ultimately show ?thesis using assms(3) o fr
      by (auto simp: record_print_def try_op_def store_file_def)
  next
    case (Inr st)
    note q = open_store_quiet [OF o [unfolded Inr] assms(2)]
    have st: "st = \<lparr>st_path = wk_store_path w, st_prints = store_at env w\<rparr>"
      using q(1,5) by (simp add: store_at_def)
    obtain c st1 where i: "store_insert user finger i st = (c, st1)" by fastforce
    show ?thesis
    proof (cases c)
      case (Inl e)
      with assms(3) o Inr i fr st show ?thesis
        by (auto simp: record_print_def try_op_def store_file_def)
    next
      case ok: (Inr u)
      obtain d w2 where v: "save_store env st1 w1 = (d, w2)" by fastforce
      have path1: "st_path st1 = wk_store_path w"
        using store_insert_path [of user finger i st] i q(1) by simp
      note f2 = save_store_frame(1,6) [of env st1 w1, unfolded v snd_conv]
      from save_store_effect [of st1 env w1 d w2] path1 assms(1) v
      have eff: "case d of
          Ok _ \<Rightarrow> (\<exists>content. json_print env (st_prints st1) = Ok content \<and>
             fs_files (wk_fs w2) (wk_store_path w) = Some content)
        | Err _ \<Rightarrow> fs_files (wk_fs w2) (wk_store_path w) = fs_files (wk_fs w1) (wk_store_path w)"
        by (cases d) auto
      have never: "d \<noteq> Err (WStore (SlotTaken x y z))" for x y z
        using v by (auto simp: save_store_def store_save_def Let_def split: prod.splits sum.splits option.splits)
      show ?thesis
      proof (cases d)
        case (Inl e)
        with assms(3) o \<open>b = Ok st\<close> i ok v f2 fr eff never show ?thesis
          by (auto simp: record_print_def try_op_def store_file_def)
      next
        case (Inr u)
        with assms(3) o \<open>b = Ok st\<close> i ok v have "r = Ok ()" "wk_fs w' = wk_fs w2"
          "wk_wire w' = wk_wire w2" "wk_store_path w' = wk_store_path w2"
          by (auto simp: record_print_def try_op_def)
        with Inr eff f2 fr i ok st show ?thesis by (auto simp: recorded_def store_file_def)
      qed
    qed
  qed
qed


text \<open>What the loop leaves behind, by its result.\<close>

definition loop_effect :: "env \<Rightarrow> string \<Rightarrow> string \<Rightarrow> byte \<Rightarrow> worker \<Rightarrow> (worker_error + unit) \<times> worker \<Rightarrow> bool" where
  "loop_effect env user finger slot w rw \<longleftrightarrow>
     (\<exists>es. wk_wire (snd rw) = wk_wire w @ es \<and> (\<forall>e \<in> set es. enroll_cmd_for slot e) \<and>
        (case fst rw of
           Ok _ \<Rightarrow> accepted_commit slot es \<and> recorded env user finger slot w (snd rw)
         | Err e \<Rightarrow> store_file (snd rw) = store_file w \<and>
             (\<forall>a b c. e = WStore (SlotTaken a b c) \<longrightarrow>
                \<not> is_ok (fst (store_insert user finger slot
                   \<lparr>st_path = wk_store_path w, st_prints = store_at env w\<rparr>)))))"

lemma pending_cmd_for: "pending_command sm = Some c \<Longrightarrow> enroll_cmd_for (en_slot sm) (Cmd h (encode c) ep len a)"
  using pending_command_kind [of sm c]
  by (auto simp: enroll_cmd_for_def sample_cmd_def simp del: encode.simps)

lemma quiet_emit_frame:
  "quiet_emit w w' \<Longrightarrow> wk_wire w' = wk_wire w \<and> wk_fs w' = wk_fs w \<and> wk_store_path w' = wk_store_path w"
  by (auto simp: quiet_emit_def)

lemma pending_round:
  assumes "pending_command sm = Some c"
    and "worker_round (encode c) (reply_endpoint c) (expected_len c) (cmd_timeout c) cancel w = (a, w1)"
  obtains es where "wk_wire w1 = wk_wire w @ es" "\<forall>e \<in> set es. enroll_cmd_for (en_slot sm) e"
    "wk_fs w1 = wk_fs w" "wk_store_path w1 = wk_store_path w"
proof -
  obtain es where es: "wk_wire w1 = wk_wire w @ es"
    "\<forall>e \<in> set es. \<exists>h a. e = Cmd h (encode c) (reply_endpoint c) (expected_len c) a"
    using worker_round_wire [OF assms(2)] by (elim exE conjE) (rule that)
  have "\<forall>e \<in> set es. enroll_cmd_for (en_slot sm) e"
  proof
    fix e
    assume "e \<in> set es"
    with es(2) obtain h a where "e = Cmd h (encode c) (reply_endpoint c) (expected_len c) a" by auto
    then show "enroll_cmd_for (en_slot sm) e" by (simp only: pending_cmd_for [OF assms(1)])
  qed
  with es(1) worker_round_sink(2,3) [of "encode c" "reply_endpoint c" "expected_len c" "cmd_timeout c"
      cancel w, unfolded assms(2) snd_conv] that show thesis by blast
qed

lemma loop_effect_extend:
  assumes "wk_wire w1 = wk_wire w @ es" "\<forall>e \<in> set es. enroll_cmd_for slot e"
    and "wk_fs w1 = wk_fs w" "wk_store_path w1 = wk_store_path w"
    and "loop_effect env user finger slot w1 rw"
  shows "loop_effect env user finger slot w rw"
proof -
  from assms(5) obtain es2 where es2: "wk_wire (snd rw) = wk_wire w1 @ es2"
    "\<forall>e \<in> set es2. enroll_cmd_for slot e"
    "case fst rw of
       Ok _ \<Rightarrow> accepted_commit slot es2 \<and> recorded env user finger slot w1 (snd rw)
     | Err e \<Rightarrow> store_file (snd rw) = store_file w1 \<and>
         (\<forall>a b c. e = WStore (SlotTaken a b c) \<longrightarrow>
            \<not> is_ok (fst (store_insert user finger slot
               \<lparr>st_path = wk_store_path w1, st_prints = store_at env w1\<rparr>)))"
    unfolding loop_effect_def by blast
  have same: "store_at env w1 = store_at env w" "store_file w1 = store_file w"
    using assms(3,4) by (simp_all add: store_at_def store_file_def)
  have acc: "accepted_commit slot (es @ es2)" if "accepted_commit slot es2"
    using that unfolding accepted_commit_def by (metis append.assoc)
  show ?thesis
    unfolding loop_effect_def
  proof (intro exI [of _ "es @ es2"] conjI)
    show "wk_wire (snd rw) = wk_wire w @ es @ es2" using es2(1) assms(1) by simp
    show "\<forall>e \<in> set (es @ es2). enroll_cmd_for slot e" using es2(2) assms(2) by auto
  qed (use es2(3) acc assms(4) same in \<open>cases "fst rw"; simp add: recorded_def\<close>)
qed

lemma enroll_loop_effect:
  assumes "enroll_inv sm" "map_option encode (pending_command sm) = Some out"
    and "plain_path (wk_store_path w)" "fs_honest (wk_fs w)"
  shows "loop_effect env user finger (en_slot sm) w (enroll_loop env finger user cancel sm out w)"
proof -
  have "plain_path (wk_store_path w) \<and> (fs_honest (wk_fs w)) \<longrightarrow>
      loop_effect env user finger (en_slot sm) w (enroll_loop env finger user cancel sm out w)"
    using assms(1,2)
  proof (induction rule: enroll_loop_induct)
    case (stop sm w c a e w1 w2)
    from pending_round [OF stop(1,2)] obtain es where es:
      "wk_wire w1 = wk_wire w @ es" "\<forall>e \<in> set es. enroll_cmd_for (en_slot sm) e"
      "wk_fs w1 = wk_fs w" "wk_store_path w1 = wk_store_path w" by blast
    with quiet_emit_frame [OF stop(3)] stop(4) show ?case
      by (auto simp: loop_effect_def store_file_def)
  next
    case (complete sm w raw w1)
    let ?c = "commit_cmd (sub_id (en_slot sm))"
    from worker_round_wire [OF complete(3)] obtain h a where wire:
      "wk_wire w1 = wk_wire w @ [Cmd h (encode ?c) EpStatus 2 a]" "answered a raw" by auto
    have fs: "wk_fs w1 = wk_fs w" "wk_store_path w1 = wk_store_path w"
      using worker_round_sink(2,3) [of "encode ?c" EpStatus 2 5 cancel w] complete(3) by simp_all
    have same: "store_at env w1 = store_at env w" "store_file w1 = store_file w"
      using fs by (simp_all add: store_at_def store_file_def)
    obtain r w2 where r: "record_print env finger user (en_slot sm) w1 = (r, w2)" by fastforce
    have one: "enroll_cmd_for (en_slot sm) (Cmd h (encode ?c) EpStatus 2 a)"
      unfolding enroll_cmd_for_def by blast
    have acc: "accepted_commit (en_slot sm) [Cmd h (encode ?c) EpStatus 2 a]"
      unfolding accepted_commit_def using wire(2) complete(2) by blast
    show ?case
    proof
      assume q: "plain_path (wk_store_path w) \<and> (fs_honest (wk_fs w))"
      with record_print_effect [OF _ _ r] fs have eff: "wk_wire w2 = wk_wire w1 \<and> (case r of
         Ok _ \<Rightarrow> recorded env user finger (en_slot sm) w1 w2
       | Err e \<Rightarrow> store_file w2 = store_file w1 \<and>
           (\<forall>a b c. e = WStore (SlotTaken a b c) \<longrightarrow>
              \<not> is_ok (fst (store_insert user finger (en_slot sm)
                 \<lparr>st_path = wk_store_path w1, st_prints = store_at env w1\<rparr>))))" by simp
      show "loop_effect env user finger (en_slot sm) w (record_print env finger user (en_slot sm) w1)"
        unfolding loop_effect_def r snd_conv fst_conv
      proof (intro exI conjI)
        show "wk_wire w2 = wk_wire w @ [Cmd h (encode ?c) EpStatus 2 a]" using eff wire by simp
        show "\<forall>e \<in> set [Cmd h (encode ?c) EpStatus 2 a]. enroll_cmd_for (en_slot sm) e" using one by simp
      qed (use eff acc fs(2) same in \<open>cases r; simp add: recorded_def\<close>)
    qed
  next
    case (go sm w c raw w1 sm2 w2 res)
    from pending_round [OF go(1,2)] obtain es where es:
      "wk_wire w1 = wk_wire w @ es" "\<forall>e \<in> set es. enroll_cmd_for (en_slot sm) e"
      "wk_fs w1 = wk_fs w" "wk_store_path w1 = wk_store_path w" by blast
    with quiet_emit_frame [OF go(4)] have
      w2: "wk_wire w2 = wk_wire w @ es" "wk_fs w2 = wk_fs w" "wk_store_path w2 = wk_store_path w"
      by simp_all
    show ?case using loop_effect_extend [OF w2(1) es(2) w2(2,3)] go(3,5) w2(2,3) by simp
  qed
  with assms(3,4) show ?thesis by blast
qed

subsection \<open>The whole enrolment\<close>

lemma enroll_begins:
  obtains out sm where "enroll_start (with_total slot n) = (Send out, sm)" "enroll_inv sm"
    "map_option encode (pending_command sm) = Some out" "en_slot sm = slot"
proof -
  have "enroll_inv (snd (enroll_start (with_total slot n)))"
    by (rule enroll_inv_start) (simp add: with_total_def)
  then show thesis using that [of "encode (CEnroll slot n 0)" "snd (enroll_start (with_total slot n))"]
    by (auto simp: enroll_start_def enroll_queue_def Let_def pending_command_def sample_cmd_def
        with_total_def simp del: encode.simps)
qed

text \<open>Either it fails before a slot is chosen, or it is the loop on a chosen slot.\<close>

lemma enroll_inner_cases:
  obtains (early) e where "fst (enroll_inner env finger cancel w) = Err e" "\<forall>x. e = WStore x \<longrightarrow> \<not> (\<exists>a b c. x = SlotTaken a b c)"
      "wk_sink (snd (enroll_inner env finger cancel w)) = wk_sink w"
      "store_file (snd (enroll_inner env finger cancel w)) = store_file w"
      "\<exists>es. wk_wire (snd (enroll_inner env finger cancel w)) = wk_wire w @ es \<and>
        (\<forall>e \<in> set es. probe_cmd e \<or> (\<exists>h a. e = Cmd h (encode CEnrolledNum) EpStatus 2 a))"
    | (loop) user st w1 slot w2 sm out where "wk_claimed w = Some user" "is_valid_finger finger"
      "open_store env w = (Ok st, w1)" "slot_of (st_prints st) (user, finger) = None"
      "free_slot env cancel w1 = (Ok slot, w2)" "enroll_inv sm"
      "map_option encode (pending_command sm) = Some out" "en_slot sm = slot"
      "enroll_inner env finger cancel w = enroll_loop env finger user cancel sm out w2"
proof (cases "wk_claimed w")
  case None
  then show thesis
    by (intro early [of WUnclaimed]) (simp_all add: enroll_inner_def try_op_def claim_user_def)
next
  case user: (Some user)
  show thesis
  proof (cases "is_valid_finger finger")
    case False
    with user show thesis
      by (intro early [of "WBadFinger finger"])
        (simp_all add: enroll_inner_def try_op_def claim_user_def err_op_def)
  next
    case valid: True
    obtain b w1 where o: "open_store env w = (b, w1)" by fastforce
    note fo = open_store_frame(1,4,7) [of env w, unfolded o snd_conv]
      open_store_files [of env w, unfolded o snd_conv]
    show thesis
    proof (cases b)
      case (Inl e)
      have "\<forall>x. e = WStore x \<longrightarrow> \<not> (\<exists>a b c. x = SlotTaken a b c)"
        using o Inl by (auto simp: open_store_def store_open_def split: prod.splits sum.splits if_splits)
      with user valid o Inl fo show thesis
        by (intro early [of e]) (simp_all add: enroll_inner_def try_op_def claim_user_def store_file_def)
    next
      case st: (Inr st)
      show thesis
      proof (cases "slot_of (st_prints st) (user, finger)")
        case (Some k)
        with user valid o st fo show thesis
          by (intro early [of "WAlreadyEnrolled finger"])
            (simp_all add: enroll_inner_def try_op_def claim_user_def store_file_def err_op_def)
      next
        case None
        obtain c w2 where f: "free_slot env cancel w1 = (c, w2)" by fastforce
        note ff = free_slot_frame [of env cancel w1, unfolded f snd_conv]
        show thesis
        proof (cases c)
          case (Inl e)
          from free_slot_wire [of env cancel w1] f fo obtain es where es: "wk_wire w2 = wk_wire w @ es"
            "\<forall>e \<in> set es. probe_cmd e \<or> (\<exists>h a. e = Cmd h (encode CEnrolledNum) EpStatus 2 a)" by auto
          have "\<forall>x. e = WStore x \<longrightarrow> \<not> (\<exists>a b c. x = SlotTaken a b c)"
            using free_slot_no_taken [of env cancel w1] f Inl by auto
          with user valid o st None f Inl ff fo es show thesis
            by (intro early [of e])
              (auto simp: enroll_inner_def try_op_def claim_user_def store_file_def simp del: encode.simps)
        next
          case (Inr slot)
          obtain out sm where sm: "enroll_start (with_total slot (enroll_stages (env_stages env))) = (Send out, sm)"
            "enroll_inv sm" "map_option encode (pending_command sm) = Some out" "en_slot sm = slot"
            by (rule enroll_begins)
          with user valid o st None f Inr show thesis
            by (intro loop [of user st w1 slot w2 sm out])
              (simp_all add: enroll_inner_def try_op_def claim_user_def)
        qed
      qed
    qed
  qed
qed


interpretation enroll_op: reporting_op "enroll_inner env finger cancel" for env finger cancel
proof unfold_locales
  fix w :: worker
  assume sk: "sink_open (wk_sink w)"
  show "reported (fst (enroll_inner env finger cancel w)) (wk_sink (snd (enroll_inner env finger cancel w)))"
  proof (rule enroll_inner_cases [of env finger cancel w])
    fix e
    assume "fst (enroll_inner env finger cancel w) = Err e"
      "wk_sink (snd (enroll_inner env finger cancel w)) = wk_sink w"
    with sk show ?thesis by (simp add: reported_def)
  next
    fix user st w1 slot w2 sm out
    assume o: "open_store env w = (Ok st, w1)" and f: "free_slot env cancel w1 = (Ok slot, w2)"
      and sm: "enroll_inv sm" "map_option encode (pending_command sm) = Some out"
      and eq: "enroll_inner env finger cancel w = enroll_loop env finger user cancel sm out w2"
    have "wk_sink w2 = wk_sink w"
      using open_store_frame(4) [of env w] free_slot_frame(1) [of env cancel w1] o f by simp
    with enroll_loop_reports [OF sm, of w2] sk eq show ?thesis by simp
  qed
qed

text \<open>Commands that write nothing: the arming read, slot probes and the abort.\<close>

definition harmless :: "wire_event \<Rightarrow> bool" where
  "harmless e \<longleftrightarrow> probe_cmd e \<or> (\<exists>h a. e = Cmd h (encode CEnrolledNum) EpStatus 2 a) \<or>
     (\<exists>h a. e = Cmd h (encode CAbort) EpStatus 0 a)"

definition free_for_enroll :: "prints \<Rightarrow> wire_event list \<Rightarrow> byte \<Rightarrow> bool" where
  "free_for_enroll p es slot \<longleftrightarrow>
     slot \<le> MAX_SLOT \<and> (\<forall>k. slot_of p k \<noteq> Some slot) \<and>
     (\<exists>h raw. Cmd h (encode CEnrolledNum) EpStatus 2 (Ok raw) \<in> set es \<and> length raw = 2 \<and> raw ! 1 \<le> slot)"

lemma probe_or_arm:
  assumes "probe_cmd e \<or> (\<exists>h a. e = Cmd h (encode CEnrolledNum) EpStatus 2 a)"
  shows "harmless e \<and> \<not> enroll_cmd_for 0 e"
proof -
  from assms consider (p) h i a where "e = Cmd h (encode (CFingerInfo i)) EpStatus 70 a"
    | (a) h a where "e = Cmd h (encode CEnrolledNum) EpStatus 2 a"
    unfolding probe_cmd_def by blast
  then have "\<not> enroll_cmd_for 0 e" by cases (auto simp: enroll_cmd_for_def commit_cmd_def)
  moreover have "harmless e" using assms by (auto simp: harmless_def simp del: encode.simps)
  ultimately show ?thesis by blast
qed

lemma enroll_inner_effect:
  assumes "plain_path (wk_store_path w)" "fs_honest (wk_fs w)" "prints_wf (store_at env w)"
    and eq: "enroll_inner env finger cancel w = (r, w')"
  shows "\<exists>slot es. wk_wire w' = wk_wire w @ es \<and> (\<forall>e \<in> set es. harmless e \<or> enroll_cmd_for slot e) \<and>
    ((\<exists>e \<in> set es. enroll_cmd_for slot e) \<longrightarrow> free_for_enroll (store_at env w) es slot) \<and>
    (case r of
       Ok _ \<Rightarrow> \<exists>user es0 es1. wk_claimed w = Some user \<and> es = es0 @ es1 \<and> accepted_commit slot es1 \<and>
         recorded env user finger slot w w' \<and> slot_of (store_at env w) (user, finger) = None
     | Err e \<Rightarrow> store_file w' = store_file w \<and> (\<forall>a b c. e \<noteq> WStore (SlotTaken a b c)))"
proof (rule enroll_inner_cases [of env finger cancel w])
  fix e
  assume e: "fst (enroll_inner env finger cancel w) = Err e"
    "\<forall>x. e = WStore x \<longrightarrow> \<not> (\<exists>a b c. x = SlotTaken a b c)"
    "store_file (snd (enroll_inner env finger cancel w)) = store_file w"
    and "\<exists>es. wk_wire (snd (enroll_inner env finger cancel w)) = wk_wire w @ es \<and>
        (\<forall>e \<in> set es. probe_cmd e \<or> (\<exists>h a. e = Cmd h (encode CEnrolledNum) EpStatus 2 a))"
  then obtain es where es: "wk_wire w' = wk_wire w @ es"
    "\<forall>e \<in> set es. probe_cmd e \<or> (\<exists>h a. e = Cmd h (encode CEnrolledNum) EpStatus 2 a)"
    by (auto simp: eq simp del: encode.simps)
  have no: "\<forall>e \<in> set es. harmless e \<and> \<not> enroll_cmd_for 0 e" using es(2) probe_or_arm by blast
  show ?thesis
    by (intro exI [of _ 0] exI [of _ es] conjI) (use es(1) no e eq in auto)
next
  fix user st w1 slot w2 sm out
  assume claimed: "wk_claimed w = Some user" and o: "open_store env w = (Ok st, w1)"
    and fresh: "slot_of (st_prints st) (user, finger) = None"
    and f: "free_slot env cancel w1 = (Ok slot, w2)"
    and sm: "enroll_inv sm" "map_option encode (pending_command sm) = Some out" "en_slot sm = slot"
    and loop: "enroll_inner env finger cancel w = enroll_loop env finger user cancel sm out w2"
    and valid: "is_valid_finger finger"
  note q = open_store_quiet [OF o assms(2)]
  have wire1: "wk_wire w1 = wk_wire w" using open_store_frame(1) [of env w] o by simp
  have at1: "store_at env w1 = store_at env w" using q(2,4) by (simp add: store_at_def)
  note ff = free_slot_frame [of env cancel w1, unfolded f snd_conv]
  from free_slot_safe [OF f q(3)] obtain h raw es1 where
    es1: "wk_wire w2 = wk_wire w @ Cmd h (encode CEnrolledNum) EpStatus 2 (Ok raw) # es1"
      "length raw = 2" "raw ! 1 \<le> slot" "slot \<le> MAX_SLOT" "slot \<notin> set (tracked_slots (store_at env w))"
      "\<forall>e \<in> set es1. probe_cmd e"
    unfolding wire1 at1 by blast
  have same: "store_at env w2 = store_at env w" "store_file w2 = store_file w"
    "wk_store_path w2 = wk_store_path w" "fs_honest (wk_fs w2)"
    using ff q by (simp_all add: store_at_def store_file_def fs_honest_def)
  have "plain_path (wk_store_path w2)" using assms(1) same(3) by simp
  from enroll_loop_effect [OF sm(1,2) this same(4), of env user finger cancel]
  have "loop_effect env user finger slot w2 (r, w')" using eq loop sm(3) by simp
  then obtain es2 where es2: "wk_wire w' = wk_wire w2 @ es2" "\<forall>e \<in> set es2. enroll_cmd_for slot e"
    "case r of
       Ok _ \<Rightarrow> accepted_commit slot es2 \<and> recorded env user finger slot w2 w'
     | Err e \<Rightarrow> store_file w' = store_file w2 \<and>
         (\<forall>a b c. e = WStore (SlotTaken a b c) \<longrightarrow> \<not> is_ok (fst (store_insert user finger slot
            \<lparr>st_path = wk_store_path w2, st_prints = store_at env w2\<rparr>)))"
    unfolding loop_effect_def fst_conv snd_conv by blast
  have free: "\<forall>k. slot_of (store_at env w) k \<noteq> Some slot"
    using es1(5) tracked_slots_iff [OF assms(3)] by blast
  have ins: "is_ok (fst (store_insert user finger slot
      \<lparr>st_path = wk_store_path w2, st_prints = store_at env w2\<rparr>))"
    using insert_accepted(1) [of "\<lparr>st_path = wk_store_path w2, st_prints = store_at env w2\<rparr>" finger user slot]
      valid free assms(3) same(1) by (simp add: slot_held_def)
  let ?arm = "Cmd h (encode CEnrolledNum) EpStatus 2 (Ok raw)"
  let ?es = "?arm # es1 @ es2"
  have fr: "slot_of (store_at env w) (user, finger) = None" using fresh q(5) by (simp add: store_at_def)
  show ?thesis
  proof (intro exI conjI)
    show "wk_wire w' = wk_wire w @ ?es" using es1(1) es2(1) by simp
    have "harmless ?arm" unfolding harmless_def by blast
    moreover have "\<forall>e \<in> set es1. harmless e" using es1(6) by (auto simp: harmless_def)
    ultimately show "\<forall>e \<in> set ?es. harmless e \<or> enroll_cmd_for slot e" using es2(2) by auto
    have "?arm \<in> set ?es" by simp
    then have "free_for_enroll (store_at env w) ?es slot"
      unfolding free_for_enroll_def using es1(2-4) free by blast
    then show "(\<exists>e \<in> set ?es. enroll_cmd_for slot e) \<longrightarrow> free_for_enroll (store_at env w) ?es slot" by simp
    show "case r of
       Ok _ \<Rightarrow> \<exists>user es0 es1'. wk_claimed w = Some user \<and> ?es = es0 @ es1' \<and> accepted_commit slot es1' \<and>
         recorded env user finger slot w w' \<and> slot_of (store_at env w) (user, finger) = None
     | Err e \<Rightarrow> store_file w' = store_file w \<and> (\<forall>a b c. e \<noteq> WStore (SlotTaken a b c))"
    proof (cases r)
      case (Inl e)
      with es2(3) ins same(2) show ?thesis by auto
    next
      case (Inr u)
      have "?es = (?arm # es1) @ es2" by simp
      moreover have "recorded env user finger slot w w'"
        using es2(3) Inr same(1,3) by (simp add: recorded_def)
      ultimately have fin: "wk_claimed w = Some user \<and> ?es = (?arm # es1) @ es2 \<and> accepted_commit slot es2 \<and>
          recorded env user finger slot w w' \<and> slot_of (store_at env w) (user, finger) = None"
        using es2(3) Inr claimed fr by simp
      show ?thesis unfolding Inr sum.case by (intro exI) (rule fin)
    qed
  qed
qed


text \<open>The shared ending adds at most an abort.\<close>

lemma finish_op_wire:
  "\<exists>es. wk_wire (snd (finish_op rw)) = wk_wire (snd rw) @ es \<and> (\<forall>e \<in> set es. harmless e) \<and>
     fst (finish_op rw) = fst rw \<and> store_file (snd (finish_op rw)) = store_file (snd rw) \<and>
     (is_ok (fst rw) \<longrightarrow> es = [])"
proof (cases rw)
  case (Pair r w)
  have "\<exists>es. wk_wire (abort_session w) = wk_wire w @ es \<and> (\<forall>e \<in> set es. harmless e)"
    unfolding abort_session_wire harmless_def by (auto split: option.split)
  with Pair show ?thesis
    by (cases "is_ok r") (auto simp: finish_op_def Let_def set_armed_def store_file_def frame_simps)
qed

lemma worker_enroll_effect:
  assumes "plain_path (wk_store_path w)" "fs_honest (wk_fs w)" "prints_wf (store_at env w)"
    and eq: "worker_enroll env finger sink cancel w = (r, w')"
  shows "\<exists>slot es. wk_wire w' = wk_wire w @ es \<and> (\<forall>e \<in> set es. harmless e \<or> enroll_cmd_for slot e) \<and>
    ((\<exists>e \<in> set es. enroll_cmd_for slot e) \<longrightarrow> free_for_enroll (store_at env w) es slot) \<and>
    (case r of
       Ok _ \<Rightarrow> \<exists>user es0 es1. wk_claimed w = Some user \<and> es = es0 @ es1 \<and> accepted_commit slot es1 \<and>
         recorded env user finger slot w w' \<and> slot_of (store_at env w) (user, finger) = None
     | Err e \<Rightarrow> store_file w' = store_file w \<and> (\<forall>a b c. e \<noteq> WStore (SlotTaken a b c)))"
proof -
  let ?w = "w\<lparr>wk_sink := sink\<rparr>"
  obtain q w1 where i: "enroll_inner env finger cancel ?w = (q, w1)" by fastforce
  have same: "store_at env ?w = store_at env w" "store_file ?w = store_file w"
    "wk_claimed ?w = wk_claimed w" "wk_wire ?w = wk_wire w"
    by (simp_all add: store_at_def store_file_def)
  have "plain_path (wk_store_path ?w)" "fs_honest (wk_fs ?w)" "prints_wf (store_at env ?w)"
    using assms(1-3) same by simp_all
  from enroll_inner_effect [OF this i] obtain slot es where es: "wk_wire w1 = wk_wire w @ es"
    "\<forall>e \<in> set es. harmless e \<or> enroll_cmd_for slot e"
    "(\<exists>e \<in> set es. enroll_cmd_for slot e) \<longrightarrow> free_for_enroll (store_at env w) es slot"
    "case q of
       Ok _ \<Rightarrow> \<exists>user es0 es1. wk_claimed w = Some user \<and> es = es0 @ es1 \<and> accepted_commit slot es1 \<and>
         recorded env user finger slot ?w w1 \<and> slot_of (store_at env w) (user, finger) = None
     | Err e \<Rightarrow> store_file w1 = store_file w \<and> (\<forall>a b c. e \<noteq> WStore (SlotTaken a b c))"
    unfolding same by blast
  from finish_op_wire [of "(q, w1)"] obtain es2 where f: "wk_wire w' = wk_wire w1 @ es2"
    "\<forall>e \<in> set es2. harmless e" "r = q" "store_file w' = store_file w1" "is_ok q \<longrightarrow> es2 = []"
    using eq i by (auto simp: worker_enroll_def)
  have not_for: "\<not> enroll_cmd_for slot e" if "harmless e" for e
  proof -
    from that consider (p) h i a where "e = Cmd h (encode (CFingerInfo i)) EpStatus 70 a"
      | (a) h a where "e = Cmd h (encode CEnrolledNum) EpStatus 2 a"
      | (b) h a where "e = Cmd h (encode CAbort) EpStatus 0 a"
      unfolding harmless_def probe_cmd_def by blast
    then show ?thesis by cases (auto simp: enroll_cmd_for_def commit_cmd_def)
  qed
  show ?thesis
  proof (intro exI conjI)
    show "wk_wire w' = wk_wire w @ es @ es2" using f(1) es(1) by simp
    show "\<forall>e \<in> set (es @ es2). harmless e \<or> enroll_cmd_for slot e" using f(2) es(2) by auto
    show "(\<exists>e \<in> set (es @ es2). enroll_cmd_for slot e) \<longrightarrow> free_for_enroll (store_at env w) (es @ es2) slot"
      using es(3) f(2) not_for by (auto simp: free_for_enroll_def simp del: encode.simps)
    show "case r of
       Ok _ \<Rightarrow> \<exists>user es0 es1. wk_claimed w = Some user \<and> es @ es2 = es0 @ es1 \<and> accepted_commit slot es1 \<and>
         recorded env user finger slot w w' \<and> slot_of (store_at env w) (user, finger) = None
     | Err e \<Rightarrow> store_file w' = store_file w \<and> (\<forall>a b c. e \<noteq> WStore (SlotTaken a b c))"
      using es(4) f(3-5) same(1) by (cases q) (auto simp: recorded_def)
  qed
qed


subsection \<open>Properties\<close>

text \<open>C23: Exactly one terminal event per operation: whatever the device, the store and the cancel token
  do, a verify or an enrolment on a fresh sink reports one terminal event, as its last event, and
  none before it, so no client waits for ever and none is told two outcomes.\<close>

theorem one_terminal_event:
  "sink_shut (wk_sink (snd (verify env finger (sink_new OpVerify) cancel w))) \<and>
   sink_shut (wk_sink (snd (worker_enroll env finger (sink_new OpEnroll) cancel w)))"
  unfolding verify_def worker_enroll_def
  by (intro conjI verify_op.one_terminal enroll_op.one_terminal) simp_all

text \<open>An operation that fails ends the chip session: after an error of \<open>verify\<close> or \<open>enroll\<close> the
  worker is disarmed and, if it still holds a handle, the last command it sent was an abort.\<close>

theorem failed_op_disarms:
  assumes "run = verify env finger sink cancel \<or> run = worker_enroll env finger sink cancel"
    and "fst (run w) = Err e"
  shows "\<not> wk_armed (snd (run w)) \<and>
    (\<forall>h. wk_usb (snd (run w)) = Some h \<longrightarrow>
       (\<exists>a. last (wk_wire (snd (run w))) = Cmd h (encode CAbort) EpStatus 0 a))"
  using assms(1)
proof
  assume r: "run = verify env finger sink cancel"
  show ?thesis using assms(2) unfolding r verify_def by (rule verify_op.error_aborts)
next
  assume r: "run = worker_enroll env finger sink cancel"
  show ?thesis using assms(2) unfolding r worker_enroll_def by (rule enroll_op.error_aborts)
qed

theorem failed_op_disarms_witness:
  "\<not> wk_armed (snd (verify sample_env ''nose'' (sink_new OpVerify) (\<lambda>_. Live) (sample_worker [])))"
proof -
  have "\<not> is_valid_finger ''nose''" by (simp add: is_valid_finger_def FINGER_NAMES_def)
  then have "fst (verify sample_env ''nose'' (sink_new OpVerify) (\<lambda>_. Live) (sample_worker [])) =
      Err (WBadFinger ''nose'')"
    by (simp add: sample_worker_eq verify_def verify_inner_def finish_op_def try_op_def
        claim_user_def err_op_def Let_def)
  from failed_op_disarms [OF disjI1 [OF refl] this] show ?thesis by blast
qed

text \<open>C3: A verify reports \<open>verify-match\<close> only to the finger's owner: the chip has just answered the
  verify command with a slot which the store maps to a finger of the user holding the claim, the
  very finger asked for unless any was asked for, and that finger was announced right before.  A
  match on another user's template or on an orphan in flash never authenticates the claim.\<close>

theorem verify_match_only_own:
  assumes "VerifyStatus verify_MATCH b \<in>
    set (sk_events (wk_sink (snd (verify env finger (sink_new OpVerify) cancel w))))"
  shows "\<exists>user name i st es h a raw pre. wk_claimed w = Some user \<and>
    fst (store_open env (wk_store_path w) (wk_fs w)) = Ok st \<and>
    (user, name, i) \<in> set (entries (st_prints st)) \<and> (finger = ''any'' \<or> finger = name) \<and>
    wk_wire (snd (verify env finger (sink_new OpVerify) cancel w)) =
      es @ [Cmd h (encode CVerify) EpTouchWait 2 a] \<and>
    answered a raw \<and> length raw = 2 \<and> raw ! 1 = i \<and> i < 16 \<and>
    sk_events (wk_sink (snd (verify env finger (sink_new OpVerify) cancel w))) =
      pre @ [VerifyFingerSelected name, VerifyStatus verify_MATCH True]"
  using assms by (rule verify_match_owned)

lemma sample_allowed:
  "allowed_slots sample_env ''alice'' ''left-thumb'' (sample_worker script) =
     (Ok [(3, ''left-thumb'')], (sample_worker script)\<lparr>wk_fs := fs_tick sample_fs\<rparr>)"
  by (simp add: allowed_slots_def try_op_def open_store_def store_open_def sample_worker_eq fs_ops
      sample_fs_def quiet_fs_def sample_env_def sample_store_def bt_get_def bt_collect_def DEFAULT_PATH_def)

lemma sample_worker_fields:
  "wk_claimed (sample_worker script) = Some ''alice''" "wk_armed (sample_worker script)"
  by (simp_all add: sample_worker_eq)

lemma left_thumb_valid: "is_valid_finger ''left-thumb''"
  by (simp add: is_valid_finger_def FINGER_NAMES_def)

theorem verify_match_only_own_witness:
  "\<exists>h a. last (wk_wire (snd (verify sample_env ''left-thumb'' (sink_new OpVerify) (\<lambda>_. Live)
      (sample_worker [Ok [0x40, 3]])))) = Cmd h (encode CVerify) EpTouchWait 2 a"
proof -
  let ?w = "(sample_worker [Ok [0x40, 3]])\<lparr>wk_fs := fs_tick sample_fs\<rparr>"
  have open_new: "(sample_worker script)\<lparr>wk_sink := sink_new OpVerify\<rparr> = sample_worker script" for script
    by (simp add: sample_worker_eq)
  have "verify_inner sample_env ''left-thumb'' (\<lambda>_. Live) (sample_worker [Ok [0x40, 3]]) =
      verify_loop [(3, ''left-thumb'')] (\<lambda>_. Live) ?w"
    by (simp add: verify_inner_def try_op_def claim_user_def sample_allowed left_thumb_valid
        sample_worker_fields)
  then have "VerifyStatus verify_MATCH True \<in> set (sk_events (wk_sink (snd (verify sample_env ''left-thumb''
      (sink_new OpVerify) (\<lambda>_. Live) (sample_worker [Ok [0x40, 3]])))))"
    using verify_loop_accepts [of ?w 0 "[(3, ''left-thumb'')]" 3 "''left-thumb''" "[]" "[]"]
      verify_op.reports [of "sample_worker [Ok [0x40, 3]]" sample_env "''left-thumb''" "\<lambda>_. Live"]
    by (auto simp: verify_def open_new finish_op_def split_def Let_def bt_get_def sample_worker_eq
        reported_def close_again)
  from verify_match_only_own [OF this] show ?thesis by (auto simp del: encode.simps)
qed


text \<open>C25: A verify by the owner succeeds: on an armed session, if the device answers any number of
  retries and then the slot the store maps to the finger asked for, the verify returns Ok and the
  client sees exactly the retry hints, the finger, and the final \<open>verify-match\<close>.\<close>

theorem verify_accepts_owner:
  assumes "wk_usb w = Some h" and "wk_armed w" and "wk_claimed w = Some user"
    and "finger \<noteq> ''any''" and "is_valid_finger finger" and "i < 16"
    and "fst (store_open env (wk_store_path w) (wk_fs w)) = Ok st"
    and "bt_get (st_prints st) user = Some mine" and "bt_get mine finger = Some i"
    and "wk_script w = map (\<lambda>q. Ok [0x40, retry_code q]) qs @ Ok [0x40, i] # rest"
  shows "fst (verify env finger (sink_new OpVerify) (\<lambda>_. Live) w) = Ok () \<and>
    sk_events (wk_sink (snd (verify env finger (sink_new OpVerify) (\<lambda>_. Live) w))) =
      map (\<lambda>q. VerifyStatus (verify_retry q) False) qs @
        [VerifyFingerSelected finger, VerifyStatus verify_MATCH True]"
proof -
  let ?w = "w\<lparr>wk_sink := sink_new OpVerify\<rparr>"
  let ?a = "bt_collect [(i, finger)]"
  obtain w1 where a: "allowed_slots env user finger ?w = (Ok ?a, w1)" and w1: "wk_usb w1 = Some h"
    "wk_script w1 = wk_script w" "wk_sink w1 = sink_new OpVerify"
  proof -
    obtain fs where o: "store_open env (wk_store_path w) (wk_fs w) = (Ok st, fs)"
      using assms(7) by (cases "store_open env (wk_store_path w) (wk_fs w)") auto
    have "mine \<noteq> []" using assms(9) by (auto simp: bt_get_def)
    with assms(1,4,8,9) that [of "?w\<lparr>wk_fs := fs\<rparr>"] show ?thesis
      by (simp add: allowed_slots_def try_op_def open_store_def o)
  qed
  have "verify_inner env finger (\<lambda>_. Live) ?w = verify_loop ?a (\<lambda>_. Live) w1"
    using assms(2,3,5) a by (simp add: verify_inner_def try_op_def claim_user_def)
  moreover have "bt_get ?a i = Some finger" by (simp add: bt_collect_get)
  ultimately show ?thesis
    using verify_loop_accepts [of w1 h ?a i finger qs rest] w1 assms(6,10)
      verify_op.reports [of ?w env finger "\<lambda>_. Live"]
    by (auto simp: verify_def finish_op_def split_def Let_def reported_def close_again)
      (simp_all add: sink_new_def)
qed

theorem verify_accepts_owner_witness:
  "sk_events (wk_sink (snd (verify sample_env ''left-thumb'' (sink_new OpVerify) (\<lambda>_. Live)
      (sample_worker [Ok [0x40, 0xfb], Ok [0x40, 3]])))) =
     [VerifyStatus verify_REMOVE_AND_RETRY False, VerifyFingerSelected ''left-thumb'',
      VerifyStatus verify_MATCH True]"
  using verify_accepts_owner [of "sample_worker [Ok [0x40, 0xfb], Ok [0x40, 3]]" 0 "''alice''"
      "''left-thumb''" 3 sample_env sample_store "[(''left-thumb'', 3)]" "[Dirty]" "[]"]
  by (simp add: left_thumb_valid sample_worker_eq store_open_def fs_ops sample_fs_def quiet_fs_def
      sample_env_def sample_store_def bt_get_def DEFAULT_PATH_def)

text \<open>C11: An enrolment writes to no slot in use: every command it sends is a read or an abort, or
  belongs to one slot; and if anything is sent for that slot, then the slot is at most 15, not
  below the count the device answered in this very enrolment, and mapped to nobody in the store.
  Assumed of the file system: any of its operations may fail, but none of them by calling a file
  missing that is there; of the store: it is well-formed, at a path with a directory.\<close>

theorem enroll_slot_safe:
  assumes "plain_path (wk_store_path w)" and "fs_honest (wk_fs w)"
    and "prints_wf (store_at env w)"
  shows "\<exists>slot es. wk_wire (snd (worker_enroll env finger sink cancel w)) = wk_wire w @ es \<and>
    (\<forall>e \<in> set es. harmless e \<or> enroll_cmd_for slot e) \<and>
    ((\<exists>e \<in> set es. enroll_cmd_for slot e) \<longrightarrow> free_for_enroll (store_at env w) es slot)"
proof -
  obtain r w' where e: "worker_enroll env finger sink cancel w = (r, w')" by fastforce
  from worker_enroll_effect [OF assms e] show ?thesis unfolding e snd_conv by blast
qed

lemma sample_worker_ready:
  "plain_path (wk_store_path (sample_worker script))" "fs_honest (wk_fs (sample_worker script))"
  "store_at sample_env (sample_worker script) = st_prints sample_store"
  "prints_wf (store_at sample_env (sample_worker script))"
  using sample_store_wf
  by (simp_all add: sample_worker_eq sample_fs_def quiet_fs_def plain_path_def DEFAULT_PATH_def store_at_def
      sample_env_def store_wf_def fs_honest_def)

theorem enroll_slot_safe_witness:
  "\<exists>slot es. wk_wire (snd (worker_enroll sample_env ''right-thumb'' (sink_new OpEnroll) (\<lambda>_. Live)
      (sample_worker [Ok [0x40, 1], Ok [0x40, 0xff]]))) =
        wk_wire (sample_worker [Ok [0x40, 1], Ok [0x40, 0xff]]) @ es \<and>
     (\<forall>e \<in> set es. harmless e \<or> enroll_cmd_for slot e)"
  using enroll_slot_safe [OF sample_worker_ready(1,2,4)] by blast

text \<open>C24: The result of an enrolment and the store agree: Ok means the device accepted the commit for
  the slot as its last answer and the file now holds the old store with the claimed user's finger
  mapped to that slot; any error leaves the file as it was, and the store never refuses the slot
  as taken.  This holds whichever operation of the file system fails and however, the writes and the
  rename of the save included, as long as a failure is never reported as a missing file; the store is
  well-formed, at a path with a directory.\<close>

theorem enroll_result_recorded:
  assumes "plain_path (wk_store_path w)" and "fs_honest (wk_fs w)"
    and "prints_wf (store_at env w)"
  shows "case worker_enroll env finger sink cancel w of
      (Ok _, w') \<Rightarrow> \<exists>slot user es. wk_claimed w = Some user \<and>
         wk_wire w' = wk_wire w @ es \<and> accepted_commit slot (drop (length es - 1) es) \<and>
         recorded env user finger slot w w' \<and> slot_of (store_at env w) (user, finger) = None
    | (Err e, w') \<Rightarrow> store_file w' = store_file w \<and> (\<forall>a b c. e \<noteq> WStore (SlotTaken a b c))"
proof -
  obtain r w' where e: "worker_enroll env finger sink cancel w = (r, w')" by fastforce
  from worker_enroll_effect [OF assms e] obtain slot es where
    eff: "wk_wire w' = wk_wire w @ es" "case r of
       Ok _ \<Rightarrow> \<exists>user es0 es1. wk_claimed w = Some user \<and> es = es0 @ es1 \<and> accepted_commit slot es1 \<and>
         recorded env user finger slot w w' \<and> slot_of (store_at env w) (user, finger) = None
     | Err e \<Rightarrow> store_file w' = store_file w \<and> (\<forall>a b c. e \<noteq> WStore (SlotTaken a b c))"
    by blast
  have tail: "accepted_commit slot (drop (length (es0 @ es1) - 1) (es0 @ es1))"
    if "accepted_commit slot es1" for es0 es1
    using that by (fastforce simp: accepted_commit_def simp del: encode.simps)
  show ?thesis
  proof (cases r)
    case (Inl e')
    with eff(2) e show ?thesis by simp
  next
    case (Inr u)
    with eff(2) obtain user es0 es1 where "wk_claimed w = Some user" "es = es0 @ es1"
      "accepted_commit slot es1" "recorded env user finger slot w w'"
      "slot_of (store_at env w) (user, finger) = None" by auto
    with tail [of es1 es0] eff(1) show ?thesis unfolding e Inr by auto
  qed
qed

text \<open>One sample is enough here; the device counts one finger and accepts all that follows.\<close>

definition one_stage_env :: env where
  "one_stage_env = sample_env\<lparr>env_stages := Some ''1''\<rparr>"

definition willing_worker :: worker where
  "willing_worker = sample_worker
     [Ok [0x40, 1], Ok [0x40, 0xff], Ok [0x40, 0], Ok [0x40, 0, 0], Ok [0x40, 0]]"

theorem enroll_result_recorded_witness:
  "\<exists>slot. recorded one_stage_env ''alice'' ''right-thumb'' slot willing_worker
     (snd (worker_enroll one_stage_env ''right-thumb'' (sink_new OpEnroll) (\<lambda>_. Live) willing_worker))"
proof -
  let ?r = "worker_enroll one_stage_env ''right-thumb'' (sink_new OpEnroll) (\<lambda>_. Live) willing_worker"
  have ok: "fst ?r = Ok ()" by code_simp
  have claimed: "wk_claimed willing_worker = Some ''alice''"
    by (simp add: willing_worker_def sample_worker_fields)
  have parse: "json_parse one_stage_env = json_parse sample_env" by (simp add: one_stage_env_def)
  have same: "store_at one_stage_env willing_worker = store_at sample_env willing_worker"
    unfolding store_at_def parse by (rule refl)
  have ready: "plain_path (wk_store_path willing_worker)" "fs_honest (wk_fs willing_worker)"
    "prints_wf (store_at one_stage_env willing_worker)"
    unfolding same using sample_worker_ready by (simp_all add: willing_worker_def)
  from enroll_result_recorded [OF ready, where finger = "''right-thumb''" and
      sink = "sink_new OpEnroll" and cancel = "\<lambda>_. Live"] ok claimed
  show ?thesis by (auto simp: split_def split: sum.splits)
qed

end
