(* ===== verification/WorkerState.thy ===== *)
theory WorkerState
  imports WorkerEnroll
begin

text \<open>
  Which operations of the worker touch the claim: only \<open>claim\<close> and \<open>release\<close> do.  The shared flags
  always agree with the claimed user, so the daemon may read them without the worker's lock.
\<close>

text \<open>A well-formed store at a usual path; the file system may fail, but never calls a file missing that is there.\<close>

definition store_ready :: "env \<Rightarrow> worker \<Rightarrow> bool" where
  "store_ready env w \<longleftrightarrow> plain_path (wk_store_path w) \<and> (fs_honest (wk_fs w)) \<and>
     prints_wf (store_at env w)"

definition same :: "(worker \<Rightarrow> 'v) \<Rightarrow> worker \<Rightarrow> worker \<Rightarrow> bool" where
  "same view w w' \<longleftrightarrow> view w' = view w"

lemma same_refl [intro, simp]: "same view w w"
  by (simp add: same_def)

lemma same_trans: "same view w w1 \<Longrightarrow> same view w1 w2 \<Longrightarrow> same view w w2"
  by (simp add: same_def)

lemma same_try:
  assumes "same view w (snd (m w))"
    and "\<And>x w1. m w = (Ok x, w1) \<Longrightarrow> same view w1 (snd (k x w1))"
  shows "same view w (snd (try_op m k w))"
proof (cases "m w")
  case (Pair r w1)
  with assms show ?thesis by (cases r) (auto simp: try_op_def intro: same_trans)
qed

subsection \<open>What reading operations keep\<close>

text \<open>A view of the worker that rests on the claim and the files alone is kept by every operation that
  neither claims nor saves.\<close>

locale worker_view =
  fixes view :: "worker \<Rightarrow> 'v"
  assumes rests: "wk_state w' = wk_state w \<Longrightarrow> wk_claimed w' = wk_claimed w \<Longrightarrow>
      fs_files (wk_fs w') = fs_files (wk_fs w) \<Longrightarrow> fs_fault (wk_fs w') = fs_fault (wk_fs w) \<Longrightarrow>
      wk_store_path w' = wk_store_path w \<Longrightarrow> view w' = view w"
begin

lemma sameI: "wk_state w' = wk_state w \<Longrightarrow> wk_claimed w' = wk_claimed w \<Longrightarrow>
    fs_files (wk_fs w') = fs_files (wk_fs w) \<Longrightarrow> fs_fault (wk_fs w') = fs_fault (wk_fs w) \<Longrightarrow>
    wk_store_path w' = wk_store_path w \<Longrightarrow> same view w w'"
  unfolding same_def by (rule rests)

lemma view_frame [simp]:
  "view (emit ev w) = view w" "view (set_armed b w) = view w" "view (w\<lparr>wk_sink := sink\<rparr>) = view w"
  "view (abort_session w) = view w" "view (after_cmd h out ep len a w) = view w"
  "view (w\<lparr>wk_script := sc, wk_wire := es\<rparr>) = view w" "view (w\<lparr>wk_usb := u, wk_armed := b\<rparr>) = view w"
  by (rule rests; simp add: set_armed_def frame_simps)+

lemma same_cmd: "same view w (snd (transport_cmd h out ep len t w))"
  by (rule sameI) (simp_all add: transport_cmd_def split: list.split)

lemma same_open_store: "same view w (snd (open_store env w))"
  by (rule sameI) (simp_all add: open_store_files frame_simps, simp_all add: open_store_def split: prod.split)

lemma same_emit: "same view w (emit ev w)"
  by (simp add: same_def)

lemma same_send_arm: "same view w (snd (send_arm w))"
proof -
  obtain r w1 where s: "send_arm w = (r, w1)" by fastforce
  then have "same view w w1"
    by (cases rule: send_arm_cases) (auto simp: same_def simp del: encode.simps)
  with s show ?thesis by simp
qed

lemma same_read_firmware: "same view w (snd (read_firmware w))"
proof (cases "wk_usb w")
  case (Some h)
  obtain r w1 where t: "transport_cmd h (encode CFwVersion) EpStatus (expected_len CFwVersion)
      (cmd_timeout CFwVersion) w = (r, w1)" by fastforce
  have "same view w w1"
    using same_cmd [of w h "encode CFwVersion" EpStatus "expected_len CFwVersion" "cmd_timeout CFwVersion"] t
    by simp
  with t Some show ?thesis
    by (simp add: read_firmware_def del: encode.simps parse.simps split: sum.split response.split)
qed (auto simp: read_firmware_def)

lemma same_round: "worker_round out ep len t cancel w = (r, w1) \<Longrightarrow> same view w w1"
  by (erule worker_round_cases) (auto simp: same_def)

lemma same_verify_round: "verify_round allowed cancel w = (r, w1) \<Longrightarrow> same view w w1"
proof -
  assume v: "verify_round allowed cancel w = (r, w1)"
  obtain b w2 where t: "worker_round (encode CVerify) EpTouchWait 2 (cmd_timeout CVerify) cancel w = (b, w2)"
    by fastforce
  have s: "same view w w2" using t by (rule same_round)
  show ?thesis
  proof (cases b)
    case (Inl e)
    with v t s show ?thesis by (auto simp: verify_round_err)
  next
    case (Inr raw)
    from verify_round_eq [OF t [unfolded Inr], of allowed, unfolded v] s show ?thesis
      by (auto simp: same_def split: if_splits status.splits option.splits)
  qed
qed

lemma same_verify_loop: "same view w (snd (verify_loop allowed cancel w))"
proof (induction allowed cancel w rule: verify_loop.induct)
  case (1 allowed cancel w)
  obtain r w1 where v: "verify_round allowed cancel w = (r, w1)" by fastforce
  then have "same view w w1" by (rule same_verify_round)
  with "1.IH" [OF v [symmetric], of False] show ?case
    by (cases "r = Ok False")
      (auto simp: verify_loop_step [of allowed cancel w] v intro: same_trans split: sum.splits)
qed

lemma same_verify_inner: "same view w (snd (verify_inner env finger cancel w))"
proof -
  have rest: "same view w1 (snd (try_op claim_user (\<lambda>user.
      if finger \<noteq> ''any'' \<and> \<not> is_valid_finger finger then err_op (WBadFinger finger)
      else try_op (allowed_slots env user finger) (\<lambda>allowed. verify_loop allowed cancel)) w1))" for w1
  proof (rule same_try)
    show "same view w1 (snd (claim_user w1))"
      by (simp add: claim_user_def split: option.split)
    fix u w2
    assume "claim_user w1 = (Ok u, w2)"
    have a: "same view w2 (snd (allowed_slots env u finger w2))"
      unfolding allowed_slots_def
      by (rule same_try [OF same_open_store]) (auto split: option.split)
    have "same view w2 (snd (try_op (allowed_slots env u finger) (\<lambda>allowed. verify_loop allowed cancel) w2))"
      by (rule same_try) (rule a, rule same_verify_loop)
    then show "same view w2 (snd ((if finger \<noteq> ''any'' \<and> \<not> is_valid_finger finger
        then err_op (WBadFinger finger)
        else try_op (allowed_slots env u finger) (\<lambda>allowed. verify_loop allowed cancel)) w2))"
      by (simp add: err_op_def)
  qed
  obtain b w1 where s: "send_arm w = (b, w1)" by fastforce
  have "same view w w1" using same_send_arm [of w] s by simp
  then have s2: "same view w (set_armed True w1)" by (simp add: same_def)
  show ?thesis
  proof (cases "wk_armed w")
    case True
    then show ?thesis using rest [of w] by (simp add: verify_inner_def)
  next
    case False
    with s \<open>same view w w1\<close> same_trans [OF s2 rest] show ?thesis
      by (cases b) (simp_all add: verify_inner_def)
  qed
qed

lemma same_finish: "same view w (snd rw) \<Longrightarrow> same view w (snd (finish_op rw))"
  by (auto simp: same_def finish_op_def Let_def split: prod.split)

lemma same_verify: "same view w (snd (verify env finger sink cancel w))"
proof -
  have "same view (w\<lparr>wk_sink := sink\<rparr>) (snd (verify_inner env finger cancel (w\<lparr>wk_sink := sink\<rparr>)))"
    by (rule same_verify_inner)
  then have "same view w (snd (verify_inner env finger cancel (w\<lparr>wk_sink := sink\<rparr>)))"
    by (simp add: same_def)
  then show ?thesis unfolding verify_def by (rule same_finish)
qed

lemma same_probe: "same view w (snd (probe_slots ids cancel w))"
proof (induction ids cancel w rule: probe_slots.induct)
  case (1 cancel w)
  then show ?case by simp
next
  case (2 i ids cancel w)
  obtain a w1 where t: "worker_round (encode (CFingerInfo i)) EpStatus (expected_len (CFingerInfo i))
      (cmd_timeout (CFingerInfo i)) cancel w = (a, w1)" by fastforce
  have s: "same view w w1" using t by (rule same_round)
  show ?case
  proof (cases "\<exists>raw j rec. a = Ok raw \<and> parse (CFingerInfo i) raw = Ok (RFingerInfo j (SlotEnrolled rec))")
    case True
    then obtain raw j rec where p: "a = Ok raw" "parse (CFingerInfo i) raw = Ok (RFingerInfo j (SlotEnrolled rec))"
      by blast
    then have "probe_slots (i # ids) cancel w = probe_slots ids cancel w1"
      using t by (simp del: encode.simps parse.simps)
    with "2.IH" [OF t [symmetric] p] s show ?thesis by (auto intro: same_trans)
  next
    case False
    then have "snd (probe_slots (i # ids) cancel w) = w1"
      using t by (auto simp del: encode.simps parse.simps split: sum.split response.split slot_state.split)
    with s show ?thesis by simp
  qed
qed

lemma same_free_slot: "same view w (snd (free_slot env cancel w))"
proof -
  obtain b w1 where s: "send_arm w = (b, w1)" by fastforce
  have s1: "same view w w1" using same_send_arm [of w] s by simp
  then have s2: "same view w (set_armed True w1)" by (simp add: same_def)
  have "same view (set_armed True w1) (snd (try_op (open_store env) (\<lambda>st.
      probe_slots (writable_slots n (tracked_slots (st_prints st))) cancel) (set_armed True w1)))" for n
    by (rule same_try [OF same_open_store]) (rule same_probe)
  with s s1 same_trans [OF s2] show ?thesis by (cases b) (simp_all add: free_slot_def)
qed

lemma same_list: "same view w (snd (list_prints env user w))"
  unfolding list_prints_def by (rule same_try [OF same_open_store]) (auto split: option.split)

lemma same_suspend: "same view w (suspend w)"
  by (rule sameI) (simp_all add: suspend_def set_armed_def frame_simps)

lemma same_resume: "same view w (resume w)"
  by (rule sameI) (simp_all add: resume_def set_armed_def)

end

subsection \<open>What saving operations keep\<close>

text \<open>A view that does not rest on the files is kept by enrolling and deleting as well.\<close>

locale claim_view = worker_view +
  assumes saving: "view (snd (save_store env st w)) = view w"
begin

lemma same_save_store: "same view w (snd (save_store env st w))"
  by (simp add: same_def saving)

lemma same_record: "same view w (snd (record_print env finger user i w))"
  unfolding record_print_def
  by (rule same_try [OF same_open_store])
    (auto split: prod.split sum.split intro!: same_try [OF same_save_store] same_emit)

lemma same_enroll_loop:
  assumes "enroll_inv sm" "map_option encode (pending_command sm) = Some out"
  shows "same view w (snd (enroll_loop env finger user cancel sm out w))"
  using assms
proof (induction rule: enroll_loop_induct [where P = "\<lambda>sm w res. same view w (snd res)" and
      env = env and finger = finger and user = user and cancel = cancel])
  case (stop sm w c a e w1 w2)
  from stop have r: "worker_round (encode c) (reply_endpoint c) (expected_len c) (cmd_timeout c) cancel w = (a, w1)" and q: "quiet_emit w1 w2"
    by - assumption+
  have "same view w1 w2" using q by (auto simp: quiet_emit_def intro: same_emit)
  with same_round [OF r] show ?case by (auto intro: same_trans)
next
  case (complete sm w raw w1)
  from complete have r: "worker_round (encode (commit_cmd (sub_id (en_slot sm)))) EpStatus 2 5 cancel w = (Ok raw, w1)"
    by - assumption
  show ?case using same_trans [OF same_round [OF r] same_record] .
next
  case (go sm w c raw w1 sm2 w2 res)
  from go have r: "worker_round (encode c) (reply_endpoint c) (expected_len c) (cmd_timeout c) cancel w = (Ok raw, w1)" and q: "quiet_emit w1 w2"
    and s: "same view w2 (snd res)" by - assumption+
  have "same view w1 w2" using q by (auto simp: quiet_emit_def intro: same_emit)
  with same_round [OF r] have "same view w w2" by (rule same_trans)
  then show ?case using s by (rule same_trans)
qed

lemma same_enroll_inner: "same view w (snd (enroll_inner env finger cancel w))"
  unfolding enroll_inner_def
proof (rule same_try)
  show "same view w (snd (claim_user w))" by (simp add: claim_user_def split: option.split)
  fix user w1
  have start: "same view w2 (snd ((case enroll_start (with_total slot n) of
      (Send out, sm) \<Rightarrow> enroll_loop env finger user cancel sm out
    | _ \<Rightarrow> err_op (WEnroll EUnexpectedReply)) w2))" for slot n w2
  proof -
    obtain out sm where "enroll_start (with_total slot n) = (Send out, sm)" "enroll_inv sm"
      "map_option encode (pending_command sm) = Some out" by (rule enroll_begins)
    then show ?thesis using same_enroll_loop by simp
  qed
  show "same view w1 (snd ((if \<not> is_valid_finger finger then err_op (WBadFinger finger)
      else try_op (open_store env) (\<lambda>st.
        if slot_of (st_prints st) (user, finger) \<noteq> None then err_op (WAlreadyEnrolled finger)
        else try_op (free_slot env cancel) (\<lambda>slot.
          case enroll_start (with_total slot (enroll_stages (env_stages env))) of
            (Send out, sm) \<Rightarrow> enroll_loop env finger user cancel sm out
          | _ \<Rightarrow> err_op (WEnroll EUnexpectedReply)))) w1))"
    using start
    by (auto simp: err_op_def intro!: same_try [OF same_open_store] same_try [OF same_free_slot])
qed

lemma same_enroll: "same view w (snd (worker_enroll env finger sink cancel w))"
proof -
  have "same view (w\<lparr>wk_sink := sink\<rparr>) (snd (enroll_inner env finger cancel (w\<lparr>wk_sink := sink\<rparr>)))"
    by (rule same_enroll_inner)
  then have "same view w (snd (enroll_inner env finger cancel (w\<lparr>wk_sink := sink\<rparr>)))"
    by (simp add: same_def)
  then show ?thesis unfolding worker_enroll_def by (rule same_finish)
qed

lemma same_delete: "same view w (snd (delete_finger env intent w))"
proof -
  obtain r w' where d: "delete_finger env intent w = (r, w')" by fastforce
  have rest: "same view w1 (snd (delete_rest env user finger slot a w1))" for user finger slot a w1
    by (auto simp: delete_rest_def split: sum.split intro!: same_try [OF same_open_store] same_save_store)
  from d have "same view w w'"
  proof (cases rule: delete_finger_cases)
    case (refused e)
    then show ?thesis using same_open_store by auto
  next
    case (sent st w1 h slot a)
    have "same view w w1" using same_open_store [of w env] sent(2) by simp
    moreover have "same view (after_cmd h (encode (CDelete slot)) EpStatus 2 a w1) w'"
      using rest sent(5) by (metis snd_conv)
    ultimately show ?thesis using same_trans by (fastforce simp: same_def)
  qed
  with d show ?thesis by simp
qed

end

definition held :: "worker \<Rightarrow> op_state \<times> string option" where
  "held w = (wk_state w, wk_claimed w)"

definition stored :: "worker \<Rightarrow> (path \<Rightarrow> string option) \<times> path" where
  "stored w = (fs_files (wk_fs w), wk_store_path w)"

interpretation held: claim_view held
  by unfold_locales (simp_all add: held_def save_store_def split: prod.split)

interpretation stored: worker_view stored
  by unfold_locales (simp add: stored_def)

abbreviation same_claim :: "worker \<Rightarrow> worker \<Rightarrow> bool" where
  "same_claim \<equiv> same held"

lemma same_claim_def: "same_claim w w' \<longleftrightarrow> wk_state w' = wk_state w \<and> wk_claimed w' = wk_claimed w"
  by (simp add: same_def held_def)

lemmas same_verify = held.same_verify and same_enroll = held.same_enroll and same_list = held.same_list
  and same_delete = held.same_delete and same_suspend = held.same_suspend and same_resume = held.same_resume
  and same_cmd = held.same_cmd and same_send_arm = held.same_send_arm and same_read_firmware = held.same_read_firmware

subsection \<open>Claim and release\<close>

text \<open>The flags agree with the claim.\<close>

definition claim_agrees :: "worker \<Rightarrow> bool" where
  "claim_agrees w \<longleftrightarrow> os_user (wk_state w) = wk_claimed w \<and>
     (os_claimed (wk_state w) \<longleftrightarrow> wk_claimed w \<noteq> None)"

lemma claim_agrees_new: "claim_agrees (worker_new path fs opens script)"
  by (simp add: claim_agrees_def worker_new_def op_state_default_def)

lemma claim_agrees_same: "same_claim w w' \<Longrightarrow> claim_agrees w \<Longrightarrow> claim_agrees w'"
  by (simp add: claim_agrees_def same_claim_def)

lemma release_claim:
  "wk_claimed (release w) = None" "os_busy (wk_state (release w)) = os_busy (wk_state w)"
  "claim_agrees (release w)"
  by (simp_all add: release_def Let_def set_armed_def frame_simps claim_agrees_def)

text \<open>A claim changes the claimed user only from nobody, only when it returns Ok, and never while
  the busy flag is set.\<close>

lemma claim_same_before:
  assumes "claim user w = (r, w')"
  shows "(r \<noteq> Ok () \<and> same_claim w w') \<or>
    (r = Ok () \<and> (wk_claimed w = None \<or> wk_claimed w = Some user) \<and> \<not> os_busy (wk_state w) \<and>
     wk_claimed w' = Some user \<and> os_user (wk_state w') = Some user \<and> os_claimed (wk_state w') \<and>
     os_busy (wk_state w') = os_busy (wk_state w) \<and> wk_armed w' \<and> wk_usb w' \<noteq> None)"
  using assms
proof (cases rule: claim_cases)
  case busy
  then show ?thesis by simp
next
  case (unopened e)
  then show ?thesis
    by (auto simp: same_claim_def transport_open_def Let_def split: list.splits sum.splits)
next
  case (went w1 w2 w3)
  have "same_claim w w1"
    using went(3) by (auto simp: same_claim_def transport_open_def Let_def split: list.splits sum.splits)
  moreover have "same_claim w1 w2"
    using went(4) same_read_firmware [of w1] by (auto simp: same_claim_def)
  ultimately have s2: "same_claim w w2" by (rule same_trans)
  show ?thesis
  proof (cases r)
    case (Inl e)
    with went(5) same_send_arm [of w2] have "same_claim w2 w'" by simp
    with s2 Inl show ?thesis by (auto intro: same_trans)
  next
    case (Inr u)
    with went(6) obtain n where s: "send_arm w2 = (Ok n, w3)" and
      w': "w' = (set_armed True w3)\<lparr>wk_claimed := Some user,
             wk_state := (wk_state w3)\<lparr>os_user := Some user, os_claimed := True\<rparr>\<rparr>" by auto
    have "same_claim w w3" using same_send_arm [of w2] s s2 same_trans by fastforce
    moreover have "wk_usb w3 \<noteq> None" using set_armed_after_arm [OF s] by blast
    ultimately show ?thesis using went(1,2) Inr w' by (auto simp: same_claim_def set_armed_def)
  qed
qed

lemma claim_keeps_agrees: "claim_agrees w \<Longrightarrow> claim_agrees (snd (claim user w))"
  using claim_same_before [of user w "fst (claim user w)" "snd (claim user w)"] claim_agrees_same
  by (auto simp: claim_agrees_def)

text \<open>A claim opens a device only when no handle is held, and never drops the one it holds.\<close>

lemma claim_keeps_handle:
  assumes "wk_usb w = Some h"
  shows "wk_usb (snd (claim user w)) = Some h"
proof -
  obtain r w' where c: "claim user w = (r, w')" by fastforce
  have arm: "wk_usb (snd (send_arm w2)) = wk_usb w2" for w2
  proof -
    obtain a w3 where s: "send_arm w2 = (a, w3)" by fastforce
    then have "wk_usb w3 = wk_usb w2"
      by (cases rule: send_arm_cases) (auto simp del: encode.simps)
    with s show ?thesis by simp
  qed
  have fw: "wk_usb (snd (read_firmware w1)) = wk_usb w1" for w1
  proof (cases "wk_usb w1")
    case (Some h)
    obtain r w2 where t: "transport_cmd h (encode CFwVersion) EpStatus (expected_len CFwVersion)
        (cmd_timeout CFwVersion) w1 = (r, w2)" by fastforce
    with transport_cmd_eq [OF t] Some show ?thesis
      by (simp add: read_firmware_def del: encode.simps parse.simps split: sum.split response.split)
  qed (simp add: read_firmware_def)
  from c have "wk_usb w' = Some h"
  proof (cases rule: claim_cases)
    case busy
    with assms show ?thesis by simp
  next
    case (unopened e)
    with assms show ?thesis by simp
  next
    case (went w1 w2 w3)
    have "wk_usb w1 = Some h" using went(3) assms by auto
    then have "wk_usb w2 = Some h" using went(4) fw [of w1] by auto
    then show ?thesis using went(5,6) arm [of w2] by (cases r) (auto simp: set_armed_def)
  qed
  with c show ?thesis by simp
qed


text \<open>A device that is gone answers every command on the old handle with a disconnect.\<close>

definition gone :: "worker \<Rightarrow> bool" where
  "gone w \<longleftrightarrow> (\<forall>a \<in> set (wk_script w). a = Err UDisconnected)"

lemma gone_cmd:
  assumes "gone w" "transport_cmd h out ep len t w = (r, w1)"
  shows "(\<exists>e. r = Err e) \<and> gone w1"
  using assms
  by (cases "wk_script w") (auto simp: gone_def transport_cmd_def)

lemma gone_read_firmware: "gone w \<Longrightarrow> gone (snd (read_firmware w))"
proof (cases "wk_usb w")
  case (Some h)
  assume g: "gone w"
  obtain r w1 where t: "transport_cmd h (encode CFwVersion) EpStatus (expected_len CFwVersion)
      (cmd_timeout CFwVersion) w = (r, w1)" by fastforce
  with gone_cmd [OF g t] Some show ?thesis
    by (auto simp: read_firmware_def simp del: encode.simps)
qed (simp add: read_firmware_def)

lemma gone_send_arm: "gone w \<Longrightarrow> send_arm w = (r, w1) \<Longrightarrow> (\<exists>e. r = Err e) \<and> gone w1"
proof (cases "wk_usb w")
  case (Some h)
  assume g: "gone w" and s: "send_arm w = (r, w1)"
  obtain a w2 where t: "transport_cmd h (encode CEnrolledNum) EpStatus (expected_len CEnrolledNum)
      (cmd_timeout CEnrolledNum) w = (a, w2)" by fastforce
  with gone_cmd [OF g t] Some s show ?thesis by (auto simp: send_arm_def simp del: encode.simps)
qed (auto simp: send_arm_def)

lemma claim_gone:
  assumes "gone w" "wk_usb w = Some h"
  shows "fst (claim user w) \<noteq> Ok () \<and> gone (snd (claim user w))"
proof -
  obtain r w' where c: "claim user w = (r, w')" by fastforce
  from c have "r \<noteq> Ok () \<and> gone w'"
  proof (cases rule: claim_cases)
    case busy
    with assms show ?thesis by simp
  next
    case (unopened e)
    with assms show ?thesis by simp
  next
    case (went w1 w2 w3)
    have "w1 = w" using went(3) assms(2) by auto
    then have g2: "gone w2"
      using went(4) assms(1) gone_read_firmware [OF assms(1)] by (auto simp: gone_def)
    then have no: "\<not> (\<exists>n w. send_arm w2 = (Ok n, w))" using gone_send_arm by fastforce
    with went(6) have "r \<noteq> Ok ()" by blast
    with went(5) obtain e where "send_arm w2 = (Err e, w')" by (cases r) auto
    with gone_send_arm [OF g2] \<open>r \<noteq> Ok ()\<close> show ?thesis by blast
  qed
  with c show ?thesis by simp
qed

lemma claims_gone:
  "gone w \<Longrightarrow> wk_usb w = Some h \<Longrightarrow>
   wk_usb (fold (\<lambda>u w. snd (claim u w)) users w) = Some h \<and>
   fst (claim user (fold (\<lambda>u w. snd (claim u w)) users w)) \<noteq> Ok ()"
proof (induction users arbitrary: w)
  case Nil
  then show ?case using claim_gone by simp
next
  case (Cons u users)
  from Cons.IH [OF claim_gone [OF Cons.prems, THEN conjunct2] claim_keeps_handle [OF Cons.prems(2)]]
  show ?case by simp
qed

subsection \<open>Properties\<close>

text \<open>A claim is exclusive: it returns Ok only when nobody or the same user holds the claim and no
  operation is running, and then the session is armed on a handle and the shared flags name the
  user; in every other case it leaves claim and flags alone.  In particular a second user never
  takes over a claim.\<close>

theorem claim_exclusive:
  "case claim user w of (r, w') \<Rightarrow>
     (if r = Ok ()
      then (wk_claimed w = None \<or> wk_claimed w = Some user) \<and> \<not> os_busy (wk_state w) \<and>
        wk_claimed w' = Some user \<and> os_user (wk_state w') = Some user \<and> os_claimed (wk_state w') \<and>
        wk_armed w' \<and> wk_usb w' \<noteq> None
      else wk_claimed w' = wk_claimed w \<and> wk_state w' = wk_state w)"
  using claim_same_before [of user w "fst (claim user w)" "snd (claim user w)"]
  by (auto simp: split_def same_claim_def)

text \<open>A defect: a claim never lets go of a dead handle.  Once the reader has been unplugged while
  the worker holds a handle, every later claim, by any sequence of users, fails and keeps that
  handle, so the reader stays unusable even when it is plugged in again, until a suspend, a resume
  or a restart drops the handle (a round of verify or enroll would, but it needs a claim first).\<close>

theorem unplugged_claims_fail:
  assumes "gone w" and "wk_usb w = Some h"
  shows "wk_usb (fold (\<lambda>u w. snd (claim u w)) users w) = Some h \<and>
    fst (claim user (fold (\<lambda>u w. snd (claim u w)) users w)) \<noteq> Ok ()"
  using claims_gone [OF assms] .

theorem unplugged_claims_fail_witness:
  "fst (claim ''alice'' (snd (claim ''bob'' (release (sample_worker [Err UDisconnected, Err UDisconnected])))))
     \<noteq> Ok ()"
proof -
  have "gone (release (sample_worker [Err UDisconnected, Err UDisconnected]))"
    "wk_usb (release (sample_worker [Err UDisconnected, Err UDisconnected])) = Some 0"
    by (simp_all add: gone_def release_def abort_session_def transport_cmd_def sample_worker_eq
        set_armed_def Let_def)
  from unplugged_claims_fail [OF this, of "[''bob'']" "''alice''"] show ?thesis by simp
qed

end
