(* ===== verification/Daemon.thy ===== *)
theory Daemon
  imports WorkerState Access
begin

text \<open>
  The D-Bus device of \<open>elanprintd/src/main.rs\<close>: the handlers, the tasks they spawn, the sleep
  listener, and how they interleave around the worker's mutex.  First the handlers as functions on
  the daemon's state, one per stretch of code between two waits; then the step relation, whose
  reachable states carry the invariants: one operation at a time, and only for a user its starter
  may act for.
\<close>

subsection \<open>Errors\<close>

datatype fprint_error =
    FClaimDevice string
  | FAlreadyInUse
  | FInternal string
  | FPermissionDenied string
  | FNoEnrolledPrints
  | FNoActionInProgress
  | FInvalidFingername
  | FPrintsNotDeleted string

text \<open>\<open>From<WorkerError>\<close>; the first argument is the \<open>Display\<close> of the wrapped error.\<close>

fun from_worker_error :: "(worker_error \<Rightarrow> string) \<Rightarrow> worker_error \<Rightarrow> fprint_error" where
  "from_worker_error disp WBusy = FAlreadyInUse"
| "from_worker_error disp WUnclaimed = FClaimDevice ''device is not claimed''"
| "from_worker_error disp (WBadFinger _) = FInvalidFingername"
| "from_worker_error disp (WNoPrints _) = FNoEnrolledPrints"
| "from_worker_error disp (WNotEnrolled _) = FNoEnrolledPrints"
| "from_worker_error disp (WAlreadyEnrolled f) = FInternal (f @ '' is already enrolled'')"
| "from_worker_error disp WCancelled = FNoActionInProgress"
| "from_worker_error disp (WUsb e) = FInternal (disp (WUsb e))"
| "from_worker_error disp (WProto e) = FInternal (disp (WProto e))"
| "from_worker_error disp (WStore e) = FPrintsNotDeleted (disp (WStore e))"
| "from_worker_error disp (WEnroll e) = FInternal (disp (WEnroll e))"

subsection \<open>State\<close>

text \<open>
  A spawned operation waits for the worker's mutex, runs while it holds it, and ends by clearing
  \<open>op_cancel\<close>.  Caller and target are those its start was guarded with; the code keeps no such
  record, the model does so that it can be spoken about.
\<close>

datatype task_pc = TWaiting | TRunning | TEnding

record task =
  tk_kind :: op_kind
  tk_finger :: string
  tk_token :: nat
  tk_pc :: task_pc
  tk_caller :: nat
  tk_target :: string

text \<open>Where a handler waits for the worker's mutex.  Handlers take \<open>&mut self\<close>: one at a time.\<close>

datatype handler =
    HIdle
  | HClaim nat string
  | HRelease
  | HList string
  | HDeleteAll nat string
  | HDeleteEach nat string "string list"
  | HDelete nat delete_intent

record daemon =
  dm_worker :: worker
  dm_locked :: bool
  dm_op_cancel :: "nat option"
  dm_cancelled :: "nat list"
  dm_tasks :: "task list"
  dm_next :: nat
  dm_handler :: handler
  dm_suspending :: bool
  dm_exiting :: bool
  dm_acts :: "(nat \<times> string) list" \<comment> \<open>who had the worker act for whom, in order\<close>

definition daemon_new :: "worker \<Rightarrow> daemon" where
  "daemon_new w =
     \<lparr>dm_worker = w, dm_locked = False, dm_op_cancel = None, dm_cancelled = [], dm_tasks = [],
      dm_next = 0, dm_handler = HIdle, dm_suspending = False, dm_exiting = False,
      dm_acts = []\<rparr>"

text \<open>The surroundings: the JSON codec, the name service, and the bus, which tells the uid behind a
  sender's name or fails.\<close>

record world =
  wd_env :: env
  wd_getent :: "string \<Rightarrow> getent_result"
  wd_bus :: "string + (string \<Rightarrow> string + nat)"

subsection \<open>Handlers\<close>

definition caller_uid :: "world \<Rightarrow> string option \<Rightarrow> fprint_error + nat" where
  "caller_uid wd sender =
     (case sender of
        None \<Rightarrow> Err (FPermissionDenied ''message carries no sender'')
      | Some s \<Rightarrow>
          (case wd_bus wd of
             Err e \<Rightarrow> Err (FPermissionDenied (''cannot reach the bus: '' @ e))
           | Ok uid_of \<Rightarrow>
               (case uid_of s of
                  Err e \<Rightarrow> Err (FPermissionDenied (''cannot read the caller uid: '' @ e))
                | Ok uid \<Rightarrow> Ok uid)))"

text \<open>Gives the uid on success, where the code gives the unit value.\<close>

definition guard :: "world \<Rightarrow> string option \<Rightarrow> string \<Rightarrow> fprint_error + nat" where
  "guard wd sender target =
     (case caller_uid wd sender of
        Err e \<Rightarrow> Err e
      | Ok uid \<Rightarrow>
          (if may_act uid (lookup_uid (wd_getent wd) target) then Ok uid
           else Err (FPermissionDenied
             (''uid '' @ show_nat uid @ '' may not act on '' @ target @ CHR 0x27 # ''s fingerprints''))))"

definition claimed_target :: "daemon \<Rightarrow> fprint_error + string" where
  "claimed_target d =
     (case os_user (wk_state (dm_worker d)) of
        Some u \<Rightarrow> Ok u
      | None \<Rightarrow> Err (FClaimDevice ''device is not claimed''))"

definition set_state :: "op_state \<Rightarrow> daemon \<Rightarrow> daemon" where
  "set_state os d = d\<lparr>dm_worker := (dm_worker d)\<lparr>wk_state := os\<rparr>\<rparr>"

text \<open>Takes the busy flag and stores a fresh token.\<close>

definition start_op :: "daemon \<Rightarrow> (worker_error + nat) \<times> daemon" where
  "start_op d =
     (case try_begin (wk_state (dm_worker d)) of
        (Err e, _) \<Rightarrow> (Err e, d)
      | (Ok _, os) \<Rightarrow>
          (Ok (dm_next d), (set_state os d)\<lparr>dm_op_cancel := Some (dm_next d), dm_next := dm_next d + 1\<rparr>))"

definition stop_running :: "daemon \<Rightarrow> daemon" where
  "stop_running d =
     (case dm_op_cancel d of
        None \<Rightarrow> d
      | Some token \<Rightarrow> d\<lparr>dm_op_cancel := None, dm_cancelled := token # dm_cancelled d\<rparr>)"

text \<open>\<open>claim\<close>: the guard, then the worker under its mutex.\<close>

definition h_claim :: "world \<Rightarrow> string option \<Rightarrow> string \<Rightarrow> daemon \<Rightarrow> (fprint_error + unit) \<times> daemon" where
  "h_claim wd sender username d =
     (case guard wd sender username of
        Err e \<Rightarrow> (Err e, d)
      | Ok uid \<Rightarrow> (Ok (), d\<lparr>dm_handler := HClaim uid username\<rparr>))"

definition h_claim_locked :: "nat \<Rightarrow> string \<Rightarrow> daemon \<Rightarrow> (worker_error + unit) \<times> daemon" where
  "h_claim_locked uid username d =
     (case claim username (dm_worker d) of
        (r, w) \<Rightarrow> (r, d\<lparr>dm_worker := w, dm_handler := HIdle, dm_acts := dm_acts d @ [(uid, username)]\<rparr>))"

definition h_release :: "daemon \<Rightarrow> daemon" where
  "h_release d = (stop_running d)\<lparr>dm_handler := HRelease\<rparr>"

definition h_release_locked :: "daemon \<Rightarrow> daemon" where
  "h_release_locked d = d\<lparr>dm_worker := release (dm_worker d), dm_handler := HIdle\<rparr>"

definition h_list :: "string \<Rightarrow> daemon \<Rightarrow> daemon" where
  "h_list username d = d\<lparr>dm_handler := HList username\<rparr>"

definition h_list_locked :: "world \<Rightarrow> string \<Rightarrow> daemon \<Rightarrow> (worker_error + string list) \<times> daemon" where
  "h_list_locked wd username d =
     (case list_prints (wd_env wd) username (dm_worker d) of
        (r, w) \<Rightarrow> (r, d\<lparr>dm_worker := w, dm_handler := HIdle\<rparr>))"

definition h_delete_all :: "world \<Rightarrow> string option \<Rightarrow> string \<Rightarrow> daemon \<Rightarrow> (fprint_error + unit) \<times> daemon" where
  "h_delete_all wd sender username d =
     (case guard wd sender username of
        Err e \<Rightarrow> (Err e, d)
      | Ok uid \<Rightarrow> (Ok (), d\<lparr>dm_handler := HDeleteAll uid username\<rparr>))"

definition h_delete_all_locked :: "world \<Rightarrow> nat \<Rightarrow> string \<Rightarrow> daemon \<Rightarrow> (worker_error + unit) \<times> daemon" where
  "h_delete_all_locked wd uid username d =
     (case list_prints (wd_env wd) username (dm_worker d) of
        (Err e, w) \<Rightarrow> (Err e, d\<lparr>dm_worker := w, dm_handler := HIdle\<rparr>)
      | (Ok fingers, w) \<Rightarrow> (Ok (), d\<lparr>dm_worker := w, dm_handler := HDeleteEach uid username fingers\<rparr>))"

text \<open>One turn of the loop over the fingers, each under the mutex anew.\<close>

definition h_delete_each :: "world \<Rightarrow> nat \<Rightarrow> string \<Rightarrow> string list \<Rightarrow> daemon \<Rightarrow> (worker_error + unit) \<times> daemon" where
  "h_delete_each wd uid username fingers d =
     (case fingers of
        [] \<Rightarrow> (Ok (), d\<lparr>dm_handler := HIdle\<rparr>)
      | finger # rest \<Rightarrow>
          (case delete_finger (wd_env wd) (from_user_request username finger) (dm_worker d) of
             (r, w) \<Rightarrow> (r, d\<lparr>dm_worker := w, dm_acts := dm_acts d @ [(uid, username)],
               dm_handler := (if is_ok r then HDeleteEach uid username rest else HIdle)\<rparr>)))"

definition h_delete_fingers2 :: "fprint_error + unit" where
  "h_delete_fingers2 = Err (FPermissionDenied ''username is required'')"

definition h_delete :: "world \<Rightarrow> string option \<Rightarrow> string \<Rightarrow> daemon \<Rightarrow> (fprint_error + unit) \<times> daemon" where
  "h_delete wd sender finger_name d =
     (case claimed_target d of
        Err e \<Rightarrow> (Err e, d)
      | Ok user \<Rightarrow>
          (case guard wd sender user of
             Err e \<Rightarrow> (Err e, d)
           | Ok uid \<Rightarrow> (Ok (), d\<lparr>dm_handler := HDelete uid (from_user_request user finger_name)\<rparr>)))"

definition h_delete_locked :: "world \<Rightarrow> nat \<Rightarrow> delete_intent \<Rightarrow> daemon \<Rightarrow> (worker_error + unit) \<times> daemon" where
  "h_delete_locked wd uid intent d =
     (case delete_finger (wd_env wd) intent (dm_worker d) of
        (r, w) \<Rightarrow> (r, d\<lparr>dm_worker := w, dm_handler := HIdle, dm_acts := dm_acts d @ [(uid, di_user intent)]\<rparr>))"

text \<open>\<open>verify_start\<close> and \<open>enroll_start\<close>: the guard on the claimed user, the busy flag, the spawn.\<close>

definition h_start :: "op_kind \<Rightarrow> (worker_error \<Rightarrow> string) \<Rightarrow> world \<Rightarrow> string option \<Rightarrow> string \<Rightarrow> daemon \<Rightarrow>
    (fprint_error + unit) \<times> daemon" where
  "h_start kind disp wd sender finger_name d =
     (case claimed_target d of
        Err e \<Rightarrow> (Err e, d)
      | Ok user \<Rightarrow>
          (case guard wd sender user of
             Err e \<Rightarrow> (Err e, d)
           | Ok uid \<Rightarrow>
               (case start_op d of
                  (Err e, d1) \<Rightarrow> (Err (from_worker_error disp e), d1)
                | (Ok token, d1) \<Rightarrow>
                    (Ok (), d1\<lparr>dm_tasks := dm_tasks d1 @
                       [\<lparr>tk_kind = kind, tk_finger = finger_name, tk_token = token, tk_pc = TWaiting,
                         tk_caller = uid, tk_target = user\<rparr>]\<rparr>))))"

definition h_stop :: "daemon \<Rightarrow> daemon" where
  "h_stop d = stop_running d"

subsection \<open>Properties of the interface\<close>

definition num_enroll_stages :: "world \<Rightarrow> daemon \<Rightarrow> int" where
  "num_enroll_stages wd d =
     (if os_claimed (wk_state (dm_worker d)) then uint (enroll_stages (env_stages (wd_env wd))) else - 1)"

definition finger_present :: "daemon \<Rightarrow> bool" where
  "finger_present d = False"

definition finger_needed :: "daemon \<Rightarrow> bool" where
  "finger_needed d = os_busy (wk_state (dm_worker d))"

subsection \<open>Tasks and the sleep listener\<close>

definition set_task :: "nat \<Rightarrow> task \<Rightarrow> daemon \<Rightarrow> daemon" where
  "set_task n t d = d\<lparr>dm_tasks := (dm_tasks d)[n := t]\<rparr>"

definition task_acquire :: "nat \<Rightarrow> daemon \<Rightarrow> daemon" where
  "task_acquire n d = (set_task n ((dm_tasks d ! n)\<lparr>tk_pc := TRunning\<rparr>) d)\<lparr>dm_locked := True\<rparr>"

text \<open>The operation on the locked worker; the token drops before the mutex is released.\<close>

definition task_finish :: "world \<Rightarrow> cancel \<Rightarrow> nat \<Rightarrow> daemon \<Rightarrow> daemon" where
  "task_finish wd cancel n d =
     (let t = dm_tasks d ! n;
          run = (case tk_kind t of OpVerify \<Rightarrow> verify | OpEnroll \<Rightarrow> worker_enroll);
          w = snd (run (wd_env wd) (tk_finger t) (sink_new (tk_kind t)) cancel (dm_worker d))
      in (set_task n (t\<lparr>tk_pc := TEnding\<rparr>) d)
           \<lparr>dm_worker := w\<lparr>wk_state := drop_token (wk_state w)\<rparr>, dm_locked := False,
            dm_acts := dm_acts d @ (case wk_claimed (dm_worker d) of
              Some u \<Rightarrow> [(tk_caller t, u)] | None \<Rightarrow> [])\<rparr>)"

definition task_end :: "nat \<Rightarrow> daemon \<Rightarrow> daemon" where
  "task_end n d = d\<lparr>dm_op_cancel := None, dm_tasks := take n (dm_tasks d) @ drop (Suc n) (dm_tasks d)\<rparr>"

definition sleep_suspend :: "daemon \<Rightarrow> daemon" where
  "sleep_suspend d = (stop_running d)\<lparr>dm_suspending := True\<rparr>"

definition sleep_suspend_locked :: "daemon \<Rightarrow> daemon" where
  "sleep_suspend_locked d = d\<lparr>dm_worker := suspend (dm_worker d), dm_suspending := False\<rparr>"

definition sleep_resume_locked :: "daemon \<Rightarrow> daemon" where
  "sleep_resume_locked d = d\<lparr>dm_worker := resume (dm_worker d)\<rparr>"

text \<open>The end of \<open>main\<close>, after a signal: cancel, then release under the mutex.\<close>

definition shutdown :: "daemon \<Rightarrow> daemon" where
  "shutdown d = (stop_running d)\<lparr>dm_exiting := True\<rparr>"

definition shutdown_locked :: "daemon \<Rightarrow> daemon" where
  "shutdown_locked d = d\<lparr>dm_worker := release (dm_worker d)\<rparr>"

subsection \<open>Interleavings\<close>

text \<open>
  A handler starts when none is in progress; what needs the mutex waits until it is free; a task
  that runs sees its token cancelled only if somebody has cancelled it.
\<close>

definition sees_token :: "task \<Rightarrow> daemon \<Rightarrow> cancel \<Rightarrow> bool" where
  "sees_token t d cancel \<longleftrightarrow> tk_token t \<in> set (dm_cancelled d) \<or> cancel = (\<lambda>_. Live)"

inductive dstep :: "(worker_error \<Rightarrow> string) \<Rightarrow> world \<Rightarrow> daemon \<Rightarrow> daemon \<Rightarrow> bool" for disp wd where
  claim: "dm_handler d = HIdle \<Longrightarrow> dstep disp wd d (snd (h_claim wd sender user d))"
| claim_locked: "dm_handler d = HClaim uid user \<Longrightarrow> \<not> dm_locked d \<Longrightarrow>
    dstep disp wd d (snd (h_claim_locked uid user d))"
| release: "dm_handler d = HIdle \<Longrightarrow> dstep disp wd d (h_release d)"
| release_locked: "dm_handler d = HRelease \<Longrightarrow> \<not> dm_locked d \<Longrightarrow> dstep disp wd d (h_release_locked d)"
| listing: "dm_handler d = HIdle \<Longrightarrow> dstep disp wd d (h_list user d)"
| list_locked: "dm_handler d = HList user \<Longrightarrow> \<not> dm_locked d \<Longrightarrow>
    dstep disp wd d (snd (h_list_locked wd user d))"
| delete_all: "dm_handler d = HIdle \<Longrightarrow> dstep disp wd d (snd (h_delete_all wd sender user d))"
| delete_all_locked: "dm_handler d = HDeleteAll uid user \<Longrightarrow> \<not> dm_locked d \<Longrightarrow>
    dstep disp wd d (snd (h_delete_all_locked wd uid user d))"
| delete_each: "dm_handler d = HDeleteEach uid user fingers \<Longrightarrow> \<not> dm_locked d \<Longrightarrow>
    dstep disp wd d (snd (h_delete_each wd uid user fingers d))"
| delete: "dm_handler d = HIdle \<Longrightarrow> dstep disp wd d (snd (h_delete wd sender finger d))"
| delete_locked: "dm_handler d = HDelete uid intent \<Longrightarrow> \<not> dm_locked d \<Longrightarrow>
    dstep disp wd d (snd (h_delete_locked wd uid intent d))"
| start: "dm_handler d = HIdle \<Longrightarrow> dstep disp wd d (snd (h_start kind disp wd sender finger d))"
| stop: "dm_handler d = HIdle \<Longrightarrow> dstep disp wd d (h_stop d)"
| acquire: "dm_tasks d = ts @ t # us \<Longrightarrow> tk_pc t = TWaiting \<Longrightarrow> \<not> dm_locked d \<Longrightarrow>
    dstep disp wd d (task_acquire (length ts) d)"
| finish: "dm_tasks d = ts @ t # us \<Longrightarrow> tk_pc t = TRunning \<Longrightarrow> sees_token t d cancel \<Longrightarrow>
    dstep disp wd d (task_finish wd cancel (length ts) d)"
| ending: "dm_tasks d = ts @ t # us \<Longrightarrow> tk_pc t = TEnding \<Longrightarrow> dstep disp wd d (task_end (length ts) d)"
| suspend: "\<not> dm_suspending d \<Longrightarrow> dstep disp wd d (sleep_suspend d)"
| suspend_locked: "dm_suspending d \<Longrightarrow> \<not> dm_locked d \<Longrightarrow> dstep disp wd d (sleep_suspend_locked d)"
| resume: "\<not> dm_suspending d \<Longrightarrow> \<not> dm_locked d \<Longrightarrow> dstep disp wd d (sleep_resume_locked d)"
| shutdown: "dstep disp wd d (shutdown d)"
| shutdown_locked: "dm_exiting d \<Longrightarrow> \<not> dm_locked d \<Longrightarrow> dstep disp wd d (shutdown_locked d)"

inductive reachable :: "(worker_error \<Rightarrow> string) \<Rightarrow> world \<Rightarrow> daemon \<Rightarrow> bool" for disp wd where
  init: "reachable disp wd (daemon_new (worker_new path fs opens script))"
| step: "reachable disp wd d \<Longrightarrow> dstep disp wd d d' \<Longrightarrow> reachable disp wd d'"

subsection \<open>The invariant\<close>

definition active :: "task \<Rightarrow> bool" where
  "active t \<longleftrightarrow> tk_pc t \<noteq> TEnding"

definition auth :: "world \<Rightarrow> nat \<Rightarrow> string \<Rightarrow> bool" where
  "auth wd caller user \<longleftrightarrow> may_act caller (lookup_uid (wd_getent wd) user)"

fun handler_auth :: "world \<Rightarrow> handler \<Rightarrow> bool" where
  "handler_auth wd (HClaim uid user) = auth wd uid user"
| "handler_auth wd (HDeleteAll uid user) = auth wd uid user"
| "handler_auth wd (HDeleteEach uid user _) = auth wd uid user"
| "handler_auth wd (HDelete uid intent) = auth wd uid (di_user intent)"
| "handler_auth wd _ = True"

text \<open>One operation at a time, on an honest session, for the user it was started for.\<close>

definition conc_inv :: "daemon \<Rightarrow> bool" where
  "conc_inv d \<longleftrightarrow>
     worker_inv (dm_worker d) \<and> claim_agrees (dm_worker d) \<and>
     length (filter active (dm_tasks d)) = (if os_busy (wk_state (dm_worker d)) then 1 else 0) \<and>
     (dm_locked d \<longleftrightarrow> (\<exists>t \<in> set (dm_tasks d). tk_pc t = TRunning)) \<and>
     (\<forall>t \<in> set (dm_tasks d). active t \<longrightarrow> wk_claimed (dm_worker d) \<in> {None, Some (tk_target t)})"

definition auth_inv :: "world \<Rightarrow> daemon \<Rightarrow> bool" where
  "auth_inv wd d \<longleftrightarrow>
     handler_auth wd (dm_handler d) \<and>
     (\<forall>t \<in> set (dm_tasks d). auth wd (tk_caller t) (tk_target t)) \<and>
     (\<forall>a \<in> set (dm_acts d). auth wd (fst a) (snd a))"

lemma guard_auth: "guard wd sender user = Ok uid \<Longrightarrow> auth wd uid user"
  by (auto simp: guard_def auth_def split: sum.splits if_splits)

text \<open>A worker operation that keeps the claim keeps the invariant.\<close>

lemma conc_same_claim:
  assumes "conc_inv d" "same_claim (dm_worker d) w" "good_step n (dm_worker d) w"
  shows "conc_inv (d\<lparr>dm_worker := w\<rparr>)"
  using assms claim_agrees_same [of "dm_worker d" w]
  by (auto simp: conc_inv_def same_claim_def good_step_def)

lemma conc_frame:
  "dm_worker d' = dm_worker d \<Longrightarrow> dm_tasks d' = dm_tasks d \<Longrightarrow> dm_locked d' = dm_locked d \<Longrightarrow>
   conc_inv d' = conc_inv d"
  by (simp add: conc_inv_def)

lemma stop_running_frame [simp]:
  "dm_worker (stop_running d) = dm_worker d" "dm_tasks (stop_running d) = dm_tasks d"
  "dm_locked (stop_running d) = dm_locked d" "dm_handler (stop_running d) = dm_handler d"
  "dm_acts (stop_running d) = dm_acts d"
  by (simp_all add: stop_running_def split: option.split)

lemma conc_claim:
  assumes "conc_inv d" "\<not> dm_locked d"
  shows "conc_inv (d\<lparr>dm_worker := snd (claim user (dm_worker d))\<rparr>)"
proof -
  let ?w = "dm_worker d"
  have inv: "worker_inv ?w" using assms(1) by (simp add: conc_inv_def)
  consider (same) "same_claim ?w (snd (claim user ?w))"
    | (taken) "\<not> os_busy (wk_state ?w)" "wk_claimed (snd (claim user ?w)) = Some user"
        "os_busy (wk_state (snd (claim user ?w))) = os_busy (wk_state ?w)"
        "os_user (wk_state (snd (claim user ?w))) = Some user" "os_claimed (wk_state (snd (claim user ?w)))"
    using claim_same_before [of user ?w "fst (claim user ?w)" "snd (claim user ?w)"] by auto
  then show ?thesis
  proof cases
    case same
    then show ?thesis using conc_same_claim assms(1) claim_good [OF inv] by blast
  next
    case taken
    then have "filter active (dm_tasks d) = []" using assms(1) by (simp add: conc_inv_def)
    then have "\<forall>t \<in> set (dm_tasks d). \<not> active t" by (simp add: filter_empty_conv)
    moreover have "worker_inv (snd (claim user ?w))" using claim_good [OF inv, of user] inv
      by (simp add: good_step_def)
    ultimately show ?thesis using assms(1) taken by (auto simp: conc_inv_def claim_agrees_def)
  qed
qed

lemma conc_release:
  assumes "conc_inv d"
  shows "conc_inv (d\<lparr>dm_worker := release (dm_worker d)\<rparr>)"
  using assms release_good [of "dm_worker d"] release_claim [of "dm_worker d"]
  by (auto simp: conc_inv_def good_step_def)

lemma conc_start:
  assumes "conc_inv d" "claimed_target d = Ok user" "start_op d = (Ok token, d1)"
    and "tk_target t = user" "tk_pc t = TWaiting"
  shows "conc_inv (d1\<lparr>dm_tasks := dm_tasks d1 @ [t]\<rparr>)"
proof -
  have st: "os_claimed (wk_state (dm_worker d))" "\<not> os_busy (wk_state (dm_worker d))"
    "dm_worker d1 = (dm_worker d)\<lparr>wk_state := (wk_state (dm_worker d))\<lparr>os_busy := True\<rparr>\<rparr>"
    "dm_tasks d1 = dm_tasks d" "dm_locked d1 = dm_locked d"
    using assms(3) by (auto simp: start_op_def try_begin_def set_state_def split: if_splits)
  have user: "wk_claimed (dm_worker d) = Some user"
    using assms(1,2) by (auto simp: claimed_target_def conc_inv_def claim_agrees_def split: option.splits)
  have none: "filter active (dm_tasks d) = []" using assms(1) st(2) by (simp add: conc_inv_def)
  then have idle: "\<forall>t \<in> set (dm_tasks d). \<not> active t" by (simp add: filter_empty_conv)
  show ?thesis
    using assms(1,4,5) st user none idle
    by (auto simp: conc_inv_def worker_inv_def claim_agrees_def active_def)
qed

lemma start_op_frame:
  assumes "start_op d = (r, d1)"
  shows "dm_handler d1 = dm_handler d" "dm_tasks d1 = dm_tasks d" "dm_acts d1 = dm_acts d"
  using assms by (auto simp: start_op_def set_state_def split: prod.splits sum.splits)

text \<open>A start either changes nothing or passes every guard and spawns a task.\<close>

lemma h_start_elim:
  obtains (refused) "snd (h_start kind disp wd sender finger d) = d"
  | (started) user uid token d1 t where "claimed_target d = Ok user" "guard wd sender user = Ok uid"
      "start_op d = (Ok token, d1)" "tk_target t = user" "tk_caller t = uid" "tk_pc t = TWaiting"
      "snd (h_start kind disp wd sender finger d) = d1\<lparr>dm_tasks := dm_tasks d1 @ [t]\<rparr>"
proof (cases "claimed_target d")
  case (Inl e)
  then show ?thesis using refused by (simp add: h_start_def)
next
  case user: (Inr user)
  show ?thesis
  proof (cases "guard wd sender user")
    case (Inl e)
    with user show ?thesis using refused by (simp add: h_start_def)
  next
    case uid: (Inr uid)
    obtain r d1 where s: "start_op d = (r, d1)" by fastforce
    show ?thesis
    proof (cases r)
      case (Inl e)
      with s have "d1 = d" by (auto simp: start_op_def split: prod.splits sum.splits)
      with user uid s Inl show ?thesis using refused by (simp add: h_start_def)
    next
      case (Inr token)
      with user uid s show ?thesis
        by (intro started [of user uid token d1 "\<lparr>tk_kind = kind, tk_finger = finger, tk_token = token,
          tk_pc = TWaiting, tk_caller = uid, tk_target = user\<rparr>"]) (simp_all add: h_start_def)
    qed
  qed
qed

lemma drop_token_frame: "good_step n w (w\<lparr>wk_state := os\<rparr>)"
  by (rule good_frame) simp_all

lemma conc_finish:
  assumes "conc_inv d" "dm_tasks d = ts @ t # us" "tk_pc t = TRunning"
  shows "conc_inv (task_finish wd cancel (length ts) d)"
proof -
  let ?run = "case tk_kind t of OpVerify \<Rightarrow> verify | OpEnroll \<Rightarrow> worker_enroll"
  let ?w = "snd (?run (wd_env wd) (tk_finger t) (sink_new (tk_kind t)) cancel (dm_worker d))"
  have good: "good_step 0 (dm_worker d) ?w" and same: "same_claim (dm_worker d) ?w"
    by (auto split: op_kind.split intro: verify_good worker_enroll_good same_verify same_enroll)
  have busy: "length (filter active (dm_tasks d)) = 1" "\<forall>x \<in> set ts \<union> set us. \<not> active x"
  proof -
    have "active t" using assms(3) by (simp add: active_def)
    then have "length (filter active (dm_tasks d)) = Suc (length (filter active ts) + length (filter active us))"
      using assms(2) by simp
    moreover have "length (filter active (dm_tasks d)) \<le> 1" using assms(1) by (simp add: conc_inv_def)
    ultimately show "length (filter active (dm_tasks d)) = 1" "\<forall>x \<in> set ts \<union> set us. \<not> active x"
      by (auto simp: filter_empty_conv)
  qed
  have running: "\<forall>x \<in> set ts \<union> set us. tk_pc x \<noteq> TRunning" using busy(2) by (auto simp: active_def)
  have quiet: "filter active ts = []" "filter active us = []"
    using busy(2) by (auto simp: filter_empty_conv)
  have w: "worker_inv (?w\<lparr>wk_state := drop_token (wk_state ?w)\<rparr>)"
    using assms(1) good drop_token_frame [of 0 ?w] by (simp add: conc_inv_def good_step_def)
  have agrees: "claim_agrees (?w\<lparr>wk_state := drop_token (wk_state ?w)\<rparr>)"
    using assms(1) claim_agrees_same [OF same] by (simp add: conc_inv_def claim_agrees_def drop_token_def)
  show ?thesis
    using assms(1,2) w agrees busy(2) running quiet
    by (simp add: task_finish_def Let_def set_task_def conc_inv_def drop_token_def active_def)
qed

lemma conc_acquire:
  assumes "conc_inv d" "dm_tasks d = ts @ t # us" "tk_pc t = TWaiting"
  shows "conc_inv (task_acquire (length ts) d)"
  using assms by (auto simp: task_acquire_def set_task_def conc_inv_def active_def)

lemma conc_end:
  assumes "conc_inv d" "dm_tasks d = ts @ t # us" "tk_pc t = TEnding"
  shows "conc_inv (task_end (length ts) d)"
  using assms by (auto simp: task_end_def conc_inv_def active_def)


lemma conc_set_worker:
  assumes "conc_inv (d\<lparr>dm_worker := w\<rparr>)" "dm_worker d' = w" "dm_tasks d' = dm_tasks d" "dm_locked d' = dm_locked d"
  shows "conc_inv d'"
  using assms by (simp add: conc_inv_def)

lemma conc_step: "dstep disp wd d d' \<Longrightarrow> conc_inv d \<Longrightarrow> conc_inv d'"
proof (induction rule: dstep.induct)
  case (claim d sender user)
  then show ?case by (auto simp: h_claim_def conc_inv_def split: sum.split)
next
  case (claim_locked d uid user)
  from conc_claim [OF claim_locked(3,2), of user] show ?case
    by (rule conc_set_worker) (simp_all add: h_claim_locked_def split: prod.split)
next
  case (release d)
  then show ?case by (simp add: h_release_def conc_inv_def)
next
  case (release_locked d)
  from conc_release [OF release_locked(3)] show ?case
    by (rule conc_set_worker) (simp_all add: h_release_locked_def)
next
  case (listing d user)
  then show ?case by (simp add: h_list_def conc_inv_def)
next
  case (list_locked d user)
  from conc_same_claim [OF list_locked(3) same_list list_prints_good, of "wd_env wd" user] show ?case
    by (rule conc_set_worker) (simp_all add: h_list_locked_def split: prod.split)
next
  case (delete_all d sender user)
  then show ?case by (auto simp: h_delete_all_def conc_inv_def split: sum.split)
next
  case (delete_all_locked d uid user)
  from conc_same_claim [OF delete_all_locked(3) same_list list_prints_good, of "wd_env wd" user] show ?case
    by (rule conc_set_worker) (simp_all add: h_delete_all_locked_def split: prod.split sum.split)
next
  case (delete_each d uid user fingers)
  show ?case
  proof (cases fingers)
    case Nil
    with delete_each show ?thesis by (simp add: h_delete_each_def conc_inv_def)
  next
    case (Cons finger rest)
    from conc_same_claim [OF delete_each(3) same_delete delete_finger_good, of "wd_env wd" "from_user_request user finger"] show ?thesis
      by (rule conc_set_worker) (simp_all add: h_delete_each_def Cons split: prod.split)
  qed
next
  case (delete d sender finger)
  then show ?case by (auto simp: h_delete_def conc_inv_def split: sum.split)
next
  case (delete_locked d uid intent)
  from conc_same_claim [OF delete_locked(3) same_delete delete_finger_good, of "wd_env wd" intent] show ?case
    by (rule conc_set_worker) (simp_all add: h_delete_locked_def split: prod.split)
next
  case (start d kind sender finger)
  show ?case
  proof (cases rule: h_start_elim [of kind disp wd sender finger d])
    case refused
    with start show ?thesis by simp
  next
    case (started user uid token d1 t)
    then show ?thesis using conc_start [OF start(2)] by simp
  qed
next
  case (stop d)
  then show ?case by (simp add: h_stop_def conc_inv_def)
next
  case (acquire d ts t us)
  then show ?case by (intro conc_acquire)
next
  case (finish d ts t us cancel)
  then show ?case by (intro conc_finish)
next
  case (ending d ts t us)
  then show ?case by (intro conc_end)
next
  case (suspend d)
  then show ?case by (simp add: sleep_suspend_def conc_inv_def)
next
  case (suspend_locked d)
  from conc_same_claim [OF suspend_locked(3) same_suspend suspend_good] show ?case
    by (rule conc_set_worker) (simp_all add: sleep_suspend_locked_def)
next
  case (resume d)
  from conc_same_claim [OF resume(3) same_resume resume_good] show ?case
    by (rule conc_set_worker) (simp_all add: sleep_resume_locked_def)
next
  case (shutdown d)
  then show ?case by (simp add: shutdown_def conc_inv_def)
next
  case (shutdown_locked d)
  from conc_release [OF shutdown_locked(3)] show ?case
    by (rule conc_set_worker) (simp_all add: shutdown_locked_def)
qed

lemma conc_new: "conc_inv (daemon_new (worker_new path fs opens script))"
  using worker_inv_new [of path fs opens script] claim_agrees_new [of path fs opens script]
  by (simp add: conc_inv_def daemon_new_def worker_new_def op_state_default_def)

lemma reachable_conc: "reachable disp wd d \<Longrightarrow> conc_inv d"
  by (induction rule: reachable.induct) (auto intro: conc_new conc_step)

lemma auth_step:
  assumes "dstep disp wd d d'" "conc_inv d" "auth_inv wd d"
  shows "auth_inv wd d'"
  using assms
proof (induction rule: dstep.induct)
  case (claim d sender user)
  then show ?case using guard_auth by (auto simp: h_claim_def auth_inv_def split: sum.split)
next
  case (claim_locked d uid user)
  then show ?case by (auto simp: h_claim_locked_def auth_inv_def split: prod.split)
next
  case (delete_all d sender user)
  then show ?case using guard_auth by (auto simp: h_delete_all_def auth_inv_def split: sum.split)
next
  case (delete_all_locked d uid user)
  then show ?case by (auto simp: h_delete_all_locked_def auth_inv_def split: prod.split sum.split)
next
  case (delete_each d uid user fingers)
  then show ?case by (auto simp: h_delete_each_def auth_inv_def split: list.split prod.split)
next
  case (delete d sender finger)
  then show ?case using guard_auth
    by (auto simp: h_delete_def auth_inv_def from_user_request_def split: sum.split)
next
  case (delete_locked d uid intent)
  then show ?case by (auto simp: h_delete_locked_def auth_inv_def split: prod.split)
next
  case (start d kind sender finger)
  show ?case
  proof (cases rule: h_start_elim [of kind disp wd sender finger d])
    case refused
    with start show ?thesis by simp
  next
    case (started user uid token d1 t)
    then show ?thesis using start(3) start_op_frame [OF started(3)] guard_auth [OF started(2)]
      by (auto simp: auth_inv_def)
  qed
next
  case (finish d ts t us cancel)
  have "active t" using finish(2) by (simp add: active_def)
  then have "wk_claimed (dm_worker d) \<in> {None, Some (tk_target t)}" "auth wd (tk_caller t) (tk_target t)"
    using finish(1,4,5) by (auto simp: conc_inv_def auth_inv_def)
  then show ?case using finish(1,5)
    by (auto simp: task_finish_def Let_def set_task_def auth_inv_def split: option.split)
qed (auto simp: auth_inv_def h_release_def h_release_locked_def h_list_def h_list_locked_def h_stop_def
    task_acquire_def set_task_def task_end_def sleep_suspend_def sleep_suspend_locked_def
    sleep_resume_locked_def shutdown_def shutdown_locked_def split: prod.splits)

lemma reachable_auth: "reachable disp wd d \<Longrightarrow> auth_inv wd d"
proof (induction rule: reachable.induct)
  case (init path fs opens script)
  then show ?case by (simp add: auth_inv_def daemon_new_def)
next
  case (step d d')
  then show ?case using auth_step reachable_conc by blast
qed

lemma finish_keeps_handler: "dm_handler (task_finish wd cancel n d) = dm_handler d"
  by (simp add: task_finish_def Let_def set_task_def)

subsection \<open>A daemon at work\<close>

text \<open>Alice, with uid 1000, claims the device of a fresh daemon and starts a verification.\<close>

definition sample_world :: world where
  "sample_world = \<lparr>wd_env = sample_env, wd_getent = sample_getent, wd_bus = Ok (\<lambda>_. Ok 1000)\<rparr>"

definition sample_serving :: "(usb_error + byte list) list \<Rightarrow> daemon" where
  "sample_serving script = daemon_new (worker_new DEFAULT_PATH sample_fs [Ok ()] ([Ok [1, 2], Ok [0x40, 1]] @ script))"

definition sample_served :: "(usb_error + byte list) list \<Rightarrow> daemon" where
  "sample_served script = (sample_serving script)\<lparr>dm_worker := sample_worker script, dm_acts := [(1000, ''alice'')]\<rparr>"

definition sample_fresh :: daemon where
  "sample_fresh = sample_serving []"

definition sample_claimed :: daemon where
  "sample_claimed = sample_served []"

definition sample_task :: "nat \<Rightarrow> task" where
  "sample_task n = \<lparr>tk_kind = OpVerify, tk_finger = ''left-thumb'', tk_token = n, tk_pc = TWaiting,
     tk_caller = 1000, tk_target = ''alice''\<rparr>"

lemma sample_guard: "guard sample_world (Some '':1.7'') ''alice'' = Ok 1000"
  by (simp add: guard_def caller_uid_def sample_world_def sample_lookup may_act_def)

lemma sample_served_reachable: "reachable disp sample_world (sample_served script)"
proof -
  let ?d = "sample_serving script"
  have fresh: "reachable disp sample_world ?d"
    unfolding sample_serving_def by (rule reachable.init)
  have idle: "dm_handler ?d = HIdle" "\<not> dm_locked ?d" by (simp_all add: sample_serving_def daemon_new_def)
  have "snd (h_claim sample_world (Some '':1.7'') ''alice'' ?d) = ?d\<lparr>dm_handler := HClaim 1000 ''alice''\<rparr>"
    by (simp add: h_claim_def sample_guard)
  with reachable.step [OF fresh dstep.claim [OF idle(1), where sender = "Some '':1.7''" and user = "''alice''"]]
  have asked: "reachable disp sample_world (?d\<lparr>dm_handler := HClaim 1000 ''alice''\<rparr>)" by simp
  have "snd (h_claim_locked 1000 ''alice'' (?d\<lparr>dm_handler := HClaim 1000 ''alice''\<rparr>)) = sample_served script"
    by (simp add: h_claim_locked_def sample_served_def sample_worker_def sample_serving_def
        daemon_new_def split: prod.split)
  with reachable.step [OF asked dstep.claim_locked [where uid = 1000 and user = "''alice''"]] idle(2)
  show ?thesis by simp
qed

lemmas sample_claimed_reachable = sample_served_reachable [where script = "[]", folded sample_claimed_def]

text \<open>Whoever holds the claim may start as soon as the busy flag is clear.\<close>

definition sample_started :: "daemon \<Rightarrow> daemon" where
  "sample_started d =
     d\<lparr>dm_worker := (dm_worker d)\<lparr>wk_state := \<lparr>os_claimed = True, os_busy = True, os_user = Some ''alice''\<rparr>\<rparr>,
       dm_op_cancel := Some (dm_next d), dm_next := dm_next d + 1,
       dm_tasks := dm_tasks d @ [sample_task (dm_next d)]\<rparr>"

lemma sample_start:
  assumes "reachable disp sample_world d" "dm_handler d = HIdle"
    and "wk_state (dm_worker d) = \<lparr>os_claimed = True, os_busy = False, os_user = Some ''alice''\<rparr>"
  shows "reachable disp sample_world (sample_started d)"
proof -
  have "snd (h_start OpVerify disp sample_world (Some '':1.7'') ''left-thumb'' d) = sample_started d"
    using assms(3) sample_guard
    by (simp add: h_start_def claimed_target_def start_op_def try_begin_def set_state_def sample_task_def
        sample_started_def)
  with reachable.step [OF assms(1) dstep.start [OF assms(2), where kind = OpVerify and
      sender = "Some '':1.7''" and finger = "''left-thumb''"]]
  show ?thesis by simp
qed

lemma sample_claimed_fields:
  "dm_handler sample_claimed = HIdle" "dm_tasks sample_claimed = []" "dm_next sample_claimed = 0"
  "wk_state (dm_worker sample_claimed) = \<lparr>os_claimed = True, os_busy = False, os_user = Some ''alice''\<rparr>"
  "\<not> dm_locked sample_claimed" "dm_acts sample_claimed = [(1000, ''alice'')]" "dm_cancelled sample_claimed = []"
  by (simp_all add: sample_claimed_def sample_served_def sample_serving_def daemon_new_def sample_worker_eq)

text \<open>Her verification runs to its end; before its task has cleared \<open>op_cancel\<close> she starts another.\<close>

definition sample_ending :: daemon where
  "sample_ending = task_finish sample_world (\<lambda>_. Live) 0 (task_acquire 0 (sample_started sample_claimed))"

lemma sample_ending_reachable: "reachable disp sample_world sample_ending"
proof -
  have "reachable disp sample_world (sample_started sample_claimed)"
    by (rule sample_start [OF sample_claimed_reachable sample_claimed_fields(1,4)])
  from reachable.step [OF this dstep.acquire [where ts = "[]" and t = "sample_task 0" and us = "[]"]]
  have run: "reachable disp sample_world (task_acquire 0 (sample_started sample_claimed))"
    by (simp add: sample_started_def sample_claimed_fields sample_task_def)
  from reachable.step [OF run dstep.finish [where ts = "[]" and us = "[]" and
      t = "(sample_task 0)\<lparr>tk_pc := TRunning\<rparr>" and cancel = "\<lambda>_. Live"]]
  show ?thesis
    by (simp add: sample_ending_def task_acquire_def set_task_def sample_started_def
        sample_claimed_fields sees_token_def)
qed

lemma sample_ending_fields:
  "dm_handler sample_ending = HIdle" "dm_tasks sample_ending = [(sample_task 0)\<lparr>tk_pc := TEnding\<rparr>]"
  "dm_next sample_ending = 1" "\<not> dm_locked sample_ending" "dm_cancelled sample_ending = []"
  "wk_state (dm_worker sample_ending) = \<lparr>os_claimed = True, os_busy = False, os_user = Some ''alice''\<rparr>"
proof -
  have "same_claim w (snd (verify e f sk c w))" for e f sk c w by (rule same_verify)
  then show "wk_state (dm_worker sample_ending) =
      \<lparr>os_claimed = True, os_busy = False, os_user = Some ''alice''\<rparr>"
    by (simp add: sample_ending_def task_finish_def Let_def drop_token_def same_claim_def sample_task_def
        task_acquire_def set_task_def sample_started_def sample_claimed_fields)
qed (simp_all add: sample_ending_def task_finish_def Let_def task_acquire_def set_task_def
    sample_started_def sample_claimed_fields)

subsection \<open>Properties\<close>

text \<open>C6: One operation at a time, on an honest session: in every state the daemon can reach by any
  interleaving of handlers, tasks and sleep signals, at most one spawned operation is waiting or
  running, exactly when the busy flag is set; the worker's mutex is held exactly while one runs;
  the shared flags name the claimed user; and everything sent so far obeyed the arming rule.\<close>

theorem one_operation_at_a_time:
  assumes "reachable disp wd d"
  shows "length (filter active (dm_tasks d)) = (if os_busy (wk_state (dm_worker d)) then 1 else 0) \<and>
    (dm_locked d \<longleftrightarrow> (\<exists>t \<in> set (dm_tasks d). tk_pc t = TRunning)) \<and>
    os_user (wk_state (dm_worker d)) = wk_claimed (dm_worker d) \<and>
    arming_ok (wk_wire (dm_worker d))"
  using reachable_conc [OF assms] by (simp add: conc_inv_def claim_agrees_def worker_inv_def)

theorem one_operation_at_a_time_witness:
  "\<not> dm_locked (sample_started sample_claimed) \<and> arming_ok (wk_wire (dm_worker (sample_started sample_claimed)))"
  using one_operation_at_a_time [OF sample_start [OF sample_claimed_reachable sample_claimed_fields(1,4)]]
  by (simp add: sample_started_def sample_claimed_fields)

text \<open>Nobody acts on another user's prints: the acts of the worker that are guarded are the claim, the
  deletion, the verification and the enrolment (a release or a listing asks nobody), and in every
  reachable state each of them was started by root or by the very user it acted for.\<close>

theorem acts_are_authorised:
  assumes "reachable disp wd d" and "(caller, user) \<in> set (dm_acts d)"
  shows "caller = 0 \<or> lookup_uid (wd_getent wd) user = Some caller"
proof -
  have "may_act caller (lookup_uid (wd_getent wd) user)"
    using reachable_auth [OF assms(1)] assms(2) by (auto simp: auth_inv_def auth_def)
  then show ?thesis by (simp add: may_act_def split: if_splits)
qed

theorem acts_are_authorised_witness:
  "(1000::nat) = 0 \<or> lookup_uid (wd_getent sample_world) ''alice'' = Some 1000"
  by (rule acts_are_authorised [OF sample_claimed_reachable]) (simp add: sample_claimed_fields)

text \<open>A claim during an operation is not answered: while the worker's mutex is held and a claim
  waits for it, no step gives the claimant an answer, and only the end of the running operation
  frees the mutex.  The busy check inside the worker's claim is therefore not what a second client
  sees while a finger is awaited, although the comments promise an AlreadyInUse there.\<close>

theorem claim_waits_for_operation:
  assumes "dstep disp wd d d'" and "dm_locked d" and "dm_handler d = HClaim uid user"
  shows "dm_handler d' = HClaim uid user \<and>
    (dm_locked d' \<or> (\<exists>cancel n. d' = task_finish wd cancel n d))"
  using assms(1)
proof (cases rule: dstep.cases)
  case (finish ts t us cancel)
  then have "d' = task_finish wd cancel (length ts) d" by simp
  then show ?thesis using assms(3) by (auto simp: finish_keeps_handler)
qed (use assms(2,3) in \<open>simp_all add: task_end_def sleep_suspend_def shutdown_def\<close>)

theorem claim_waits_for_operation_witness:
  "dm_handler (sleep_suspend (sample_fresh\<lparr>dm_locked := True, dm_handler := HClaim 0 ''bob''\<rparr>)) = HClaim 0 ''bob''"
proof -
  have "dstep (\<lambda>_. ''e'') sample_world (sample_fresh\<lparr>dm_locked := True, dm_handler := HClaim 0 ''bob''\<rparr>)
      (sleep_suspend (sample_fresh\<lparr>dm_locked := True, dm_handler := HClaim 0 ''bob''\<rparr>))"
    by (rule dstep.suspend) (simp add: sample_fresh_def sample_serving_def daemon_new_def)
  from claim_waits_for_operation [OF this, of 0 "''bob''"] show ?thesis by simp
qed

text \<open>A defect: an operation can run without its cancellation token stored.  A task that has
  ended clears \<open>op_cancel\<close> only after it has let go of the busy flag and the mutex, so it can clear
  the token of the operation started meanwhile: the daemon reaches a state where an operation runs
  that nobody has cancelled, and a stop request changes nothing.\<close>

theorem stop_can_miss_running_operation:
  "\<exists>d t. reachable disp sample_world d \<and> dm_handler d = HIdle \<and> dm_tasks d = [t] \<and>
     tk_pc t = TRunning \<and> tk_token t \<notin> set (dm_cancelled d) \<and> h_stop d = d"
proof -
  let ?d = "task_end 0 (task_acquire 1 (sample_started sample_ending))"
  let ?ended = "(sample_task 0)\<lparr>tk_pc := TEnding\<rparr>" and ?running = "(sample_task 1)\<lparr>tk_pc := TRunning\<rparr>"
  have "reachable disp sample_world (sample_started sample_ending)"
    by (rule sample_start [OF sample_ending_reachable sample_ending_fields(1,6)])
  from reachable.step [OF this dstep.acquire [where ts = "[?ended]" and t = "sample_task 1" and us = "[]"]]
  have run: "reachable disp sample_world (task_acquire 1 (sample_started sample_ending))"
    by (simp add: sample_started_def sample_ending_fields sample_task_def)
  have tasks: "dm_tasks (task_acquire 1 (sample_started sample_ending)) = [?ended, ?running]"
    by (simp add: task_acquire_def set_task_def sample_started_def sample_ending_fields)
  from reachable.step [OF run dstep.ending [where ts = "[]" and t = ?ended and us = "[?running]"]] tasks
  have "reachable disp sample_world ?d" by simp
  moreover have "dm_tasks ?d = [?running]" using tasks by (simp add: task_end_def)
  moreover have "h_stop ?d = ?d" by (simp add: h_stop_def stop_running_def task_end_def)
  moreover have "dm_handler ?d = HIdle" "dm_cancelled ?d = []"
    by (simp_all add: task_end_def task_acquire_def set_task_def sample_started_def sample_ending_fields)
  ultimately show ?thesis by (intro exI [of _ ?d] exI [of _ ?running]) simp
qed

text \<open>A defect: any client can make a running operation impossible to cancel.  The handlers take turns
  (\<open>&mut self\<close>), and one that waits for the worker's mutex, like the listing, that asks nobody for
  rights, keeps its turn until the operation ends: meanwhile no stop and no release is served, and
  only the sleep listener and the shutdown can still cancel.\<close>

theorem waiting_call_blocks_stop:
  assumes "dstep disp wd d d'" and "dm_locked d" and "dm_handler d \<noteq> HIdle"
  shows "dm_handler d' = dm_handler d \<and>
    (dm_cancelled d' = dm_cancelled d \<or> d' = sleep_suspend d \<or> d' = shutdown d)"
  using assms(1)
proof (cases rule: dstep.cases)
  case (finish ts t us cancel)
  then show ?thesis by (simp add: finish_keeps_handler) (simp add: task_finish_def set_task_def Let_def)
qed (use assms(2,3) in \<open>simp_all add: task_end_def sleep_suspend_def shutdown_def\<close>)

text \<open>While alice's operation runs, a call of \<open>ListEnrolledFingers\<close> waits.\<close>

theorem listing_blocks_stop:
  "\<exists>d t. reachable disp sample_world d \<and> dm_tasks d = [t] \<and> tk_pc t = TRunning \<and>
     tk_token t \<notin> set (dm_cancelled d) \<and> dm_locked d \<and> dm_handler d = HList ''mallory''"
proof -
  let ?run = "task_acquire 0 (sample_started sample_claimed)" and ?t = "(sample_task 0)\<lparr>tk_pc := TRunning\<rparr>"
  have "reachable disp sample_world (sample_started sample_claimed)"
    by (rule sample_start [OF sample_claimed_reachable sample_claimed_fields(1,4)])
  from reachable.step [OF this dstep.acquire [where ts = "[]" and t = "sample_task 0" and us = "[]"]]
  have run: "reachable disp sample_world ?run"
    by (simp add: sample_started_def sample_claimed_fields sample_task_def)
  have fields: "dm_handler ?run = HIdle" "dm_tasks ?run = [?t]" "dm_locked ?run" "dm_cancelled ?run = []"
    by (simp_all add: task_acquire_def set_task_def sample_started_def sample_claimed_fields)
  from reachable.step [OF run dstep.listing [OF fields(1)]]
  have "reachable disp sample_world (h_list ''mallory'' ?run)" .
  with fields show ?thesis
    by (intro exI [of _ "h_list ''mallory'' ?run"] exI [of _ ?t]) (simp add: h_list_def)
qed

end
