(* ===== verification/DaemonChip.thy ===== *)
theory DaemonChip
  imports Daemon WorkerCalls
begin

text \<open>
  What the daemon's steps may send to the chip: every interleaving of handlers, tasks and signals
  erases a print only in the step that serves a delete request, by a caller who may act for the user,
  and there it erases the one slot the store maps the named finger to.  The store file changes only in
  such a step and in the one that ends an enrolment, for the user the act was authorised for.
\<close>

subsection \<open>The erases of a step\<close>

lemma good_erases: "good_step 0 w w' \<Longrightarrow> erases (wk_wire w') = erases (wk_wire w)"
  by (auto simp: good_step_def)

definition maps_to :: "env \<Rightarrow> worker \<Rightarrow> string \<Rightarrow> string \<Rightarrow> byte \<Rightarrow> bool" where
  "maps_to env w user finger slot \<longleftrightarrow>
     (\<exists>st w1. open_store env w = (Ok st, w1) \<and> slot_of (st_prints st) (user, finger) = Some slot)"

lemma delete_rest_erases:
  "erases (wk_wire (snd (delete_rest env user finger slot a w))) = erases (wk_wire w)"
proof -
  have "wk_wire (snd (delete_rest env user finger slot a w)) = wk_wire w"
    using open_store_frame(1) [of env w] save_store_frame(1)
    by (auto simp: delete_rest_def try_op_def split: prod.split sum.split)
  then show ?thesis by simp
qed

lemma delete_erases:
  obtains (none) "erases (wk_wire (snd (delete_finger env intent w))) = erases (wk_wire w)"
    | (one) slot where "is_valid_finger (di_finger intent)" "maps_to env w (di_user intent) (di_finger intent) slot"
        "erases (wk_wire (snd (delete_finger env intent w))) = erases (wk_wire w) @ [encode (CDelete slot)]"
proof -
  obtain r w' where d: "delete_finger env intent w = (r, w')" by fastforce
  then show thesis
  proof (cases rule: delete_finger_cases)
    case (refused e)
    then show thesis using d none by (auto simp: frame_simps)
  next
    case (sent st w1 h slot a)
    have "wk_wire w1 = wk_wire w" using open_store_frame(1) [of env w] sent(2) by simp
    moreover have "w' = snd (delete_rest env (di_user intent) (di_finger intent) slot a
        (after_cmd h (encode (CDelete slot)) EpStatus 2 a w1))" using sent(5) by (metis snd_conv)
    moreover have "is_erase (encode (CDelete slot))" by (simp add: is_erase_encode del: encode.simps)
    moreover have "erases (wk_wire (after_cmd h (encode (CDelete slot)) EpStatus 2 a w1)) =
        erases (wk_wire w1) @ erases [Cmd h (encode (CDelete slot)) EpStatus 2 a]" by simp
    moreover have "erases [Cmd h (encode (CDelete slot)) EpStatus 2 a] = [encode (CDelete slot)]"
      using calculation(3) by (simp add: erases_def del: encode.simps)
    ultimately have "erases (wk_wire (snd (delete_finger env intent w))) = erases (wk_wire w) @ [encode (CDelete slot)]"
      using d by (simp add: delete_rest_erases del: encode.simps)
    with sent(1,2,3) show thesis by (intro one [of slot]) (auto simp: maps_to_def)
  qed
qed

text \<open>The delete request a handler holds the mutex for.\<close>

definition asked :: "daemon \<Rightarrow> nat \<Rightarrow> string \<Rightarrow> string \<Rightarrow> bool" where
  "asked d caller user finger \<longleftrightarrow>
     dm_handler d = HDelete caller (from_user_request user finger) \<or>
     (\<exists>rest. dm_handler d = HDeleteEach caller user (finger # rest))"

lemma worker_set_state: "wk_wire (dm_worker (set_state os d)) = wk_wire (dm_worker d)"
  by (simp add: set_state_def)

lemma start_wire: "wk_wire (dm_worker (snd (h_start kind disp wd sender finger d))) = wk_wire (dm_worker d)"
proof (cases rule: h_start_elim [of kind disp wd sender finger d])
  case (started user uid token d1 t)
  then show ?thesis
    by (auto simp: start_op_def set_state_def split: prod.splits sum.splits)
qed simp

lemma intent_eq: "intent = from_user_request (di_user intent) (di_finger intent)"
  by (simp add: from_user_request_def)

lemma step_erases:
  assumes "dstep disp wd d d'" "worker_inv (dm_worker d)"
  shows "erases (wk_wire (dm_worker d')) = erases (wk_wire (dm_worker d)) \<or>
    (\<exists>caller user finger slot. asked d caller user finger \<and> \<not> dm_locked d \<and> is_valid_finger finger \<and>
       maps_to (wd_env wd) (dm_worker d) user finger slot \<and>
       erases (wk_wire (dm_worker d')) = erases (wk_wire (dm_worker d)) @ [encode (CDelete slot)])"
  using assms
proof (induction rule: dstep.induct)
  case (claim_locked d uid user)
  have "dm_worker (snd (h_claim_locked uid user d)) = snd (claim user (dm_worker d))"
    by (simp add: h_claim_locked_def split: prod.split)
  then show ?case using good_erases [OF claim_good [OF claim_locked(3)]] by simp
next
  case (list_locked d user)
  have "dm_worker (snd (h_list_locked wd user d)) = snd (list_prints (wd_env wd) user (dm_worker d))"
    by (simp add: h_list_locked_def split: prod.split)
  then show ?case using good_erases [OF list_prints_good] by simp
next
  case (delete_all_locked d uid user)
  have "dm_worker (snd (h_delete_all_locked wd uid user d)) = snd (list_prints (wd_env wd) user (dm_worker d))"
    by (simp add: h_delete_all_locked_def split: prod.split sum.split)
  then show ?case using good_erases [OF list_prints_good] by simp
next
  case (delete_each d uid user fingers)
  show ?case
  proof (cases fingers)
    case (Cons finger rest)
    have w: "dm_worker (snd (h_delete_each wd uid user fingers d)) =
        snd (delete_finger (wd_env wd) (from_user_request user finger) (dm_worker d))"
      by (simp add: h_delete_each_def Cons split: prod.split)
    show ?thesis
    proof (cases rule: delete_erases [of "wd_env wd" "from_user_request user finger" "dm_worker d"])
      case (one slot)
      then have "is_valid_finger finger" "maps_to (wd_env wd) (dm_worker d) user finger slot"
        by (simp_all add: from_user_request_def)
      moreover have "asked d uid user finger" using delete_each(1) Cons by (simp add: asked_def)
      ultimately show ?thesis using one(3) delete_each(2) w by metis
    qed (simp add: w)
  qed (simp add: h_delete_each_def)
next
  case (delete_locked d uid intent)
  have w: "dm_worker (snd (h_delete_locked wd uid intent d)) = snd (delete_finger (wd_env wd) intent (dm_worker d))"
    by (simp add: h_delete_locked_def split: prod.split)
  show ?case
  proof (cases rule: delete_erases [of "wd_env wd" intent "dm_worker d"])
    case (one slot)
    have "asked d uid (di_user intent) (di_finger intent)"
      using delete_locked(1) intent_eq [of intent] by (simp add: asked_def)
    with one delete_locked(2) w show ?thesis by metis
  qed (simp add: w)
next
  case (start d kind sender finger)
  then show ?case by (simp add: start_wire)
next
  case (finish d ts t us cancel)
  let ?run = "case tk_kind t of OpVerify \<Rightarrow> verify | OpEnroll \<Rightarrow> worker_enroll"
  have "good_step 0 (dm_worker d) (snd (?run (wd_env wd) (tk_finger t) (sink_new (tk_kind t)) cancel (dm_worker d)))"
    by (auto split: op_kind.split intro: verify_good worker_enroll_good)
  from good_erases [OF this] show ?case using finish(1) by (simp add: task_finish_def Let_def set_task_def)
next
  case (release_locked d)
  then show ?case using good_erases [OF release_good] by (simp add: h_release_locked_def)
next
  case (suspend_locked d)
  then show ?case using good_erases [OF suspend_good] by (simp add: sleep_suspend_locked_def)
next
  case (resume d)
  then show ?case using good_erases [OF resume_good] by (simp add: sleep_resume_locked_def)
next
  case (shutdown_locked d)
  then show ?case using good_erases [OF release_good] by (simp add: shutdown_locked_def)
qed (auto simp: h_claim_def h_release_def h_list_def h_delete_all_def h_delete_def h_stop_def
    task_acquire_def set_task_def task_end_def sleep_suspend_def shutdown_def split: sum.split)

lemma asked_auth: "auth_inv wd d \<Longrightarrow> asked d caller user finger \<Longrightarrow> auth wd caller user"
  by (auto simp: auth_inv_def asked_def from_user_request_def)

subsection \<open>The store file of a step\<close>

lemma same_stored: "same stored w w' \<longleftrightarrow> fs_files (wk_fs w') = fs_files (wk_fs w) \<and> wk_store_path w' = wk_store_path w"
  by (auto simp: same_def stored_def)

lemma same_stored_file: "same stored w w' \<Longrightarrow> store_file w' = store_file w"
  by (simp add: same_stored store_file_def)

lemma same_stored_claim: "same stored w (snd (claim user w))"
proof -
  obtain r w' where c: "claim user w = (r, w')" by fastforce
  have opened: "transport_open v = (a, v1) \<Longrightarrow> same stored v v1" for v a v1
    by (auto simp: same_stored transport_open_def Let_def split: list.splits sum.splits)
  have armed: "send_arm v = (a, v1) \<Longrightarrow> same stored v v1" for v a v1
    using stored.same_send_arm [of v] by simp
  from c have "same stored w w'"
  proof (cases rule: claim_cases)
    case (unopened e)
    then show ?thesis using opened by blast
  next
    case (went w1 w2 w3)
    have "same stored w w1" using went(3) opened by (auto simp: same_stored)
    moreover have "same stored w1 w2"
      using went(4) stored.same_read_firmware [of w1] by (auto simp: same_stored)
    moreover have "same stored w2 w'"
    proof (cases r)
      case (Inl e)
      then show ?thesis using went(5) armed by simp
    next
      case (Inr u)
      then obtain n where "send_arm w2 = (Ok n, w3)" "stored w' = stored w3"
        using went(6) by (auto simp: stored_def set_armed_def)
      then show ?thesis using armed [of w2] by (simp add: same_def)
    qed
    ultimately show ?thesis using same_trans by blast
  qed auto
  with c show ?thesis by simp
qed

lemma same_stored_release: "same stored w (release w)"
  by (simp add: same_stored release_def Let_def set_armed_def frame_simps)

text \<open>The removal and the insertion of one entry, as the store file shows them.\<close>

definition erased_entry :: "env \<Rightarrow> string \<Rightarrow> string \<Rightarrow> worker \<Rightarrow> worker \<Rightarrow> bool" where
  "erased_entry env user finger w w' \<longleftrightarrow>
     (\<exists>content. json_print env (st_prints (store_remove user finger
        \<lparr>st_path = wk_store_path w, st_prints = store_at env w\<rparr>)) = Ok content \<and> store_file w' = Some content)"

definition enrolling :: "daemon \<Rightarrow> nat \<Rightarrow> string \<Rightarrow> string \<Rightarrow> bool" where
  "enrolling d caller user finger \<longleftrightarrow>
     (\<exists>t \<in> set (dm_tasks d). tk_pc t = TRunning \<and> tk_kind t = OpEnroll \<and> tk_caller t = caller \<and>
        tk_target t = user \<and> tk_finger t = finger)"

lemma delete_file:
  assumes "store_ready env w"
  shows "store_file (snd (delete_finger env intent w)) = store_file w \<or>
    erased_entry env (di_user intent) (di_finger intent) w (snd (delete_finger env intent w))"
proof -
  obtain r w' where d: "delete_finger env intent w = (r, w')" by fastforce
  have "plain_path (wk_store_path w)" "fs_honest (wk_fs w)" using assms by (simp_all add: store_ready_def)
  from delete_finger_effect [OF this d] d show ?thesis
    by (cases r) (auto simp: erased_entry_def)
qed

lemma step_file:
  assumes "dstep disp wd d d'" "conc_inv d" "store_ready (wd_env wd) (dm_worker d)"
  shows "store_file (dm_worker d') = store_file (dm_worker d) \<or>
    (\<exists>caller user finger. asked d caller user finger \<and>
       erased_entry (wd_env wd) user finger (dm_worker d) (dm_worker d')) \<or>
    (\<exists>caller user finger slot. enrolling d caller user finger \<and> wk_claimed (dm_worker d) = Some user \<and>
       slot_of (store_at (wd_env wd) (dm_worker d)) (user, finger) = None \<and>
       recorded (wd_env wd) user finger slot (dm_worker d) (dm_worker d'))"
  using assms
proof (induction rule: dstep.induct)
  case (claim_locked d uid user)
  have "dm_worker (snd (h_claim_locked uid user d)) = snd (claim user (dm_worker d))"
    by (simp add: h_claim_locked_def split: prod.split)
  then show ?case using same_stored_file [OF same_stored_claim] by simp
next
  case (list_locked d user)
  have "dm_worker (snd (h_list_locked wd user d)) = snd (list_prints (wd_env wd) user (dm_worker d))"
    by (simp add: h_list_locked_def split: prod.split)
  then show ?case using same_stored_file [OF stored.same_list] by simp
next
  case (delete_all_locked d uid user)
  have "dm_worker (snd (h_delete_all_locked wd uid user d)) = snd (list_prints (wd_env wd) user (dm_worker d))"
    by (simp add: h_delete_all_locked_def split: prod.split sum.split)
  then show ?case using same_stored_file [OF stored.same_list] by simp
next
  case (delete_each d uid user fingers)
  show ?case
  proof (cases fingers)
    case (Cons finger rest)
    have w: "dm_worker (snd (h_delete_each wd uid user fingers d)) =
        snd (delete_finger (wd_env wd) (from_user_request user finger) (dm_worker d))"
      by (simp add: h_delete_each_def Cons split: prod.split)
    have "asked d uid user finger" using delete_each(1) Cons by (simp add: asked_def)
    then show ?thesis unfolding w
      using delete_file [OF delete_each(4), of "from_user_request user finger"] by (auto simp: from_user_request_def)
  qed (simp add: h_delete_each_def)
next
  case (delete_locked d uid intent)
  have w: "dm_worker (snd (h_delete_locked wd uid intent d)) = snd (delete_finger (wd_env wd) intent (dm_worker d))"
    by (simp add: h_delete_locked_def split: prod.split)
  have "asked d uid (di_user intent) (di_finger intent)"
    using delete_locked(1) intent_eq [of intent] by (simp add: asked_def)
  then show ?case unfolding w using delete_file [OF delete_locked(4), of intent] by blast
next
  case (start d kind sender finger)
  have "same stored (dm_worker d) (dm_worker (snd (h_start kind disp wd sender finger d)))"
  proof (cases rule: h_start_elim [of kind disp wd sender finger d])
    case (started user uid token d1 t)
    then show ?thesis
      by (auto simp: same_stored start_op_def set_state_def split: prod.splits sum.splits)
  qed simp
  then show ?case using same_stored_file by blast
next
  case (finish d ts t us cancel)
  let ?run = "case tk_kind t of OpVerify \<Rightarrow> verify | OpEnroll \<Rightarrow> worker_enroll"
  let ?w = "snd (?run (wd_env wd) (tk_finger t) (sink_new (tk_kind t)) cancel (dm_worker d))"
  have same: "store_file (dm_worker (task_finish wd cancel (length ts) d)) = store_file ?w"
    using finish(1) by (simp add: task_finish_def Let_def set_task_def store_file_def)
  show ?case
  proof (cases "tk_kind t")
    case OpVerify
    then show ?thesis using same same_stored_file [OF stored.same_verify] by simp
  next
    case OpEnroll
    obtain r w' where e: "worker_enroll (wd_env wd) (tk_finger t) (sink_new OpEnroll) cancel (dm_worker d) = (r, w')"
      by fastforce
    have f: "store_file (dm_worker (task_finish wd cancel (length ts) d)) = store_file w'"
      using same OpEnroll e by simp
    have "plain_path (wk_store_path (dm_worker d))" "fs_honest (wk_fs (dm_worker d))"
      "prints_wf (store_at (wd_env wd) (dm_worker d))" using finish(5) by (simp_all add: store_ready_def)
    from worker_enroll_effect [OF this e] show ?thesis
    proof (cases r)
      case (Inr u)
      with worker_enroll_effect [OF \<open>plain_path _\<close> \<open>fs_honest (wk_fs (dm_worker d))\<close> \<open>prints_wf _\<close> e]
      obtain slot user where rec: "wk_claimed (dm_worker d) = Some user"
        "recorded (wd_env wd) user (tk_finger t) slot (dm_worker d) w'"
        "slot_of (store_at (wd_env wd) (dm_worker d)) (user, tk_finger t) = None" by auto
      have "active t" using finish(2) by (simp add: active_def)
      then have "tk_target t = user" using finish(1,4) rec(1) by (auto simp: conc_inv_def)
      then have "enrolling d (tk_caller t) user (tk_finger t)"
        using finish(1,2) OpEnroll by (auto simp: enrolling_def)
      moreover have "recorded (wd_env wd) user (tk_finger t) slot (dm_worker d)
          (dm_worker (task_finish wd cancel (length ts) d))" using rec(2) f by (simp add: recorded_def)
      ultimately show ?thesis using rec(1,3) by blast
    qed (use f in auto)
  qed
next
  case (release_locked d)
  then show ?case using same_stored_file [OF same_stored_release] by (simp add: h_release_locked_def)
next
  case (suspend_locked d)
  then show ?case using same_stored_file [OF stored.same_suspend] by (simp add: sleep_suspend_locked_def)
next
  case (resume d)
  then show ?case using same_stored_file [OF stored.same_resume] by (simp add: sleep_resume_locked_def)
next
  case (shutdown_locked d)
  then show ?case using same_stored_file [OF same_stored_release] by (simp add: shutdown_locked_def)
qed (auto simp: h_claim_def h_release_def h_list_def h_delete_all_def h_delete_def h_stop_def
    task_acquire_def set_task_def task_end_def sleep_suspend_def shutdown_def split: sum.split)

lemma enrolling_auth: "auth_inv wd d \<Longrightarrow> enrolling d caller user finger \<Longrightarrow> auth wd caller user"
  by (auto simp: auth_inv_def enrolling_def)

lemma auth_who: "auth wd caller user \<Longrightarrow> caller = 0 \<or> lookup_uid (wd_getent wd) user = Some caller"
  by (auto simp: auth_def may_act_def split: if_splits)

subsection \<open>Properties\<close>

text \<open>C4: A print is erased only on request: in whatever state the daemon is, by whatever interleaving it
  came there, a step after which the chip has been sent an erase it had not been sent before is the one
  that serves a delete request, by root or by the very user whose print it is; the mutex was free, the
  finger has a valid name, and exactly one erase was sent, of the slot to which the store maps that
  user and finger.\<close>

theorem daemon_erases_only_asked:
  assumes "reachable disp wd d" and "dstep disp wd d d'"
    and "erases (wk_wire (dm_worker d')) \<noteq> erases (wk_wire (dm_worker d))"
  shows "\<exists>caller user finger slot. asked d caller user finger \<and>
    (caller = 0 \<or> lookup_uid (wd_getent wd) user = Some caller) \<and> \<not> dm_locked d \<and> is_valid_finger finger \<and>
    maps_to (wd_env wd) (dm_worker d) user finger slot \<and>
    erases (wk_wire (dm_worker d')) = erases (wk_wire (dm_worker d)) @ [encode (CDelete slot)]"
proof -
  have "worker_inv (dm_worker d)" using reachable_conc [OF assms(1)] by (simp add: conc_inv_def)
  from step_erases [OF assms(2) this] assms(3) obtain caller user finger slot where *:
    "asked d caller user finger" "\<not> dm_locked d" "is_valid_finger finger"
    "maps_to (wd_env wd) (dm_worker d) user finger slot"
    "erases (wk_wire (dm_worker d')) = erases (wk_wire (dm_worker d)) @ [encode (CDelete slot)]" by blast
  have "auth wd caller user" using asked_auth [OF reachable_auth [OF assms(1)] *(1)] .
  with * show ?thesis using auth_who by blast
qed

text \<open>C2: Nobody's prints change but at the word of their owner or of root: in whatever state the daemon is,
  over a store that can be read and written, a step that changes the store file changes it by one
  entry; either it removes the finger named in a delete request, or it adds the finger of the
  enrolment that ends, under a free slot, for the claimed user; and the one who asked for it is root or
  that very user.\<close>

theorem daemon_prints_change_authorised:
  assumes "reachable disp wd d" and "dstep disp wd d d'" and "store_ready (wd_env wd) (dm_worker d)"
    and "store_file (dm_worker d') \<noteq> store_file (dm_worker d)"
  shows "\<exists>caller user finger. (caller = 0 \<or> lookup_uid (wd_getent wd) user = Some caller) \<and>
    (asked d caller user finger \<and> erased_entry (wd_env wd) user finger (dm_worker d) (dm_worker d') \<or>
     enrolling d caller user finger \<and> wk_claimed (dm_worker d) = Some user \<and>
     slot_of (store_at (wd_env wd) (dm_worker d)) (user, finger) = None \<and>
     (\<exists>slot. recorded (wd_env wd) user finger slot (dm_worker d) (dm_worker d')))"
proof -
  note inv = reachable_conc [OF assms(1)] reachable_auth [OF assms(1)]
  from step_file [OF assms(2) inv(1) assms(3)] assms(4) consider
      (erase) caller user finger where "asked d caller user finger"
        "erased_entry (wd_env wd) user finger (dm_worker d) (dm_worker d')"
    | (enrol) caller user finger slot where "enrolling d caller user finger" "wk_claimed (dm_worker d) = Some user"
        "slot_of (store_at (wd_env wd) (dm_worker d)) (user, finger) = None"
        "recorded (wd_env wd) user finger slot (dm_worker d) (dm_worker d')" by blast
  then show ?thesis
  proof cases
    case erase
    then show ?thesis using auth_who [OF asked_auth [OF inv(2) erase(1)]] by blast
  next
    case enrol
    then show ?thesis using auth_who [OF enrolling_auth [OF inv(2) enrol(1)]] by blast
  qed
qed

text \<open>Alice deletes her left thumb, and the chip accepts the erase.\<close>

definition sample_deleting :: daemon where
  "sample_deleting = (sample_served [Ok [0x40, 0]])\<lparr>dm_handler := HDelete 1000 (from_user_request ''alice'' ''left-thumb'')\<rparr>"

definition sample_deleted :: daemon where
  "sample_deleted = snd (h_delete_locked sample_world 1000 (from_user_request ''alice'' ''left-thumb'') sample_deleting)"

lemma sample_served_fields:
  "dm_handler (sample_served script) = HIdle" "\<not> dm_locked (sample_served script)"
  "dm_worker (sample_served script) = sample_worker script"
  "wk_state (dm_worker (sample_served script)) = \<lparr>os_claimed = True, os_busy = False, os_user = Some ''alice''\<rparr>"
  by (simp_all add: sample_served_def sample_serving_def daemon_new_def sample_worker_eq)

lemma sample_deleting_reachable: "reachable disp sample_world sample_deleting"
proof -
  let ?d = "sample_served [Ok [0x40, 0]]"
  have "snd (h_delete sample_world (Some '':1.7'') ''left-thumb'' ?d) = sample_deleting"
    by (simp add: h_delete_def claimed_target_def sample_served_fields sample_worker_eq sample_guard sample_deleting_def)
  with reachable.step [OF sample_served_reachable dstep.delete [OF sample_served_fields(1),
      where sender = "Some '':1.7''" and finger = "''left-thumb''"]]
  show ?thesis by metis
qed

lemma sample_deleted_step: "dstep disp sample_world sample_deleting sample_deleted"
  unfolding sample_deleted_def
  by (rule dstep.delete_locked) (simp_all add: sample_deleting_def sample_served_fields)

lemma sample_deleted_worker:
  "dm_worker sample_deleting = sample_worker [Ok [0x40, 0]]"
  "dm_worker sample_deleted = snd (delete_finger sample_env (from_user_request ''alice'' ''left-thumb'')
     (sample_worker [Ok [0x40, 0]]))"
  by (simp_all add: sample_deleted_def sample_deleting_def h_delete_locked_def sample_served_fields
      sample_world_def split: prod.split)

lemma sample_deleted_wire: "erases (wk_wire (dm_worker sample_deleting)) = []"
  "erases (wk_wire (dm_worker sample_deleted)) \<noteq> []"
  "store_file (dm_worker sample_deleted) \<noteq> store_file (dm_worker sample_deleting)"
  by (code_simp, code_simp, code_simp)

theorem daemon_erases_only_asked_witness:
  "\<exists>slot. erases (wk_wire (dm_worker sample_deleted)) = [encode (CDelete slot)]"
  using daemon_erases_only_asked [OF sample_deleting_reachable sample_deleted_step] sample_deleted_wire
  by auto

theorem daemon_prints_change_authorised_witness:
  "\<exists>caller user finger. (caller = 0 \<or> lookup_uid (wd_getent sample_world) user = Some caller) \<and>
     erased_entry sample_env user finger (dm_worker sample_deleting) (dm_worker sample_deleted)"
proof -
  have "store_ready (wd_env sample_world) (dm_worker sample_deleting)"
    using sample_worker_ready by (simp add: store_ready_def sample_deleted_worker sample_world_def)
  from daemon_prints_change_authorised [OF sample_deleting_reachable sample_deleted_step this sample_deleted_wire(3)]
  show ?thesis
    by (auto simp: enrolling_def sample_deleting_def sample_served_def sample_serving_def daemon_new_def sample_world_def)
qed

end
