(* ===== verification/DeleteAll.thy ===== *)
theory DeleteAll
  imports DaemonChip
begin

text \<open>
  \<open>DeleteEnrolledFingers\<close> of \<open>elanprintd/src/main.rs\<close> as a whole: the listing and the loop of single
  deletions, one turn of the handler after the other with nothing between.  A deletion that fails
  ends the loop, and what was deleted before stays deleted.
\<close>

subsection \<open>The request\<close>

fun delete_turns :: "world \<Rightarrow> nat \<Rightarrow> string \<Rightarrow> string list \<Rightarrow> daemon \<Rightarrow> (worker_error + unit) \<times> daemon" where
  "delete_turns wd uid user [] d = h_delete_each wd uid user [] d"
| "delete_turns wd uid user (f # fs) d =
     (case h_delete_each wd uid user (f # fs) d of
        (Err e, d1) \<Rightarrow> (Err e, d1)
      | (Ok _, d1) \<Rightarrow> delete_turns wd uid user fs d1)"

definition delete_request :: "world \<Rightarrow> nat \<Rightarrow> string \<Rightarrow> daemon \<Rightarrow> (worker_error + unit) \<times> daemon" where
  "delete_request wd uid user d =
     (case h_delete_all_locked wd uid user d of
        (Err e, d1) \<Rightarrow> (Err e, d1)
      | (Ok _, d1) \<Rightarrow>
          (case dm_handler d1 of
             HDeleteEach uid user fingers \<Rightarrow> delete_turns wd uid user fingers d1
           | _ \<Rightarrow> (Ok (), d1)))"

subsection \<open>One deletion\<close>

lemma save_store_fault: "fs_fault (wk_fs (snd (save_store env st v))) = fs_fault (wk_fs v)"
  using save_fault_frame [of env st "wk_fs v"]
  by (cases "store_save env st (wk_fs v)") (simp add: save_store_def)

lemma delete_rest_frame:
  "fs_fault (wk_fs (snd (delete_rest env u f s a v))) = fs_fault (wk_fs v) \<and>
   wk_store_path (snd (delete_rest env u f s a v)) = wk_store_path v"
proof -
  obtain b v1 where o: "open_store env v = (b, v1)" by fastforce
  then have "fs_fault (wk_fs v1) = fs_fault (wk_fs v)" "wk_store_path v1 = wk_store_path v"
    using open_store_files(2) [of env v] open_store_frame(7) [of env v] by simp_all
  then show ?thesis
    using save_store_fault [of env _ v1] save_store_frame(6) [of env _ v1]
    by (cases b) (simp_all add: delete_rest_def try_op_def o split: sum.split)
qed

lemma delete_finger_frame:
  "fs_fault (wk_fs (snd (delete_finger env intent w))) = fs_fault (wk_fs w)"
  "wk_store_path (snd (delete_finger env intent w)) = wk_store_path w"
proof -
  obtain r w' where d: "delete_finger env intent w = (r, w')" by fastforce
  from d have "fs_fault (wk_fs w') = fs_fault (wk_fs w) \<and> wk_store_path w' = wk_store_path w"
  proof (cases rule: delete_finger_cases)
    case (refused e)
    then show ?thesis using open_store_files(2) [of env w] open_store_frame(7) [of env w] by auto
  next
    case (sent st w1 h slot a)
    then have "w' = snd (delete_rest env (di_user intent) (di_finger intent) slot a
        (after_cmd h (encode (CDelete slot)) EpStatus 2 a w1))"
      by (metis snd_conv)
    then show ?thesis
      using sent(2) open_store_files(2) [of env w] open_store_frame(7) [of env w] delete_rest_frame
      by (simp del: encode.simps)
  qed
  with d show "fs_fault (wk_fs (snd (delete_finger env intent w))) = fs_fault (wk_fs w)"
    "wk_store_path (snd (delete_finger env intent w)) = wk_store_path w" by simp_all
qed

text \<open>A codec that reads what it printed.\<close>

definition codec_ok :: "env \<Rightarrow> bool" where
  "codec_ok env \<longleftrightarrow> (\<forall>p content. json_print env p = Ok content \<longrightarrow> json_parse env content = Ok p)"

definition slots_at :: "env \<Rightarrow> worker \<Rightarrow> string \<times> string \<Rightarrow> byte option" where
  "slots_at env w = slot_of (store_at env w)"

lemma delete_finger_slots:
  assumes "store_ready env w" "codec_ok env"
    and "delete_finger env (from_user_request user finger) w = (r, w')"
  shows "store_ready env w' \<and>
    slots_at env w' = (if is_ok r then (slots_at env w)((user, finger) := None) else slots_at env w) \<and>
    (erases (wk_wire w') = erases (wk_wire w) \<and> \<not> is_ok r \<or>
     (\<exists>slot. slots_at env w (user, finger) = Some slot \<and>
        erases (wk_wire w') = erases (wk_wire w) @ [encode (CDelete slot)]))"
proof -
  have q: "plain_path (wk_store_path w)" "fs_honest (wk_fs w)" "prints_wf (store_at env w)"
    using assms(1) by (simp_all add: store_ready_def)
  have path: "wk_store_path w' = wk_store_path w" and fault: "fs_fault (wk_fs w') = fs_fault (wk_fs w)"
    using delete_finger_frame [of env "from_user_request user finger" w] assms(3) by simp_all
  have same: "store_at env w' = store_at env w" if "store_file w' = store_file w"
    using that path by (simp add: store_at_def store_file_def)
  have intent: "di_user (from_user_request user finger) = user"
    "di_finger (from_user_request user finger) = finger" by (simp_all add: from_user_request_def)
  have erase: "erases [Cmd h (encode (CDelete slot)) ep n a] = [encode (CDelete slot)]" for h slot ep n a
    by (simp add: erases_def is_erase_encode del: encode.simps)
  let ?gone = "st_prints (store_remove user finger \<lparr>st_path = wk_store_path w, st_prints = store_at env w\<rparr>)"
  have "is_ok r \<longrightarrow> store_at env w' = ?gone"
    using delete_finger_effect [OF q(1,2) assms(3)] assms(2) path
    by (auto simp: is_ok_iff intent codec_ok_def store_file_def store_at_def)
  moreover have "\<not> is_ok r \<longrightarrow> store_at env w' = store_at env w"
    using delete_finger_effect [OF q(1,2) assms(3)] same by (auto simp: not_is_ok_iff)
  moreover have "prints_wf ?gone" by (rule remove_wf) (simp add: q(3))
  moreover have "slot_of ?gone = (slots_at env w)((user, finger) := None)"
    by (simp add: remove_slot_of slots_at_def)
  ultimately have "store_ready env w' \<and>
    slots_at env w' = (if is_ok r then (slots_at env w)((user, finger) := None) else slots_at env w)"
    using q path fault by (auto simp: store_ready_def slots_at_def fs_honest_def)
  moreover have "erases (wk_wire w') = erases (wk_wire w) \<and> \<not> is_ok r \<or>
     (\<exists>slot. slots_at env w (user, finger) = Some slot \<and>
        erases (wk_wire w') = erases (wk_wire w) @ [encode (CDelete slot)])"
    using delete_finger_effect [OF q(1,2) assms(3)]
    by (auto simp: slots_at_def intent erase simp del: encode.simps)
  ultimately show ?thesis by blast
qed

subsection \<open>The loop\<close>

text \<open>The store without the given fingers of a user.\<close>

definition without :: "string \<Rightarrow> string set \<Rightarrow> (string \<times> string \<Rightarrow> byte option) \<Rightarrow> string \<times> string \<Rightarrow> byte option"
  where "without user lost m k = (if fst k = user \<and> snd k \<in> lost then None else m k)"

lemma without_upd: "without user lost (m((user, f) := None)) = without user (insert f lost) m"
  by (rule ext) (auto simp: without_def)

lemma without_empty [simp]: "without user {} m = m"
  by (rule ext) (simp add: without_def)

text \<open>The loop got as far as its first \<open>k\<close> fingers: these are gone from the store, and their slots
  were erased; at most the erase of one more was tried.\<close>

definition got_to :: "nat \<Rightarrow> env \<Rightarrow> string \<Rightarrow> string list \<Rightarrow> worker \<Rightarrow> worker \<Rightarrow> bool" where
  "got_to k env user fingers w w' \<longleftrightarrow>
     k \<le> length fingers \<and>
     slots_at env w' = without user (set (take k fingers)) (slots_at env w) \<and>
     (\<exists>tried \<in> {[], take 1 (drop k fingers)}.
        erases (wk_wire w') = erases (wk_wire w) @
          map (\<lambda>f. encode (CDelete (the (slots_at env w (user, f))))) (take k fingers @ tried))"

lemma got_to_0: "slots_at env w' = slots_at env w \<Longrightarrow> wk_wire w' = wk_wire w \<Longrightarrow> got_to 0 env user fingers w w'"
  by (simp add: got_to_def del: encode.simps)

lemma got_to_from:
  "slots_at env w1 = slots_at env w \<Longrightarrow> wk_wire w1 = wk_wire w \<Longrightarrow>
   got_to k env user fingers w1 w' = got_to k env user fingers w w'"
  by (simp add: got_to_def del: encode.simps)

lemma delete_turns_got_to:
  assumes "store_ready (wd_env wd) (dm_worker d)" "codec_ok (wd_env wd)" "distinct fingers"
    and "delete_turns wd uid user fingers d = (r, d')"
  shows "\<exists>k. got_to k (wd_env wd) user fingers (dm_worker d) (dm_worker d') \<and>
    (is_ok r \<longleftrightarrow> k = length fingers)"
  using assms
proof (induction fingers arbitrary: d)
  case Nil
  then show ?case by (auto simp: h_delete_each_def got_to_def)
next
  case (Cons f fs)
  let ?env = "wd_env wd" and ?w = "dm_worker d"
  obtain r1 w1 where one: "delete_finger ?env (from_user_request user f) ?w = (r1, w1)" by fastforce
  note eff = delete_finger_slots [OF Cons.prems(1,2) one]
  show ?case
  proof (cases r1)
    case (Inl e)
    then have "dm_worker d' = w1 \<and> \<not> is_ok r"
      using Cons.prems(4) one by (auto simp: h_delete_each_def)
    moreover have "got_to 0 ?env user (f # fs) ?w w1"
      using eff Inl by (auto simp: got_to_def simp del: encode.simps)
    ultimately show ?thesis by (intro exI [of _ 0]) simp
  next
    case (Inr u)
    define d1 where "d1 = snd (h_delete_each wd uid user (f # fs) d)"
    have d1: "dm_worker d1 = w1" and rest: "delete_turns wd uid user fs d1 = (r, d')"
      using Cons.prems(4) one Inr by (simp_all add: d1_def h_delete_each_def)
    from Cons.IH [of d1] eff Cons.prems(2,3) rest obtain k where
      k: "got_to k ?env user fs w1 (dm_worker d')" "is_ok r \<longleftrightarrow> k = length fs" by (auto simp: d1)
    have slots: "slots_at ?env w1 = (slots_at ?env ?w)((user, f) := None)" using eff Inr by simp
    from eff Inr obtain slot where slot: "slots_at ?env ?w (user, f) = Some slot"
      "erases (wk_wire w1) = erases (wk_wire ?w) @ [encode (CDelete slot)]" by auto
    have others: "map (\<lambda>g. encode (CDelete (the (slots_at ?env w1 (user, g))))) gs =
        map (\<lambda>g. encode (CDelete (the (slots_at ?env ?w (user, g))))) gs" if "f \<notin> set gs" for gs
      using that by (auto simp: slots simp del: encode.simps)
    from k(1) obtain tried where tried: "tried \<in> {[], take 1 (drop k fs)}"
      "erases (wk_wire (dm_worker d')) = erases (wk_wire w1) @
        map (\<lambda>g. encode (CDelete (the (slots_at ?env w1 (user, g))))) (take k fs @ tried)"
      by (auto simp: got_to_def simp del: encode.simps)
    have "f \<notin> set (take k fs @ tried)"
      using Cons.prems(3) tried(1) by (auto dest: in_set_takeD in_set_dropD)
    then have "erases (wk_wire (dm_worker d')) = erases (wk_wire ?w) @
        map (\<lambda>g. encode (CDelete (the (slots_at ?env ?w (user, g))))) (take (Suc k) (f # fs) @ tried)"
      using tried(2) slot by (simp add: others del: encode.simps)
    moreover have "tried \<in> {[], take 1 (drop (Suc k) (f # fs))}" using tried(1) by simp
    moreover have "slots_at ?env (dm_worker d') = without user (set (take (Suc k) (f # fs))) (slots_at ?env ?w)"
      using k(1) by (simp add: got_to_def slots without_upd)
    moreover have "Suc k \<le> length (f # fs)" using k(1) by (simp add: got_to_def)
    ultimately have "got_to (Suc k) ?env user (f # fs) ?w (dm_worker d')"
      unfolding got_to_def by blast
    then show ?thesis using k(2) by (intro exI [of _ "Suc k"]) simp
  qed
qed

subsection \<open>The listing\<close>

text \<open>The fingers the store has for a user, in its order.\<close>

definition fingers_of :: "env \<Rightarrow> worker \<Rightarrow> string \<Rightarrow> string list" where
  "fingers_of env w user = (case bt_get (store_at env w) user of Some m \<Rightarrow> map fst m | None \<Rightarrow> [])"

lemma fingers_of_store:
  assumes "store_ready env w"
  shows "sorted_wrt (<) (fingers_of env w user)" "set (fingers_of env w user) = {f. slots_at env w (user, f) \<noteq> None}"
proof -
  have wf: "prints_wf (store_at env w)" using assms by (simp add: store_ready_def)
  show "sorted_wrt (<) (fingers_of env w user)"
    using prints_wf_inner [OF wf, of user] by (auto simp: fingers_of_def bt_ok_def split: option.split)
  show "set (fingers_of env w user) = {f. slots_at env w (user, f) \<noteq> None}"
  proof (cases "bt_get (store_at env w) user")
    case None
    then show ?thesis by (simp add: fingers_of_def slots_at_def slot_of_def)
  next
    case (Some m)
    have "bt_ok m" using prints_wf_inner [OF wf Some] .
    moreover have "slots_at env w (user, f) = bt_get m f" for f
      using Some by (simp add: slots_at_def slot_of_def)
    ultimately show ?thesis using Some bt_get_in [of m] by (force simp: fingers_of_def)
  qed
qed

lemma list_prints_effect:
  assumes "store_ready env w" "list_prints env user w = (r, w1)"
  shows "store_ready env w1 \<and> slots_at env w1 = slots_at env w \<and> wk_wire w1 = wk_wire w \<and>
    (\<forall>fingers. r = Ok fingers \<longrightarrow> fingers \<noteq> [] \<and> fingers = fingers_of env w user)"
proof -
  obtain b v where o: "open_store env w = (b, v)" by fastforce
  have honest: "fs_honest (wk_fs w)" using assms(1) by (simp add: store_ready_def)
  have v: "w1 = v" using assms(2) o
    by (auto simp: list_prints_def try_op_def split: sum.splits option.splits if_splits)
  have at: "store_at env v = store_at env w" and frame: "wk_wire v = wk_wire w"
    and ready: "store_ready env v"
    using assms(1) o open_store_files [of env w] open_store_frame(1,7) [of env w]
    by (auto simp: store_at_def store_ready_def fs_honest_def)
  have "fingers \<noteq> [] \<and> fingers = fingers_of env w user" if ok: "r = Ok fingers" for fingers
  proof -
    from ok assms(2) o obtain st where st: "b = Ok st"
      by (cases b) (auto simp: list_prints_def try_op_def)
    have "st_prints st = store_at env w"
      using open_store_quiet(5) [OF o [unfolded st] honest] by (simp add: store_at_def)
    with ok assms(2) o st show ?thesis
      by (auto simp: list_prints_def try_op_def fingers_of_def split: option.splits if_splits)
  qed
  then show ?thesis using v at frame ready by (simp add: slots_at_def)
qed

subsection \<open>Property\<close>

text \<open>C19: DeleteEnrolledFingers removes the fingers of the user it names and nobody else's, in the order
  of the store, each once, and stops at the first that fails: what was removed before stays removed, and
  the chip was sent exactly the erases of their slots, in that order, and at most that of the one that
  failed.  It answers without an error exactly when the user had fingers and all of them are gone.
  Assumed: the store is well-formed and at a path with a directory, no operation of the file system
  calls a file missing that is there (any of them may fail in another way), and the JSON codec reads
  back what it printed.\<close>

theorem delete_all_stops_at_failure:
  assumes "store_ready (wd_env wd) (dm_worker d)" and "codec_ok (wd_env wd)"
    and "delete_request wd uid user d = (r, d')"
  shows "let fingers = fingers_of (wd_env wd) (dm_worker d) user in
    sorted_wrt (<) fingers \<and> set fingers = {f. slots_at (wd_env wd) (dm_worker d) (user, f) \<noteq> None} \<and>
    (\<exists>k tried. k \<le> length fingers \<and> tried \<in> {[], take 1 (drop k fingers)} \<and>
      slots_at (wd_env wd) (dm_worker d') =
        (\<lambda>x. if fst x = user \<and> snd x \<in> set (take k fingers) then None
              else slots_at (wd_env wd) (dm_worker d) x) \<and>
      erases (wk_wire (dm_worker d')) = erases (wk_wire (dm_worker d)) @
        map (\<lambda>f. encode (CDelete (the (slots_at (wd_env wd) (dm_worker d) (user, f)))))
          (take k fingers @ tried) \<and>
      (is_ok r \<longleftrightarrow> k = length fingers \<and> fingers \<noteq> []))"
proof -
  let ?env = "wd_env wd" and ?w = "dm_worker d"
  let ?fingers = "fingers_of ?env ?w user"
  obtain b w1 where l: "list_prints ?env user ?w = (b, w1)" by fastforce
  note eff = list_prints_effect [OF assms(1) l]
  note order = fingers_of_store [OF assms(1), of user]
  have "\<exists>k. got_to k ?env user ?fingers ?w (dm_worker d') \<and> (is_ok r \<longleftrightarrow> k = length ?fingers \<and> ?fingers \<noteq> [])"
  proof (cases b)
    case (Inl e)
    then have "dm_worker d' = w1" "\<not> is_ok r"
      using assms(3) l by (auto simp: delete_request_def h_delete_all_locked_def)
    moreover have "got_to 0 ?env user ?fingers ?w w1" using eff by (intro got_to_0) simp_all
    ultimately show ?thesis by (intro exI [of _ 0]) simp
  next
    case (Inr fingers)
    then have f: "fingers = ?fingers" "?fingers \<noteq> []" using eff by auto
    define d1 where "d1 = d\<lparr>dm_worker := w1, dm_handler := HDeleteEach uid user fingers\<rparr>"
    have turns: "delete_turns wd uid user ?fingers d1 = (r, d')"
      using assms(3) l Inr f(1) by (simp add: delete_request_def h_delete_all_locked_def d1_def)
    have "distinct ?fingers" using order(1) by (simp add: strict_sorted_iff)
    with delete_turns_got_to [OF _ assms(2) _ turns] eff obtain k where
      k: "got_to k ?env user ?fingers w1 (dm_worker d')" "is_ok r \<longleftrightarrow> k = length ?fingers"
      by (auto simp: d1_def)
    have "slots_at ?env w1 = slots_at ?env ?w" "wk_wire w1 = wk_wire ?w" using eff by simp_all
    from got_to_from [OF this] k(1) have "got_to k ?env user ?fingers ?w (dm_worker d')" by (rule iffD1)
    then show ?thesis using k(2) f(2) by (intro exI [of _ k]) simp
  qed
  then obtain k where k: "got_to k ?env user ?fingers ?w (dm_worker d')"
    "is_ok r \<longleftrightarrow> k = length ?fingers \<and> ?fingers \<noteq> []" by blast
  have less: "slots_at ?env (dm_worker d') =
      (\<lambda>x. if fst x = user \<and> snd x \<in> set (take k ?fingers) then None else slots_at ?env ?w x)"
    using k(1) by (simp add: got_to_def without_def fun_eq_iff)
  obtain tried where "k \<le> length ?fingers" "tried \<in> {[], take 1 (drop k ?fingers)}"
    "erases (wk_wire (dm_worker d')) = erases (wk_wire ?w) @
       map (\<lambda>f. encode (CDelete (the (slots_at ?env ?w (user, f))))) (take k ?fingers @ tried)"
    using k(1) unfolding got_to_def by blast
  with less k(2) order show ?thesis unfolding Let_def by blast
qed

text \<open>Alice has her one finger deleted.\<close>

definition strict_env :: env where
  "strict_env = sample_env\<lparr>json_print := (\<lambda>p.
     if p = [] then Ok ''{}'' else if p = st_prints sample_store then Ok ''{alice}'' else Err ''other'')\<rparr>"

definition delete_sample :: "(worker_error + unit) \<times> daemon" where
  "delete_sample = delete_request (sample_world\<lparr>wd_env := strict_env\<rparr>) 1000 ''alice'' (sample_served [Ok [0x40, 0]])"

theorem delete_all_stops_at_failure_witness:
  "is_ok (fst delete_sample) \<and> fingers_of strict_env (dm_worker (sample_served [Ok [0x40, 0]])) ''alice'' \<noteq> [] \<and>
   slots_at strict_env (dm_worker (snd delete_sample)) (''alice'', ''left-thumb'') = None"
proof -
  let ?wd = "sample_world\<lparr>wd_env := strict_env\<rparr>" and ?d = "sample_served [Ok [0x40, 0]]"
  have "json_parse strict_env = json_parse sample_env" by (simp add: strict_env_def)
  then have at: "store_at strict_env w = store_at sample_env w" for w
    unfolding store_at_def by (rule ssubst) (rule refl)
  have worker: "dm_worker ?d = sample_worker [Ok [0x40, 0]]" by (simp add: sample_served_def)
  have ready: "store_ready (wd_env ?wd) (dm_worker ?d)"
    using sample_worker_ready by (simp add: store_ready_def at worker)
  have codec: "codec_ok (wd_env ?wd)"
    by (auto simp: codec_ok_def strict_env_def sample_env_def split: if_splits)
  have ok: "is_ok (fst delete_sample)" by code_simp
  have run: "delete_request ?wd 1000 ''alice'' ?d = (fst delete_sample, snd delete_sample)"
    by (simp add: delete_sample_def)
  from delete_all_stops_at_failure [OF ready codec run] ok
  show ?thesis by (auto simp: Let_def split: if_splits)
qed

end
