(* ===== verification/DaemonTouch.thy ===== *)
theory DaemonTouch
  imports DaemonChip
begin

text \<open>
  When the sensor waits for a finger: every interleaving of handlers, tasks and signals sends a
  touch-wait command only in the step that runs a spawned operation, for the user who holds the claim.
\<close>

subsection \<open>The touch-wait commands of an operation\<close>

fun is_touch_wait :: "wire_event \<Rightarrow> bool" where
  "is_touch_wait (Cmd _ _ ep _ _) = (ep = EpTouchWait)"
| "is_touch_wait (Opened _) = False"

definition touch_waits :: "worker \<Rightarrow> wire_event list" where
  "touch_waits w = filter is_touch_wait (wk_wire w)"

lemma touch_waits_wire: "wk_wire w' = wk_wire w \<Longrightarrow> touch_waits w' = touch_waits w"
  by (simp add: touch_waits_def)

lemma touch_waits_cmd: "touch_waits (snd (transport_cmd h out EpStatus len t w)) = touch_waits w"
  by (simp add: transport_cmd_def touch_waits_def split: list.split)

lemma touch_waits_abort: "touch_waits (abort_session w) = touch_waits w"
  by (simp add: abort_session_wire touch_waits_def split: option.split)

lemma touch_waits_open: "touch_waits (snd (transport_open w)) = touch_waits w"
  by (simp add: transport_open_def touch_waits_def Let_def split: list.split sum.split)

lemma touch_waits_arm: "touch_waits (snd (send_arm w)) = touch_waits w"
proof -
  obtain r w1 where s: "send_arm w = (r, w1)" by fastforce
  then have "touch_waits w1 = touch_waits w"
    by (cases rule: send_arm_cases) (auto simp: touch_waits_def simp del: encode.simps)
  with s show ?thesis by simp
qed

lemma touch_waits_firmware: "touch_waits (snd (read_firmware w)) = touch_waits w"
proof (cases "wk_usb w")
  case (Some h)
  obtain r w1 where t: "transport_cmd h (encode CFwVersion) EpStatus (expected_len CFwVersion)
      (cmd_timeout CFwVersion) w = (r, w1)" by fastforce
  then have "snd (read_firmware w) = w1"
    using Some by (auto simp: read_firmware_def simp del: encode.simps parse.simps split: sum.split response.split)
  then show ?thesis
    using t touch_waits_cmd [of h "encode CFwVersion" "expected_len CFwVersion" "cmd_timeout CFwVersion" w] by simp
qed (simp add: read_firmware_def)

lemma touch_waits_claim: "touch_waits (snd (claim user w)) = touch_waits w"
proof -
  obtain r w' where c: "claim user w = (r, w')" by fastforce
  from c have "touch_waits w' = touch_waits w"
  proof (cases rule: claim_cases)
    case (unopened e)
    then show ?thesis using touch_waits_open [of w] by simp
  next
    case (went w1 w2 w3)
    have "touch_waits w1 = touch_waits w"
      using went(3) touch_waits_open [of w] touch_waits_wire [of w1] by (auto simp: touch_waits_def)
    moreover have "touch_waits w2 = touch_waits w1"
      using went(4) touch_waits_firmware [of w1] by (auto simp: touch_waits_def)
    moreover have "touch_waits w' = touch_waits w2"
    proof (cases r)
      case (Inl e)
      then show ?thesis using went(5) touch_waits_arm [of w2] by simp
    next
      case (Inr u)
      then obtain n where "send_arm w2 = (Ok n, w3)" "wk_wire w' = wk_wire w3"
        using went(6) by (auto simp: set_armed_def)
      then show ?thesis using touch_waits_arm [of w2] touch_waits_wire [of w' w3] by simp
    qed
    ultimately show ?thesis by simp
  qed simp
  with c show ?thesis by simp
qed

lemma touch_waits_release: "touch_waits (release w) = touch_waits w"
  using touch_waits_abort [of w] by (simp add: release_def Let_def set_armed_def touch_waits_def)

lemma touch_waits_sleep: "touch_waits (suspend w) = touch_waits w" "touch_waits (resume w) = touch_waits w"
  using touch_waits_abort [of w] by (simp_all add: suspend_def resume_def set_armed_def touch_waits_def)

lemma touch_waits_list: "touch_waits (snd (list_prints env user w)) = touch_waits w"
proof (rule touch_waits_wire)
  show "wk_wire (snd (list_prints env user w)) = wk_wire w"
    using open_store_frame(1) [of env w]
    by (auto simp: list_prints_def try_op_def split: prod.split sum.split option.split)
qed

lemma touch_waits_delete: "touch_waits (snd (delete_finger env intent w)) = touch_waits w"
proof -
  obtain r w' where d: "delete_finger env intent w = (r, w')" by fastforce
  then have "touch_waits w' = touch_waits w"
  proof (cases rule: delete_finger_cases)
    case (refused e)
    then show ?thesis using touch_waits_wire [OF open_store_frame(1)] by auto
  next
    case (sent st w1 h slot a)
    let ?v = "after_cmd h (encode (CDelete slot)) EpStatus 2 a w1"
    have "wk_wire (snd (delete_rest env user finger slot a v)) = wk_wire v" for user finger v
      using open_store_frame(1) [of env v] save_store_frame(1)
      by (auto simp: delete_rest_def try_op_def split: prod.split sum.split)
    then have "wk_wire w' = wk_wire ?v" using sent(5) by (metis snd_conv)
    moreover have "wk_wire w1 = wk_wire w" using open_store_frame(1) [of env w] sent(2) by simp
    ultimately show ?thesis by (simp add: touch_waits_def del: encode.simps)
  qed
  with d show ?thesis by simp
qed

text \<open>An operation that finds no claim asks for no finger.\<close>

lemma touch_waits_finish: "touch_waits (snd (finish_op rw)) = touch_waits (snd rw)"
  by (cases rw) (use touch_waits_abort in \<open>simp add: finish_op_def Let_def set_armed_def touch_waits_def\<close>)

lemma unclaimed_no_touch:
  assumes "wk_claimed w = None"
  shows "touch_waits (snd (verify env finger sink cancel w)) = touch_waits w"
    "touch_waits (snd (worker_enroll env finger sink cancel w)) = touch_waits w"
proof -
  let ?w = "w\<lparr>wk_sink := sink\<rparr>"
  have sink: "touch_waits ?w = touch_waits w" by (rule touch_waits_wire) simp
  obtain r w1 where arm: "send_arm ?w = (r, w1)" by fastforce
  then have none: "wk_claimed w1 = None"
    using assms by (cases rule: send_arm_cases) (auto simp del: encode.simps)
  have "touch_waits (snd (verify_inner env finger cancel ?w)) = touch_waits w"
  proof (cases "wk_armed ?w")
    case True
    then show ?thesis using assms sink by (simp add: verify_inner_def try_op_def claim_user_def)
  next
    case False
    have "touch_waits w1 = touch_waits w" using touch_waits_arm [of ?w] arm sink by simp
    then show ?thesis using False arm none touch_waits_wire [of "set_armed True w1" w1]
      by (cases r) (simp_all add: verify_inner_def try_op_def claim_user_def set_armed_def)
  qed
  then show "touch_waits (snd (verify env finger sink cancel w)) = touch_waits w"
    by (simp add: verify_def touch_waits_finish)
  show "touch_waits (snd (worker_enroll env finger sink cancel w)) = touch_waits w"
    using assms sink by (simp add: worker_enroll_def touch_waits_finish enroll_inner_def try_op_def claim_user_def)
qed

subsection \<open>The touch-wait commands of a step\<close>

lemma step_touches:
  assumes "dstep disp wd d d'" "conc_inv d"
  shows "touch_waits (dm_worker d') = touch_waits (dm_worker d) \<or>
    (\<exists>ts t us cancel. dm_tasks d = ts @ t # us \<and> tk_pc t = TRunning \<and>
       d' = task_finish wd cancel (length ts) d \<and> wk_claimed (dm_worker d) = Some (tk_target t))"
  using assms
proof (induction rule: dstep.induct)
  case (claim_locked d uid user)
  have "dm_worker (snd (h_claim_locked uid user d)) = snd (claim user (dm_worker d))"
    by (simp add: h_claim_locked_def split: prod.split)
  then show ?case by (simp add: touch_waits_claim)
next
  case (list_locked d user)
  have "dm_worker (snd (h_list_locked wd user d)) = snd (list_prints (wd_env wd) user (dm_worker d))"
    by (simp add: h_list_locked_def split: prod.split)
  then show ?case by (simp add: touch_waits_list)
next
  case (delete_all_locked d uid user)
  have "dm_worker (snd (h_delete_all_locked wd uid user d)) = snd (list_prints (wd_env wd) user (dm_worker d))"
    by (simp add: h_delete_all_locked_def split: prod.split sum.split)
  then show ?case by (simp add: touch_waits_list)
next
  case (delete_each d uid user fingers)
  have "dm_worker (snd (h_delete_each wd uid user fingers d)) =
      (case fingers of [] \<Rightarrow> dm_worker d
       | finger # _ \<Rightarrow> snd (delete_finger (wd_env wd) (from_user_request user finger) (dm_worker d)))"
    by (simp add: h_delete_each_def split: prod.split list.split)
  then show ?case by (simp add: touch_waits_delete split: list.split)
next
  case (delete_locked d uid intent)
  have "dm_worker (snd (h_delete_locked wd uid intent d)) = snd (delete_finger (wd_env wd) intent (dm_worker d))"
    by (simp add: h_delete_locked_def split: prod.split)
  then show ?case by (simp add: touch_waits_delete)
next
  case (start d kind sender finger)
  then show ?case by (simp add: touch_waits_wire [OF start_wire])
next
  case (finish d ts t us cancel)
  let ?run = "case tk_kind t of OpVerify \<Rightarrow> verify | OpEnroll \<Rightarrow> worker_enroll"
  have w: "touch_waits (dm_worker (task_finish wd cancel (length ts) d)) =
      touch_waits (snd (?run (wd_env wd) (tk_finger t) (sink_new (tk_kind t)) cancel (dm_worker d)))"
    using finish(1) by (simp add: task_finish_def Let_def set_task_def touch_waits_def)
  have "active t" using finish(2) by (simp add: active_def)
  then have "wk_claimed (dm_worker d) \<in> {None, Some (tk_target t)}" using finish(1,4) by (auto simp: conc_inv_def)
  then consider "wk_claimed (dm_worker d) = None" | "wk_claimed (dm_worker d) = Some (tk_target t)" by auto
  then show ?case
  proof cases
    case 1
    then show ?thesis using w unclaimed_no_touch [OF 1] by (cases "tk_kind t") simp_all
  next
    case 2
    with finish(1,2) show ?thesis by blast
  qed
next
  case (release_locked d)
  then show ?case by (simp add: h_release_locked_def touch_waits_release)
next
  case (suspend_locked d)
  then show ?case by (simp add: sleep_suspend_locked_def touch_waits_sleep)
next
  case (resume d)
  then show ?case by (simp add: sleep_resume_locked_def touch_waits_sleep)
next
  case (shutdown_locked d)
  then show ?case by (simp add: shutdown_locked_def touch_waits_release)
qed (auto simp: h_claim_def h_release_def h_list_def h_delete_all_def h_delete_def h_stop_def
    task_acquire_def set_task_def task_end_def sleep_suspend_def shutdown_def split: sum.split)

subsection \<open>Property\<close>

text \<open>C5: The sensor waits for a finger only at the word of someone who may ask: in whatever state the
  daemon is, by whatever interleaving it came there, a step that sends the chip a touch-wait command
  (a verify, or the sample of an enrolment) is the run of a spawned operation; the user the operation
  was started for still holds the claim, and the one who started it is root or that very user, although
  that was checked when it was started.  No claim, listing, deletion, release, sleep signal or shutdown
  makes the sensor wait.\<close>

theorem touches_are_authorised:
  assumes "reachable disp wd d" and "dstep disp wd d d'"
    and "touch_waits (dm_worker d') \<noteq> touch_waits (dm_worker d)"
  shows "\<exists>ts t us cancel. dm_tasks d = ts @ t # us \<and> tk_pc t = TRunning \<and>
    d' = task_finish wd cancel (length ts) d \<and> wk_claimed (dm_worker d) = Some (tk_target t) \<and>
    (tk_caller t = 0 \<or> lookup_uid (wd_getent wd) (tk_target t) = Some (tk_caller t))"
proof -
  from step_touches [OF assms(2) reachable_conc [OF assms(1)]] assms(3) obtain ts t us cancel where
    t: "dm_tasks d = ts @ t # us" "tk_pc t = TRunning" "d' = task_finish wd cancel (length ts) d"
      "wk_claimed (dm_worker d) = Some (tk_target t)" by blast
  have "auth wd (tk_caller t) (tk_target t)" using reachable_auth [OF assms(1)] t(1) by (simp add: auth_inv_def)
  with t auth_who show ?thesis by blast
qed

text \<open>Alice verifies her left thumb.\<close>

definition sample_running :: daemon where
  "sample_running = task_acquire 0 (sample_started (sample_served [Ok [0x40, 1]]))"

definition sample_touched :: daemon where
  "sample_touched = task_finish sample_world (\<lambda>_. Live) 0 sample_running"

lemma sample_running_tasks: "dm_tasks sample_running = [(sample_task 0)\<lparr>tk_pc := TRunning\<rparr>]"
  by (simp add: sample_running_def task_acquire_def set_task_def sample_started_def sample_served_def
      sample_serving_def daemon_new_def)

lemma sample_running_reachable: "reachable disp sample_world sample_running"
proof -
  let ?d = "sample_started (sample_served [Ok [0x40, 1]])"
  have "reachable disp sample_world ?d"
    by (rule sample_start [OF sample_served_reachable sample_served_fields(1,4)])
  from reachable.step [OF this dstep.acquire [where ts = "[]" and t = "sample_task 0" and us = "[]"]]
  show ?thesis
    by (simp add: sample_running_def sample_started_def sample_served_def sample_serving_def daemon_new_def sample_task_def)
qed

lemma sample_touched_step: "dstep disp sample_world sample_running sample_touched"
  using dstep.finish [of sample_running "[]" _ "[]" "\<lambda>_. Live"]
  by (simp add: sample_touched_def sample_running_tasks sees_token_def)

lemma sample_touched_waits: "touch_waits (dm_worker sample_touched) \<noteq> touch_waits (dm_worker sample_running)"
  by code_simp

theorem touches_are_authorised_witness:
  "\<exists>t. dm_tasks sample_running = [t] \<and> wk_claimed (dm_worker sample_running) = Some (tk_target t) \<and>
     lookup_uid sample_getent (tk_target t) = Some (tk_caller t)"
proof -
  from touches_are_authorised [OF sample_running_reachable sample_touched_step sample_touched_waits]
  obtain ts t us where t: "dm_tasks sample_running = ts @ t # us"
    "wk_claimed (dm_worker sample_running) = Some (tk_target t)"
    "tk_caller t = 0 \<or> lookup_uid sample_getent (tk_target t) = Some (tk_caller t)"
    by (auto simp: sample_world_def)
  have one: "ts = []" "us = []" "t = (sample_task 0)\<lparr>tk_pc := TRunning\<rparr>"
    using t(1) by (cases ts; simp add: sample_running_tasks)+
  show ?thesis by (rule exI [of _ t]) (use t one in \<open>simp add: sample_task_def\<close>)
qed

end
