(* ===== verification/DaemonLock.thy ===== *)
theory DaemonLock
  imports Daemon
begin

text \<open>
  What the daemon promises, without its threads: a lock on the reader that one user owns, under which
  one operation at a time is served.  The daemon refines it; and it never gets stuck.
\<close>

subsection \<open>Simulations\<close>

text \<open>A system whose steps are steps of another one, or not seen there.\<close>

locale simulation =
  fixes start :: "'c \<Rightarrow> bool" and move :: "'c \<Rightarrow> 'c \<Rightarrow> bool" and inv :: "'c \<Rightarrow> bool"
    and view :: "'c \<Rightarrow> 'a" and astart :: "'a \<Rightarrow> bool" and amove :: "'a \<Rightarrow> 'a \<Rightarrow> bool"
  assumes start_inv: "start c \<Longrightarrow> inv c"
    and move_inv: "inv c \<Longrightarrow> move c c' \<Longrightarrow> inv c'"
    and start_view: "start c \<Longrightarrow> astart (view c)"
    and move_view: "inv c \<Longrightarrow> move c c' \<Longrightarrow> view c' = view c \<or> amove (view c) (view c')"
begin

lemma run_inv: "start c \<Longrightarrow> move\<^sup>*\<^sup>* c c' \<Longrightarrow> inv c'"
  by (rotate_tac, induction rule: rtranclp_induct) (auto intro: start_inv move_inv)

lemma run_view:
  assumes "start c" "move\<^sup>*\<^sup>* c c'"
  shows "amove\<^sup>*\<^sup>* (view c) (view c')"
  using assms(2)
proof (induction rule: rtranclp_induct)
  case (step y z)
  then have "inv y" using run_inv assms(1) by blast
  then show ?case using step.IH move_view [OF _ step.hyps(2)] by (metis rtranclp.rtrancl_into_rtrancl)
qed simp

text \<open>What every step of the abstract system keeps, holds of the view.\<close>

lemma view_keeps:
  assumes "start c" "move\<^sup>*\<^sup>* c c'"
    and "\<And>a. astart a \<Longrightarrow> P a" and "\<And>a a'. P a \<Longrightarrow> amove a a' \<Longrightarrow> P a'"
  shows "P (view c')"
proof -
  have "P (view c)" using assms(1,3) start_view by blast
  with run_view [OF assms(1,2)] show ?thesis by (induction rule: rtranclp_induct) (auto intro: assms(4))
qed

end

subsection \<open>The lock\<close>

record lock =
  lk_owner :: "string option"
  lk_running :: "(nat \<times> string) option" \<comment> \<open>who started the operation, for whom\<close>
  lk_acts :: "(nat \<times> string) list" \<comment> \<open>who had something done for whom\<close>

definition lock_new :: lock where
  "lock_new = \<lparr>lk_owner = None, lk_running = None, lk_acts = []\<rparr>"

inductive lock_step :: "world \<Rightarrow> lock \<Rightarrow> lock \<Rightarrow> bool" for wd where
  take: "lk_running l = None \<Longrightarrow> lk_owner l \<in> {None, Some user} \<Longrightarrow> auth wd uid user \<Longrightarrow>
    lock_step wd l (l\<lparr>lk_owner := Some user, lk_acts := lk_acts l @ [(uid, user)]\<rparr>)"
| give: "lock_step wd l (l\<lparr>lk_owner := None\<rparr>)"
| begin_op: "lk_running l = None \<Longrightarrow> lk_owner l = Some user \<Longrightarrow> auth wd uid user \<Longrightarrow>
    lock_step wd l (l\<lparr>lk_running := Some (uid, user)\<rparr>)"
| serve: "lk_running l = Some (uid, user) \<Longrightarrow> lk_owner l = Some user \<Longrightarrow>
    lock_step wd l (l\<lparr>lk_running := None, lk_acts := lk_acts l @ [(uid, user)]\<rparr>)"
| drop: "lk_running l = Some (uid, user) \<Longrightarrow> lk_owner l = None \<Longrightarrow> lock_step wd l (l\<lparr>lk_running := None\<rparr>)"
| act: "auth wd uid user \<Longrightarrow> lock_step wd l (l\<lparr>lk_acts := lk_acts l @ [(uid, user)]\<rparr>)"

text \<open>The reader is never another's while an operation is under way, and nobody acts without a right to.\<close>

definition lock_ok :: "world \<Rightarrow> lock \<Rightarrow> bool" where
  "lock_ok wd l \<longleftrightarrow>
     (case lk_running l of None \<Rightarrow> True | Some (uid, user) \<Rightarrow> auth wd uid user \<and> lk_owner l \<in> {None, Some user}) \<and>
     (\<forall>a \<in> set (lk_acts l). auth wd (fst a) (snd a))"

lemma lock_ok_new: "lock_ok wd lock_new"
  by (simp add: lock_ok_def lock_new_def)

lemma lock_ok_step: "lock_ok wd l \<Longrightarrow> lock_step wd l l' \<Longrightarrow> lock_ok wd l'"
  by (erule lock_step.cases) (auto simp: lock_ok_def split: option.splits)

subsection \<open>The daemon seen as a lock\<close>

definition lock_of :: "daemon \<Rightarrow> lock" where
  "lock_of d =
     \<lparr>lk_owner = wk_claimed (dm_worker d),
      lk_running = (case filter active (dm_tasks d) of [] \<Rightarrow> None | t # _ \<Rightarrow> Some (tk_caller t, tk_target t)),
      lk_acts = dm_acts d\<rparr>"

lemma lock_of_frame:
  "wk_claimed (dm_worker d') = wk_claimed (dm_worker d) \<Longrightarrow>
   filter active (dm_tasks d') = filter active (dm_tasks d) \<Longrightarrow> dm_acts d' = dm_acts d \<Longrightarrow> lock_of d' = lock_of d"
  by (simp add: lock_of_def)

lemma lock_of_new: "lock_of (daemon_new (worker_new path fs opens script)) = lock_new"
  by (simp add: lock_of_def lock_new_def daemon_new_def worker_new_def)

lemma lock_of_act:
  "wk_claimed (dm_worker d') = wk_claimed (dm_worker d) \<Longrightarrow>
   filter active (dm_tasks d') = filter active (dm_tasks d) \<Longrightarrow> dm_acts d' = dm_acts d @ [(uid, user)] \<Longrightarrow>
   auth wd uid user \<Longrightarrow> lock_step wd (lock_of d) (lock_of d')"
  using lock_step.act [of wd uid user "lock_of d"] by (simp add: lock_of_def)

text \<open>The one active task is the one that is being stepped.\<close>

lemma only_active:
  assumes "conc_inv d" "dm_tasks d = ts @ t # us" "active t"
  shows "filter active (dm_tasks d) = [t]" "filter active ts = []" "filter active us = []"
    "wk_claimed (dm_worker d) \<in> {None, Some (tk_target t)}"
proof -
  have "length (filter active (dm_tasks d)) \<le> 1" using assms(1) by (simp add: conc_inv_def)
  then show f: "filter active ts = []" "filter active us = []" using assms(2,3) by simp_all
  then show "filter active (dm_tasks d) = [t]" using assms(2,3) by simp
  show "wk_claimed (dm_worker d) \<in> {None, Some (tk_target t)}" using assms by (simp add: conc_inv_def)
qed

lemma sim_claim:
  assumes "conc_inv d" "auth wd uid user" and "d' = snd (h_claim_locked uid user d)"
  shows "lock_of d' = lock_of d \<or> lock_step wd (lock_of d) (lock_of d')"
proof -
  let ?w = "dm_worker d"
  obtain r w where c: "claim user ?w = (r, w)" by fastforce
  have d': "d' = d\<lparr>dm_worker := w, dm_handler := HIdle, dm_acts := dm_acts d @ [(uid, user)]\<rparr>"
    by (simp add: h_claim_locked_def c assms(3))
  from claim_same_before [OF c] consider (same) "same_claim ?w w"
    | (taken) "wk_claimed ?w = None \<or> wk_claimed ?w = Some user" "\<not> os_busy (wk_state ?w)" "wk_claimed w = Some user"
    by blast
  then show ?thesis
  proof cases
    case same
    then show ?thesis using assms(2) unfolding d' by (intro disjI2 lock_of_act) (simp_all add: same_claim_def)
  next
    case w: taken
    then have "filter active (dm_tasks d) = []" using assms(1) by (simp add: conc_inv_def)
    then show ?thesis using lock_step.take [of "lock_of d" user wd uid] w assms(2) unfolding d' by (auto simp: lock_of_def)
  qed
qed

lemma sim_start:
  assumes "conc_inv d" and "d' = snd (h_start kind disp wd sender finger d)"
  shows "lock_of d' = lock_of d \<or> lock_step wd (lock_of d) (lock_of d')"
proof (cases rule: h_start_elim [of kind disp wd sender finger d])
  case refused
  then show ?thesis using assms(2) by simp
next
  case (started user uid token d1 t)
  have st: "\<not> os_busy (wk_state (dm_worker d))" "wk_claimed (dm_worker d1) = wk_claimed (dm_worker d)"
    using started(3) by (auto simp: start_op_def try_begin_def set_state_def split: if_splits)
  then have none: "filter active (dm_tasks d) = []" using assms(1) by (simp add: conc_inv_def)
  have "wk_claimed (dm_worker d) = Some user"
    using assms(1) started(1) by (auto simp: claimed_target_def conc_inv_def claim_agrees_def split: option.splits)
  then show ?thesis
    using lock_step.begin_op [of "lock_of d" user wd uid] guard_auth [OF started(2)] started st none
      start_op_frame [OF started(3)] assms(2)
    by (auto simp: lock_of_def active_def)
qed

lemma sim_finish:
  assumes "conc_inv d" "dm_tasks d = ts @ t # us" "tk_pc t = TRunning" and "d' = task_finish wd cancel (length ts) d"
  shows "lock_of d' = lock_of d \<or> lock_step wd (lock_of d) (lock_of d')"
proof -
  have act: "active t" using assms(3) by (simp add: active_def)
  note only = only_active [OF assms(1,2) act]
  let ?run = "case tk_kind t of OpVerify \<Rightarrow> verify | OpEnroll \<Rightarrow> worker_enroll"
  let ?w = "snd (?run (wd_env wd) (tk_finger t) (sink_new (tk_kind t)) cancel (dm_worker d))"
  have same: "same_claim (dm_worker d) ?w" by (auto split: op_kind.split intro: same_verify same_enroll)
  have d': "wk_claimed (dm_worker d') = wk_claimed (dm_worker d)" "filter active (dm_tasks d') = []"
    "dm_acts d' = dm_acts d @ (case wk_claimed (dm_worker d) of Some u \<Rightarrow> [(tk_caller t, u)] | None \<Rightarrow> [])"
    using assms(2) same only(2,3) assms(4) by (simp_all add: task_finish_def Let_def set_task_def active_def same_claim_def)
  show ?thesis
  proof (cases "wk_claimed (dm_worker d)")
    case None
    then show ?thesis using lock_step.drop [of "lock_of d" "tk_caller t" "tk_target t" wd] only(1) d'
      by (simp add: lock_of_def)
  next
    case (Some u)
    then show ?thesis using lock_step.serve [of "lock_of d" "tk_caller t" "tk_target t" wd] only d'
      by (simp add: lock_of_def)
  qed
qed

lemma lock_sim:
  assumes "dstep disp wd d d'" "conc_inv d" "auth_inv wd d"
  shows "lock_of d' = lock_of d \<or> lock_step wd (lock_of d) (lock_of d')"
  using assms
proof (induction rule: dstep.induct)
  case (claim_locked d uid user)
  then show ?case by (intro sim_claim) (simp_all add: auth_inv_def)
next
  case (release_locked d)
  have "lock_of (h_release_locked d) = (lock_of d)\<lparr>lk_owner := None\<rparr>"
    by (simp add: lock_of_def h_release_locked_def release_claim)
  then show ?case using lock_step.give by metis
next
  case (shutdown_locked d)
  have "lock_of (shutdown_locked d) = (lock_of d)\<lparr>lk_owner := None\<rparr>"
    by (simp add: lock_of_def shutdown_locked_def release_claim)
  then show ?case using lock_step.give by metis
next
  case (list_locked d user)
  have "same_claim (dm_worker d) (snd (list_prints (wd_env wd) user (dm_worker d)))" by (rule same_list)
  then show ?case by (intro disjI1 lock_of_frame) (auto simp: h_list_locked_def same_claim_def split: prod.split)
next
  case (delete_all_locked d uid user)
  have "same_claim (dm_worker d) (snd (list_prints (wd_env wd) user (dm_worker d)))" by (rule same_list)
  then show ?case
    by (intro disjI1 lock_of_frame) (auto simp: h_delete_all_locked_def same_claim_def split: prod.split sum.split)
next
  case (delete_each d uid user fingers)
  show ?case
  proof (cases fingers)
    case Nil
    then show ?thesis by (intro disjI1 lock_of_frame) (simp_all add: h_delete_each_def)
  next
    case (Cons finger rest)
    have "same_claim (dm_worker d) (snd (delete_finger (wd_env wd) (from_user_request user finger) (dm_worker d)))"
      by (rule same_delete)
    moreover have "auth wd uid user" using delete_each(1,4) by (simp add: auth_inv_def)
    ultimately show ?thesis
      by (intro disjI2 lock_of_act) (auto simp: h_delete_each_def Cons same_claim_def split: prod.split)
  qed
next
  case (delete_locked d uid intent)
  have "same_claim (dm_worker d) (snd (delete_finger (wd_env wd) intent (dm_worker d)))" by (rule same_delete)
  moreover have "auth wd uid (di_user intent)" using delete_locked(1,4) by (simp add: auth_inv_def)
  ultimately show ?case by (intro disjI2 lock_of_act) (auto simp: h_delete_locked_def same_claim_def split: prod.split)
next
  case (start d kind sender finger)
  then show ?case by (intro sim_start) simp_all
next
  case (acquire d ts t us)
  then have "active t" by (simp add: active_def)
  from only_active [OF acquire(4,1) this] show ?case using acquire(1)
    by (simp add: lock_of_def task_acquire_def set_task_def active_def)
next
  case (finish d ts t us cancel)
  then show ?case by (intro sim_finish) simp_all
next
  case (ending d ts t us)
  then show ?case by (intro disjI1 lock_of_frame) (simp_all add: task_end_def active_def)
next
  case (suspend_locked d)
  have "same_claim (dm_worker d) (suspend (dm_worker d))" by (rule same_suspend)
  then show ?case by (intro disjI1 lock_of_frame) (simp_all add: sleep_suspend_locked_def same_claim_def)
next
  case (resume d)
  have "same_claim (dm_worker d) (resume (dm_worker d))" by (rule same_resume)
  then show ?case by (intro disjI1 lock_of_frame) (simp_all add: sleep_resume_locked_def same_claim_def)
qed (auto simp: lock_of_def h_claim_def h_release_def h_list_def h_delete_all_def h_delete_def h_stop_def
    sleep_suspend_def shutdown_def split: sum.split)

subsection \<open>The refinement\<close>

definition daemon_start :: "daemon \<Rightarrow> bool" where
  "daemon_start d \<longleftrightarrow> (\<exists>path fs opens script. d = daemon_new (worker_new path fs opens script))"

lemma reachable_run: "reachable disp wd d \<longleftrightarrow> (\<exists>d0. daemon_start d0 \<and> (dstep disp wd)\<^sup>*\<^sup>* d0 d)"
proof
  show "reachable disp wd d \<Longrightarrow> \<exists>d0. daemon_start d0 \<and> (dstep disp wd)\<^sup>*\<^sup>* d0 d"
  proof (induction rule: reachable.induct)
    case (init path fs opens script)
    have "daemon_start (daemon_new (worker_new path fs opens script))" by (auto simp: daemon_start_def)
    then show ?case by blast
  next
    case (step d d')
    then show ?case by (metis rtranclp.rtrancl_into_rtrancl)
  qed
  assume "\<exists>d0. daemon_start d0 \<and> (dstep disp wd)\<^sup>*\<^sup>* d0 d"
  then obtain d0 where "daemon_start d0" "(dstep disp wd)\<^sup>*\<^sup>* d0 d" by blast
  from this(2,1) show "reachable disp wd d"
    by (induction rule: rtranclp_induct) (auto simp: daemon_start_def intro: reachable.intros)
qed

interpretation dl: simulation daemon_start "dstep disp wd" "\<lambda>d. conc_inv d \<and> auth_inv wd d"
    lock_of "(=) lock_new" "lock_step wd" for disp wd
proof unfold_locales
  fix d
  assume "daemon_start d"
  then have "reachable disp wd d" by (auto simp: daemon_start_def intro: reachable.init)
  then show "conc_inv d \<and> auth_inv wd d" using reachable_conc reachable_auth by blast
  show "lock_new = lock_of d" using \<open>daemon_start d\<close> lock_of_new by (auto simp: daemon_start_def)
qed (use conc_step auth_step lock_sim in blast)+

text \<open>C7: The daemon is a lock on the reader: seen from outside its threads, every run of the daemon,
  in whatever order its handlers, operations, sleep signals and shutdown interleave, is a run of a
  lock that one user owns, where taking needs a right to act for that user and no operation under
  way, an operation starts only for the owner and at the word of somebody who may act for them, at
  most one is under way, and it is served only as long as its user owns the lock.\<close>

theorem daemon_refines_lock:
  assumes "reachable disp wd d"
  shows "(lock_step wd)\<^sup>*\<^sup>* lock_new (lock_of d) \<and> lock_ok wd (lock_of d) \<and>
    (\<forall>d'. dstep disp wd d d' \<longrightarrow> lock_of d' = lock_of d \<or> lock_step wd (lock_of d) (lock_of d'))"
proof -
  obtain d0 where d0: "daemon_start d0" "(dstep disp wd)\<^sup>*\<^sup>* d0 d" using assms reachable_run by blast
  then have "(lock_step wd)\<^sup>*\<^sup>* lock_new (lock_of d)" using dl.run_view dl.start_view by metis
  moreover have "lock_ok wd (lock_of d)"
    using d0 by (rule dl.view_keeps) (auto intro: lock_ok_new lock_ok_step)
  moreover have "conc_inv d \<and> auth_inv wd d" using dl.run_inv d0 by blast
  ultimately show ?thesis using dl.move_view by blast
qed

text \<open>On the sample machine, once alice has claimed the reader.\<close>

theorem daemon_refines_lock_witness:
  "lk_owner (lock_of sample_claimed) = Some ''alice'' \<and>
   (lock_step sample_world)\<^sup>*\<^sup>* lock_new (lock_of sample_claimed)"
  using daemon_refines_lock [OF sample_claimed_reachable, of "\<lambda>_. ''e''"]
  by (simp add: lock_of_def sample_claimed_def sample_served_def sample_worker_eq)

subsection \<open>The daemon comes to rest\<close>

text \<open>The steps the daemon takes by itself, without a new request, signal or change of power.\<close>

inductive own_step :: "world \<Rightarrow> daemon \<Rightarrow> daemon \<Rightarrow> bool" for wd where
  claim: "dm_handler d = HClaim uid user \<Longrightarrow> \<not> dm_locked d \<Longrightarrow> own_step wd d (snd (h_claim_locked uid user d))"
| release: "dm_handler d = HRelease \<Longrightarrow> \<not> dm_locked d \<Longrightarrow> own_step wd d (h_release_locked d)"
| listing: "dm_handler d = HList user \<Longrightarrow> \<not> dm_locked d \<Longrightarrow> own_step wd d (snd (h_list_locked wd user d))"
| delete_all: "dm_handler d = HDeleteAll uid user \<Longrightarrow> \<not> dm_locked d \<Longrightarrow>
    own_step wd d (snd (h_delete_all_locked wd uid user d))"
| delete_each: "dm_handler d = HDeleteEach uid user fingers \<Longrightarrow> \<not> dm_locked d \<Longrightarrow>
    own_step wd d (snd (h_delete_each wd uid user fingers d))"
| delete: "dm_handler d = HDelete uid intent \<Longrightarrow> \<not> dm_locked d \<Longrightarrow>
    own_step wd d (snd (h_delete_locked wd uid intent d))"
| acquire: "dm_tasks d = ts @ t # us \<Longrightarrow> tk_pc t = TWaiting \<Longrightarrow> \<not> dm_locked d \<Longrightarrow>
    own_step wd d (task_acquire (length ts) d)"
| finish: "dm_tasks d = ts @ t # us \<Longrightarrow> tk_pc t = TRunning \<Longrightarrow> sees_token t d cancel \<Longrightarrow>
    own_step wd d (task_finish wd cancel (length ts) d)"
| ending: "dm_tasks d = ts @ t # us \<Longrightarrow> tk_pc t = TEnding \<Longrightarrow> own_step wd d (task_end (length ts) d)"
| suspend: "dm_suspending d \<Longrightarrow> \<not> dm_locked d \<Longrightarrow> own_step wd d (sleep_suspend_locked d)"

lemma own_is_step: "own_step wd d d' \<Longrightarrow> dstep disp wd d d'"
  by (induction rule: own_step.induct) (auto intro: dstep.intros)

text \<open>What is left to do: the list of fingers may get longer only while it is being read.\<close>

definition task_load :: "task \<Rightarrow> nat" where
  "task_load t = (case tk_pc t of TWaiting \<Rightarrow> 3 | TRunning \<Rightarrow> 2 | TEnding \<Rightarrow> 1)"

fun handler_load :: "handler \<Rightarrow> nat" where
  "handler_load HIdle = 0"
| "handler_load (HDeleteEach _ _ fingers) = length fingers + 1"
| "handler_load _ = 1"

definition left_to_do :: "daemon \<Rightarrow> nat" where
  "left_to_do d = sum_list (map task_load (dm_tasks d)) + handler_load (dm_handler d) + (if dm_suspending d then 1 else 0)"

definition reads_list :: "daemon \<Rightarrow> nat" where
  "reads_list d = (case dm_handler d of HDeleteAll _ _ \<Rightarrow> 1 | _ \<Rightarrow> 0)"

text \<open>What a handler is after it got the worker; the tasks and the suspend are as before.\<close>

lemma handler_turn:
  assumes "dm_tasks d' = dm_tasks d" "dm_suspending d' = dm_suspending d"
    and "reads_list d' < reads_list d \<or> reads_list d' = reads_list d \<and> handler_load (dm_handler d') < handler_load (dm_handler d)"
  shows "(d', d) \<in> measures [reads_list, left_to_do]"
  using assms by (auto simp: left_to_do_def)

lemma task_turn:
  assumes "dm_handler d' = dm_handler d" "dm_suspending d' = dm_suspending d"
    and "sum_list (map task_load (dm_tasks d')) < sum_list (map task_load (dm_tasks d))"
  shows "(d', d) \<in> measures [reads_list, left_to_do]"
  using assms by (simp add: left_to_do_def reads_list_def)

lemma own_step_less: "own_step wd d d' \<Longrightarrow> (d', d) \<in> measures [reads_list, left_to_do]"
proof (induction rule: own_step.induct)
  case (claim d uid user)
  then show ?case by (intro handler_turn) (simp_all add: h_claim_locked_def reads_list_def split: prod.split)
next
  case (release d)
  then show ?case by (intro handler_turn) (simp_all add: h_release_locked_def reads_list_def)
next
  case (listing d user)
  then show ?case by (intro handler_turn) (simp_all add: h_list_locked_def reads_list_def split: prod.split)
next
  case (delete_all d uid user)
  then show ?case
    by (intro handler_turn) (simp_all add: h_delete_all_locked_def reads_list_def split: prod.split sum.split)
next
  case (delete_each d uid user fingers)
  then show ?case
    by (intro handler_turn; cases fingers) (simp_all add: h_delete_each_def reads_list_def split: prod.split)
next
  case (delete d uid intent)
  then show ?case by (intro handler_turn) (simp_all add: h_delete_locked_def reads_list_def split: prod.split)
next
  case (acquire d ts t us)
  then show ?case by (intro task_turn) (simp_all add: task_acquire_def set_task_def task_load_def)
next
  case (finish d ts t us cancel)
  then show ?case by (intro task_turn) (simp_all add: task_finish_def Let_def set_task_def task_load_def)
next
  case (ending d ts t us)
  then show ?case by (intro task_turn) (simp_all add: task_end_def task_load_def)
next
  case (suspend d)
  then show ?case by (simp add: left_to_do_def reads_list_def sleep_suspend_locked_def)
qed

definition at_rest :: "daemon \<Rightarrow> bool" where
  "at_rest d \<longleftrightarrow> dm_handler d = HIdle \<and> dm_tasks d = [] \<and> \<not> dm_locked d \<and> \<not> dm_suspending d \<and>
     \<not> os_busy (wk_state (dm_worker d))"

lemma task_moves:
  assumes "conc_inv d" "dm_tasks d \<noteq> []"
  shows "\<exists>d'. own_step wd d d'"
proof (cases "\<exists>t \<in> set (dm_tasks d). tk_pc t \<noteq> TWaiting")
  case True
  then obtain t ts us where t: "dm_tasks d = ts @ t # us" "tk_pc t \<noteq> TWaiting" by (meson split_list)
  show ?thesis
  proof (cases "tk_pc t")
    case TRunning
    have "sees_token t d (\<lambda>_. Live)" by (simp add: sees_token_def)
    then show ?thesis using own_step.finish [OF t(1) TRunning] by blast
  qed (use t own_step.ending in blast)+
next
  case False
  then have "\<not> dm_locked d" using assms(1) by (auto simp: conc_inv_def)
  moreover obtain t us where "dm_tasks d = [] @ t # us" "tk_pc t = TWaiting"
    using False assms(2) by (cases "dm_tasks d") auto
  ultimately show ?thesis using own_step.acquire by blast
qed

lemma own_progress:
  assumes "conc_inv d" "\<not> at_rest d"
  shows "\<exists>d'. own_step wd d d'"
proof (cases "dm_tasks d = []")
  case True
  then have free: "\<not> dm_locked d" "\<not> os_busy (wk_state (dm_worker d))" using assms(1) by (auto simp: conc_inv_def split: if_splits)
  show ?thesis
  proof (cases "dm_handler d")
    case HIdle
    then have "dm_suspending d" using assms(2) True free by (simp add: at_rest_def)
    then show ?thesis using own_step.suspend free(1) by blast
  next
    case (HClaim uid user)
    then show ?thesis using own_step.claim free(1) by blast
  next
    case HRelease
    then show ?thesis using own_step.release free(1) by blast
  next
    case (HList user)
    then show ?thesis using own_step.listing free(1) by blast
  next
    case (HDeleteAll uid user)
    then show ?thesis using own_step.delete_all free(1) by blast
  next
    case (HDeleteEach uid user fingers)
    then show ?thesis using own_step.delete_each free(1) by blast
  next
    case (HDelete uid intent)
    then show ?thesis using own_step.delete free(1) by blast
  qed
qed (rule task_moves [OF assms(1)])

text \<open>C8: No request is left hanging: from any state the daemon can get into, its own steps (handlers
  that get the worker, operations that get it, end and clean up, a suspend under way) cannot go on
  for ever, and as long as a call is unanswered, an operation not over, the mutex or the busy flag
  held or a suspend not done, one of them can be taken; so there is no deadlock, every call is
  answered and every operation ends, unless the chip answers its one transfer after another with
  retries without end (an operation is one step here, over the answers still to come).\<close>

theorem daemon_comes_to_rest:
  assumes "reachable disp wd d"
  shows "(\<nexists>run. run 0 = d \<and> (\<forall>n. own_step wd (run n) (run (Suc n)))) \<and>
    (\<forall>d'. (own_step wd)\<^sup>*\<^sup>* d d' \<longrightarrow> at_rest d' \<or> (\<exists>d''. own_step wd d' d''))"
proof (intro conjI allI impI)
  show "\<nexists>run. run 0 = d \<and> (\<forall>n. own_step wd (run n) (run (Suc n)))"
  proof
    assume "\<exists>run. run 0 = d \<and> (\<forall>n. own_step wd (run n) (run (Suc n)))"
    then obtain run where "\<And>n. (run (Suc n), run n) \<in> measures [reads_list, left_to_do]"
      using own_step_less by blast
    then show False using wf_no_infinite_down_chainE [OF wf_measures] by metis
  qed
  fix d'
  assume "(own_step wd)\<^sup>*\<^sup>* d d'"
  then have "(dstep disp wd)\<^sup>*\<^sup>* d d'" by (rule rtranclp_mono [THEN predicate2D, rotated]) (auto intro: own_is_step)
  then have "reachable disp wd d'" using assms unfolding reachable_run by (meson rtranclp_trans)
  then show "at_rest d' \<or> (\<exists>d''. own_step wd d' d'')" using own_progress reachable_conc by blast
qed

theorem daemon_comes_to_rest_witness:
  "\<exists>d'. own_step sample_world (sample_started sample_claimed) d'"
proof -
  have r: "reachable (\<lambda>_. ''e'') sample_world (sample_started sample_claimed)"
    by (rule sample_start [OF sample_claimed_reachable sample_claimed_fields(1,4)])
  have "\<not> at_rest (sample_started sample_claimed)" by (simp add: at_rest_def sample_started_def)
  then show ?thesis using daemon_comes_to_rest [OF r] by blast
qed

text \<open>A release asks for no right: whoever sends it takes the reader from its owner.\<close>

theorem release_asks_nobody:
  assumes "reachable disp wd d" "dm_handler d = HIdle" "\<not> dm_locked d"
  shows "\<exists>d'. (dstep disp wd)\<^sup>*\<^sup>* d d' \<and> lk_owner (lock_of d') = None \<and> dm_acts d' = dm_acts d"
proof -
  let ?d1 = "h_release d"
  have "dstep disp wd d ?d1" using assms(2) by (rule dstep.release)
  moreover have "dstep disp wd ?d1 (h_release_locked ?d1)"
    using assms(3) by (intro dstep.release_locked) (simp_all add: h_release_def)
  ultimately have "(dstep disp wd)\<^sup>*\<^sup>* d (h_release_locked ?d1)" by auto
  moreover have "lk_owner (lock_of (h_release_locked ?d1)) = None" "dm_acts (h_release_locked ?d1) = dm_acts d"
    by (simp_all add: lock_of_def h_release_locked_def h_release_def release_claim)
  ultimately show ?thesis by blast
qed

end
