(* ===== verification/Service.thy ===== *)
theory Service
  imports DaemonLock
begin

text \<open>
  The rim of \<open>elanprintd/src/main.rs\<close>: the manager object, the constant properties of the device, the
  start of the daemon, the loop that listens for suspend and resume, and the end.
\<close>

subsection \<open>Names\<close>

definition BUS_NAME :: string where "BUS_NAME = ''net.reactivated.Fprint''"
definition MANAGER_PATH :: string where "MANAGER_PATH = ''/net/reactivated/Fprint/Manager''"
definition DEVICE_PATH :: string where "DEVICE_PATH = ''/net/reactivated/Fprint/Device/0''"
definition DEVICE_NAME :: string where "DEVICE_NAME = ''ELAN 04f3:0c90''"

definition get_devices :: "string list" where "get_devices = [DEVICE_PATH]"
definition get_default_device :: string where "get_default_device = DEVICE_PATH"

definition device_name :: string where "device_name = DEVICE_NAME"
definition scan_type :: string where "scan_type = ''press''"

text \<open>Stopping an enrolment is stopping whatever runs, as for a verification.\<close>

definition h_enroll_stop :: "daemon \<Rightarrow> daemon" where
  "h_enroll_stop d = stop_running d"

lemma enroll_stop_is_a_step: "dm_handler d = HIdle \<Longrightarrow> dstep disp wd d (h_enroll_stop d)"
  using dstep.stop [of d] by (simp add: h_enroll_stop_def h_stop_def)

lemma default_is_a_device: "get_default_device \<in> set get_devices"
  by (simp add: get_default_device_def get_devices_def)

subsection \<open>The start\<close>

text \<open>The environment variables, and how each call that may fail turns out; a served object is called a
  path and an object in the code.\<close>

record startup =
  su_store :: "path option"
  su_bus :: "string option"
  su_session :: "string + unit"
  su_system :: "string + unit"
  su_serve :: "string \<Rightarrow> string + unit"
  su_name :: "string \<Rightarrow> string + unit"
  su_term :: "string + unit"

definition store_path :: "startup \<Rightarrow> path" where
  "store_path su = (case su_store su of Some p \<Rightarrow> p | None \<Rightarrow> DEFAULT_PATH)"

definition daemon_main :: "startup \<Rightarrow> fsys \<Rightarrow> (usb_error + unit) list \<Rightarrow> (usb_error + byte list) list \<Rightarrow> string + daemon" where
  "daemon_main su fs opens script =
     (let d = daemon_new (worker_new (store_path su) fs opens script);
          session = (su_bus su = Some ''session'') in
      case (if session then su_session su else su_system su) of
        Err e \<Rightarrow> Err e
      | Ok _ \<Rightarrow>
      (case su_serve su MANAGER_PATH of
        Err e \<Rightarrow> Err e
      | Ok _ \<Rightarrow>
      (case su_serve su DEVICE_PATH of
        Err e \<Rightarrow> Err e
      | Ok _ \<Rightarrow>
      (case su_name su BUS_NAME of
        Err e \<Rightarrow> Err e
      | Ok _ \<Rightarrow>
      (case su_term su of
        Err e \<Rightarrow> Err e
      | Ok _ \<Rightarrow> Ok d)))))"

lemma daemon_main_starts:
  "daemon_main su fs opens script = Ok d \<Longrightarrow>
     daemon_start d \<and> wk_usb (dm_worker d) = None \<and> su_name su BUS_NAME = Ok ()"
  by (auto simp: daemon_main_def Let_def daemon_start_def daemon_new_def worker_new_def split: sum.splits)

subsection \<open>Suspend and resume\<close>

text \<open>A message of the stream: its body is a flag, or something else.\<close>

datatype sleep_message = PrepareForSleep bool | OtherBody

text \<open>What the listener acts upon.  The loop ends with the stream, and with its first error.\<close>

fun sleep_turns :: "(string + sleep_message) list \<Rightarrow> bool list" where
  "sleep_turns [] = []"
| "sleep_turns (Err _ # _) = []"
| "sleep_turns (Ok OtherBody # rest) = sleep_turns rest"
| "sleep_turns (Ok (PrepareForSleep suspending) # rest) = suspending # sleep_turns rest"

definition sleep_listener :: "string + unit \<Rightarrow> string + unit \<Rightarrow> (string + sleep_message) list \<Rightarrow> bool list" where
  "sleep_listener rule stream messages =
     (case rule of
        Err _ \<Rightarrow> []
      | Ok _ \<Rightarrow> (case stream of Err _ \<Rightarrow> [] | Ok _ \<Rightarrow> sleep_turns messages))"

text \<open>One turn when the worker is free.\<close>

definition sleep_turn :: "bool \<Rightarrow> daemon \<Rightarrow> daemon" where
  "sleep_turn suspending d = (if suspending then sleep_suspend_locked (sleep_suspend d) else sleep_resume_locked d)"

lemma sleep_turn_free:
  "dm_locked (sleep_turn b d) = dm_locked d" "\<not> dm_suspending d \<Longrightarrow> \<not> dm_suspending (sleep_turn b d)"
  by (simp_all add: sleep_turn_def sleep_suspend_locked_def sleep_suspend_def sleep_resume_locked_def)

lemma sleep_turn_steps:
  assumes "\<not> dm_locked d" "\<not> dm_suspending d"
  shows "(dstep disp wd)\<^sup>*\<^sup>* d (sleep_turn b d)"
proof (cases b)
  case True
  have "dstep disp wd d (sleep_suspend d)" using assms(2) by (rule dstep.suspend)
  moreover have "dstep disp wd (sleep_suspend d) (sleep_suspend_locked (sleep_suspend d))"
    using assms(1) by (intro dstep.suspend_locked) (simp_all add: sleep_suspend_def)
  ultimately show ?thesis using True by (simp add: sleep_turn_def)
next
  case False
  have "dstep disp wd d (sleep_resume_locked d)" using assms by (intro dstep.resume)
  then show ?thesis using False by (auto simp: sleep_turn_def)
qed

lemma sleep_turns_steps:
  "\<not> dm_locked d \<Longrightarrow> \<not> dm_suspending d \<Longrightarrow> (dstep disp wd)\<^sup>*\<^sup>* d (fold sleep_turn turns d)"
proof (induction turns arbitrary: d)
  case (Cons b turns)
  have "(dstep disp wd)\<^sup>*\<^sup>* (sleep_turn b d) (fold sleep_turn turns (sleep_turn b d))"
    using Cons by (simp add: sleep_turn_free)
  then show ?case using sleep_turn_steps [OF Cons.prems] by (auto intro: rtranclp_trans)
qed simp

lemma sleep_turn_drops:
  "wk_usb (dm_worker (sleep_turn b d)) = None \<and> \<not> wk_armed (dm_worker (sleep_turn b d)) \<and>
   wk_claimed (dm_worker (sleep_turn b d)) = wk_claimed (dm_worker d)"
  by (simp add: sleep_turn_def sleep_suspend_locked_def sleep_suspend_def sleep_resume_locked_def suspend_def
      resume_def set_armed_def frame_simps)

text \<open>However the machine went to sleep and woke up, no handle from before is held any more, so the next
  claim opens the device anew, for the user who holds the claim.\<close>

theorem sleep_drops_handle:
  assumes "turns = sleep_listener rule stream messages" "turns \<noteq> []"
    and "reachable disp wd d" "\<not> dm_locked d" "\<not> dm_suspending d"
  shows "reachable disp wd (fold sleep_turn turns d) \<and> wk_usb (dm_worker (fold sleep_turn turns d)) = None \<and>
    \<not> wk_armed (dm_worker (fold sleep_turn turns d)) \<and>
    wk_claimed (dm_worker (fold sleep_turn turns d)) = wk_claimed (dm_worker d)"
proof -
  have "reachable disp wd (fold sleep_turn turns d)"
    using sleep_turns_steps [OF assms(4,5)] assms(3) unfolding reachable_run by (meson rtranclp_trans)
  moreover have "wk_claimed (dm_worker (fold sleep_turn bs e)) = wk_claimed (dm_worker e)" for bs e
    by (induction bs arbitrary: e) (simp_all add: sleep_turn_drops)
  moreover obtain bs b where "turns = bs @ [b]" using assms(2) by (cases turns rule: rev_cases) auto
  ultimately show ?thesis by (simp add: sleep_turn_drops)
qed

subsection \<open>The end\<close>

definition daemon_exit :: "daemon \<Rightarrow> daemon" where
  "daemon_exit d = shutdown_locked (shutdown d)"

lemma daemon_exit_cleans:
  assumes "reachable disp wd d" "\<not> dm_locked d"
  shows "reachable disp wd (daemon_exit d) \<and> wk_claimed (dm_worker (daemon_exit d)) = None \<and>
    \<not> wk_armed (dm_worker (daemon_exit d)) \<and> dm_op_cancel (daemon_exit d) = None"
proof -
  have "reachable disp wd (shutdown d)" using assms(1) dstep.shutdown reachable.step by blast
  moreover have "dstep disp wd (shutdown d) (daemon_exit d)"
    unfolding daemon_exit_def using assms(2) by (intro dstep.shutdown_locked) (simp_all add: shutdown_def)
  ultimately show ?thesis
    by (auto simp: daemon_exit_def shutdown_locked_def shutdown_def release_claim release_def set_armed_def Let_def
        stop_running_def intro: reachable.step split: option.split)
qed

end
