(* ===== verification/LoginClient.thy ===== *)
theory LoginClient
  imports Algo
begin

text \<open>
  The D-Bus client of \<open>elanprint-login\<close> (\<open>client.rs\<close>): the calls it makes, and how it turns the
  daemon's signals into events for the window, with the session of \<open>elanprint-algo\<close> deciding.
  A run is over the list of what its \<open>select!\<close> sees, in order; the end of the list is the end of
  the status stream.  Replies depend on the number of the call and on the call.
\<close>

subsection \<open>Errors\<close>

text \<open>\<open>zbus::Error\<close>: an error reply with its name, or anything else.\<close>

datatype dbus_error = MethodError string | OtherDbus string

datatype client_error = CDbus dbus_error | CVariant | CNoReader

definition ends_with :: "string \<Rightarrow> string \<Rightarrow> bool" where
  "ends_with s p \<longleftrightarrow> starts_with (rev s) (rev p)"

definition is_named :: "dbus_error \<Rightarrow> string \<Rightarrow> bool" where
  "is_named e name = (case e of MethodError n \<Rightarrow> ends_with n name | OtherDbus _ \<Rightarrow> False)"

fun friendly :: "client_error \<Rightarrow> string" where
  "friendly CNoReader = ''no fingerprint reader on the bus''"
| "friendly (CDbus e) =
     (if is_named e ''NoEnrolledPrints'' then ''no fingerprints enrolled yet''
      else if is_named e ''PermissionDenied'' then ''not allowed, check permissions''
      else ''reader error, see log'')"
| "friendly CVariant = ''reader error, see log''"

definition empty_when_no_prints :: "client_error \<Rightarrow> client_error + string list" where
  "empty_when_no_prints e =
     (case e of
        CDbus d \<Rightarrow> (if is_named d ''NoEnrolledPrints'' then Ok [] else Err e)
      | _ \<Rightarrow> Err e)"

subsection \<open>The bus\<close>

datatype bus_call =
    CallConnect
  | CallManager
  | CallGetDevices
  | CallProxy
  | CallProperties
  | CallStages
  | CallList string
  | CallClaim string
  | CallRelease
  | CallDelete string
  | CallEnrollStart string
  | CallEnrollStop
  | CallVerifyStart string
  | CallVerifyStop
  | Subscribe string

text \<open>A stages reply that is no 32-bit integer is \<open>RBad\<close>; a reply of the wrong kind never reaches the
  caller, the bus library turns it into an error.\<close>

datatype reply = RUnit | RStrings "string list" | RInt int | RBad

type_synonym bus = "nat \<Rightarrow> bus_call \<Rightarrow> dbus_error + reply"

type_synonym 'a cop = "bus_call list \<Rightarrow> (client_error + 'a) \<times> bus_call list"

definition c_bind :: "'a cop \<Rightarrow> ('a \<Rightarrow> 'b cop) \<Rightarrow> 'b cop" where
  "c_bind m k l = (case m l of (Err e, l1) \<Rightarrow> (Err e, l1) | (Ok x, l1) \<Rightarrow> k x l1)"

definition c_ok :: "'a \<Rightarrow> 'a cop" where "c_ok x l = (Ok x, l)"
definition c_err :: "client_error \<Rightarrow> 'a cop" where "c_err e l = (Err e, l)"

definition c_call :: "bus \<Rightarrow> bus_call \<Rightarrow> reply cop" where
  "c_call bus call l = (map_sum CDbus id (bus (length l) call), l @ [call])"

text \<open>A call whose answer is thrown away.\<close>

definition c_ignore :: "bus \<Rightarrow> bus_call \<Rightarrow> bus_call list \<Rightarrow> bus_call list" where
  "c_ignore bus call l = l @ [call]"

definition client_connect :: "bus \<Rightarrow> string cop" where
  "client_connect bus =
     c_bind (c_call bus CallConnect) (\<lambda>_.
     c_bind (c_call bus CallManager) (\<lambda>_.
     c_bind (c_call bus CallGetDevices) (\<lambda>r.
       case r of RStrings (device # _) \<Rightarrow> c_ok device | _ \<Rightarrow> c_err CNoReader)))"

definition client_list :: "bus \<Rightarrow> string \<Rightarrow> string list cop" where
  "client_list bus user =
     c_bind (c_call bus CallProxy) (\<lambda>_ l.
       case c_call bus (CallList user) l of
         (Ok (RStrings fingers), l1) \<Rightarrow> (Ok fingers, l1)
       | (Ok _, l1) \<Rightarrow> (Ok [], l1)
       | (Err e, l1) \<Rightarrow> (empty_when_no_prints e, l1))"

definition client_stages :: "bus \<Rightarrow> int cop" where
  "client_stages bus =
     c_bind (c_call bus CallProperties) (\<lambda>_.
     c_bind (c_call bus CallStages) (\<lambda>r. case r of RInt n \<Rightarrow> c_ok n | _ \<Rightarrow> c_err CVariant))"

definition client_delete_finger :: "bus \<Rightarrow> string \<Rightarrow> string \<Rightarrow> unit cop" where
  "client_delete_finger bus user finger =
     c_bind (c_call bus CallProxy) (\<lambda>_.
     c_bind (c_call bus (CallClaim user)) (\<lambda>_ l.
       case c_call bus (CallDelete finger) l of
         (r, l1) \<Rightarrow> (map_sum id (\<lambda>_. ()) r, c_ignore bus CallRelease l1)))"

subsection \<open>Enrolment\<close>

datatype enroll_event =
    EStage byte byte
  | ERetry string
  | ECompleted
  | EFailed string
  | EFinished

text \<open>What the loop sees next: the cancellation, a status, or a message it cannot read.\<close>

datatype enroll_signal = EsCancel | EsStatus string bool | EsBad dbus_error

definition copy_enroll_failure :: "string \<Rightarrow> string" where
  "copy_enroll_failure r =
     (if r = ''enroll-duplicate'' then ''That finger is already enrolled, delete it first''
      else if r = ''enroll-data-full'' then ''The sensor has no free slots left''
      else if r = ''enroll-disconnected'' then ''The reader disconnected''
      else if r = ''enroll-failed'' \<or> r = ''enroll-unknown-error'' then ''Enrol failed, see log''
      else ''Enrol ended: '' @ r)"

definition saturating_add :: "byte \<Rightarrow> byte \<Rightarrow> byte" where
  "saturating_add a b = (if unat a + unat b < 256 then a + b else 255)"

text \<open>One status: the event it gives, and whether the run ends with it.\<close>

definition enroll_answer :: "string \<Rightarrow> bool \<Rightarrow> byte \<Rightarrow> byte \<Rightarrow> enroll_event \<times> bool" where
  "enroll_answer r finished stages tot =
     (if r = ''enroll-stage-passed'' \<and> \<not> finished then (EStage (saturating_add stages 1) tot, False)
      else if r = ''enroll-completed'' \<and> finished then (ECompleted, True)
      else if r \<in> {''enroll-failed'', ''enroll-data-full'', ''enroll-duplicate'', ''enroll-unknown-error'',
          ''enroll-disconnected''} \<and> finished then (EFailed (copy_enroll_failure r), True)
      else if r = ''enroll-retry-scan'' \<and> \<not> finished then (ERetry ''try again'', False)
      else if r = ''enroll-swipe-too-short'' \<and> \<not> finished then
        (ERetry ''hold your finger still and retry'', False)
      else if r = ''enroll-finger-not-centered'' \<and> \<not> finished then
        (ERetry ''centre your finger and retry'', False)
      else if r = ''enroll-remove-and-retry'' \<and> \<not> finished then
        (ERetry ''lift your finger and retry'', False)
      else (EFailed (''unexpected enroll status '' @ r), True))"

fun drive_enroll :: "byte \<Rightarrow> byte \<Rightarrow> enroll_signal list \<Rightarrow> (client_error + unit) \<times> enroll_event list" where
  "drive_enroll tot stages [] = (Ok (), [])"
| "drive_enroll tot stages (EsCancel # _) = (Ok (), [])"
| "drive_enroll tot stages (EsBad e # _) = (Err (CDbus e), [])"
| "drive_enroll tot stages (EsStatus r finished # rest) =
     (case enroll_answer r finished stages tot of
        (ev, True) \<Rightarrow> (Ok (), [ev])
      | (ev, False) \<Rightarrow>
          (case drive_enroll tot (case ev of EStage d _ \<Rightarrow> d | _ \<Rightarrow> stages) rest of
             (res, evs) \<Rightarrow> (res, ev # evs)))"

text \<open>Gives the events sent, too.\<close>

definition client_enroll :: "bus \<Rightarrow> string \<Rightarrow> string \<Rightarrow> enroll_signal list \<Rightarrow> bus_call list \<Rightarrow>
    ((client_error + unit) \<times> enroll_event list) \<times> bus_call list" where
  "client_enroll bus user finger signals l =
     (case c_bind (c_call bus CallProxy) (\<lambda>_.
           c_bind (c_call bus (CallClaim user)) (\<lambda>_ l.
             case client_stages bus l of
               (n, l1) \<Rightarrow> c_bind (c_call bus (Subscribe ''EnrollStatus'')) (\<lambda>_. c_ok n) l1)) l of
        (Err e, l1) \<Rightarrow> ((Err e, []), l1)
      | (Ok n, l1) \<Rightarrow>
          (let tot = (case n of Ok n \<Rightarrow> (if n > 0 then word_of_int n else 0) | Err _ \<Rightarrow> 0) in
           case c_call bus (CallEnrollStart finger) l1 of
             (Err e, l2) \<Rightarrow> ((Err e, []), c_ignore bus CallRelease l2)
           | (Ok _, l2) \<Rightarrow>
               (case drive_enroll tot 0 signals of
                  (res, evs) \<Rightarrow> ((res, evs @ [EFinished]),
                    c_ignore bus CallRelease (c_ignore bus CallEnrollStop l2)))))"

subsection \<open>Verification\<close>

datatype auth_event =
    APrompt string
  | ARetry string
  | AGranted
  | ADenied string
  | ALocked
  | AEFailed string
  | AFinger string
  | AFinished

datatype verify_signal =
    VsCancel
  | VsStatus string bool
  | VsFinger string
  | VsSelectedEnd
  | VsBad dbus_error

fun action_text :: "login_action \<Rightarrow> string" where
  "action_text (Prompt t) = t"
| "action_text (Deny t) = t"
| "action_text (AFailed t) = t"
| "action_text (Granted user) = ''granted for '' @ user"
| "action_text Locked = ''no tries left''"
| "action_text AIdle = ''idle''"

fun session_error_text :: "session_error \<Rightarrow> string" where
  "session_error_text (UnknownString s) = ''unknown status string '' @ CHR 0x27 # s @ CHR 0x27 # '', failing closed''"
| "session_error_text NoSession = ''signal arrived with no session running''"

text \<open>\<open>apply\<close>: the events of an answer of the session, and whether it ends the run.\<close>

fun answer_events :: "session_error + login_action \<Rightarrow> auth_event list \<times> bool" where
  "answer_events (Ok (Prompt t)) =
     ([if t = ''touch the sensor'' then APrompt t else ARetry t], False)"
| "answer_events (Ok (Granted _)) = ([AGranted], True)"
| "answer_events (Ok (Deny t)) = ([ADenied t], True)"
| "answer_events (Ok Locked) = ([ALocked], True)"
| "answer_events (Ok (AFailed t)) = ([AEFailed t], True)"
| "answer_events (Ok AIdle) = ([], True)"
| "answer_events (Err e) = ([AEFailed (session_error_text e)], True)"

fun drive :: "session \<Rightarrow> verify_signal list \<Rightarrow> (client_error + unit) \<times> auth_event list" where
  "drive s [] = (Ok (), [])"
| "drive s (VsCancel # _) = (Ok (), [])"
| "drive s (VsBad e # _) = (Err (CDbus e), [])"
| "drive s (VsSelectedEnd # rest) = drive s rest"
| "drive s (VsFinger finger # rest) =
     (case drive (snd (session_step s (FingerSelected finger))) rest of
        (res, evs) \<Rightarrow> (res, AFinger finger # evs))"
| "drive s (VsStatus r fin # rest) =
     (case session_step s (Status r fin) of
        (a, s1) \<Rightarrow>
          (case answer_events a of
             (evs, True) \<Rightarrow> (Ok (), evs)
           | (evs, False) \<Rightarrow> (case drive s1 rest of (res, evs') \<Rightarrow> (res, evs @ evs'))))"

definition client_verify :: "bus \<Rightarrow> string \<Rightarrow> string \<Rightarrow> verify_signal list \<Rightarrow> bus_call list \<Rightarrow>
    ((client_error + unit) \<times> auth_event list) \<times> bus_call list" where
  "client_verify bus user finger signals l =
     (case session_begin (session_new user) of
        (a, session) \<Rightarrow>
          (case c_bind (c_call bus CallProxy) (\<lambda>_.
                c_bind (c_call bus (CallClaim user)) (\<lambda>_.
                c_bind (c_call bus (Subscribe ''VerifyStatus'')) (\<lambda>_.
                c_call bus (Subscribe ''VerifyFingerSelected'')))) l of
             (Err e, l1) \<Rightarrow> ((Err e, [APrompt (action_text a)]), l1)
           | (Ok _, l1) \<Rightarrow>
               (case c_call bus (CallVerifyStart finger) l1 of
                  (Err e, l2) \<Rightarrow> ((Err e, [APrompt (action_text a)]), c_ignore bus CallRelease l2)
                | (Ok _, l2) \<Rightarrow>
                    (case drive session signals of
                       (res, evs) \<Rightarrow> ((res, APrompt (action_text a) # evs @ [AFinished]),
                         c_ignore bus CallRelease (c_ignore bus CallVerifyStop l2))))))"

text \<open>The task the window spawns: an error becomes a last event.\<close>

definition verify_task :: "bus \<Rightarrow> string \<Rightarrow> string \<Rightarrow> verify_signal list \<Rightarrow> bus_call list \<Rightarrow>
    auth_event list \<times> bus_call list" where
  "verify_task bus user finger signals l =
     (case client_verify bus user finger signals l of
        ((Ok _, evs), l1) \<Rightarrow> (evs, l1)
      | ((Err e, evs), l1) \<Rightarrow> (evs @ [AEFailed (friendly e)], l1))"

definition enroll_task :: "bus \<Rightarrow> string \<Rightarrow> string \<Rightarrow> enroll_signal list \<Rightarrow> bus_call list \<Rightarrow>
    enroll_event list \<times> bus_call list" where
  "enroll_task bus user finger signals l =
     (case client_enroll bus user finger signals l of
        ((Ok _, evs), l1) \<Rightarrow> (evs, l1)
      | ((Err e, evs), l1) \<Rightarrow> (evs @ [EFailed (friendly e)], l1))"

subsection \<open>Runs of a verification\<close>

text \<open>Prompts, hints and names of fingers say nothing about the outcome.\<close>

fun auth_outcome :: "auth_event \<Rightarrow> bool" where
  "auth_outcome (APrompt _) = False"
| "auth_outcome (ARetry _) = False"
| "auth_outcome (AFinger _) = False"
| "auth_outcome AFinished = False"
| "auth_outcome _ = True"

lemma step_tries: "s_policy s = pam_default \<Longrightarrow> s_state s = Waiting 0 \<Longrightarrow>
    fst (session_step s (Status r fin)) \<noteq> Ok Locked"
  by (auto simp: step_status_def allows_def pam_default_def policy_new_def Let_def)

lemma step_keeps_waiting:
  assumes "s_state s = Waiting 0" "answer_events (fst (session_step s (Status r fin))) = (evs, False)"
  shows "s_state (snd (session_step s (Status r fin))) = Waiting 0"
  using assms by (auto simp: step_status_def Let_def split: if_splits)

lemma answer_shape:
  "answer_events a = (evs, stop) \<Longrightarrow>
     (if stop then evs = [] \<and> a = Ok AIdle \<or> (\<exists>ev. evs = [ev] \<and> auth_outcome ev)
      else \<exists>ev. evs = [ev] \<and> \<not> auth_outcome ev \<and> ev \<noteq> AFinished)"
  by (cases a rule: answer_events.cases) auto

lemma status_not_idle: "fst (session_step s (Status r fin)) \<noteq> Ok AIdle"
  by (auto simp: step_status_def Let_def split: session_state.split)

text \<open>A run's events: uninformative ones, then at most one outcome, which is the last.\<close>

fun run_shape :: "auth_event list \<Rightarrow> bool" where
  "run_shape [] = True"
| "run_shape (ev # evs) = (if auth_outcome ev then evs = [] else ev \<noteq> AFinished \<and> run_shape evs)"

lemma drive_shape: "run_shape (snd (drive s signals))"
proof (induction s signals rule: drive.induct)
  case (5 s finger rest)
  then show ?case by (simp add: split_def)
next
  case (6 s r fin rest)
  obtain a s1 where st: "session_step s (Status r fin) = (a, s1)" by fastforce
  obtain evs0 stop where an: "answer_events a = (evs0, stop)" by fastforce
  note shape = answer_shape [OF an]
  show ?case
  proof (cases stop)
    case True
    then have "evs0 = [] \<or> (\<exists>ev. evs0 = [ev] \<and> auth_outcome ev)" using shape by (simp split: if_splits) blast
    then show ?thesis using st an True by (elim disjE exE conjE) simp_all
  next
    case False
    then obtain ev where "evs0 = [ev]" "\<not> auth_outcome ev" "ev \<noteq> AFinished" using shape by auto
    then show ?thesis using "6.IH" [OF st [symmetric] an [symmetric]] False st an by (simp add: split_def)
  qed
qed simp_all

lemma drive_granted:
  assumes "drive s signals = (res, evs)" "AGranted \<in> set evs"
  shows "VsStatus verify_MATCH True \<in> set signals"
  using assms
proof (induction s signals arbitrary: res evs rule: drive.induct)
  case (5 s finger rest)
  then show ?case by (auto split: prod.splits)
next
  case (6 s r fin rest)
  obtain a s1 where st: "session_step s (Status r fin) = (a, s1)" by fastforce
  obtain evs0 stop where an: "answer_events a = (evs0, stop)" by fastforce
  show ?case
  proof (cases "AGranted \<in> set evs0")
    case True
    then obtain u where "a = Ok (Granted u)" using an by (cases a rule: answer_events.cases) (auto split: if_splits)
    then show ?thesis using session_step_granted [of s "Status r fin" u] st by auto
  next
    case False
    then show ?thesis using "6.prems" "6.IH" [OF st [symmetric] an [symmetric]] st an
      by (cases stop) (auto split: prod.splits)
  qed
qed auto

lemma drive_never_locks:
  assumes "drive s signals = (res, evs)" "s_policy s = pam_default" "s_state s = Waiting 0"
  shows "ALocked \<notin> set evs"
  using assms
proof (induction s signals arbitrary: res evs rule: drive.induct)
  case (5 s finger rest)
  then show ?case by (auto split: prod.splits)
next
  case (6 s r fin rest)
  obtain a s1 where st: "session_step s (Status r fin) = (a, s1)" by fastforce
  obtain evs0 stop where an: "answer_events a = (evs0, stop)" by fastforce
  have "a \<noteq> Ok Locked" using step_tries [of s r fin] "6.prems"(2,3) st by simp
  then have no: "ALocked \<notin> set evs0" using an by (cases a rule: answer_events.cases) (auto split: if_splits)
  show ?case
  proof (cases stop)
    case True
    then show ?thesis using "6.prems"(1) st an no by auto
  next
    case False
    then have "s_state s1 = Waiting 0" "s_policy s1 = pam_default"
      using step_keeps_waiting [of s r fin evs0] "6.prems"(2,3) st an session_step_frame(2) [of s "Status r fin"]
      by simp_all
    moreover obtain res1 evs1 where d: "drive s1 rest = (res1, evs1)" by fastforce
    ultimately have "ALocked \<notin> set evs1"
      using "6.IH" [OF st [symmetric] an [symmetric]] False by simp
    then show ?thesis using "6.prems"(1) st an False no d by auto
  qed
qed auto

text \<open>The ways a verification can go.\<close>

lemma client_verify_cases:
  obtains (early) e l1 where "client_verify bus user finger signals l = ((Err e, [APrompt ''touch the sensor'']), l @ l1)"
      "l1 \<in> {[CallProxy], [CallProxy, CallClaim user], [CallProxy, CallClaim user, Subscribe ''VerifyStatus''],
        [CallProxy, CallClaim user, Subscribe ''VerifyStatus'', Subscribe ''VerifyFingerSelected'']}"
      "l1 = [CallProxy, CallClaim user] \<Longrightarrow> \<not> is_ok (bus (length l + 1) (CallClaim user))"
      "l1 = [CallProxy] \<Longrightarrow> \<not> is_ok (bus (length l) CallProxy)"
    | (refused) e where "client_verify bus user finger signals l = ((Err e, [APrompt ''touch the sensor'']),
        l @ [CallProxy, CallClaim user, Subscribe ''VerifyStatus'', Subscribe ''VerifyFingerSelected'',
          CallVerifyStart finger, CallRelease])"
    | (ran) res evs where "drive (snd (session_begin (session_new user))) signals = (res, evs)"
        "client_verify bus user finger signals l = ((res, APrompt ''touch the sensor'' # evs @ [AFinished]),
        l @ [CallProxy, CallClaim user, Subscribe ''VerifyStatus'', Subscribe ''VerifyFingerSelected'',
          CallVerifyStart finger, CallVerifyStop, CallRelease])"
proof -
  obtain res evs where d: "drive ((session_new user)\<lparr>s_state := Waiting 0\<rparr>) signals = (res, evs)" by fastforce
  let ?n = "length l"
  note defs = client_verify_def session_begin_def c_bind_def c_call_def c_ignore_def
  consider e where "bus ?n CallProxy = Err e"
    | a e where "bus ?n CallProxy = Ok a" "bus (?n + 1) (CallClaim user) = Err e"
    | a b e where "bus ?n CallProxy = Ok a" "bus (?n + 1) (CallClaim user) = Ok b"
        "bus (?n + 2) (Subscribe ''VerifyStatus'') = Err e"
    | a b c e where "bus ?n CallProxy = Ok a" "bus (?n + 1) (CallClaim user) = Ok b"
        "bus (?n + 2) (Subscribe ''VerifyStatus'') = Ok c" "bus (?n + 3) (Subscribe ''VerifyFingerSelected'') = Err e"
    | a b c f e where "bus ?n CallProxy = Ok a" "bus (?n + 1) (CallClaim user) = Ok b"
        "bus (?n + 2) (Subscribe ''VerifyStatus'') = Ok c" "bus (?n + 3) (Subscribe ''VerifyFingerSelected'') = Ok f"
        "bus (?n + 4) (CallVerifyStart finger) = Err e"
    | a b c f g where "bus ?n CallProxy = Ok a" "bus (?n + 1) (CallClaim user) = Ok b"
        "bus (?n + 2) (Subscribe ''VerifyStatus'') = Ok c" "bus (?n + 3) (Subscribe ''VerifyFingerSelected'') = Ok f"
        "bus (?n + 4) (CallVerifyStart finger) = Ok g"
    by (metis sum.exhaust)
  then show thesis
  proof cases
    case (1 e)
    then show thesis by (intro early [of "CDbus e" "[CallProxy]"]) (simp_all add: defs)
  next
    case (2 a e)
    then show thesis by (intro early [of "CDbus e" "[CallProxy, CallClaim user]"]) (simp_all add: defs)
  next
    case (3 a b e)
    then show thesis
      by (intro early [of "CDbus e" "[CallProxy, CallClaim user, Subscribe ''VerifyStatus'']"])
        (simp_all add: defs numeral_2_eq_2)
  next
    case (4 a b c e)
    then show thesis
      by (intro early [of "CDbus e" "[CallProxy, CallClaim user, Subscribe ''VerifyStatus'', Subscribe ''VerifyFingerSelected'']"])
        (simp_all add: defs numeral_2_eq_2 numeral_3_eq_3)
  next
    case (5 a b c f e)
    then show thesis
      by (intro refused [of "CDbus e"]) (simp add: defs eval_nat_numeral)
  next
    case (6 a b c f g)
    then show thesis using d
      by (intro ran [of res evs]) (simp_all add: defs eval_nat_numeral)
  qed
qed

lemma session_new_waiting:
  "s_policy (snd (session_begin (session_new user))) = pam_default"
  "s_state (snd (session_begin (session_new user))) = Waiting 0"
  by (simp_all add: session_begin_def session_new_def session_with_policy_def)

subsection \<open>Properties\<close>

text \<open>The window is told the truth about a verification: the task sends Granted only when the
  daemon has sent a final verify-match, sends at most one outcome, and always ends with Finished or
  a failure, so the window never waits for a task that is over.  It never reports that the tries are
  used up: each verification has a session of its own, which its first mismatch ends.\<close>

theorem verify_task_events:
  "case verify_task bus user finger signals l of (evs, l') \<Rightarrow>
     (AGranted \<notin> set evs \<or> VsStatus verify_MATCH True \<in> set signals) \<and> ALocked \<notin> set evs \<and>
     (\<exists>mid. run_shape mid \<and>
        (evs = APrompt ''touch the sensor'' # mid \<and> (\<exists>t. last evs = AEFailed t) \<or>
         evs = APrompt ''touch the sensor'' # mid @ [AFinished] \<or>
         (\<exists>t. evs = APrompt ''touch the sensor'' # mid @ [AFinished, AEFailed t])))"
proof (cases rule: client_verify_cases [of bus user finger signals l])
  case (early e l1)
  then show ?thesis by (auto simp: verify_task_def intro!: exI [of _ "[AEFailed (friendly e)]"])
next
  case (refused e)
  then show ?thesis by (auto simp: verify_task_def intro!: exI [of _ "[AEFailed (friendly e)]"])
next
  case (ran res evs)
  have shape: "run_shape evs" using drive_shape ran(1) by (metis snd_conv)
  have granted: "AGranted \<notin> set evs \<or> VsStatus verify_MATCH True \<in> set signals"
    using drive_granted [OF ran(1)] by blast
  have locked: "ALocked \<notin> set evs" by (rule drive_never_locks [OF ran(1) session_new_waiting])
  show ?thesis
  proof (cases res)
    case (Inl e)
    then show ?thesis using ran(2) shape granted locked by (auto simp: verify_task_def)
  next
    case (Inr u)
    then show ?thesis using ran(2) shape granted locked by (auto simp: verify_task_def)
  qed
qed

theorem verify_task_events_witness:
  "AGranted \<notin> set (fst (verify_task (\<lambda>_ _. Ok RUnit) ''alice'' ''any'' [VsStatus ''verify-no-match'' True] []))"
  using verify_task_events [where bus = "\<lambda>_ _. Ok RUnit" and user = "''alice''" and finger = "''any''"
      and signals = "[VsStatus ''verify-no-match'' True]" and l = "[]"]
  by (auto simp: verify_MATCH_def split: prod.splits)

lemma client_stages_calls:
  "\<exists>n. client_stages bus l = (n, l @ [CallProperties]) \<or> client_stages bus l = (n, l @ [CallProperties, CallStages])"
  by (cases "bus (length l) CallProperties"; cases "bus (Suc (length l)) CallStages")
    (auto simp: client_stages_def c_bind_def c_call_def c_ok_def c_err_def split: reply.split)

lemma enroll_calls:
  assumes "client_enroll bus user finger signals l = ((r, evs), l')" "bus (length l) CallProxy = Ok a"
    "bus (length l + 1) (CallClaim user) = Ok b"
  shows "last l' = CallRelease \<or> \<not> is_ok r \<and> last l' = Subscribe ''EnrollStatus''"
proof -
  obtain n l1 where st: "client_stages bus (l @ [CallProxy, CallClaim user]) = (n, l1)" by fastforce
  note defs = client_enroll_def c_bind_def c_call_def c_ignore_def c_ok_def Let_def
  show ?thesis
  proof (cases "bus (length l1) (Subscribe ''EnrollStatus'')")
    case (Inl e)
    then show ?thesis using assms st by (simp add: defs) (metis is_ok_simps(2) last_snoc)
  next
    case (Inr c)
    then show ?thesis using assms st by (auto simp: defs split: sum.splits prod.splits)
  qed
qed

lemma verify_calls:
  assumes "client_verify bus user finger signals l = ((r, evs), l')"
    "bus (length l + 1) (CallClaim user) = Ok b" "bus (length l) CallProxy = Ok a"
  shows "last l' = CallRelease \<or>
    \<not> is_ok r \<and> last l' \<in> {Subscribe ''VerifyStatus'', Subscribe ''VerifyFingerSelected''}"
proof (cases rule: client_verify_cases [of bus user finger signals l])
  case (early e l1)
  then show ?thesis using assms by auto
next
  case (refused e)
  then show ?thesis using assms(1) by auto
next
  case (ran res evs')
  then show ?thesis using assms(1) by auto
qed

text \<open>The client gives the device back: when the daemon has granted the claim, the last call of a
  verification, an enrolment or a deletion is Release, whatever the daemon answers, the signals say
  and the user cancels, except when a subscription to the signals fails, which returns at once.\<close>

theorem client_releases:
  assumes "bus (length l) CallProxy = Ok a" and "bus (length l + 1) (CallClaim user) = Ok b"
  shows "(case client_verify bus user finger vs l of ((r, _), l') \<Rightarrow>
      last l' = CallRelease \<or> \<not> is_ok r \<and> last l' \<in> {Subscribe ''VerifyStatus'', Subscribe ''VerifyFingerSelected''}) \<and>
    (case client_enroll bus user finger es l of ((r, _), l') \<Rightarrow>
      last l' = CallRelease \<or> \<not> is_ok r \<and> last l' = Subscribe ''EnrollStatus'') \<and>
    last (snd (client_delete_finger bus user finger l)) = CallRelease"
proof -
  obtain r1 e1 l1 where v: "client_verify bus user finger vs l = ((r1, e1), l1)" by (metis prod.exhaust)
  obtain r2 e2 l2 where e: "client_enroll bus user finger es l = ((r2, e2), l2)" by (metis prod.exhaust)
  have "last (snd (client_delete_finger bus user finger l)) = CallRelease"
    using assms by (simp add: client_delete_finger_def c_bind_def c_call_def c_ignore_def split: prod.split)
  then show ?thesis using verify_calls [OF v assms(2,1)] enroll_calls [OF e assms] v e by simp
qed

theorem client_releases_witness:
  "last (snd (client_delete_finger (\<lambda>_ c. case c of CallDelete _ \<Rightarrow> Err (OtherDbus ''gone'') | _ \<Rightarrow> Ok RUnit)
     ''alice'' ''left-thumb'' [])) = CallRelease"
  using client_releases [of "\<lambda>_ c. case c of CallDelete _ \<Rightarrow> Err (OtherDbus ''gone'') | _ \<Rightarrow> Ok RUnit" "[]" RUnit
      "''alice''" RUnit "''left-thumb''" "[]" "[]"] by simp

text \<open>The failed subscription leaves the claim behind.\<close>

theorem failed_subscription_keeps_claim:
  "\<exists>bus. case client_enroll bus user finger signals [] of ((r, _), l') \<Rightarrow>
     \<not> is_ok r \<and> CallClaim user \<in> set l' \<and> CallRelease \<notin> set l'"
  by (intro exI [of _ "\<lambda>_ c. case c of Subscribe _ \<Rightarrow> Err (OtherDbus ''no match rule'') | _ \<Rightarrow> Ok RUnit"])
    (simp add: client_enroll_def client_stages_def c_bind_def c_call_def c_err_def)

subsection \<open>The events of an enrolment\<close>

text \<open>The numbers the stage events should carry, up to what a byte can hold.\<close>

fun enroll_shape :: "byte \<Rightarrow> byte \<Rightarrow> enroll_event list \<Rightarrow> bool" where
  "enroll_shape tot n [] = True"
| "enroll_shape tot n (EStage d t # evs) = (d = saturating_add n 1 \<and> t = tot \<and> enroll_shape tot d evs)"
| "enroll_shape tot n (ERetry _ # evs) = enroll_shape tot n evs"
| "enroll_shape tot n (ECompleted # evs) = (evs = [])"
| "enroll_shape tot n (EFailed _ # evs) = (evs = [])"
| "enroll_shape tot n (EFinished # evs) = False"

lemma enroll_answer_shape:
  assumes "enroll_answer r fin n tot = (ev, stop)"
  shows "(stop \<longrightarrow> ev = ECompleted \<and> r = ''enroll-completed'' \<and> fin \<or> (\<exists>t. ev = EFailed t)) \<and>
    (\<not> stop \<longrightarrow> ev = EStage (saturating_add n 1) tot \<and> r = ''enroll-stage-passed'' \<or> (\<exists>t. ev = ERetry t))"
  using assms unfolding enroll_answer_def
  by (auto split: if_split_asm)

lemma drive_enroll_shape: "enroll_shape tot n (snd (drive_enroll tot n signals))"
proof (induction tot n signals rule: drive_enroll.induct)
  case (4 tot n r fin rest)
  obtain ev stop where an: "enroll_answer r fin n tot = (ev, stop)" by fastforce
  note shape = enroll_answer_shape [OF an]
  show ?case
  proof (cases stop)
    case True
    then show ?thesis using shape an by (auto split: if_splits)
  next
    case False
    then show ?thesis using shape an "4.IH" [OF an [symmetric]] by (auto simp: split_def)
  qed
qed simp_all

lemma drive_enroll_completed:
  "ECompleted \<in> set (snd (drive_enroll tot n signals)) \<Longrightarrow> EsStatus ''enroll-completed'' True \<in> set signals"
proof (induction tot n signals rule: drive_enroll.induct)
  case (4 tot n r fin rest)
  obtain ev stop where an: "enroll_answer r fin n tot = (ev, stop)" by fastforce
  note shape = enroll_answer_shape [OF an]
  show ?case
  proof (cases stop)
    case True
    then show ?thesis using shape an "4.prems" by auto
  next
    case False
    then show ?thesis using shape an "4.IH" [OF an [symmetric]] "4.prems" by (auto simp: split_def)
  qed
qed simp_all

text \<open>The window is told the truth about an enrolment: Completed is sent only after the daemon's
  final enroll-completed; the stages it reports are numbered one by one, each with the number of
  stages read at the start; and at most one Completed or Failed is sent by a run, as its last word
  before Finished.\<close>

theorem enroll_run_events:
  "case client_enroll bus user finger signals l of ((r, evs), _) \<Rightarrow>
     (ECompleted \<notin> set evs \<or> EsStatus ''enroll-completed'' True \<in> set signals) \<and>
     (evs = [] \<or> (\<exists>tot mid. evs = mid @ [EFinished] \<and> enroll_shape tot 0 mid))"
proof -
  obtain r evs l' where c: "client_enroll bus user finger signals l = ((r, evs), l')" by (metis prod.exhaust)
  have "evs = [] \<or> (\<exists>tot. evs = snd (drive_enroll tot 0 signals) @ [EFinished])"
    using c by (auto simp: client_enroll_def Let_def split: prod.splits sum.splits) (metis snd_conv)+
  then show ?thesis
  proof (elim disjE exE)
    assume "evs = []"
    then show ?thesis using c by simp
  next
    fix tot
    assume e: "evs = snd (drive_enroll tot 0 signals) @ [EFinished]"
    then have "ECompleted \<notin> set evs \<or> EsStatus ''enroll-completed'' True \<in> set signals"
      using drive_enroll_completed [of tot 0 signals] by auto
    then show ?thesis using c e drive_enroll_shape [of tot 0 signals] by auto
  qed
qed

theorem enroll_run_events_witness:
  "ECompleted \<notin> set (snd (fst (client_enroll (\<lambda>_ _. Ok RUnit) ''alice'' ''left-thumb''
     [EsStatus ''enroll-stage-passed'' False] [])))"
  using enroll_run_events [where bus = "\<lambda>_ _. Ok RUnit" and user = "''alice''" and finger = "''left-thumb''"
      and signals = "[EsStatus ''enroll-stage-passed'' False]" and l = "[]"]
  by (auto split: prod.splits)

end
