(* ===== verification/KeyringSetup.thy ===== *)
theory KeyringSetup
  imports Store PamStack PamModule
begin

text \<open>
  The root half of \<open>elanprint-keyring-setup\<close>: sealing (\<open>seal.rs\<close>), the state report and its checks
  (\<open>preflight.rs\<close>) and the operations of \<open>lib.rs\<close> (provision, deprovision, rotate, rollback and the
  rest) on a root file system.  \<open>systemd-creds\<close>, the random device, \<open>chmod\<close> and the clock are
  functions of the number of the call, so they may answer differently each time.
\<close>

definition CRED_DIR :: path where "CRED_DIR = [''var'', ''lib'', ''elanprint-rs'']"
definition CRED :: path where "CRED = [''var'', ''lib'', ''elanprint-rs'', ''keyring.cred'']"
definition CRED_PREVIOUS :: path where
  "CRED_PREVIOUS = [''var'', ''lib'', ''elanprint-rs'', ''keyring.cred.prev'']"
definition RECOVERY_FILE :: path where "RECOVERY_FILE = [''root'', ''keyring-key.txt'']"
definition FINGERPRINT_STACK :: path where "FINGERPRINT_STACK = [''etc'', ''pam.d'', ''gdm-fingerprint'']"
definition PASSWORD_STACK :: path where "PASSWORD_STACK = [''etc'', ''pam.d'', ''gdm-password'']"

definition show_path :: "path \<Rightarrow> string" where
  "show_path p = concat (map (\<lambda>c. CHR ''/'' # c) p)"

subsection \<open>Errors, outside and state\<close>

text \<open>\<open>anyhow\<close>: an error, a message, or either with a context in front.\<close>

datatype setup_error = SIo io_error | SMsg string | SCtx string setup_error

text \<open>What \<open>systemd-creds encrypt\<close> did: whether it started, the failure of writing its input, the
  blob it left at the credential's path (if any), and its end.\<close>

record encrypt_run =
  er_spawn :: "io_error + unit"
  er_write :: "io_error + unit"
  er_blob :: "string option"
  er_wait :: "io_error + exit_status"

record outside =
  ow_urandom :: "nat \<Rightarrow> io_error + unit"
  ow_random :: "nat \<Rightarrow> io_error + (nat \<Rightarrow> byte)"
  ow_encrypt :: "nat \<Rightarrow> string \<Rightarrow> encrypt_run"
  ow_decrypt :: "nat \<Rightarrow> string option \<Rightarrow> io_error + (exit_status \<times> string \<times> string)"
  ow_chmod :: "nat \<Rightarrow> io_error + unit"
  ow_clock :: "nat \<Rightarrow> nat"

record root =
  rt_fs :: fsys
  rt_mode :: "path \<Rightarrow> nat option"
  rt_calls :: nat

type_synonym 'a rop = "root \<Rightarrow> (setup_error + 'a) \<times> root"

definition r_bind :: "'a rop \<Rightarrow> ('a \<Rightarrow> 'b rop) \<Rightarrow> 'b rop" where
  "r_bind m k s = (case m s of (Err e, s1) \<Rightarrow> (Err e, s1) | (Ok x, s1) \<Rightarrow> k x s1)"

definition r_ok :: "'a \<Rightarrow> 'a rop" where "r_ok x s = (Ok x, s)"
definition r_bail :: "string \<Rightarrow> 'a rop" where "r_bail msg s = (Err (SMsg msg), s)"

definition r_context :: "string \<Rightarrow> 'a rop \<Rightarrow> 'a rop" where
  "r_context c m s = (case m s of (Err e, s1) \<Rightarrow> (Err (SCtx c e), s1) | (Ok x, s1) \<Rightarrow> (Ok x, s1))"

text \<open>An operation of the file system, and an answer of the outside.\<close>

definition r_fs :: "(fsys \<Rightarrow> (io_error + 'a) \<times> fsys) \<Rightarrow> 'a rop" where
  "r_fs f s = (case f (rt_fs s) of (r, fs) \<Rightarrow> (map_sum SIo id r, s\<lparr>rt_fs := fs\<rparr>))"

definition r_call :: "(nat \<Rightarrow> io_error + 'a) \<Rightarrow> 'a rop" where
  "r_call f s = (map_sum SIo id (f (rt_calls s)), s\<lparr>rt_calls := rt_calls s + 1\<rparr>)"

text \<open>\<open>std::fs\<close>: \<open>write\<close>, \<open>copy\<close>, \<open>remove_file\<close> and \<open>Path::exists\<close>.\<close>

definition fs_write :: "path \<Rightarrow> string \<Rightarrow> fsys \<Rightarrow> (io_error + unit) \<times> fsys" where
  "fs_write p text fs =
     (case open_truncate p fs of (Err e, fs1) \<Rightarrow> (Err e, fs1) | (Ok _, fs1) \<Rightarrow> write_all p text fs1)"

definition fs_copy :: "path \<Rightarrow> path \<Rightarrow> fsys \<Rightarrow> (io_error + unit) \<times> fsys" where
  "fs_copy a b fs =
     (case read_to_string a fs of (Err e, fs1) \<Rightarrow> (Err e, fs1) | (Ok text, fs1) \<Rightarrow> fs_write b text fs1)"

definition remove_file :: "path \<Rightarrow> fsys \<Rightarrow> (io_error + unit) \<times> fsys" where
  "remove_file p fs =
     (case fs_fault fs (fs_count fs) of
        Some (e, _) \<Rightarrow> (Err e, fs_tick fs)
      | None \<Rightarrow> (case fs_files fs p of
          None \<Rightarrow> (Err IoNotFound, fs_tick fs)
        | Some _ \<Rightarrow> (Ok (), fs_tick (fs\<lparr>fs_files := (fs_files fs)(p := None)\<rparr>))))"

definition fs_exists :: "path \<Rightarrow> fsys \<Rightarrow> bool \<times> fsys" where
  "fs_exists p fs = (fs_fault fs (fs_count fs) = None \<and> fs_files fs p \<noteq> None, fs_tick fs)"

definition r_exists :: "path \<Rightarrow> bool rop" where
  "r_exists p s = (case fs_exists p (rt_fs s) of (b, fs) \<Rightarrow> (Ok b, s\<lparr>rt_fs := fs\<rparr>))"

subsection \<open>Sealing\<close>

definition SECRET_BYTES :: nat where "SECRET_BYTES = 32"

definition generate :: "outside \<Rightarrow> string rop" where
  "generate w =
     r_bind (r_context ''opening /dev/urandom'' (r_call (ow_urandom w))) (\<lambda>_.
     r_bind (r_context ''reading /dev/urandom'' (r_call (ow_random w))) (\<lambda>raw.
     r_ok (concat (map (\<lambda>i. hex_byte (raw i)) [0..<SECRET_BYTES]))))"

definition set_mode :: "outside \<Rightarrow> path \<Rightarrow> nat \<Rightarrow> string \<Rightarrow> unit rop" where
  "set_mode w p mode shown =
     r_bind (r_context (''chmod '' @ shown @ '' '' @ show_path p) (r_call (ow_chmod w))) (\<lambda>_ s.
       (Ok (), s\<lparr>rt_mode := (rt_mode s)(p := Some mode)\<rparr>))"

definition start_encrypt :: "outside \<Rightarrow> string \<Rightarrow> encrypt_run rop" where
  "start_encrypt w secret s =
     (let run = ow_encrypt w (rt_calls s) secret; s1 = s\<lparr>rt_calls := rt_calls s + 1\<rparr> in
      case er_spawn run of
        Err e \<Rightarrow> (Err (SCtx ''running systemd-creds encrypt'' (SIo e)), s1)
      | Ok _ \<Rightarrow>
          (Ok run, (case er_blob run of
             None \<Rightarrow> s1
           | Some blob \<Rightarrow> s1\<lparr>rt_fs := (rt_fs s1)\<lparr>fs_files := (fs_files (rt_fs s1))(CRED := Some blob)\<rparr>\<rparr>)))"

definition seal_as_root :: "outside \<Rightarrow> string \<Rightarrow> unit rop" where
  "seal_as_root w secret =
     r_bind (r_context (''creating '' @ show_path CRED_DIR) (r_fs (create_dir_all CRED_DIR))) (\<lambda>_.
     r_bind (set_mode w CRED_DIR 448 ''700'') (\<lambda>_.
     r_bind (start_encrypt w secret) (\<lambda>run.
     r_bind (r_context ''writing the secret to systemd-creds'' (r_call (\<lambda>_. er_write run))) (\<lambda>_.
     r_bind (r_context ''waiting for systemd-creds'' (r_call (\<lambda>_. er_wait run))) (\<lambda>status.
       if \<not> ex_success status then r_bail (''sealing failed: '' @ ex_text status)
       else set_mode w CRED 384 ''600'')))))"

definition run_decrypt :: "outside \<Rightarrow> (exit_status \<times> string \<times> string) rop" where
  "run_decrypt w s = r_context ''running systemd-creds decrypt''
     (r_call (\<lambda>n. ow_decrypt w n (fs_files (rt_fs s) CRED))) s"

definition verify_as_root :: "outside \<Rightarrow> string \<Rightarrow> unit rop" where
  "verify_as_root w secret =
     r_bind (run_decrypt w) (\<lambda>(status, out, err).
       if \<not> ex_success status then r_bail (''unsealing failed: '' @ from_utf8_lossy err)
       else if trim_eol (from_utf8_lossy out) \<noteq> secret
       then r_bail ''the unsealed secret does not match what was sealed''
       else r_ok ())"

definition unseal_as_root :: "outside \<Rightarrow> string rop" where
  "unseal_as_root w =
     r_bind (run_decrypt w) (\<lambda>(status, out, err).
       if \<not> ex_success status then r_bail (''unsealing failed: '' @ from_utf8_lossy err)
       else
         (let secret = trim_eol (from_utf8_lossy out) in
          if secret = [] then r_bail ''the unsealed secret is empty'' else r_ok secret))"

definition write_recovery_as_root :: "outside \<Rightarrow> string \<Rightarrow> unit rop" where
  "write_recovery_as_root w secret =
     r_bind (r_context (''writing '' @ show_path RECOVERY_FILE) (r_fs (fs_write RECOVERY_FILE (secret @ [NL])))) (\<lambda>_.
     set_mode w RECOVERY_FILE 384 ''600'')"

subsection \<open>Operations\<close>

definition backup_as_root :: "outside \<Rightarrow> path \<Rightarrow> path rop" where
  "backup_as_root w stack s =
     (let stamp = ow_clock w (rt_calls s);
          to = [''root'', (if stack = [] then ''pam-stack'' else last stack) @ ''.bak.'' @ show_nat stamp] in
      r_bind (r_context (''backing up '' @ show_path stack @ '' to '' @ show_path to) (r_fs (fs_copy stack to)))
        (\<lambda>_. r_ok to) (s\<lparr>rt_calls := rt_calls s + 1\<rparr>))"

definition write_as_root :: "path \<Rightarrow> string \<Rightarrow> unit rop" where
  "write_as_root stack text = r_context (''writing '' @ show_path stack) (r_fs (fs_write stack text))"

text \<open>The stack and its backup, none when it was wired before.\<close>

type_synonym wired = "path \<times> path option"

definition r_read :: "path \<Rightarrow> (string option) rop" where
  "r_read p s = (case read_to_string p (rt_fs s) of
     (r, fs) \<Rightarrow> (Ok (case r of Ok text \<Rightarrow> Some text | Err _ \<Rightarrow> None), s\<lparr>rt_fs := fs\<rparr>))"

definition r_insert :: "string \<Rightarrow> change rop" where
  "r_insert text s = (map_sum SMsg id (pam_insert text), s)"

fun wire_stacks :: "outside \<Rightarrow> path list \<Rightarrow> wired list \<Rightarrow> wired list rop" where
  "wire_stacks w [] acc = r_ok acc"
| "wire_stacks w (stack # rest) acc =
     r_bind (r_read stack) (\<lambda>r.
       case r of
         None \<Rightarrow> wire_stacks w rest acc
       | Some text \<Rightarrow>
           r_bind (r_insert text) (\<lambda>c.
             case c of
               AlreadyPresent \<Rightarrow> wire_stacks w rest (acc @ [(stack, None)])
             | Added updated \<Rightarrow>
                 r_bind (backup_as_root w stack) (\<lambda>backup.
                 r_bind (write_as_root stack updated) (\<lambda>_.
                 wire_stacks w rest (acc @ [(stack, Some backup)])))))"

definition provision :: "outside \<Rightarrow> bool \<Rightarrow> (string \<times> wired list) rop" where
  "provision w fingerprint_only =
     r_bind (r_exists CRED) (\<lambda>e.
       if e then r_bail (show_path CRED @ '' already exists. Sealing over it would leave the keyring '' @
         ''locked to a secret nothing holds any more'')
       else
         r_bind (generate w) (\<lambda>secret.
         r_bind (r_context ''sealing the secret to the TPM'' (seal_as_root w secret)) (\<lambda>_.
         r_bind (r_context ''the sealed secret did not round trip'' (verify_as_root w secret)) (\<lambda>_.
         r_bind (r_context ''writing the recovery file'' (write_recovery_as_root w secret)) (\<lambda>_.
         r_bind (wire_stacks w
           (if fingerprint_only then [FINGERPRINT_STACK] else [FINGERPRINT_STACK, PASSWORD_STACK]) [])
           (\<lambda>wired. r_ok (secret, wired)))))))"

fun unwire_stacks :: "outside \<Rightarrow> path list \<Rightarrow> wired list \<Rightarrow> wired list rop" where
  "unwire_stacks w [] acc = r_ok acc"
| "unwire_stacks w (stack # rest) acc =
     r_bind (r_read stack) (\<lambda>r.
       case r of
         None \<Rightarrow> unwire_stacks w rest acc
       | Some text \<Rightarrow>
           (case pam_remove text of
              None \<Rightarrow> unwire_stacks w rest acc
            | Some updated \<Rightarrow>
                r_bind (backup_as_root w stack) (\<lambda>backup.
                r_bind (write_as_root stack updated) (\<lambda>_.
                unwire_stacks w rest (acc @ [(stack, Some backup)])))))"

definition deprovision :: "outside \<Rightarrow> wired list rop" where
  "deprovision w = unwire_stacks w [FINGERPRINT_STACK, PASSWORD_STACK] []"

definition reveal :: "outside \<Rightarrow> string rop" where
  "reveal w = unseal_as_root w"

definition rotate_seal :: "outside \<Rightarrow> (string \<times> string) rop" where
  "rotate_seal w =
     r_bind (r_context ''reading the current secret'' (unseal_as_root w)) (\<lambda>old.
     r_bind (generate w) (\<lambda>new.
     r_bind (r_context (''keeping the old secret at '' @ show_path CRED_PREVIOUS)
       (r_fs (fs_copy CRED CRED_PREVIOUS))) (\<lambda>_.
     r_bind (r_context ''sealing the new secret'' (seal_as_root w new)) (\<lambda>_.
     r_bind (r_context ''the new secret did not round trip'' (verify_as_root w new)) (\<lambda>_.
     r_bind (r_context ''writing the recovery file'' (write_recovery_as_root w new)) (\<lambda>_.
     r_ok (old, new)))))))"

definition rollback :: "outside \<Rightarrow> unit rop" where
  "rollback w =
     r_bind (r_exists CRED_PREVIOUS) (\<lambda>e.
       if \<not> e then r_bail ''no previous secret to restore''
       else
         r_bind (r_context ''restoring the previous secret'' (r_fs (fs_copy CRED_PREVIOUS CRED))) (\<lambda>_.
         r_bind (unseal_as_root w) (\<lambda>secret.
         write_recovery_as_root w secret)))"

definition wire_password :: "outside \<Rightarrow> wired option rop" where
  "wire_password w =
     r_bind (r_context (''reading '' @ show_path PASSWORD_STACK) (r_fs (read_to_string PASSWORD_STACK))) (\<lambda>text.
     r_bind (r_insert text) (\<lambda>c.
       case c of
         AlreadyPresent \<Rightarrow> r_ok None
       | Added updated \<Rightarrow>
           r_bind (backup_as_root w PASSWORD_STACK) (\<lambda>backup.
           r_bind (write_as_root PASSWORD_STACK updated) (\<lambda>_.
           r_ok (Some (PASSWORD_STACK, Some backup))))))"

definition forget_recovery_file :: "unit rop" where
  "forget_recovery_file s =
     (case remove_file RECOVERY_FILE (rt_fs s) of
        (Ok _, fs) \<Rightarrow> (Ok (), s\<lparr>rt_fs := fs\<rparr>)
      | (Err e, fs) \<Rightarrow>
          (if e = IoNotFound then (Ok (), s\<lparr>rt_fs := fs\<rparr>)
           else (Err (SCtx (''removing '' @ show_path RECOVERY_FILE) (SIo e)), s\<lparr>rt_fs := fs\<rparr>)))"

subsection \<open>Preflight\<close>

datatype cred = CredPresent | CredAbsent | CredUnreadable

record report =
  rp_tpm :: bool
  rp_module :: "string option"
  rp_cred :: cred
  rp_fingerprint_wired :: bool
  rp_password_wired :: bool
  rp_keyring_present :: bool

text \<open>\<open>cred_state\<close> from the answer of \<open>metadata\<close>.\<close>

definition cred_state :: "io_error + unit \<Rightarrow> cred" where
  "cred_state r = (case r of Ok _ \<Rightarrow> CredPresent | Err e \<Rightarrow> (if e = IoNotFound then CredAbsent else CredUnreadable))"

definition stack_wired :: "io_error + string \<Rightarrow> bool" where
  "stack_wired r = (case r of Ok text \<Rightarrow> list_ex is_our_line (lines text) | Err _ \<Rightarrow> False)"

definition keyring_line :: "io_error + string \<Rightarrow> setup_error + bool" where
  "keyring_line r = (case r of Ok text \<Rightarrow> Ok (list_ex is_keyring_auth (lines text)) | Err e \<Rightarrow> Err (SIo e))"

text \<open>\<open>stack_exists\<close> and \<open>stack\<close> are what the two looks at the fingerprint stack find; \<open>keyring\<close> is
  the display of the login keyring's path.\<close>

definition require_ready :: "report \<Rightarrow> bool \<Rightarrow> io_error + string \<Rightarrow> string \<Rightarrow> setup_error + unit" where
  "require_ready rep stack_exists stack keyring =
     (if \<not> rp_tpm rep then Err (SMsg ''no usable TPM 2.0: systemd-creds has-tpm2 says no'')
      else if rp_module rep = None then
        Err (SMsg (MODULE @ '' is not installed. Install the elanprint-rs package first''))
      else if \<not> stack_exists then
        Err (SMsg (show_path FINGERPRINT_STACK @ '' does not exist, so there is no fingerprint login to unlock''))
      else
        (case keyring_line stack of
           Err e \<Rightarrow> Err e
         | Ok present \<Rightarrow>
             (if \<not> present then
                Err (SMsg (show_path FINGERPRINT_STACK @ '' has no pam_gnome_keyring auth line to sit above''))
              else if \<not> rp_keyring_present rep then Err (SMsg (''no login keyring at '' @ keyring))
              else Ok ())))"

end
