(* ===== verification/KeyringProps.thy ===== *)
theory KeyringProps
  imports KeyringSetup
begin

text \<open>
  What the root operations of the keyring setup promise.  \<open>touches\<close> frames every operation by the
  paths it may change; from it: an existing credential is never sealed over, nothing is wired before
  the seal has round tripped, a rotation never loses the old blob, and what the setup seals is what
  the PAM module supplies.
\<close>

abbreviation files :: "root \<Rightarrow> path \<Rightarrow> string option" where
  "files s \<equiv> fs_files (rt_fs s)"

subsection \<open>Frames\<close>

definition touches :: "(path \<Rightarrow> bool) \<Rightarrow> 'a rop \<Rightarrow> bool" where
  "touches P m \<longleftrightarrow> (\<forall>s. fs_fault (rt_fs (snd (m s))) = fs_fault (rt_fs s) \<and>
     (\<forall>p. \<not> P p \<longrightarrow> files (snd (m s)) p = files s p))"

lemma touchesD: "touches P m \<Longrightarrow> \<not> P p \<Longrightarrow> m s = (r, s') \<Longrightarrow> files s' p = files s p"
  unfolding touches_def by (metis snd_conv)

lemma touches_fault: "touches P m \<Longrightarrow> m s = (r, s') \<Longrightarrow> fs_fault (rt_fs s') = fs_fault (rt_fs s)"
  unfolding touches_def by (metis snd_conv)

lemma touches_weaken: "touches P m \<Longrightarrow> (\<And>p. P p \<Longrightarrow> Q p) \<Longrightarrow> touches Q m"
  by (auto simp: touches_def)

lemma touches_bind [keeps_rules]: "touches P m \<Longrightarrow> (\<And>x. touches P (k x)) \<Longrightarrow> touches P (r_bind m k)"
  by (simp add: touches_def r_bind_def split: prod.split sum.split) (metis snd_conv)

lemma touches_context [keeps_rules]: "touches P m \<Longrightarrow> touches P (r_context c m)"
  by (simp add: touches_def r_context_def split: prod.split sum.split) (metis snd_conv)

lemma touches_ok [keeps_rules]: "touches P (r_ok x)"
  by (simp add: touches_def r_ok_def)

lemma touches_bail [keeps_rules]: "touches P (r_bail msg)"
  by (simp add: touches_def r_bail_def)

lemma touches_call [keeps_rules]: "touches P (r_call f)"
  by (simp add: touches_def r_call_def)

lemma touches_mkdir [keeps_rules]: "touches P (r_fs (create_dir_all d))"
  by (simp add: touches_def r_fs_def create_dir_all_def fs_tick_def split: option.split)

lemma touches_read_fs [keeps_rules]: "touches P (r_fs (read_to_string p))"
  by (simp add: touches_def r_fs_def read_to_string_def fs_tick_def split: option.split)

lemma fs_write_frame:
  "q \<noteq> p \<Longrightarrow> fs_files (snd (fs_write p text fs)) q = fs_files fs q"
  "fs_fault (snd (fs_write p text fs)) = fs_fault fs"
  by (simp_all add: fs_write_def open_truncate_def write_all_def fs_tick_def split: option.split)

lemma fs_copy_frame:
  "q \<noteq> b \<Longrightarrow> fs_files (snd (fs_copy a b fs)) q = fs_files fs q"
  "fs_fault (snd (fs_copy a b fs)) = fs_fault fs"
  using fs_write_frame(1) [of q b] fs_write_frame(2) [of b]
  by (simp_all add: fs_copy_def read_to_string_def fs_tick_def split: option.split)

lemma touches_write_fs [keeps_rules]: "P p \<Longrightarrow> touches P (r_fs (fs_write p text))"
  using fs_write_frame by (auto simp: touches_def r_fs_def split: prod.split) (metis snd_conv)+

lemma touches_copy_fs [keeps_rules]: "P b \<Longrightarrow> touches P (r_fs (fs_copy a b))"
  using fs_copy_frame by (auto simp: touches_def r_fs_def split: prod.split) (metis snd_conv)+

lemma touches_exists [keeps_rules]: "touches P (r_exists p)"
  by (simp add: touches_def r_exists_def fs_exists_def fs_tick_def)

lemma touches_set_mode [keeps_rules]: "touches P (set_mode w p mode shown)"
  unfolding set_mode_def by (intro keeps_rules) (simp add: touches_def)

lemma touches_encrypt [keeps_rules]: "P CRED \<Longrightarrow> touches P (start_encrypt w secret)"
  by (auto simp: touches_def start_encrypt_def Let_def split: sum.split option.split)

lemma touches_decrypt [keeps_rules]: "touches P (run_decrypt w)"
  by (simp add: touches_def run_decrypt_def r_context_def r_call_def split: prod.split sum.split)

lemma touches_generate [keeps_rules]: "touches P (generate w)"
  unfolding generate_def by (intro keeps_rules)

lemma touches_seal [keeps_rules]: "P CRED \<Longrightarrow> touches P (seal_as_root w secret)"
  unfolding seal_as_root_def by (auto intro!: keeps_rules split: if_split)

lemma touches_verify [keeps_rules]: "touches P (verify_as_root w secret)"
  unfolding verify_as_root_def by (auto intro!: keeps_rules split: prod.split if_split)

lemma touches_unseal [keeps_rules]: "touches P (unseal_as_root w)"
  unfolding unseal_as_root_def by (auto intro!: keeps_rules simp: Let_def split: prod.split if_split)

lemma touches_recovery [keeps_rules]: "P RECOVERY_FILE \<Longrightarrow> touches P (write_recovery_as_root w secret)"
  unfolding write_recovery_as_root_def by (auto intro!: keeps_rules)

lemma touches_r_read [keeps_rules]: "touches P (r_read p)"
  by (simp add: touches_def r_read_def read_to_string_def fs_tick_def split: option.split)

lemma touches_insert [keeps_rules]: "touches P (r_insert text)"
  by (simp add: touches_def r_insert_def)

lemma touches_write_stack [keeps_rules]: "P p \<Longrightarrow> touches P (write_as_root p text)"
  unfolding write_as_root_def by (auto intro!: keeps_rules)

text \<open>The backups of the two stacks, which are no file the setup keeps anything in.\<close>

definition stack_paths :: "path list" where
  "stack_paths = [FINGERPRINT_STACK, PASSWORD_STACK]"

definition is_backup :: "path \<Rightarrow> bool" where
  "is_backup p \<longleftrightarrow> (\<exists>stack \<in> set stack_paths. \<exists>n. p = [''root'', last stack @ ''.bak.'' @ show_nat n])"

lemma touches_backup [keeps_rules]:
  assumes "stack \<in> set stack_paths" "\<And>p. is_backup p \<Longrightarrow> P p"
  shows "touches P (backup_as_root w stack)"
proof -
  have "stack \<noteq> []" using assms(1) by (auto simp: stack_paths_def FINGERPRINT_STACK_def PASSWORD_STACK_def)
  moreover have "P [''root'', last stack @ ''.bak.'' @ show_nat n]" for n
    using assms by (auto simp: is_backup_def)
  ultimately show ?thesis
    using fs_copy_frame
    by (auto simp: touches_def backup_as_root_def r_bind_def r_context_def r_fs_def r_ok_def Let_def
        split: prod.split sum.split) (metis snd_conv)+
qed

lemma not_backup [simp]:
  "\<not> is_backup CRED" "\<not> is_backup CRED_PREVIOUS" "\<not> is_backup RECOVERY_FILE"
  "\<not> is_backup FINGERPRINT_STACK" "\<not> is_backup PASSWORD_STACK"
  by (auto simp: is_backup_def stack_paths_def CRED_def CRED_PREVIOUS_def RECOVERY_FILE_def
      FINGERPRINT_STACK_def PASSWORD_STACK_def)

lemma distinct_paths [simp]:
  "CRED \<noteq> RECOVERY_FILE" "RECOVERY_FILE \<noteq> CRED" "CRED \<noteq> CRED_PREVIOUS" "CRED_PREVIOUS \<noteq> CRED"
  "CRED_PREVIOUS \<noteq> RECOVERY_FILE" "RECOVERY_FILE \<noteq> CRED_PREVIOUS"
  "CRED \<notin> set stack_paths" "CRED_PREVIOUS \<notin> set stack_paths" "RECOVERY_FILE \<notin> set stack_paths"
  "FINGERPRINT_STACK \<noteq> PASSWORD_STACK" "PASSWORD_STACK \<noteq> FINGERPRINT_STACK"
  by (auto simp: CRED_def CRED_PREVIOUS_def RECOVERY_FILE_def FINGERPRINT_STACK_def PASSWORD_STACK_def
      stack_paths_def)

definition wiring_path :: "path \<Rightarrow> bool" where
  "wiring_path p \<longleftrightarrow> p \<in> set stack_paths \<or> is_backup p"

lemma wiring_pathI [intro]: "p \<in> set stack_paths \<Longrightarrow> wiring_path p" "is_backup p \<Longrightarrow> wiring_path p"
  by (simp_all add: wiring_path_def)

lemma touches_wire:
  assumes "\<And>p. is_backup p \<Longrightarrow> P p"
  shows "set stacks \<subseteq> set stack_paths \<Longrightarrow> (\<And>p. p \<in> set stacks \<Longrightarrow> P p) \<Longrightarrow> touches P (wire_stacks w stacks acc)"
proof (induction w stacks acc rule: wire_stacks.induct)
  case (2 w stack rest acc)
  have "touches P (case r of None \<Rightarrow> wire_stacks w rest acc
      | Some text \<Rightarrow> r_bind (r_insert text) (\<lambda>c. case c of
          AlreadyPresent \<Rightarrow> wire_stacks w rest (acc @ [(stack, None)])
        | Added updated \<Rightarrow> r_bind (backup_as_root w stack) (\<lambda>backup.
            r_bind (write_as_root stack updated) (\<lambda>_. wire_stacks w rest (acc @ [(stack, Some backup)])))))" for r
    using 2 assms by (auto intro!: keeps_rules split: option.split change.split)
  then show ?case by (auto intro!: keeps_rules)
qed (simp add: touches_ok)

lemma touches_unwire:
  assumes "\<And>p. is_backup p \<Longrightarrow> P p"
  shows "set stacks \<subseteq> set stack_paths \<Longrightarrow> (\<And>p. p \<in> set stacks \<Longrightarrow> P p) \<Longrightarrow> touches P (unwire_stacks w stacks acc)"
proof (induction w stacks acc rule: unwire_stacks.induct)
  case (2 w stack rest acc)
  have "touches P (case r of None \<Rightarrow> unwire_stacks w rest acc
      | Some text \<Rightarrow> (case pam_remove text of
          None \<Rightarrow> unwire_stacks w rest acc
        | Some updated \<Rightarrow> r_bind (backup_as_root w stack) (\<lambda>backup.
            r_bind (write_as_root stack updated) (\<lambda>_. unwire_stacks w rest (acc @ [(stack, Some backup)])))))" for r
    using 2 assms by (auto intro!: keeps_rules split: option.split)
  then show ?case by (auto intro!: keeps_rules)
qed (simp add: touches_ok)

subsection \<open>Results\<close>

lemma r_bind_Ok: "r_bind m k s = (Ok y, s') \<longleftrightarrow> (\<exists>x s1. m s = (Ok x, s1) \<and> k x s1 = (Ok y, s'))"
  by (auto simp: r_bind_def split: prod.split sum.split)

lemma r_context_Ok [simp]: "r_context c m s = (Ok y, s') \<longleftrightarrow> m s = (Ok y, s')"
  by (auto simp: r_context_def split: prod.split sum.split)

lemma r_ok_Ok [simp]: "r_ok x s = (r, s') \<longleftrightarrow> r = Ok x \<and> s' = s"
  by (auto simp: r_ok_def)

lemma r_bail_not_Ok [simp]: "r_bail msg s \<noteq> (Ok y, s')"
  by (simp add: r_bail_def)

text \<open>A step that failed, or one that went on.\<close>

lemma r_bind_cases:
  assumes "r_bind m k s = (r, s')"
  obtains (failed) e where "m s = (Err e, s')" "r = Err e"
    | (went) x s1 where "m s = (Ok x, s1)" "k x s1 = (r, s')"
  using assms by (auto simp: r_bind_def split: prod.splits sum.splits)

text \<open>The blob at the credential's path unseals to the secret.\<close>

definition sealed :: "outside \<Rightarrow> string \<Rightarrow> root \<Rightarrow> bool" where
  "sealed w secret s \<longleftrightarrow> (\<exists>n status out err. ow_decrypt w n (files s CRED) = Ok (status, out, err) \<and>
     ex_success status \<and> trim_eol (from_utf8_lossy out) = secret)"

definition kept :: "string \<Rightarrow> root \<Rightarrow> bool" where
  "kept secret s \<longleftrightarrow> files s RECOVERY_FILE = Some (secret @ [NL])"

lemma sealed_frame: "files s CRED = files s' CRED \<Longrightarrow> sealed w secret s \<longleftrightarrow> sealed w secret s'"
  by (simp add: sealed_def)

lemma run_decrypt_Ok:
  "run_decrypt w s = (Ok x, s') \<Longrightarrow> ow_decrypt w (rt_calls s) (files s CRED) = Ok x \<and> files s' = files s"
  by (cases "ow_decrypt w (rt_calls s) (files s CRED)")
    (auto simp: run_decrypt_def r_call_def)

lemma verify_Ok: "verify_as_root w secret s = (Ok x, s') \<Longrightarrow> sealed w secret s' \<and> files s' = files s"
  using run_decrypt_Ok [of w s]
  by (fastforce simp: verify_as_root_def r_bind_Ok sealed_def split: prod.splits if_splits)

lemma unseal_Ok: "unseal_as_root w s = (Ok secret, s') \<Longrightarrow>
    secret \<noteq> [] \<and> (\<exists>status out err. ow_decrypt w (rt_calls s) (files s CRED) = Ok (status, out, err) \<and>
      ex_success status \<and> trim_eol (from_utf8_lossy out) = secret) \<and> files s' = files s"
  using run_decrypt_Ok [of w s]
  by (fastforce simp: unseal_as_root_def r_bind_Ok Let_def split: prod.splits if_splits)

lemma fs_write_Ok: "fs_write p text fs = (Ok x, fs') \<Longrightarrow> fs_files fs' p = Some text"
  by (auto simp: fs_write_def open_truncate_def write_all_def fs_tick_def split: option.splits)

lemma fs_copy_Ok: "fs_copy a b fs = (Ok x, fs') \<Longrightarrow> fs_files fs' b = fs_files fs a \<and> fs_files fs a \<noteq> None"
  using fs_write_Ok
  by (fastforce simp: fs_copy_def read_to_string_def fs_tick_def split: option.splits)

lemma r_fs_Ok: "r_fs f s = (Ok x, s') \<longleftrightarrow> (\<exists>fs. f (rt_fs s) = (Ok x, fs) \<and> s' = s\<lparr>rt_fs := fs\<rparr>)"
proof -
  obtain r fs where f: "f (rt_fs s) = (r, fs)" by fastforce
  show ?thesis by (cases r) (auto simp: r_fs_def f)
qed

lemma recovery_Ok: "write_recovery_as_root w secret s = (Ok x, s') \<Longrightarrow> kept secret s'"
proof -
  assume a: "write_recovery_as_root w secret s = (Ok x, s')"
  then obtain s1 where s1: "r_fs (fs_write RECOVERY_FILE (secret @ [NL])) s = (Ok (), s1)"
    "set_mode w RECOVERY_FILE 384 ''600'' s1 = (Ok x, s')"
    by (auto simp: write_recovery_as_root_def r_bind_Ok)
  then have "files s1 RECOVERY_FILE = Some (secret @ [NL])" by (auto simp: r_fs_Ok dest: fs_write_Ok)
  moreover have "files s' RECOVERY_FILE = files s1 RECOVERY_FILE"
    using touchesD [OF touches_set_mode [of "\<lambda>_. False"] _ s1(2)] by simp
  ultimately show ?thesis by (simp add: kept_def)
qed

subsection \<open>Secrets\<close>

definition hex_chars :: string where "hex_chars = ''0123456789abcdef''"

definition good_secret :: "string \<Rightarrow> bool" where
  "good_secret s \<longleftrightarrow> length s = 64 \<and> set s \<subseteq> set hex_chars"

lemma hex_digit_char: "d < 16 \<Longrightarrow> hex_digit d \<in> set hex_chars"
proof -
  have "list_all (\<lambda>d. hex_digit d \<in> set hex_chars) [0..<16]" by code_simp
  then show "d < 16 \<Longrightarrow> hex_digit d \<in> set hex_chars" by (simp only: list_all_iff) simp
qed

lemma hex_byte_chars: "set (hex_byte b) \<subseteq> set hex_chars" "length (hex_byte b) = 2"
proof -
  have "unat b < 256" by (rule unat_byte_bound)
  then have "unat b div 16 < 16" "unat b mod 16 < 16" by simp_all
  then show "set (hex_byte b) \<subseteq> set hex_chars" "length (hex_byte b) = 2"
    using hex_digit_char by (simp_all add: hex_byte_def)
qed

lemma generate_Ok: "generate w s = (Ok secret, s') \<Longrightarrow> good_secret secret"
proof -
  assume "generate w s = (Ok secret, s')"
  then obtain raw where s: "secret = concat (map (\<lambda>i. hex_byte (raw i)) [0..<32])"
    by (auto simp: generate_def r_bind_Ok SECRET_BYTES_def)
  have "length (concat (map (\<lambda>i. hex_byte (raw i)) xs)) = 2 * length xs" for xs :: "nat list"
    by (induction xs) (simp_all add: hex_byte_chars(2))
  moreover have "set secret \<subseteq> set hex_chars"
    using hex_byte_chars(1) by (auto simp: s)
  ultimately show ?thesis by (simp add: good_secret_def s)
qed

lemma hex_plain: "c \<in> set hex_chars \<Longrightarrow> byte_of c < 0x80 \<and> c \<noteq> NL \<and> c \<noteq> CR \<and> c \<noteq> CHR 0x00 \<and> \<not> is_space c"
  by (auto simp: hex_chars_def NL_def CR_def is_space_def)

lemma trim_eol_split: "\<exists>t. s = trim_eol s @ t \<and> (\<forall>c \<in> set t. c = NL \<or> c = CR)"
proof (induction s rule: rev_induct)
  case Nil
  then show ?case by (simp add: trim_eol_def trim_end_matches_def)
next
  case (snoc x xs)
  show ?case
  proof (cases "x = NL \<or> x = CR")
    case True
    then have e: "trim_eol (xs @ [x]) = trim_eol xs" by (intro trim_eol_strip) simp
    from snoc obtain t where "xs = trim_eol xs @ t" "\<forall>c \<in> set t. c = NL \<or> c = CR" by blast
    then show ?thesis using True e by (intro exI [of _ "t @ [x]"]) auto
  next
    case False
    then show ?thesis by (intro exI [of _ "[]"]) (simp add: trim_eol_def trim_end_matches_def)
  qed
qed

text \<open>An ASCII result of the lossy decoding is the very input.\<close>

lemma lossy_ascii_id: "\<forall>c \<in> set (from_utf8_lossy s). byte_of c < 0x80 \<Longrightarrow> from_utf8_lossy s = s"
proof (induction s rule: from_utf8_lossy.induct)
  case (1 s)
  show ?case
  proof (cases "s = []")
    case False
    obtain n whole where st: "utf8_step s = (n, whole)" by fastforce
    have e: "from_utf8_lossy s = (if whole then take n s else REPLACEMENT) @ from_utf8_lossy (drop n s)"
      using False st by (subst from_utf8_lossy.simps) simp
    have whole using "1.prems" e by (cases whole) (auto simp: REPLACEMENT_def)
    moreover have "from_utf8_lossy (drop n s) = drop n s"
      using "1.IH" [OF False st [symmetric]] "1.prems" e by simp
    ultimately show ?thesis using e by simp
  qed simp
qed

lemma good_secret_bytes:
  assumes "good_secret secret" "trim_eol (from_utf8_lossy out) = secret"
  shows "trim_eol out = secret"
proof -
  obtain t where t: "from_utf8_lossy out = secret @ t" "\<forall>c \<in> set t. c = NL \<or> c = CR"
    using trim_eol_split [of "from_utf8_lossy out", unfolded assms(2)] by blast
  have "\<forall>c \<in> set secret. byte_of c < 0x80"
    using assms(1) hex_plain good_secret_def by (meson subsetD)
  moreover have "byte_of NL < 0x80" "byte_of CR < 0x80" by (simp_all add: NL_def CR_def)
  then have "\<forall>c \<in> set t. byte_of c < 0x80" using t(2) by metis
  ultimately have "\<forall>c \<in> set (from_utf8_lossy out). byte_of c < 0x80" unfolding t(1) by auto
  then have "from_utf8_lossy out = out" by (rule lossy_ascii_id)
  then show ?thesis using assms(2) by argo
qed

subsection \<open>Provision\<close>

definition cred_or_recovery :: "path \<Rightarrow> bool" where
  "cred_or_recovery p \<longleftrightarrow> p = CRED \<or> p = RECOVERY_FILE"

lemma cred_or_recoveryI [simp]: "cred_or_recovery CRED" "cred_or_recovery RECOVERY_FILE"
  by (simp_all add: cred_or_recovery_def)

text \<open>The part of provision before the wiring, which the rotation shares.\<close>

definition seal_fresh :: "outside \<Rightarrow> string \<Rightarrow> unit rop" where
  "seal_fresh w secret =
     r_bind (r_context ''sealing the secret to the TPM'' (seal_as_root w secret)) (\<lambda>_.
     r_bind (r_context ''the sealed secret did not round trip'' (verify_as_root w secret)) (\<lambda>_.
     r_context ''writing the recovery file'' (write_recovery_as_root w secret)))"

lemma r_bind_assoc: "r_bind (r_bind m k) h = r_bind m (\<lambda>x. r_bind (k x) h)"
  by (rule ext) (simp add: r_bind_def split: prod.split sum.split)

definition provision_stacks :: "bool \<Rightarrow> path list" where
  "provision_stacks fo = (if fo then [FINGERPRINT_STACK] else [FINGERPRINT_STACK, PASSWORD_STACK])"

lemma provision_stacks_set [simp]: "set (provision_stacks fo) \<subseteq> set stack_paths"
  by (simp add: provision_stacks_def stack_paths_def)

lemma seal_fresh_Ok:
  assumes "seal_fresh w secret s = (Ok x, s')"
  shows "sealed w secret s' \<and> kept secret s'"
proof -
  from assms obtain s1 s2 where s: "verify_as_root w secret s1 = (Ok (), s2)"
    "write_recovery_as_root w secret s2 = (Ok x, s')"
    by (auto simp: seal_fresh_def r_bind_Ok)
  have "files s' CRED = files s2 CRED"
    using touchesD [OF touches_recovery [of "\<lambda>p. p = RECOVERY_FILE"] _ s(2)] by simp
  then show ?thesis using verify_Ok [OF s(1)] recovery_Ok [OF s(2)] sealed_frame by metis
qed

lemma touches_seal_fresh: "touches cred_or_recovery (seal_fresh w secret)"
  unfolding seal_fresh_def by (auto intro!: keeps_rules)

lemma provision_split:
  "provision w fo = r_bind (r_exists CRED) (\<lambda>e.
     if e then r_bail (show_path CRED @ '' already exists. Sealing over it would leave the keyring '' @
       ''locked to a secret nothing holds any more'')
     else r_bind (generate w) (\<lambda>secret. r_bind (seal_fresh w secret) (\<lambda>_.
       r_bind (wire_stacks w (provision_stacks fo) []) (\<lambda>wired. r_ok (secret, wired)))))"
  unfolding provision_def seal_fresh_def r_bind_assoc provision_stacks_def ..

lemma provision_phases:
  assumes "provision w fo s = (r, s')"
  obtains (early) e where "r = Err e" "\<And>p. \<not> cred_or_recovery p \<Longrightarrow> files s' p = files s p"
    | (wiring) secret s1 r1 where "good_secret secret" "sealed w secret s1" "kept secret s1"
        "\<And>p. \<not> cred_or_recovery p \<Longrightarrow> files s1 p = files s p"
        "wire_stacks w (provision_stacks fo) [] s1 = (r1, s')" "r = map_sum id (Pair secret) r1"
proof -
  obtain b s0 where ex: "r_exists CRED s = (Ok b, s0)" "files s0 = files s"
    by (auto simp: r_exists_def fs_exists_def fs_tick_def)
  show thesis
  proof (cases b)
    case True
    then show thesis using assms ex early [of "SMsg (show_path CRED @ '' already exists. Sealing over it would leave the keyring '' @
       ''locked to a secret nothing holds any more'')"]
      by (simp add: provision_split r_bind_def r_bail_def)
  next
    case False
    let ?rest = "\<lambda>secret. r_bind (seal_fresh w secret) (\<lambda>_.
       r_bind (wire_stacks w (provision_stacks fo) []) (\<lambda>wired. r_ok (secret, wired)))"
    have "r_bind (generate w) ?rest s0 = (r, s')"
      using assms ex False by (simp add: provision_split r_bind_def)
    then show thesis
    proof (cases rule: r_bind_cases)
      case (failed e)
      then show thesis using early touchesD [OF touches_generate [of cred_or_recovery] _ failed(1)] ex by simp
    next
      case (went secret sg)
      have fg: "files sg p = files s p" if "\<not> cred_or_recovery p" for p
        using touchesD [OF touches_generate [of cred_or_recovery] that went(1)] ex by simp
      from went(2) show thesis
      proof (cases rule: r_bind_cases)
        case (failed e)
        then show thesis using early touchesD [OF touches_seal_fresh _ failed(1)] fg by simp
      next
        case sealed: (went u s1)
        obtain r1 s2 where wire: "wire_stacks w (provision_stacks fo) [] s1 = (r1, s2)" by fastforce
        then have "r = map_sum id (Pair secret) r1" "s2 = s'"
          using sealed(2) by (cases r1; simp add: r_bind_def)+
        then show thesis
          using wiring [OF generate_Ok [OF went(1)] _ _ _ _ _] seal_fresh_Ok [OF sealed(1)] wire
            touchesD [OF touches_seal_fresh _ sealed(1)] fg by auto
      qed
    qed
  qed
qed

subsection \<open>Wiring\<close>

lemma lines_members: "l \<in> set (lines s) \<Longrightarrow> NL \<notin> set l"
proof (induction s rule: lines.induct)
  case (1 s)
  show ?case
  proof (cases "dropWhile (\<lambda>c. c \<noteq> NL) s")
    case Nil
    then show ?thesis using "1.prems"
      by (cases "s = []") (auto simp: lines_no_nl dropWhile_eq_Nil_conv)
  next
    case (Cons d rest)
    then have "s \<noteq> []" by auto
    with Cons have "lines s = strip_cr (takeWhile (\<lambda>c. c \<noteq> NL) s) # lines rest"
      by (subst lines.simps) simp
    moreover have "set (strip_cr (takeWhile (\<lambda>c. c \<noteq> NL) s)) \<subseteq> set (takeWhile (\<lambda>c. c \<noteq> NL) s)"
      by (auto simp: strip_cr_def dest: in_set_butlastD)
    ultimately show ?thesis using "1.prems" "1.IH" [OF \<open>s \<noteq> []\<close> Cons] by (auto dest!: set_takeWhileD)
  qed
qed

lemma lines_unlines_strip:
  "ls \<noteq> [] \<Longrightarrow> \<forall>l \<in> set ls. NL \<notin> set l \<Longrightarrow> lines (unlines ls) = map strip_cr ls"
proof (induction ls)
  case (Cons l ls)
  show ?case
  proof (cases "ls = []")
    case True
    with Cons show ?thesis using lines_nl_append [of l "[]"] by (simp add: unlines_def)
  next
    case False
    with Cons have "lines (l @ NL # unlines ls) = strip_cr l # map strip_cr ls"
      by (simp add: lines_nl_append)
    with False show ?thesis by (simp add: unlines_Cons)
  qed
qed simp

lemma insert_wires: "pam_insert text = Ok (Added out) \<Longrightarrow> list_ex is_our_line (lines out)"
proof -
  assume "pam_insert text = Ok (Added out)"
  then obtain before k after where b: "lines text = before @ k # after"
    "out = unlines (before @ LINE # k # after)" by (rule pam_insert_added)
  have "\<forall>l \<in> set (before @ LINE # k # after). NL \<notin> set l"
    using lines_members [of _ "text"] b(1) LINE_clean by (auto simp: clean_line_def)
  then have "lines out = map strip_cr (before @ LINE # k # after)"
    using b(2) by (simp add: lines_unlines_strip)
  then show ?thesis using LINE_ours LINE_clean by simp
qed

lemma starts_with_more: "starts_with s p \<Longrightarrow> starts_with (s @ t) p"
  by (auto simp: starts_with_iff)

lemma contains_append: "contains_str s p \<Longrightarrow> contains_str (s @ t) p"
proof (induction s)
  case Nil
  then show ?case by (cases t) simp_all
next
  case (Cons c s)
  then show ?case using starts_with_more [of "c # s" p t] by auto
qed

lemma ours_strip: "is_our_line (strip_cr l) \<Longrightarrow> is_our_line l"
proof -
  assume o: "is_our_line (strip_cr l)"
  show ?thesis
  proof (cases "l \<noteq> [] \<and> last l = CR")
    case True
    then have l: "l = butlast l @ [CR]" "strip_cr l = butlast l"
      by (metis append_butlast_last_id, simp add: strip_cr_def)
    then have "is_our_line (butlast l)" using o by simp
    then have m: "contains_str (trim_start (butlast l)) MODULE" "\<not> starts_with (trim_start (butlast l)) ''#''"
      by (simp_all add: is_our_line_def Let_def)
    then have ne: "trim_start (butlast l) \<noteq> []" by (auto simp: MODULE_def)
    then have "trim_start l = trim_start (butlast l) @ [CR]"
      by (subst l(1)) (auto simp: trim_start_def dropWhile_append)
    then show ?thesis using m ne contains_append [OF m(1), of "[CR]"]
      by (cases "trim_start (butlast l)") (simp_all add: is_our_line_def Let_def)
  next
    case False
    then show ?thesis using o by (simp add: strip_cr_def split: if_splits)
  qed
qed

lemma remove_unwires: "pam_remove text = Some out \<Longrightarrow> \<not> list_ex is_our_line (lines out)"
proof (cases "filter (\<lambda>l. \<not> is_our_line l) (lines text) = []")
  case True
  assume "pam_remove text = Some out"
  then have "out = [NL]" using True by (simp add: pam_remove_def unlines_def split: if_splits)
  then have "lines out = [[]]" using lines_nl_append [of "[]" "[]"] by (simp add: strip_cr_def)
  then show ?thesis by (simp add: is_our_line_def trim_start_def MODULE_def)
next
  case False
  assume "pam_remove text = Some out"
  then have out: "out = unlines (filter (\<lambda>l. \<not> is_our_line l) (lines text))"
    by (simp add: pam_remove_def split: if_splits)
  have "\<forall>l \<in> set (filter (\<lambda>l. \<not> is_our_line l) (lines text)). NL \<notin> set l"
    using lines_members [of _ "text"] by (simp only: set_filter) blast
  from lines_unlines_strip [OF False this]
  have "lines out = map strip_cr (filter (\<lambda>l. \<not> is_our_line l) (lines text))" unfolding out .
  then show ?thesis using ours_strip by (simp only: list_ex_iff set_map set_filter) blast
qed

text \<open>A file system that does not fail.\<close>

definition quiet :: "root \<Rightarrow> bool" where
  "quiet s \<longleftrightarrow> (\<forall>n. fs_fault (rt_fs s) n = None)"

lemma quiet_touches: "touches P m \<Longrightarrow> m s = (r, s') \<Longrightarrow> quiet s \<Longrightarrow> quiet s'"
  by (simp add: quiet_def touches_fault)

lemma r_read_quiet: "quiet s \<Longrightarrow> \<exists>s1. r_read p s = (Ok (files s p), s1) \<and> quiet s1 \<and> files s1 = files s"
  by (auto simp: quiet_def r_read_def read_to_string_def fs_tick_def split: option.split)

lemma write_quiet: "quiet s \<Longrightarrow> \<exists>s1. write_as_root p text s = (Ok (), s1) \<and> quiet s1 \<and> files s1 = (files s)(p \<mapsto> text)"
  by (auto simp: quiet_def write_as_root_def r_fs_def fs_write_def open_truncate_def write_all_def fs_tick_def
      r_context_def)

lemma backup_quiet:
  assumes "quiet s" "stack \<in> set stack_paths" "files s stack = Some text"
  shows "\<exists>bk s1. backup_as_root w stack s = (Ok bk, s1) \<and> quiet s1 \<and> is_backup bk \<and> files s1 = (files s)(bk \<mapsto> text)"
proof -
  have "stack \<noteq> []" using assms(2) by (auto simp: stack_paths_def FINGERPRINT_STACK_def PASSWORD_STACK_def)
  then show ?thesis using assms
    by (auto simp: quiet_def backup_as_root_def r_bind_def r_fs_def fs_copy_def fs_write_def read_to_string_def
        open_truncate_def write_all_def fs_tick_def r_context_def r_ok_def Let_def is_backup_def)
qed

definition unwired :: "string \<Rightarrow> string" where
  "unwired text = (case pam_remove text of Some u \<Rightarrow> u | None \<Rightarrow> text)"

lemma unwired_clear: "\<not> list_ex is_our_line (lines (unwired text))"
proof (cases "pam_remove text")
  case None
  then show ?thesis by (simp add: unwired_def pam_remove_def split: if_splits)
next
  case (Some u)
  then show ?thesis using remove_unwires by (simp add: unwired_def)
qed

lemma not_backup_stack: "is_backup bk \<Longrightarrow> stack \<in> set stack_paths \<Longrightarrow> bk \<noteq> stack"
  using not_backup(4,5) by (auto simp: stack_paths_def)

text \<open>One stack taken care of: the others are as they were.\<close>

lemma unwire_step:
  assumes "quiet s" "stack \<in> set stack_paths"
  shows "\<exists>acc' s1. unwire_stacks w (stack # rest) acc s = unwire_stacks w rest acc' s1 \<and> quiet s1 \<and>
    files s1 stack = map_option unwired (files s stack) \<and>
    (\<forall>p \<in> set stack_paths. p \<noteq> stack \<longrightarrow> files s1 p = files s p)"
proof -
  obtain s0 where r: "r_read stack s = (Ok (files s stack), s0)" "quiet s0" "files s0 = files s"
    using r_read_quiet [OF assms(1)] by blast
  show ?thesis
  proof (cases "\<exists>text u. files s stack = Some text \<and> pam_remove text = Some u")
    case False
    then show ?thesis using r
      by (intro exI [of _ acc] exI [of _ s0]) (auto simp: r_bind_def unwired_def split: option.splits)
  next
    case True
    then obtain old u where t: "files s stack = Some old" "pam_remove old = Some u" by blast
    obtain bk s1 where b: "backup_as_root w stack s0 = (Ok bk, s1)" "quiet s1" "is_backup bk"
      "files s1 = (files s0)(bk \<mapsto> old)" using backup_quiet [OF r(2) assms(2)] r(3) t(1) by metis
    obtain s2 where wr: "write_as_root stack u s1 = (Ok (), s2)" "quiet s2" "files s2 = (files s1)(stack \<mapsto> u)"
      using write_quiet [OF b(2)] by blast
    have "unwire_stacks w (stack # rest) acc s = unwire_stacks w rest (acc @ [(stack, Some bk)]) s2"
      using r t b wr by (simp add: r_bind_def)
    moreover have "files s2 stack = map_option unwired (files s stack)" using wr t by (simp add: unwired_def)
    moreover have "\<forall>p \<in> set stack_paths. p \<noteq> stack \<longrightarrow> files s2 p = files s p"
      using wr(3) b(3,4) r(3) not_backup_stack by (metis fun_upd_other)
    ultimately show ?thesis using wr(2) by blast
  qed
qed

lemma deprovision_quiet:
  assumes "quiet s"
  shows "\<exists>undone s'. deprovision w s = (Ok undone, s') \<and> quiet s' \<and>
    (\<forall>stack \<in> set stack_paths. files s' stack = map_option unwired (files s stack))"
proof -
  have mem: "FINGERPRINT_STACK \<in> set stack_paths" "PASSWORD_STACK \<in> set stack_paths"
    by (simp_all add: stack_paths_def)
  obtain acc1 s1 where 1: "unwire_stacks w [FINGERPRINT_STACK, PASSWORD_STACK] [] s =
      unwire_stacks w [PASSWORD_STACK] acc1 s1" "quiet s1"
    "files s1 FINGERPRINT_STACK = map_option unwired (files s FINGERPRINT_STACK)"
    "\<forall>p \<in> set stack_paths. p \<noteq> FINGERPRINT_STACK \<longrightarrow> files s1 p = files s p"
    using unwire_step [OF assms mem(1)] by metis
  obtain acc2 s2 where 2: "unwire_stacks w [PASSWORD_STACK] acc1 s1 = unwire_stacks w [] acc2 s2" "quiet s2"
    "files s2 PASSWORD_STACK = map_option unwired (files s1 PASSWORD_STACK)"
    "\<forall>p \<in> set stack_paths. p \<noteq> PASSWORD_STACK \<longrightarrow> files s2 p = files s1 p"
    using unwire_step [OF 1(2) mem(2)] by metis
  have "deprovision w s = (Ok acc2, s2)" using 1(1) 2(1) by (simp add: deprovision_def r_ok_def)
  moreover have "files s2 stack = map_option unwired (files s stack)" if "stack \<in> set stack_paths" for stack
  proof (cases "stack = PASSWORD_STACK")
    case True
    then show ?thesis using 1(4) 2(3) mem by simp
  next
    case False
    then have "stack = FINGERPRINT_STACK" using that by (auto simp: stack_paths_def)
    then show ?thesis using 1(3) 2(4) mem by simp
  qed
  ultimately show ?thesis using 2(2) by blast
qed

definition wired_text :: "string \<Rightarrow> string" where
  "wired_text text = (case pam_insert text of Ok (Added u) \<Rightarrow> u | _ \<Rightarrow> text)"

lemma insert_present: "pam_insert text = Ok AlreadyPresent \<Longrightarrow> list_ex is_our_line (lines text)"
  by (auto simp: pam_insert_def Let_def split: if_splits option.splits)

lemma wire_step:
  assumes "quiet s" "stack \<in> set stack_paths" "wire_stacks w (stack # rest) acc s = (Ok wired, s')"
  obtains acc' s1 where "wire_stacks w rest acc' s1 = (Ok wired, s')" "quiet s1"
    "files s1 stack = map_option wired_text (files s stack)"
    "\<forall>old. files s1 stack = Some old \<longrightarrow> list_ex is_our_line (lines old)"
    "\<forall>p \<in> set stack_paths. p \<noteq> stack \<longrightarrow> files s1 p = files s p"
proof -
  obtain s0 where r: "r_read stack s = (Ok (files s stack), s0)" "quiet s0" "files s0 = files s"
    using r_read_quiet [OF assms(1)] by blast
  show thesis
  proof (cases "files s stack")
    case None
    then show thesis using assms(3) r by (intro that [of acc s0]) (simp_all add: r_bind_def)
  next
    case (Some old)
    with assms(3) r have go: "r_bind (r_insert old) (\<lambda>c. case c of
        AlreadyPresent \<Rightarrow> wire_stacks w rest (acc @ [(stack, None)])
      | Added updated \<Rightarrow> r_bind (backup_as_root w stack) (\<lambda>backup.
          r_bind (write_as_root stack updated) (\<lambda>_. wire_stacks w rest (acc @ [(stack, Some backup)]))))
      s0 = (Ok wired, s')" by (simp add: r_bind_def)
    then obtain c where c: "pam_insert old = Ok c" by (cases "pam_insert old") (auto simp: r_bind_def r_insert_def)
    show thesis
    proof (cases c)
      case AlreadyPresent
      then show thesis using go c r Some insert_present [of old]
        by (intro that [of "acc @ [(stack, None)]" s0]) (simp_all add: r_bind_def r_insert_def wired_text_def)
    next
      case (Added u)
      obtain bk s1 where b: "backup_as_root w stack s0 = (Ok bk, s1)" "quiet s1" "is_backup bk"
        "files s1 = (files s0)(bk \<mapsto> old)" using backup_quiet [OF r(2) assms(2)] r(3) Some by metis
      obtain s2 where wr: "write_as_root stack u s1 = (Ok (), s2)" "quiet s2" "files s2 = (files s1)(stack \<mapsto> u)"
        using write_quiet [OF b(2)] by blast
      have "wire_stacks w rest (acc @ [(stack, Some bk)]) s2 = (Ok wired, s')"
        using go c Added b wr by (simp add: r_bind_def r_insert_def)
      moreover have "\<forall>p \<in> set stack_paths. p \<noteq> stack \<longrightarrow> files s2 p = files s p"
        using wr(3) b(3,4) r(3) not_backup_stack by (metis fun_upd_other)
      moreover have "list_ex is_our_line (lines u)" using insert_wires c Added by simp
      ultimately show thesis using wr c Added Some
        by (intro that [of "acc @ [(stack, Some bk)]" s2]) (simp_all add: wired_text_def)
    qed
  qed
qed

lemma provision_stacks_quiet:
  assumes "quiet s" "wire_stacks w (provision_stacks fo) [] s = (Ok wired, s')"
  shows "quiet s' \<and>
    (\<forall>stack \<in> set (provision_stacks fo). files s' stack = map_option wired_text (files s stack) \<and>
       (\<forall>old. files s' stack = Some old \<longrightarrow> list_ex is_our_line (lines old))) \<and>
    (\<forall>stack \<in> set stack_paths - set (provision_stacks fo). files s' stack = files s stack)"
proof -
  have mem: "FINGERPRINT_STACK \<in> set stack_paths" "PASSWORD_STACK \<in> set stack_paths"
    by (simp_all add: stack_paths_def)
  obtain rest where fo: "provision_stacks fo = FINGERPRINT_STACK # rest"
    "rest = (if fo then [] else [PASSWORD_STACK])" by (simp add: provision_stacks_def)
  from wire_step [OF assms(1) mem(1) assms(2) [unfolded fo(1)]] obtain acc1 s1 where
    1: "wire_stacks w rest acc1 s1 = (Ok wired, s')" "quiet s1"
      "files s1 FINGERPRINT_STACK = map_option wired_text (files s FINGERPRINT_STACK)"
      "\<forall>old. files s1 FINGERPRINT_STACK = Some old \<longrightarrow> list_ex is_our_line (lines old)"
      "\<forall>p \<in> set stack_paths. p \<noteq> FINGERPRINT_STACK \<longrightarrow> files s1 p = files s p" .
  show ?thesis
  proof (cases fo)
    case True
    then show ?thesis using 1 fo by (auto simp: stack_paths_def)
  next
    case False
    with 1 fo have "wire_stacks w [PASSWORD_STACK] acc1 s1 = (Ok wired, s')" by simp
    from wire_step [OF 1(2) mem(2) this] obtain acc2 s2 where
      2: "wire_stacks w [] acc2 s2 = (Ok wired, s')" "quiet s2"
        "files s2 PASSWORD_STACK = map_option wired_text (files s1 PASSWORD_STACK)"
        "\<forall>old. files s2 PASSWORD_STACK = Some old \<longrightarrow> list_ex is_our_line (lines old)"
        "\<forall>p \<in> set stack_paths. p \<noteq> PASSWORD_STACK \<longrightarrow> files s2 p = files s1 p" .
    have "s' = s2" using 2(1) by simp
    then show ?thesis using 1 2 fo False mem by (auto simp: stack_paths_def)
  qed
qed

lemma provision_Ok:
  assumes "provision w fo s = (Ok (secret, wired), s')"
  obtains s1 where "good_secret secret" "sealed w secret s1" "kept secret s1"
    "\<And>p. \<not> cred_or_recovery p \<Longrightarrow> files s1 p = files s p"
    "wire_stacks w (provision_stacks fo) [] s1 = (Ok wired, s')" "quiet s \<Longrightarrow> quiet s1"
    "sealed w secret s'" "kept secret s'"
  using assms
proof (cases rule: provision_phases)
  case (wiring secret1 s1 r1)
  from wiring(6) have e: "secret1 = secret" "r1 = Ok wired" by (cases r1; simp)+
  have f: "touches wiring_path (wire_stacks w (provision_stacks fo) [])"
    by (rule touches_wire) (auto simp: subsetD [OF provision_stacks_set])
  have keep: "files s' CRED = files s1 CRED" "files s' RECOVERY_FILE = files s1 RECOVERY_FILE"
    using touchesD [OF f _ wiring(5)] by (simp_all add: wiring_path_def)
  have "touches (\<lambda>_. True) (provision w fo)"
    unfolding provision_split
    by (auto intro!: keeps_rules touches_wire touches_weaken [OF touches_seal_fresh] simp del: wire_stacks.simps
        simp: subsetD [OF provision_stacks_set] split: if_split)
  then have "fs_fault (rt_fs s') = fs_fault (rt_fs s)" using assms by (rule touches_fault)
  then have "quiet s \<Longrightarrow> quiet s1" using touches_fault [OF f wiring(5)] by (simp add: quiet_def)
  then show thesis using wiring e keep sealed_frame [of s' s1 w secret] that [of s1] by (simp add: kept_def)
qed simp

subsection \<open>Rotation\<close>

lemma provision_existing:
  assumes "files s CRED = Some blob" "fs_fault (rt_fs s) (fs_count (rt_fs s)) = None"
  shows "\<not> is_ok (fst (provision w fo s)) \<and> files (snd (provision w fo s)) = files s \<and>
    rt_mode (snd (provision w fo s)) = rt_mode s"
  using assms
  by (simp add: provision_def r_bind_def r_exists_def fs_exists_def fs_tick_def r_bail_def)

lemma seal_phases:
  assumes "touches (\<lambda>p. p = CRED \<or> p = RECOVERY_FILE) m" "m s = (r, s')"
  shows "files s' CRED_PREVIOUS = files s CRED_PREVIOUS"
  using touchesD [OF assms(1) _ assms(2)] by simp

text \<open>Up to the copy only the previous blob's place is written; from then on it is left alone.\<close>

lemma rotate_keeps_blob:
  assumes "rotate_seal w s = (r, s')"
  shows "files s' CRED = files s CRED \<or> files s' CRED_PREVIOUS = files s CRED"
  using assms unfolding rotate_seal_def
proof (cases rule: r_bind_cases)
  case (failed e)
  then show ?thesis using touchesD [OF touches_context [OF touches_unseal [of "\<lambda>_. False"]] _ failed(1)] by simp
next
  case (went old s1)
  have f1: "files s1 = files s" using unseal_Ok went(1) by simp
  from went(2) show ?thesis
  proof (cases rule: r_bind_cases)
    case (failed e)
    then show ?thesis using touchesD [OF touches_generate [of "\<lambda>_. False"] _ failed(1)] f1 by simp
  next
    case gen: (went new s2)
    have f2: "files s2 p = files s p" for p
      using touchesD [OF touches_generate [of "\<lambda>_. False"] _ gen(1)] f1 by simp
    from gen(2) show ?thesis
    proof (cases rule: r_bind_cases)
      case (failed e)
      have "touches (\<lambda>p. p = CRED_PREVIOUS)
          (r_context (''keeping the old secret at '' @ show_path CRED_PREVIOUS) (r_fs (fs_copy CRED CRED_PREVIOUS)))"
        by (auto intro!: keeps_rules)
      from touchesD [OF this _ failed(1)] show ?thesis using f2 by simp
    next
      case copied: (went u s3)
      have prev: "files s3 CRED_PREVIOUS = files s CRED"
        using copied(1) f2 by (auto simp: r_fs_Ok dest: fs_copy_Ok)
      have "touches cred_or_recovery (r_bind (r_context ''sealing the new secret'' (seal_as_root w new)) (\<lambda>_.
        r_bind (r_context ''the new secret did not round trip'' (verify_as_root w new)) (\<lambda>_.
        r_bind (r_context ''writing the recovery file'' (write_recovery_as_root w new)) (\<lambda>_. r_ok (old, new)))))"
        by (auto intro!: keeps_rules)
      from touchesD [OF this _ copied(2), of CRED_PREVIOUS] prev show ?thesis
        by (simp add: cred_or_recovery_def)
    qed
  qed
qed

lemma rotate_Ok:
  assumes "rotate_seal w s = (Ok (old, new), s')"
  shows "files s' CRED_PREVIOUS = files s CRED \<and> good_secret new \<and> sealed w new s' \<and> kept new s' \<and>
    sealed w old s \<and> old \<noteq> []"
proof -
  from assms obtain s1 s2 s3 where
    u: "unseal_as_root w s = (Ok old, s1)" and g: "generate w s1 = (Ok new, s2)" and
    c: "r_fs (fs_copy CRED CRED_PREVIOUS) s2 = (Ok (), s3)" and
    rest: "r_bind (r_context ''sealing the new secret'' (seal_as_root w new)) (\<lambda>_.
        r_bind (r_context ''the new secret did not round trip'' (verify_as_root w new)) (\<lambda>_.
        r_bind (r_context ''writing the recovery file'' (write_recovery_as_root w new)) (\<lambda>_. r_ok (old, new))))
      s3 = (Ok (old, new), s')"
    by (auto simp: rotate_seal_def r_bind_Ok)
  from rest have "seal_fresh w new s3 = (Ok (), s')" by (auto simp: seal_fresh_def r_bind_Ok)
  then have new: "sealed w new s' \<and> kept new s'" by (rule seal_fresh_Ok)
  have prev: "files s' CRED_PREVIOUS = files s3 CRED_PREVIOUS"
    using touchesD [OF touches_seal_fresh _ \<open>seal_fresh w new s3 = (Ok (), s')\<close>]
    by (simp add: cred_or_recovery_def)
  have "files s3 CRED_PREVIOUS = files s2 CRED" using c by (auto simp: r_fs_Ok dest: fs_copy_Ok)
  moreover have "files s2 CRED = files s CRED"
    using touchesD [OF touches_generate [of "\<lambda>_. False"] _ g] unseal_Ok [OF u] by simp
  ultimately show ?thesis using prev new generate_Ok [OF g] unseal_Ok [OF u] by (auto simp: sealed_def)
qed

text \<open>\<open>systemd-creds\<close> may fail at any call, but when it unseals a blob it always gives the same.\<close>

definition unseals_alike :: "outside \<Rightarrow> bool" where
  "unseals_alike w \<longleftrightarrow> (\<forall>blob n m st out err st' out' err'.
     ow_decrypt w n blob = Ok (st, out, err) \<and> ex_success st \<and>
     ow_decrypt w m blob = Ok (st', out', err') \<and> ex_success st' \<longrightarrow> out = out')"

lemma sealed_unique: "unseals_alike w \<Longrightarrow> sealed w a s \<Longrightarrow> sealed w b s \<Longrightarrow> a = b"
  unfolding sealed_def unseals_alike_def by metis

lemma rollback_Ok:
  assumes "rollback w s = (Ok (), s')"
  shows "files s' CRED = files s CRED_PREVIOUS \<and> (\<exists>secret. sealed w secret s' \<and> kept secret s')"
proof -
  obtain b s0 where ex: "r_exists CRED_PREVIOUS s = (Ok b, s0)" "files s0 = files s"
    by (auto simp: r_exists_def fs_exists_def fs_tick_def)
  with assms have b by (auto simp: rollback_def r_bind_Ok split: if_splits)
  with assms ex obtain s1 s2 secret where c: "r_fs (fs_copy CRED_PREVIOUS CRED) s0 = (Ok (), s1)"
    and u: "unseal_as_root w s1 = (Ok secret, s2)" and r: "write_recovery_as_root w secret s2 = (Ok (), s')"
    by (auto simp: rollback_def r_bind_Ok)
  have "files s' CRED = files s2 CRED"
    using touchesD [OF touches_recovery [of "\<lambda>p. p = RECOVERY_FILE"] _ r] by simp
  moreover have "files s1 CRED = files s CRED_PREVIOUS"
    using c ex(2) by (auto simp: r_fs_Ok dest: fs_copy_Ok)
  moreover have "sealed w secret s1" using unseal_Ok [OF u] by (auto simp: sealed_def)
  ultimately show ?thesis using unseal_Ok [OF u] recovery_Ok [OF r] sealed_frame [of s' s1 w secret] by auto
qed

end
