(* ===== verification/KeyringCli.thy ===== *)
theory KeyringCli
  imports KeyringProps
begin

text \<open>
  The user half of \<open>elanprint-keyring-setup\<close>: raising privileges and reading the helper's answers
  (\<open>elevate.rs\<close>), the change of the login keyring's password (\<open>keyring.rs\<close>) and the commands of
  \<open>main.rs\<close>.  The desktop (launchers, authentication, secret service, terminal) answers by the
  number of the call.
\<close>

subsection \<open>The desktop\<close>

datatype subcommand =
    SubProvision bool
  | SubDeprovision
  | SubReveal
  | SubRotateSeal
  | SubRollback
  | SubWirePassword
  | SubRemoveRecovery

text \<open>
  \<open>dk_auth\<close> is the error output of a refused authentication, or \<open>None\<close> when the helper runs;
  \<open>dk_show\<close> is how \<open>anyhow\<close> reports an error at the end of \<open>main\<close>; \<open>dk_change\<close> is the answer of the
  keyring, which holds the first password, to a change from the second to the third.
\<close>

record desk =
  dk_outside :: outside
  dk_helper :: bool
  dk_pkexec :: bool
  dk_sudo :: bool
  dk_spawn :: "nat \<Rightarrow> io_error + unit"
  dk_auth :: "nat \<Rightarrow> string option"
  dk_root_status :: "io_error + string"
  dk_user_status :: "io_error + string"
  dk_show :: "setup_error \<Rightarrow> string"
  dk_io :: "io_error \<Rightarrow> string"
  dk_connect :: "nat \<Rightarrow> string + unit"
  dk_open :: "nat \<Rightarrow> string + unit"
  dk_session :: "nat \<Rightarrow> string + unit"
  dk_change :: "nat \<Rightarrow> string \<Rightarrow> string \<Rightarrow> string \<Rightarrow> string + unit"
  dk_flush :: "nat \<Rightarrow> io_error + unit"
  dk_line :: "nat \<Rightarrow> io_error + string"
  dk_password :: "nat \<Rightarrow> io_error + (bool \<times> string)"
  dk_report :: report
  dk_stack_exists :: bool
  dk_stack :: "io_error + string"
  dk_keyring_path :: string

record user =
  us_root :: root
  us_keyring :: string \<comment> \<open>the login keyring's password\<close>
  us_calls :: nat
  us_out :: string \<comment> \<open>standard output\<close>

type_synonym 'a uop = "user \<Rightarrow> (setup_error + 'a) \<times> user"

definition u_bind :: "'a uop \<Rightarrow> ('a \<Rightarrow> 'b uop) \<Rightarrow> 'b uop" where
  "u_bind m k s = (case m s of (Err e, s1) \<Rightarrow> (Err e, s1) | (Ok x, s1) \<Rightarrow> k x s1)"

definition u_ok :: "'a \<Rightarrow> 'a uop" where "u_ok x s = (Ok x, s)"
definition u_bail :: "string \<Rightarrow> 'a uop" where "u_bail msg s = (Err (SMsg msg), s)"

definition u_call :: "(nat \<Rightarrow> setup_error + 'a) \<Rightarrow> 'a uop" where
  "u_call f s = (f (us_calls s), s\<lparr>us_calls := us_calls s + 1\<rparr>)"

definition print_str :: "string \<Rightarrow> unit uop" where
  "print_str t s = (Ok (), s\<lparr>us_out := us_out s @ t\<rparr>)"

definition println :: "string \<Rightarrow> unit uop" where
  "println line = print_str (line @ [NL])"

text \<open>Several \<open>println!\<close> in a row.\<close>

definition say :: "string list \<Rightarrow> unit uop" where
  "say ls = print_str (concat (map (\<lambda>l. l @ [NL]) ls))"

text \<open>Printing succeeds and changes nothing but the output.\<close>

lemma prints_effect [simp]:
  "u_bind (print_str t) f s = f () (snd (print_str t s))" "u_bind (println t) f s = f () (snd (println t s))"
  "u_bind (say ls) f s = f () (snd (say ls s))"
  "fst (print_str t s) = Ok ()" "fst (println t s) = Ok ()" "fst (say ls s) = Ok ()"
  by (simp_all add: u_bind_def print_str_def println_def say_def)

lemma prints_keep [simp]:
  "us_root (snd (print_str t s)) = us_root s" "us_root (snd (println t s)) = us_root s"
  "us_root (snd (say ls s)) = us_root s"
  "us_keyring (snd (print_str t s)) = us_keyring s" "us_keyring (snd (println t s)) = us_keyring s"
  "us_keyring (snd (say ls s)) = us_keyring s"
  "us_calls (snd (print_str t s)) = us_calls s" "us_calls (snd (println t s)) = us_calls s"
  "us_calls (snd (say ls s)) = us_calls s"
  by (simp_all add: print_str_def println_def say_def)

lemma prints_result:
  "print_str t s = (r, s') \<Longrightarrow> r = Ok () \<and> us_root s' = us_root s \<and> us_keyring s' = us_keyring s"
  "println t s = (r, s') \<Longrightarrow> r = Ok () \<and> us_root s' = us_root s \<and> us_keyring s' = us_keyring s"
  "say ls s = (r, s') \<Longrightarrow> r = Ok () \<and> us_root s' = us_root s \<and> us_keyring s' = us_keyring s"
  by (auto simp: print_str_def println_def say_def)

fun display :: "desk \<Rightarrow> setup_error \<Rightarrow> string" where
  "display k (SIo e) = dk_io k e"
| "display k (SMsg msg) = msg"
| "display k (SCtx c _) = c"

subsection \<open>The helper\<close>

definition is_root :: "io_error + string \<Rightarrow> bool" where
  "is_root status =
     (case status of
        Ok s \<Rightarrow> list_ex (\<lambda>l. starts_with l (''Uid:'' @ [TAB] @ ''0'' @ [TAB])) (lines s)
      | Err _ \<Rightarrow> False)"

definition require_root :: "io_error + string \<Rightarrow> setup_error + unit" where
  "require_root status =
     (if is_root status then Ok ()
      else Err (SMsg ''this subcommand must run as root, through pkexec or sudo''))"

text \<open>The root subcommands: what they print on standard output.\<close>

definition root_main :: "desk \<Rightarrow> subcommand \<Rightarrow> string rop" where
  "root_main k sub s =
     (let w = dk_outside k in
      case require_root (dk_root_status k) of
        Err e \<Rightarrow> (Err e, s)
      | Ok _ \<Rightarrow>
          (case sub of
             SubProvision fo \<Rightarrow> r_bind (provision w fo) (\<lambda>(secret, _). r_ok (secret @ [NL]))
           | SubDeprovision \<Rightarrow> r_bind (deprovision w) (\<lambda>_. r_ok [])
           | SubReveal \<Rightarrow> r_bind (reveal w) (\<lambda>secret. r_ok (secret @ [NL]))
           | SubRotateSeal \<Rightarrow> r_bind (rotate_seal w) (\<lambda>(old, new). r_ok (old @ [NL] @ new @ [NL]))
           | SubRollback \<Rightarrow> r_bind (rollback w) (\<lambda>_. r_ok [])
           | SubWirePassword \<Rightarrow> r_bind (wire_password w) (\<lambda>_. r_ok [])
           | SubRemoveRecovery \<Rightarrow> r_bind forget_recovery_file (\<lambda>_. r_ok [])) s)"

definition launcher :: "desk \<Rightarrow> setup_error + string" where
  "launcher k =
     (if \<not> dk_helper k then
        Err (SMsg ''/usr/bin/elanprint-keyring is not installed. Install the elanprint-rs package'')
      else if dk_pkexec k then Ok ''/usr/bin/pkexec''
      else if dk_sudo k then Ok ''/usr/bin/sudo''
      else Err (SMsg ''neither pkexec nor sudo is available to raise privileges''))"

text \<open>Runs the helper through the launcher: success, standard output, standard error.\<close>

definition run_helper :: "desk \<Rightarrow> subcommand \<Rightarrow> (bool \<times> string \<times> string) uop" where
  "run_helper k sub =
     u_bind (\<lambda>s. (launcher k, s)) (\<lambda>l.
     u_bind (u_call (\<lambda>n. map_sum (\<lambda>e. SCtx (''running '' @ l) (SIo e)) id (dk_spawn k n))) (\<lambda>_.
     u_bind (u_call (\<lambda>n. Ok (dk_auth k n))) (\<lambda>refused s.
       case refused of
         Some err \<Rightarrow> (Ok (False, [], err), s)
       | None \<Rightarrow>
           (case root_main k sub (us_root s) of
              (Ok out, r) \<Rightarrow> (Ok (True, out, []), s\<lparr>us_root := r\<rparr>)
            | (Err e, r) \<Rightarrow> (Ok (False, [], dk_show k e), s\<lparr>us_root := r\<rparr>)))))"

definition last_line :: "string \<Rightarrow> string" where
  "last_line s = (let ls = lines s in trim (if ls = [] then [] else last ls))"

definition capture :: "desk \<Rightarrow> subcommand \<Rightarrow> string uop" where
  "capture k sub =
     u_bind (run_helper k sub) (\<lambda>(success, out, err).
       if \<not> success then
         (let why = last_line (from_utf8_lossy err) in
          if why = [] then u_bail ''cancelled, or the helper failed'' else u_bail why)
       else u_ok (trim (from_utf8_lossy out)))"

definition elevate_provision :: "desk \<Rightarrow> bool \<Rightarrow> string uop" where
  "elevate_provision k fo =
     u_bind (run_helper k (SubProvision fo)) (\<lambda>(success, out, err).
       if \<not> success then
         (let why = last_line (from_utf8_lossy err) in
          if why = [] then u_bail ''setup was cancelled or failed'' else u_bail why)
       else
         (let secret = trim (from_utf8_lossy out) in
          if secret = [] then u_bail ''the helper returned no secret'' else u_ok secret))"

definition elevate_reveal :: "desk \<Rightarrow> string uop" where
  "elevate_reveal k =
     u_bind (capture k SubReveal) (\<lambda>out.
       if out = [] then u_bail ''the helper returned nothing'' else u_ok out)"

definition elevate_rotate_seal :: "desk \<Rightarrow> (string \<times> string) uop" where
  "elevate_rotate_seal k =
     u_bind (capture k SubRotateSeal) (\<lambda>out.
       case lines out of
         old # new # _ \<Rightarrow>
           (if old \<noteq> [] \<and> new \<noteq> [] then u_ok (old, new)
            else u_bail ''the helper did not return both secrets'')
       | _ \<Rightarrow> u_bail ''the helper did not return both secrets'')"

definition elevate_rollback :: "desk \<Rightarrow> unit uop" where
  "elevate_rollback k = u_bind (capture k SubRollback) (\<lambda>_. u_ok ())"

definition elevate_wire_password :: "desk \<Rightarrow> unit uop" where
  "elevate_wire_password k = u_bind (capture k SubWirePassword) (\<lambda>_. u_ok ())"

definition elevate_forget_recovery_file :: "desk \<Rightarrow> unit uop" where
  "elevate_forget_recovery_file k = u_bind (capture k SubRemoveRecovery) (\<lambda>_. u_ok ())"

definition elevate_deprovision :: "desk \<Rightarrow> unit uop" where
  "elevate_deprovision k =
     u_bind (run_helper k SubDeprovision) (\<lambda>(success, _, _).
       if \<not> success then u_bail ''removing the PAM lines was cancelled or failed'' else u_ok ())"

subsection \<open>The keyring\<close>

definition change_password :: "desk \<Rightarrow> string \<Rightarrow> string \<Rightarrow> unit uop" where
  "change_password k old new =
     u_bind (u_call (\<lambda>n. map_sum (\<lambda>e. SCtx ''connecting to the session bus'' (SMsg e)) id (dk_connect k n))) (\<lambda>_.
     u_bind (u_call (\<lambda>n. map_sum (\<lambda>e. SCtx ''opening a plain session with gnome-keyring'' (SMsg e)) id
       (dk_open k n))) (\<lambda>_.
     u_bind (u_call (\<lambda>n. map_sum (\<lambda>e. SCtx ''reading the session path'' (SMsg e)) id (dk_session k n))) (\<lambda>_ s.
       case dk_change k (us_calls s) (us_keyring s) old new of
         Ok _ \<Rightarrow> (Ok (), s\<lparr>us_calls := us_calls s + 1, us_keyring := new\<rparr>)
       | Err e \<Rightarrow> (Err (SMsg (''the keyring refused the change: '' @ e)), s\<lparr>us_calls := us_calls s + 1\<rparr>))))"

subsection \<open>Commands\<close>

definition confirm :: "desk \<Rightarrow> string \<Rightarrow> string \<Rightarrow> bool uop" where
  "confirm k prompt expected =
     u_bind (print_str prompt) (\<lambda>_.
     u_bind (u_call (\<lambda>n. map_sum (\<lambda>e. SCtx ''flushing stdout'' (SIo e)) id (dk_flush k n))) (\<lambda>_.
     u_bind (u_call (\<lambda>n. map_sum (\<lambda>e. SCtx ''reading stdin'' (SIo e)) id (dk_line k n))) (\<lambda>line.
       u_ok (trim line = expected))))"

definition ask :: "desk \<Rightarrow> string uop" where
  "ask k =
     u_bind (u_call (\<lambda>n. map_sum (\<lambda>e. SCtx ''running systemd-ask-password'' (SIo e)) id (dk_password k n)))
       (\<lambda>(success, out).
         if \<not> success then u_bail ''could not read the password''
         else u_ok (trim_eol (from_utf8_lossy out)))"

definition u_context :: "string \<Rightarrow> 'a uop \<Rightarrow> 'a uop" where
  "u_context c m s = (case m s of (Err e, s1) \<Rightarrow> (Err (SCtx c e), s1) | (Ok x, s1) \<Rightarrow> (Ok x, s1))"

definition CONTINUE_PROMPT :: string where "CONTINUE_PROMPT = ''Type yes to continue: ''"
definition SAVED_PROMPT :: string where
  "SAVED_PROMPT = ''Type the recovery code back to confirm you saved it: ''"

definition enable_notice :: "bool \<Rightarrow> string list" where
  "enable_notice fo =
     (let stacks = (if fo then show_path FINGERPRINT_STACK
        else show_path FINGERPRINT_STACK @ '' and '' @ show_path PASSWORD_STACK) in
      [''This will seal 32 random bytes to the TPM at '' @ show_path CRED @ '', add the PAM'',
       ''module to '' @ stacks @ '', and re-key your login keyring to that secret.'',
       '''',
       ''Afterwards the keyring opens with the TPM secret alone. Your account'',
       ''password will not open it, and nor will your fingerprint if the TPM'',
       ''stops unsealing. The recovery code is then the only way in.'',
       ''''])"

definition cmd_enable :: "desk \<Rightarrow> bool \<Rightarrow> unit uop" where
  "cmd_enable k fo =
     (if is_root (dk_user_status k) then
        u_bail ''run this as your normal user. The keyring re-key needs your session bus''
      else
        u_bind (\<lambda>s. (require_ready (dk_report k) (dk_stack_exists k) (dk_stack k) (dk_keyring_path k), s)) (\<lambda>_.
        u_bind (say (enable_notice fo)) (\<lambda>_.
        u_bind (confirm k CONTINUE_PROMPT ''yes'') (\<lambda>yes.
          if \<not> yes then println ''nothing was changed.''
          else
            u_bind (elevate_provision k fo) (\<lambda>secret.
            u_bind (say ['''', ''RECOVERY CODE, save it now:'', '''', ''    '' @ secret, '''']) (\<lambda>_.
            u_bind (confirm k SAVED_PROMPT secret) (\<lambda>saved.
              if \<not> saved then
                say [''That did not match. PAM is wired and the secret is sealed, but the'',
                     ''keyring was not re-keyed, so nothing about your login has changed.'']
              else
                u_bind (ask k) (\<lambda>current.
                u_bind (u_context (''re-keying the keyring. Your login is unaffected: the keyring simply '' @
                  ''stays locked as it does today'') (change_password k current secret)) (\<lambda>_.
                say [''done. Log out and back in with your finger, then check:'',
                     ''  journalctl -b | grep gkr-pam        expect: unlocked login keyring''])))))))))"

definition cmd_disable :: "desk \<Rightarrow> unit uop" where
  "cmd_disable k =
     (if \<not> rp_fingerprint_wired (dk_report k) \<and> \<not> rp_password_wired (dk_report k) then
        println ''the module is in neither PAM stack, nothing to do.''
      else
        u_bind (elevate_deprovision k) (\<lambda>_.
        say [''removed.'',
             '''',
             ''The keyring is still keyed to the TPM secret, so logins will prompt'',
             ''for it. To go back to your account password, change it in Passwords'',
             ''and Keys: old is the recovery code, new is your account password.'']))"

definition cmd_rotate :: "desk \<Rightarrow> unit uop" where
  "cmd_rotate k =
     (if is_root (dk_user_status k) then
        u_bail ''run this as your normal user. The keyring re-key needs your session bus''
      else
        u_bind (elevate_rotate_seal k) (\<lambda>(old, new) s.
          case change_password k old new s of
            (Ok _, s1) \<Rightarrow>
              say [''rotated. New recovery key, also written to '' @ show_path RECOVERY_FILE @ '':'',
                   '''', ''    '' @ new] s1
          | (Err e, s1) \<Rightarrow>
              (Err (SMsg (''the keyring refused the new key, the old one was restored: '' @ display k e)),
               snd (elevate_rollback k s1))))"

definition cmd_show_key :: "desk \<Rightarrow> unit uop" where
  "cmd_show_key k = u_bind (elevate_reveal k) println"

definition cmd_add_password_login :: "desk \<Rightarrow> unit uop" where
  "cmd_add_password_login k =
     u_bind (elevate_wire_password k) (\<lambda>_. println ''password logins now unlock the keyring too.'')"

definition cmd_forget_recovery_file :: "desk \<Rightarrow> unit uop" where
  "cmd_forget_recovery_file k =
     u_bind (elevate_forget_recovery_file k) (\<lambda>_. println (''removed '' @ show_path RECOVERY_FILE))"

subsection \<open>What the user half changes\<close>

lemma u_bind_cases:
  assumes "u_bind m k s = (r, s')"
  obtains (failed) e where "m s = (Err e, s')" "r = Err e"
    | (went) x s1 where "m s = (Ok x, s1)" "k x s1 = (r, s')"
  using assms by (auto simp: u_bind_def split: prod.splits sum.splits)

lemma u_bind_Ok: "u_bind m k s = (Ok y, s') \<longleftrightarrow> (\<exists>x s1. m s = (Ok x, s1) \<and> k x s1 = (Ok y, s'))"
  by (auto simp: u_bind_def split: prod.split sum.split)

text \<open>Nothing but the helper changes the root's files, nothing but \<open>change_password\<close> the keyring.\<close>

lemma run_helper_root:
  assumes "run_helper k sub s = (r, s')"
  shows "us_keyring s' = us_keyring s \<and>
    (us_root s' = us_root s \<and> (\<forall>out err. r \<noteq> Ok (True, out, err)) \<or>
     (\<exists>rr. root_main k sub (us_root s) = (rr, us_root s') \<and>
        r = Ok (case rr of Ok out \<Rightarrow> (True, out, []) | Err e \<Rightarrow> (False, [], dk_show k e))))"
  using assms
  by (auto simp: run_helper_def u_bind_def u_call_def launcher_def split: if_splits prod.splits sum.splits option.splits)

lemma capture_root:
  assumes "capture k sub s = (r, s')"
  shows "us_keyring s' = us_keyring s \<and>
    (us_root s' = us_root s \<and> \<not> is_ok r \<or>
     (\<exists>rr. root_main k sub (us_root s) = (rr, us_root s') \<and>
        (case rr of Ok out \<Rightarrow> r = Ok (trim (from_utf8_lossy out)) | Err _ \<Rightarrow> \<not> is_ok r)))"
proof -
  obtain h s1 where h: "run_helper k sub s = (h, s1)" by fastforce
  have "s' = s1" using assms h
    by (auto simp: capture_def u_bind_def u_ok_def u_bail_def Let_def split: sum.splits prod.splits if_splits)
  with run_helper_root [OF h] assms h show ?thesis
    by (auto simp: capture_def u_bind_def u_ok_def u_bail_def Let_def is_ok_def
        split: sum.splits prod.splits if_splits)
qed

lemma capture_moved:
  "capture k sub s = (r, s') \<Longrightarrow> us_keyring s' = us_keyring s \<and>
     (us_root s' = us_root s \<or> (\<exists>rr. root_main k sub (us_root s) = (rr, us_root s')))"
  using capture_root by metis

lemma capture_Ok:
  assumes "capture k sub s = (Ok x, s')"
  obtains out where "root_main k sub (us_root s) = (Ok out, us_root s')" "x = trim (from_utf8_lossy out)"
proof -
  from capture_root [OF assms] obtain rr where "root_main k sub (us_root s) = (rr, us_root s')"
    and "case rr of Ok out \<Rightarrow> (Ok x :: setup_error + string) = Ok (trim (from_utf8_lossy out))
      | Err _ \<Rightarrow> \<not> is_ok (Ok x :: setup_error + string)" by (metis is_ok_simps(1))
  then show thesis using that by (cases rr) auto
qed

lemma elevate_rotate_root:
  assumes "elevate_rotate_seal k s = (r, s')"
  shows "us_keyring s' = us_keyring s \<and>
    (us_root s' = us_root s \<or> (\<exists>rr. root_main k SubRotateSeal (us_root s) = (rr, us_root s')))"
proof -
  obtain h s1 where h: "capture k SubRotateSeal s = (h, s1)" by fastforce
  have "s' = s1" using assms h
    by (auto simp: elevate_rotate_seal_def u_bind_def u_ok_def u_bail_def split: sum.splits list.splits if_splits)
  with capture_moved [OF h] show ?thesis by simp
qed

lemma elevate_rotate_Ok:
  assumes "elevate_rotate_seal k s = (Ok (old, new), s')"
  obtains out rest where "root_main k SubRotateSeal (us_root s) = (Ok out, us_root s')"
    "lines (trim (from_utf8_lossy out)) = old # new # rest"
proof -
  from assms obtain x s1 where x: "capture k SubRotateSeal s = (Ok x, s1)"
    and r: "(case lines x of old # new # _ \<Rightarrow> (if old \<noteq> [] \<and> new \<noteq> [] then u_ok (old, new)
        else u_bail ''the helper did not return both secrets'')
      | _ \<Rightarrow> u_bail ''the helper did not return both secrets'') s1 = (Ok (old, new), s')"
    by (auto simp: elevate_rotate_seal_def u_bind_Ok)
  obtain rest where "lines x = old # new # rest" "s1 = s'"
    using r by (cases "lines x"; cases "tl (lines x)") (auto simp: u_ok_def u_bail_def split: if_splits)
  from capture_Ok [OF x] obtain out where "root_main k SubRotateSeal (us_root s) = (Ok out, us_root s1)"
    "x = trim (from_utf8_lossy out)" .
  with \<open>lines x = old # new # rest\<close> \<open>s1 = s'\<close> show thesis using that by simp
qed

lemma elevate_rollback_root:
  assumes "elevate_rollback k s = (r, s')"
  shows "us_keyring s' = us_keyring s \<and>
    (us_root s' = us_root s \<or> (\<exists>rr. root_main k SubRollback (us_root s) = (rr, us_root s')))"
proof -
  obtain h s1 where h: "capture k SubRollback s = (h, s1)" by fastforce
  have "s' = s1" using assms h by (auto simp: elevate_rollback_def u_bind_def u_ok_def split: sum.splits)
  with capture_moved [OF h] show ?thesis by simp
qed

lemma change_password_effect:
  assumes "change_password k old new s = (r, s')"
  shows "us_root s' = us_root s \<and> (if is_ok r then us_keyring s' = new else us_keyring s' = us_keyring s)"
  using assms
  by (auto simp: change_password_def u_bind_def u_call_def is_ok_def split: sum.splits)

end
