(* ===== verification/Keyring.thy ===== *)
theory Keyring
  imports KeyringCli
begin

text \<open>
  The properties of the keyring unlock as a whole: provisioning, its undoing, the rotation of the key
  through both halves, and the way of the secret from the seal to the login.
\<close>

subsection \<open>Secrets through the pipe\<close>

lemma trim_plain: "s \<noteq> [] \<Longrightarrow> \<not> is_space (hd s) \<Longrightarrow> \<not> is_space (last s) \<Longrightarrow> trim (s @ [NL]) = s"
proof -
  assume s: "s \<noteq> []" "\<not> is_space (hd s)" "\<not> is_space (last s)"
  have "trim_start (s @ [NL]) = s @ [NL]" using s by (cases s) (simp_all add: trim_start_def)
  moreover have "dropWhile is_space (rev s) = rev s"
    using s by (cases s rule: rev_cases) simp_all
  moreover have "is_space NL" by (simp add: is_space_def NL_def)
  ultimately show ?thesis by (simp add: trim_def trim_end_matches_def)
qed

lemma trim_id:
  assumes "s \<noteq> []" "\<not> is_space (hd s)" "\<not> is_space (last s)"
  shows "trim s = s"
proof -
  have "trim_start s = s" using assms by (cases s) (simp_all add: trim_start_def)
  moreover have "dropWhile is_space (rev s) = rev s" using assms by (cases s rule: rev_cases) simp_all
  ultimately show ?thesis by (simp add: trim_def trim_end_matches_def)
qed

definition hexy :: "string \<Rightarrow> bool" where
  "hexy s \<longleftrightarrow> s \<noteq> [] \<and> set s \<subseteq> set hex_chars"

lemma good_hexy: "good_secret s \<Longrightarrow> hexy s"
  by (auto simp: good_secret_def hexy_def)

lemma good_secret_facts:
  assumes "hexy s"
  shows "s \<noteq> []" "\<forall>c \<in> set s. byte_of c < 0x80" "\<not> is_space (hd s)" "\<not> is_space (last s)" "clean_line s"
    "CHR 0x00 \<notin> set s" "NL \<notin> set s"
proof -
  show s: "s \<noteq> []" using assms by (simp add: hexy_def)
  have all: "\<forall>c \<in> set s. byte_of c < 0x80 \<and> c \<noteq> NL \<and> c \<noteq> CR \<and> c \<noteq> CHR 0x00 \<and> \<not> is_space c"
    using assms hex_plain hexy_def by (meson subsetD)
  then show "\<forall>c \<in> set s. byte_of c < 0x80" "CHR 0x00 \<notin> set s" "NL \<notin> set s" by blast+
  show "\<not> is_space (hd s)" "\<not> is_space (last s)" using all hd_in_set [OF s] last_in_set [OF s] by blast+
  show "clean_line s" using all by (intro clean_lineI) blast+
qed

lemma NL_ascii: "byte_of NL < 0x80"
  by (simp add: NL_def)

lemma secret_printed: "hexy s \<Longrightarrow> trim (from_utf8_lossy (s @ [NL])) = s"
proof -
  assume s: "hexy s"
  have "from_utf8_lossy (s @ [NL]) = s @ [NL]"
    using good_secret_facts(2) [OF s] NL_ascii by (intro from_utf8_lossy_ascii) auto
  then show ?thesis using good_secret_facts [OF s] trim_plain by simp
qed

lemma secrets_printed:
  assumes "hexy old" "hexy new"
  shows "lines (trim (from_utf8_lossy (old @ [NL] @ new @ [NL]))) = [old, new]"
proof -
  note o = good_secret_facts [OF assms(1)] and n = good_secret_facts [OF assms(2)]
  have "from_utf8_lossy ((old @ [NL] @ new) @ [NL]) = (old @ [NL] @ new) @ [NL]"
    using o(2) n(2) NL_ascii by (intro from_utf8_lossy_ascii) auto
  then have "trim (from_utf8_lossy (old @ [NL] @ new @ [NL])) = old @ NL # new"
    using trim_plain [of "old @ [NL] @ new"] o n by simp
  then show ?thesis using lines_nl_append [OF o(7), of new] lines_no_nl [OF n(7) n(1)] o(5) by simp
qed

subsection \<open>The helper's commands\<close>

lemma root_main_provision:
  "root_main k (SubProvision fo) s = (Ok out, s') \<Longrightarrow>
   \<exists>secret wired. provision (dk_outside k) fo s = (Ok (secret, wired), s') \<and> out = secret @ [NL]"
  by (auto simp: root_main_def Let_def r_bind_Ok split: sum.splits)

lemma root_main_rotate:
  "root_main k SubRotateSeal s = (Ok out, s') \<Longrightarrow>
   \<exists>old new. rotate_seal (dk_outside k) s = (Ok (old, new), s') \<and> out = old @ [NL] @ new @ [NL]"
  by (auto simp: root_main_def Let_def r_bind_Ok split: sum.splits)

lemma root_main_rotate_keeps:
  assumes "root_main k SubRotateSeal s = (r, s')"
  shows "files s' CRED = files s CRED \<or> files s' CRED_PREVIOUS = files s CRED"
proof (cases "require_root (dk_root_status k)")
  case (Inl e)
  then show ?thesis using assms by (simp add: root_main_def Let_def)
next
  case (Inr u)
  obtain r1 s1 where "rotate_seal (dk_outside k) s = (r1, s1)" by fastforce
  moreover from this have "s' = s1" using assms Inr
    by (auto simp: root_main_def Let_def r_bind_def r_ok_def split: sum.splits prod.splits)
  ultimately show ?thesis using rotate_keeps_blob by blast
qed

lemma touches_rollback: "touches cred_or_recovery (rollback w)"
  unfolding rollback_def by (auto intro!: keeps_rules split: if_split)

lemma root_main_rollback_keeps:
  assumes "root_main k SubRollback s = (r, s')"
  shows "files s' CRED_PREVIOUS = files s CRED_PREVIOUS"
proof (cases "require_root (dk_root_status k)")
  case (Inl e)
  then show ?thesis using assms by (simp add: root_main_def Let_def)
next
  case (Inr u)
  obtain r1 s1 where r: "rollback (dk_outside k) s = (r1, s1)" by fastforce
  moreover from this have "s' = s1" using assms Inr
    by (auto simp: root_main_def Let_def r_bind_def r_ok_def split: sum.splits)
  ultimately show ?thesis using touchesD [OF touches_rollback _ r] by (simp add: cred_or_recovery_def)
qed

subsection \<open>A sample machine\<close>

text \<open>A TPM whose blobs are readable, an empty root file system with the two stacks.\<close>

definition ok_status :: exit_status where
  "ok_status = \<lparr>ex_success = True, ex_text = ''exit status: 0''\<rparr>"

definition bad_status :: exit_status where
  "bad_status = \<lparr>ex_success = False, ex_text = ''exit status: 1''\<rparr>"

definition sample_outside :: outside where
  "sample_outside =
     \<lparr>ow_urandom = (\<lambda>_. Ok ()), ow_random = (\<lambda>n. Ok (\<lambda>i. word_of_nat (n + i))),
      ow_encrypt = (\<lambda>_ s. \<lparr>er_spawn = Ok (), er_write = Ok (), er_blob = Some (''TPM'' @ s), er_wait = Ok ok_status\<rparr>),
      ow_decrypt = (\<lambda>_ b. case b of Some s \<Rightarrow> Ok (ok_status, drop 3 s, []) | None \<Rightarrow> Ok (bad_status, [], [])),
      ow_chmod = (\<lambda>_. Ok ()), ow_clock = (\<lambda>_. 7)\<rparr>"

definition sample_root :: root where
  "sample_root =
     \<lparr>rt_fs = quiet_fs\<lparr>fs_files := [FINGERPRINT_STACK \<mapsto> sample_stack, PASSWORD_STACK \<mapsto> sample_stack]\<rparr>,
      rt_mode = (\<lambda>_. None), rt_calls = 0\<rparr>"

lemma sample_root_files:
  "files sample_root = [FINGERPRINT_STACK \<mapsto> sample_stack, PASSWORD_STACK \<mapsto> sample_stack]"
  "quiet sample_root"
  by (simp_all add: sample_root_def quiet_def quiet_fs_def)

lemma sample_unseals: "unseals_alike sample_outside"
  by (auto simp: unseals_alike_def sample_outside_def split: option.splits)

subsection \<open>Success\<close>

text \<open>A TPM and a system that do what they are asked, whatever the number of the call.\<close>

definition cooperative :: "outside \<Rightarrow> bool" where
  "cooperative w \<longleftrightarrow>
     (\<forall>n. ow_urandom w n = Ok () \<and> is_ok (ow_random w n) \<and> ow_chmod w n = Ok ()) \<and>
     (\<forall>n secret. good_secret secret \<longrightarrow> (\<exists>blob status. ow_encrypt w n secret =
          \<lparr>er_spawn = Ok (), er_write = Ok (), er_blob = Some blob, er_wait = Ok status\<rparr> \<and> ex_success status \<and>
        (\<forall>m. \<exists>st out err. ow_decrypt w m (Some blob) = Ok (st, out, err) \<and> ex_success st \<and>
           trim_eol (from_utf8_lossy out) = secret)))"

lemma generate_coop: "cooperative w \<Longrightarrow> \<exists>secret s1. generate w s = (Ok secret, s1) \<and> rt_fs s1 = rt_fs s"
proof -
  assume w: "cooperative w"
  then have u: "ow_urandom w n = Ok ()" for n by (simp add: cooperative_def)
  from w obtain raw where "ow_random w (Suc (rt_calls s)) = Ok raw"
    unfolding cooperative_def is_ok_iff by blast
  then show ?thesis using u by (simp add: generate_def r_bind_def r_context_def r_call_def r_ok_def)
qed

lemma set_mode_coop: "cooperative w \<Longrightarrow> \<exists>s1. set_mode w p mode shown s = (Ok (), s1) \<and> rt_fs s1 = rt_fs s"
  by (simp add: cooperative_def set_mode_def r_bind_def r_context_def r_call_def)

lemma fs_write_quiet: "quiet s \<Longrightarrow> \<exists>s1. r_fs (fs_write p text) s = (Ok (), s1) \<and> quiet s1"
  by (auto simp: quiet_def r_fs_def fs_write_def open_truncate_def write_all_def fs_tick_def)

lemma seal_coop:
  assumes "cooperative w" "quiet s" "good_secret secret"
  shows "\<exists>s1 s2. seal_as_root w secret s = (Ok (), s1) \<and> verify_as_root w secret s1 = (Ok (), s2) \<and> quiet s2"
proof -
  obtain s1 where s1: "r_fs (create_dir_all CRED_DIR) s = (Ok (), s1)" "quiet s1"
    using assms(2) by (auto simp: quiet_def r_fs_def create_dir_all_def fs_tick_def)
  obtain s2 where s2: "set_mode w CRED_DIR 448 ''700'' s1 = (Ok (), s2)" "rt_fs s2 = rt_fs s1"
    using set_mode_coop [OF assms(1)] by blast
  obtain blob status where e: "ow_encrypt w (rt_calls s2) secret =
      \<lparr>er_spawn = Ok (), er_write = Ok (), er_blob = Some blob, er_wait = Ok status\<rparr>" "ex_success status"
    and d: "\<And>m. \<exists>st out err. ow_decrypt w m (Some blob) = Ok (st, out, err) \<and> ex_success st \<and>
           trim_eol (from_utf8_lossy out) = secret"
    using assms(1,3) unfolding cooperative_def by metis
  obtain s3 where s3: "start_encrypt w secret s2 = (Ok (ow_encrypt w (rt_calls s2) secret), s3)"
    "files s3 CRED = Some blob" "quiet s3"
    using e s1(2) s2(2) by (simp add: start_encrypt_def Let_def quiet_def)
  define s5 where "s5 = s3\<lparr>rt_calls := rt_calls s3 + 2\<rparr>"
  obtain s6 where s6: "set_mode w CRED 384 ''600'' s5 = (Ok (), s6)" "rt_fs s6 = rt_fs s5"
    using set_mode_coop [OF assms(1)] by blast
  have seal: "seal_as_root w secret s = (Ok (), s6)"
    using s1 s2 s3 s6 e by (simp add: seal_as_root_def r_bind_def r_context_def r_call_def s5_def)
  have "quiet s6" "files s6 CRED = Some blob" using s6(2) s3 by (simp_all add: quiet_def s5_def)
  moreover obtain st out err where "ow_decrypt w (rt_calls s6) (Some blob) = Ok (st, out, err)" "ex_success st"
    "trim_eol (from_utf8_lossy out) = secret" using d by metis
  ultimately have "\<exists>s7. verify_as_root w secret s6 = (Ok (), s7) \<and> quiet s7"
    by (simp add: verify_as_root_def r_bind_def run_decrypt_def r_context_def r_call_def r_ok_def quiet_def)
  then show ?thesis using seal by blast
qed

lemma wire_coop:
  "quiet s \<Longrightarrow> set stacks \<subseteq> set stack_paths \<Longrightarrow> distinct stacks \<Longrightarrow>
   \<forall>stack \<in> set stacks. \<forall>old. files s stack = Some old \<longrightarrow> is_ok (pam_insert old) \<Longrightarrow>
   \<exists>wired s'. wire_stacks w stacks acc s = (Ok wired, s')"
proof (induction stacks arbitrary: s acc)
  case (Cons stack rest)
  obtain s0 where r: "r_read stack s = (Ok (files s stack), s0)" "quiet s0" "files s0 = files s"
    using r_read_quiet [OF Cons.prems(1)] by blast
  show ?case
  proof (cases "files s stack")
    case None
    then show ?thesis using Cons.IH [OF r(2), of acc] Cons.prems r by (simp add: r_bind_def)
  next
    case (Some old)
    then obtain c where c: "pam_insert old = Ok c" using Cons.prems(4) by (auto simp: is_ok_iff)
    show ?thesis
    proof (cases c)
      case AlreadyPresent
      then show ?thesis using Cons.IH [OF r(2), of "acc @ [(stack, None)]"] Cons.prems r Some c
        by (simp add: r_bind_def r_insert_def)
    next
      case (Added u)
      obtain bk s1 where b: "backup_as_root w stack s0 = (Ok bk, s1)" "quiet s1" "is_backup bk"
        "files s1 = (files s0)(bk \<mapsto> old)"
        using backup_quiet [OF r(2), of stack old w] r(3) Some Cons.prems(2) by auto
      obtain s2 where wr: "write_as_root stack u s1 = (Ok (), s2)" "quiet s2" "files s2 = (files s1)(stack \<mapsto> u)"
        using write_quiet [OF b(2)] by blast
      have "files s2 p = files s p" if "p \<in> set rest" for p
        using that wr(3) b(3,4) r(3) not_backup_stack [of bk p] Cons.prems(2,3) by auto
      then show ?thesis using Cons.IH [OF wr(2), of "acc @ [(stack, Some bk)]"] Cons.prems r b wr Some c Added
        by (simp add: r_bind_def r_insert_def)
    qed
  qed
qed (simp add: r_ok_def)

lemma provision_coop:
  assumes "cooperative w" "quiet s" "files s CRED = None"
    and "\<forall>stack \<in> set (provision_stacks fo). \<forall>old. files s stack = Some old \<longrightarrow> is_ok (pam_insert old)"
  shows "\<exists>secret wired s'. provision w fo s = (Ok (secret, wired), s')"
proof -
  obtain s0 where ex: "r_exists CRED s = (Ok False, s0)" "quiet s0" "files s0 = files s"
    using assms(2,3) by (simp add: r_exists_def fs_exists_def fs_tick_def quiet_def)
  obtain secret s1 where g: "generate w s0 = (Ok secret, s1)" "rt_fs s1 = rt_fs s0"
    using generate_coop [OF assms(1)] by blast
  have good: "good_secret secret" using generate_Ok g(1) by blast
  have "quiet s1" using ex(2) g(2) by (simp add: quiet_def)
  then obtain s2 s3 where s: "seal_as_root w secret s1 = (Ok (), s2)"
    "verify_as_root w secret s2 = (Ok (), s3)" "quiet s3"
    using seal_coop [OF assms(1) _ good] by blast
  obtain s4 where s4: "r_fs (fs_write RECOVERY_FILE (secret @ [NL])) s3 = (Ok (), s4)" "quiet s4"
    using fs_write_quiet [OF s(3)] by blast
  obtain s5 where s5: "set_mode w RECOVERY_FILE 384 ''600'' s4 = (Ok (), s5)" "rt_fs s5 = rt_fs s4"
    using set_mode_coop [OF assms(1)] by blast
  have seal: "seal_fresh w secret s1 = (Ok (), s5)"
    using s s4 s5 by (simp add: seal_fresh_def write_recovery_as_root_def r_bind_def r_context_def)
  have same: "files s5 p = files s p" if "\<not> cred_or_recovery p" for p
    using touchesD [OF touches_seal_fresh that seal] g(2) ex(3) by simp
  have "\<not> cred_or_recovery stack" if "stack \<in> set stack_paths" for stack
    using that distinct_paths(7,9) by (auto simp: cred_or_recovery_def)
  then have ins: "\<forall>stack \<in> set (provision_stacks fo). \<forall>old. files s5 stack = Some old \<longrightarrow> is_ok (pam_insert old)"
    using assms(4) same subsetD [OF provision_stacks_set] by metis
  have "quiet s5" using s4(2) s5(2) by (simp add: quiet_def)
  moreover have "distinct (provision_stacks fo)" by (simp add: provision_stacks_def)
  ultimately obtain wired s' where "wire_stacks w (provision_stacks fo) [] s5 = (Ok wired, s')"
    using wire_coop [OF _ provision_stacks_set _ ins] by blast
  then show ?thesis using ex g seal by (simp add: provision_split r_bind_def r_ok_def)
qed

lemma good_secret_trim: "hexy secret \<Longrightarrow> trim_eol (from_utf8_lossy secret) = secret"
proof -
  assume good: "hexy secret"
  have "last secret \<noteq> NL" "last secret \<noteq> CR"
    using good_secret_facts(1,4) [OF good] by (auto simp: is_space_def NL_def CR_def)
  then show ?thesis using good_secret_facts(1,2) [OF good] by (simp add: trim_eol_id from_utf8_lossy_ascii)
qed

lemma sample_cooperative: "cooperative sample_outside"
  using good_secret_trim [OF good_hexy] by (auto simp: cooperative_def sample_outside_def ok_status_def)

lemma sample_provision:
  obtains secret wired s' where "provision sample_outside fo sample_root = (Ok (secret, wired), s')"
proof -
  have "files sample_root CRED = None"
    by (simp add: sample_root_files CRED_def FINGERPRINT_STACK_def PASSWORD_STACK_def)
  moreover have "\<forall>stack \<in> set (provision_stacks fo). \<forall>old. files sample_root stack = Some old \<longrightarrow> is_ok (pam_insert old)"
    using sample_stack_insert by (auto simp: sample_root_files provision_stacks_def split: if_splits)
  ultimately show thesis
    using provision_coop [OF sample_cooperative sample_root_files(2)] that by blast
qed

subsection \<open>Properties of provisioning\<close>

text \<open>C27: Provisioning ends well on a system that does what it is asked: with no credential there and
  every stack that exists either wired or with a keyring line, on a file system and a TPM that do
  not fail, it succeeds; then its secret is 64 hex digits, the credential unseals to it, the recovery
  file holds it, and every stack asked for that exists is wired.\<close>

theorem provision_succeeds:
  assumes "cooperative w" "quiet s" "files s CRED = None"
    and "\<forall>stack \<in> set (provision_stacks fo). \<forall>old. files s stack = Some old \<longrightarrow> is_ok (pam_insert old)"
  shows "\<exists>secret wired s'. provision w fo s = (Ok (secret, wired), s') \<and> good_secret secret \<and>
    sealed w secret s' \<and> kept secret s' \<and>
    (\<forall>stack \<in> set (provision_stacks fo). \<forall>new. files s' stack = Some new \<longrightarrow> list_ex is_our_line (lines new))"
proof -
  obtain secret wired s' where p: "provision w fo s = (Ok (secret, wired), s')"
    using provision_coop [OF assms] by blast
  from provision_Ok [OF p] obtain s1 where s1: "good_secret secret" "sealed w secret s'" "kept secret s'"
    "wire_stacks w (provision_stacks fo) [] s1 = (Ok wired, s')" "quiet s1"
    using assms(2) by metis
  then show ?thesis using p provision_stacks_quiet [OF s1(5,4)] by blast
qed

theorem provision_succeeds_witness:
  "\<exists>secret s'. fst (provision sample_outside False sample_root) = Ok secret \<and> kept (fst secret) s'"
proof -
  have a: "files sample_root CRED = None"
    by (simp add: sample_root_files CRED_def FINGERPRINT_STACK_def PASSWORD_STACK_def)
  have b: "\<forall>stack \<in> set (provision_stacks False). \<forall>old. files sample_root stack = Some old \<longrightarrow> is_ok (pam_insert old)"
    using sample_stack_insert by (auto simp: sample_root_files provision_stacks_def split: if_splits)
  from provision_succeeds [OF sample_cooperative sample_root_files(2) a b] show ?thesis by force
qed

text \<open>C26: Nothing is wired until the seal has round tripped: whatever fails and wherever, if a PAM
  stack has changed then the credential unseals to a secret of 64 hex digits that the recovery file
  holds too; and no stack changes when a credential was there before, unless the very look for it
  failed (it is the first operation on the file system).\<close>

theorem provision_wires_only_sealed:
  assumes "provision w fo s = (r, s')" and "stack \<in> set stack_paths" and "files s' stack \<noteq> files s stack"
  shows "\<exists>secret. good_secret secret \<and> sealed w secret s' \<and> kept secret s' \<and>
    (files s CRED = None \<or> fs_fault (rt_fs s) (fs_count (rt_fs s)) \<noteq> None)"
  using assms(1)
proof (cases rule: provision_phases)
  case (early e)
  have "\<not> cred_or_recovery stack"
    using assms(2) distinct_paths(7,9) by (auto simp: cred_or_recovery_def)
  then show ?thesis using early(2) assms(3) by blast
next
  case (wiring secret s1 r1)
  have f: "touches wiring_path (wire_stacks w (provision_stacks fo) [])"
    by (rule touches_wire) (auto simp: subsetD [OF provision_stacks_set])
  have "files s' CRED = files s1 CRED" "files s' RECOVERY_FILE = files s1 RECOVERY_FILE"
    using touchesD [OF f _ wiring(5)] by (simp_all add: wiring_path_def)
  then have "sealed w secret s' \<and> kept secret s'"
    using wiring(2,3) sealed_frame [of s' s1 w secret] by (simp add: kept_def)
  moreover have "files s CRED = None \<or> fs_fault (rt_fs s) (fs_count (rt_fs s)) \<noteq> None"
    using provision_existing [of s _ w fo] assms by (metis not_None_eq snd_conv)
  ultimately show ?thesis using wiring(1) by blast
qed

theorem provision_wires_only_sealed_witness:
  "\<exists>s' secret. files s' FINGERPRINT_STACK = Some sample_wired \<and> sealed sample_outside secret s'"
proof -
  obtain secret wired s' where p: "provision sample_outside False sample_root = (Ok (secret, wired), s')"
    by (rule sample_provision)
  obtain s1 where "wire_stacks sample_outside (provision_stacks False) [] s1 = (Ok wired, s')" "quiet s1"
    "\<And>p. \<not> cred_or_recovery p \<Longrightarrow> files s1 p = files sample_root p"
    using provision_Ok [OF p] sample_root_files(2) by metis
  then have w: "files s' FINGERPRINT_STACK = Some sample_wired"
    using provision_stacks_quiet [of s1 sample_outside False wired s'] sample_stack_insert
    by (simp add: provision_stacks_def sample_root_files wired_text_def cred_or_recovery_def
        CRED_def RECOVERY_FILE_def FINGERPRINT_STACK_def PASSWORD_STACK_def)
  have "sample_wired \<noteq> sample_stack" by code_simp
  then have "files s' FINGERPRINT_STACK \<noteq> files sample_root FINGERPRINT_STACK"
    using w by (simp add: sample_root_files)
  with provision_wires_only_sealed [OF p, of FINGERPRINT_STACK] w show ?thesis
    by (auto simp: stack_paths_def)
qed

text \<open>C37: Undoing: on a file system that does not fail, deprovisioning after a provisioning gives both
  PAM stacks their old text back, for stacks of complete lines that were not wired before, and
  leaves the sealed secret and the recovery file alone, so the keyring can still be opened.\<close>

theorem deprovision_undoes_provision:
  assumes "quiet s" and "provision w fo s = (Ok (secret, wired), s1)"
    and "\<forall>stack \<in> set stack_paths. \<forall>old. files s stack = Some old \<longrightarrow>
      CR \<notin> set old \<and> old \<noteq> [] \<and> last old = NL \<and> \<not> list_ex is_our_line (lines old)"
  shows "\<exists>undone s2. deprovision w s1 = (Ok undone, s2) \<and>
    (\<forall>stack \<in> set stack_paths. files s2 stack = files s stack) \<and> sealed w secret s2 \<and> kept secret s2"
proof -
  from provision_Ok [OF assms(2)] obtain s0 where s0:
    "\<And>p. \<not> cred_or_recovery p \<Longrightarrow> files s0 p = files s p"
    "wire_stacks w (provision_stacks fo) [] s0 = (Ok wired, s1)" "quiet s0" "sealed w secret s1" "kept secret s1"
    using assms(1) by metis
  note wired = provision_stacks_quiet [OF s0(3,2)]
  obtain undone s2 where d: "deprovision w s1 = (Ok undone, s2)"
    "\<forall>stack \<in> set stack_paths. files s2 stack = map_option unwired (files s1 stack)"
    using deprovision_quiet wired by metis
  have "files s2 stack = files s stack" if st: "stack \<in> set stack_paths" for stack
  proof -
    have n: "\<not> cred_or_recovery stack" using st distinct_paths(7,9) by (auto simp: cred_or_recovery_def)
    have plain: "unwired old = old" "unwired (wired_text old) = old" if "files s stack = Some old" for old
    proof -
      have o: "CR \<notin> set old" "old \<noteq> []" "last old = NL" "\<not> list_ex is_our_line (lines old)"
        using assms(3) st that by auto
      then show u: "unwired old = old" by (simp add: unwired_def pam_remove_def)
      show "unwired (wired_text old) = old"
        using wire_roundtrip [OF o(1-3)] u
        by (auto simp: wired_text_def unwired_def split: sum.split change.split)
    qed
    have "files s1 stack = files s stack \<or> files s1 stack = map_option wired_text (files s stack)"
      using wired st s0(1) [OF n] by (metis DiffI)
    then show ?thesis using d(2) st plain by (cases "files s stack") auto
  qed
  moreover have tw: "touches wiring_path (deprovision w)"
    unfolding deprovision_def by (rule touches_unwire) (auto simp: stack_paths_def)
  have "files s2 CRED = files s1 CRED" "files s2 RECOVERY_FILE = files s1 RECOVERY_FILE"
    using touchesD [OF tw _ d(1)] by (simp_all add: wiring_path_def)
  ultimately show ?thesis using d(1) s0(4,5) sealed_frame [of s2 s1 w secret] by (auto simp: kept_def)
qed

lemma sample_stack_unwired: "\<not> list_ex is_our_line (lines sample_stack)"
  by code_simp

theorem deprovision_undoes_provision_witness:
  "\<exists>s1 s2. files s2 FINGERPRINT_STACK = Some sample_stack \<and> is_ok (fst (deprovision sample_outside s1))"
proof -
  obtain secret wired s1 where p: "provision sample_outside False sample_root = (Ok (secret, wired), s1)"
    by (rule sample_provision)
  have h: "\<forall>stack \<in> set stack_paths. \<forall>old. files sample_root stack = Some old \<longrightarrow>
      CR \<notin> set old \<and> old \<noteq> [] \<and> last old = NL \<and> \<not> list_ex is_our_line (lines old)"
    using sample_stack_plain sample_stack_unwired by (auto simp: sample_root_files stack_paths_def)
  from deprovision_undoes_provision [OF sample_root_files(2) p h] obtain undone s2 where
    d: "deprovision sample_outside s1 = (Ok undone, s2)"
      "\<forall>stack \<in> set stack_paths. files s2 stack = files sample_root stack" by blast
  have "FINGERPRINT_STACK \<in> set stack_paths" by (simp add: stack_paths_def)
  then have "files s2 FINGERPRINT_STACK = Some sample_stack" using d(2) by (simp add: sample_root_files)
  moreover have "is_ok (fst (deprovision sample_outside s1))" using d(1) by simp
  ultimately show ?thesis by blast
qed

subsection \<open>Properties of the rotation\<close>

text \<open>A rotation can be undone: after a rotation of the seal that succeeded, a rollback that
  succeeds puts the very old blob back, and the recovery file holds the old secret again; the
  rotation itself sealed a fresh secret of 64 hex digits.\<close>

theorem rollback_restores:
  assumes "unseals_alike w" and "rotate_seal w s = (Ok (old, new), s1)" and "rollback w s1 = (Ok (), s2)"
  shows "files s2 CRED = files s CRED \<and> kept old s2 \<and> good_secret new \<and> sealed w new s1"
proof -
  note r = rotate_Ok [OF assms(2)] and b = rollback_Ok [OF assms(3)]
  have cred: "files s2 CRED = files s CRED" using r b by simp
  then have "sealed w old s2" using r sealed_frame [of s2 s w old] by simp
  then show ?thesis using cred r b sealed_unique [OF assms(1)] by metis
qed

text \<open>A rotation of a provisioned machine, on a system that does not fail.\<close>

lemma unseal_coop:
  assumes "quiet s" "\<And>m. \<exists>st out err. ow_decrypt w m (files s CRED) = Ok (st, out, err) \<and> ex_success st \<and>
      trim_eol (from_utf8_lossy out) = secret" "secret \<noteq> []"
  shows "\<exists>s1. unseal_as_root w s = (Ok secret, s1) \<and> quiet s1 \<and> files s1 = files s"
proof -
  obtain st out err where "ow_decrypt w (rt_calls s) (files s CRED) = Ok (st, out, err)" "ex_success st"
    "trim_eol (from_utf8_lossy out) = secret" using assms(2) by metis
  then show ?thesis using assms(1,3)
    by (simp add: unseal_as_root_def r_bind_def run_decrypt_def r_context_def r_call_def r_ok_def quiet_def Let_def)
qed

definition sample_sealed :: root where
  "sample_sealed = sample_root\<lparr>rt_fs := quiet_fs\<lparr>fs_files := [CRED \<mapsto> ''TPMcafe'']\<rparr>\<rparr>"

lemma sample_sealed_unseal: "unseal_as_root sample_outside sample_sealed =
    (Ok ''cafe'', sample_sealed\<lparr>rt_calls := 1\<rparr>)"
proof -
  have "trim_eol (from_utf8_lossy ''cafe'') = ''cafe''" by code_simp
  then show ?thesis
    by (simp add: unseal_as_root_def r_bind_def run_decrypt_def r_context_def r_call_def r_ok_def Let_def
        sample_sealed_def sample_root_def sample_outside_def ok_status_def)
qed

lemma quiet_copy: "quiet s \<Longrightarrow> files s a \<noteq> None \<Longrightarrow>
    \<exists>s1. r_fs (fs_copy a b) s = (Ok (), s1) \<and> quiet s1 \<and> files s1 b = files s a"
  by (auto simp: quiet_def r_fs_def fs_copy_def read_to_string_def fs_write_def open_truncate_def
      write_all_def fs_tick_def)

lemma recovery_coop:
  assumes "cooperative w" "quiet s"
  shows "\<exists>s1. write_recovery_as_root w secret s = (Ok (), s1) \<and> quiet s1"
proof -
  obtain s4 where s4: "r_fs (fs_write RECOVERY_FILE (secret @ [NL])) s = (Ok (), s4)" "quiet s4"
    using fs_write_quiet [OF assms(2)] by blast
  obtain s5 where "set_mode w RECOVERY_FILE 384 ''600'' s4 = (Ok (), s5)" "rt_fs s5 = rt_fs s4"
    using set_mode_coop [OF assms(1)] by blast
  then show ?thesis using s4 by (simp add: write_recovery_as_root_def r_bind_def r_context_def quiet_def)
qed

lemma rotate_coop:
  assumes w: "cooperative w" and "quiet s" "files s CRED \<noteq> None" "old \<noteq> []"
    and opens: "\<And>m. \<exists>st out err. ow_decrypt w m (files s CRED) = Ok (st, out, err) \<and> ex_success st \<and>
      trim_eol (from_utf8_lossy out) = old"
  shows "\<exists>new s'. rotate_seal w s = (Ok (old, new), s') \<and> quiet s'"
proof -
  obtain s0 where u: "unseal_as_root w s = (Ok old, s0)" "quiet s0" "files s0 = files s"
    using unseal_coop [OF assms(2) opens assms(4)] by blast
  obtain new sg where g: "generate w s0 = (Ok new, sg)" "rt_fs sg = rt_fs s0"
    using generate_coop [OF w] by blast
  have good: "good_secret new" using generate_Ok g(1) by blast
  have qg: "quiet sg" "files sg CRED \<noteq> None" using u g(2) assms(3) by (simp_all add: quiet_def)
  obtain sc where c: "r_fs (fs_copy CRED CRED_PREVIOUS) sg = (Ok (), sc)" "quiet sc"
    using quiet_copy [OF qg] by blast
  obtain s2 s3 where s: "seal_as_root w new sc = (Ok (), s2)" "verify_as_root w new s2 = (Ok (), s3)" "quiet s3"
    using seal_coop [OF w c(2) good] by blast
  obtain s4 where r: "write_recovery_as_root w new s3 = (Ok (), s4)" "quiet s4"
    using recovery_coop [OF w s(3)] by blast
  have "rotate_seal w s = (Ok (old, new), s4)"
    using g c s r u by (simp add: rotate_seal_def r_bind_def r_context_def r_ok_def)
  then show ?thesis using r(2) by blast
qed

lemma rollback_coop:
  assumes w: "cooperative w" and "quiet s" "files s CRED_PREVIOUS \<noteq> None" "old \<noteq> []"
    and opens: "\<And>m. \<exists>st out err. ow_decrypt w m (files s CRED_PREVIOUS) = Ok (st, out, err) \<and> ex_success st \<and>
      trim_eol (from_utf8_lossy out) = old"
  shows "\<exists>s'. rollback w s = (Ok (), s')"
proof -
  obtain s5 where e: "r_exists CRED_PREVIOUS s = (Ok True, s5)" "quiet s5" "files s5 = files s"
    using assms(2,3) by (simp add: r_exists_def fs_exists_def fs_tick_def quiet_def)
  obtain s6 where k: "r_fs (fs_copy CRED_PREVIOUS CRED) s5 = (Ok (), s6)" "quiet s6"
    "files s6 CRED = files s CRED_PREVIOUS" using quiet_copy [OF e(2), of CRED_PREVIOUS CRED] assms(3) e(3) by auto
  obtain s7 where u: "unseal_as_root w s6 = (Ok old, s7)" "quiet s7"
    using unseal_coop [OF k(2) _ assms(4), of w] opens k(3) by metis
  obtain s8 where "write_recovery_as_root w old s7 = (Ok (), s8)"
    using recovery_coop [OF w u(2)] by blast
  then show ?thesis using e k u by (simp add: rollback_def r_bind_def r_context_def)
qed

lemma sample_rotates:
  obtains new s1 s2 where "rotate_seal sample_outside sample_sealed = (Ok (''cafe'', new), s1)" "quiet s1"
    "rollback sample_outside s1 = (Ok (), s2)"
proof -
  have cafe: "trim_eol (from_utf8_lossy ''cafe'') = ''cafe''" by code_simp
  have d: "\<exists>st out err. ow_decrypt sample_outside m (Some ''TPMcafe'') = Ok (st, out, err) \<and> ex_success st \<and>
      trim_eol (from_utf8_lossy out) = ''cafe''" for m
    using cafe by (simp add: sample_outside_def ok_status_def)
  have q0: "quiet sample_sealed" "files sample_sealed CRED = Some ''TPMcafe''"
    by (simp_all add: sample_sealed_def quiet_def quiet_fs_def)
  obtain new s1 where rot: "rotate_seal sample_outside sample_sealed = (Ok (''cafe'', new), s1)" "quiet s1"
    using rotate_coop [OF sample_cooperative q0(1), of "''cafe''"] q0(2) d by auto
  have prev: "files s1 CRED_PREVIOUS = Some ''TPMcafe''" using rotate_Ok [OF rot(1)] q0(2) by simp
  obtain s2 where "rollback sample_outside s1 = (Ok (), s2)"
    using rollback_coop [OF sample_cooperative rot(2), of "''cafe''"] prev d by auto
  with rot that show thesis by blast
qed

theorem rollback_restores_witness: "\<exists>s2. files s2 CRED = Some ''TPMcafe'' \<and> kept ''cafe'' s2"
proof -
  obtain new s1 s2 where "rotate_seal sample_outside sample_sealed = (Ok (''cafe'', new), s1)" "quiet s1"
    "rollback sample_outside s1 = (Ok (), s2)" by (rule sample_rotates)
  from rollback_restores [OF sample_unseals this(1,3)] show ?thesis by (auto simp: sample_sealed_def quiet_fs_def)
qed

text \<open>How the rotate command can end, on a keyring that is keyed to the sealed secret.\<close>

lemma cmd_rotate_cases:
  assumes "unseals_alike (dk_outside k)" and "hexy (us_keyring s)"
    and "sealed (dk_outside k) (us_keyring s) (us_root s)" and "cmd_rotate k s = (r, s')"
  obtains (same) "\<not> is_ok r" "us_keyring s' = us_keyring s"
      "files (us_root s') CRED = files (us_root s) CRED \<or> files (us_root s') CRED_PREVIOUS = files (us_root s) CRED"
    | (rotated) "r = Ok ()" "rotate_seal (dk_outside k) (us_root s) = (Ok (us_keyring s, us_keyring s'), us_root s')"
proof (cases "is_root (dk_user_status k)")
  case True
  then show thesis using assms(4) by (intro same) (auto simp: cmd_rotate_def u_bail_def)
next
  case False
  let ?after = "\<lambda>(old, new) s. case change_password k old new s of
      (Ok _, s1) \<Rightarrow> say [''rotated. New recovery key, also written to '' @ show_path RECOVERY_FILE @ '':'', '''', ''    '' @ new] s1
    | (Err e, s1) \<Rightarrow> (Err (SMsg (''the keyring refused the new key, the old one was restored: '' @ display k e)),
       snd (elevate_rollback k s1))"
  have "u_bind (elevate_rotate_seal k) ?after s = (r, s')" using False assms(4) by (simp add: cmd_rotate_def)
  then show thesis
  proof (cases rule: u_bind_cases)
    case (failed e)
    then show thesis using elevate_rotate_root [OF failed(1)] root_main_rotate_keeps by (intro same) auto
  next
    case (went p s1)
    obtain old new where p: "p = (old, new)" by fastforce
    obtain out rest where o: "root_main k SubRotateSeal (us_root s) = (Ok out, us_root s1)"
      "lines (trim (from_utf8_lossy out)) = old # new # rest"
      using elevate_rotate_Ok went(1) p by metis
    obtain old' new' where rot: "rotate_seal (dk_outside k) (us_root s) = (Ok (old', new'), us_root s1)"
      "out = old' @ [NL] @ new' @ [NL]" using root_main_rotate [OF o(1)] by blast
    note R = rotate_Ok [OF rot(1)]
    have old': "old' = us_keyring s" using R sealed_unique [OF assms(1) _ assms(3)] by simp
    have eqs: "old = old'" "new = new'" using o(2) rot(2) secrets_printed [of old' new'] old' assms(2) R good_hexy by auto
    have keep: "us_keyring s1 = us_keyring s" using elevate_rotate_root [OF went(1)] by simp
    obtain c s2 where c: "change_password k old new s1 = (c, s2)" by fastforce
    note C = change_password_effect [OF c]
    show thesis
    proof (cases c)
      case (Inl e)
      have s': "s' = snd (elevate_rollback k s2)" "\<not> is_ok r" using went(2) p c Inl by auto
      obtain rb where "elevate_rollback k s2 = (rb, s')" using s' by (metis prod.collapse)
      from elevate_rollback_root [OF this] have "us_keyring s' = us_keyring s2"
        "files (us_root s') CRED_PREVIOUS = files (us_root s2) CRED_PREVIOUS"
        using root_main_rollback_keeps by metis+
      then show thesis using C Inl keep R s'(2) by (intro same) simp_all
    next
      case (Inr u)
      have "us_root s' = us_root s2" "us_keyring s' = us_keyring s2" "r = Ok ()"
        using went(2) p c Inr by (auto dest: prints_result)
      then show thesis using C Inr rot(1) eqs old' by (intro rotated) simp_all
    qed
  qed
qed

text \<open>C10: The key of the keyring is never lost: when the login keyring is keyed to the sealed secret,
  then after the rotate command, however it ends (a refused authentication, a failure at any step of
  sealing, a refusal by the keyring, a rollback that fails), either the keyring has its old key and
  the old blob is at the credential's path or kept beside it, or the keyring has the new key, to
  which the credential unseals and which the recovery file holds.\<close>

theorem keyring_key_never_lost:
  assumes "unseals_alike (dk_outside k)" and "hexy (us_keyring s)"
    and "sealed (dk_outside k) (us_keyring s) (us_root s)" and "cmd_rotate k s = (r, s')"
  shows "(us_keyring s' = us_keyring s \<and>
      (files (us_root s') CRED = files (us_root s) CRED \<or>
       files (us_root s') CRED_PREVIOUS = files (us_root s) CRED)) \<or>
    (sealed (dk_outside k) (us_keyring s') (us_root s') \<and> kept (us_keyring s') (us_root s'))"
  using assms
proof (cases rule: cmd_rotate_cases)
  case rotated
  then show ?thesis using rotate_Ok by blast
qed simp

text \<open>A desktop whose keyring refuses every change, and where the second request for privileges,
  the rollback's, is refused.\<close>

definition sample_report :: report where
  "sample_report = \<lparr>rp_tpm = True, rp_module = Some ''/usr/lib/x86_64-linux-gnu/security/pam_elanprint_keyring.so'',
     rp_cred = CredUnreadable, rp_fingerprint_wired = False, rp_password_wired = False, rp_keyring_present = True\<rparr>"

definition sample_desk :: "(nat \<Rightarrow> string option) \<Rightarrow> (string \<Rightarrow> string \<Rightarrow> string + unit) \<Rightarrow>
    (nat \<Rightarrow> io_error + string) \<Rightarrow> desk" where
  "sample_desk auth change line =
     \<lparr>dk_outside = sample_outside, dk_helper = True, dk_pkexec = True, dk_sudo = True, dk_spawn = (\<lambda>_. Ok ()),
      dk_auth = auth, dk_root_status = Ok (''Uid:'' @ [TAB] @ ''0'' @ [TAB] @ ''0''),
      dk_user_status = Ok (''Uid:'' @ [TAB] @ ''1000'' @ [TAB]), dk_show = (\<lambda>_. ''Error''), dk_io = (\<lambda>_. ''io''),
      dk_connect = (\<lambda>_. Ok ()), dk_open = (\<lambda>_. Ok ()), dk_session = (\<lambda>_. Ok ()),
      dk_change = (\<lambda>_ pw old new. change pw old), dk_flush = (\<lambda>_. Ok ()), dk_line = line,
      dk_password = (\<lambda>_. Ok (True, ''old'')), dk_report = sample_report, dk_stack_exists = True,
      dk_stack = Ok sample_stack, dk_keyring_path = ''login.keyring''\<rparr>"

lemma sample_desk_root: "require_root (dk_root_status (sample_desk a c l)) = Ok ()"
  "\<not> is_root (dk_user_status (sample_desk a c l))"
proof -
  have "is_root (Ok (''Uid:'' @ [TAB] @ ''0'' @ [TAB] @ ''0''))" "\<not> is_root (Ok (''Uid:'' @ [TAB] @ ''1000'' @ [TAB]))"
    by code_simp+
  then show "require_root (dk_root_status (sample_desk a c l)) = Ok ()"
    "\<not> is_root (dk_user_status (sample_desk a c l))"
    by (simp_all add: sample_desk_def require_root_def)
qed

definition sample_user :: "root \<Rightarrow> string \<Rightarrow> user" where
  "sample_user r pw = \<lparr>us_root = r, us_keyring = pw, us_calls = 0, us_out = []\<rparr>"

text \<open>A desktop where everything but the authentication and the keyring's answer is in order.\<close>

definition ready_desk :: "desk \<Rightarrow> bool" where
  "ready_desk k \<longleftrightarrow> is_ok (launcher k) \<and> require_root (dk_root_status k) = Ok () \<and> \<not> is_root (dk_user_status k) \<and>
     (\<forall>n. dk_spawn k n = Ok () \<and> dk_connect k n = Ok () \<and> dk_open k n = Ok () \<and> dk_session k n = Ok ())"

lemma sample_desk_ready: "ready_desk (sample_desk a c l)"
  using sample_desk_root [of a c l] by (simp add: ready_desk_def sample_desk_def launcher_def)

lemma helper_runs:
  assumes "ready_desk k" "dk_auth k (us_calls s + 1) = None" "root_main k sub (us_root s) = (Ok out, r')"
  shows "run_helper k sub s = (Ok (True, out, []), s\<lparr>us_calls := us_calls s + 2, us_root := r'\<rparr>)"
  using assms by (auto simp: run_helper_def u_bind_def u_call_def ready_desk_def is_ok_iff)

lemma helper_refused:
  assumes "ready_desk k" "dk_auth k (us_calls s + 1) = Some err"
  shows "run_helper k sub s = (Ok (False, [], err), s\<lparr>us_calls := us_calls s + 2\<rparr>)"
  using assms by (auto simp: run_helper_def u_bind_def u_call_def ready_desk_def is_ok_iff)

text \<open>A rotation that the keyring refuses reports a restored key, whatever the rollback does.\<close>

lemma rotation_refused:
  assumes "ready_desk k" "dk_auth k (us_calls s + 1) = None" "hexy old"
    and "rotate_seal (dk_outside k) (us_root s) = (Ok (old, new), r1)"
    and "dk_change k (us_calls s + 5) (us_keyring s) old new = Err e"
  shows "\<exists>t. cmd_rotate k s = (Err (SMsg (''the keyring refused the new key, the old one was restored: '' @ t)),
    snd (elevate_rollback k (s\<lparr>us_calls := us_calls s + 6, us_root := r1\<rparr>)))"
proof -
  let ?s2 = "s\<lparr>us_calls := us_calls s + 2, us_root := r1\<rparr>"
  have new: "hexy new" using rotate_Ok [OF assms(4)] good_hexy by blast
  have "root_main k SubRotateSeal (us_root s) = (Ok (old @ [NL] @ new @ [NL]), r1)"
    using assms(1,4) by (simp add: root_main_def ready_desk_def r_bind_def r_ok_def)
  from helper_runs [OF assms(1,2) this]
  have "capture k SubRotateSeal s = (Ok (trim (from_utf8_lossy (old @ [NL] @ new @ [NL]))), ?s2)"
    by (simp add: capture_def u_bind_def u_ok_def)
  then have el: "elevate_rotate_seal k s = (Ok (old, new), ?s2)"
    using secrets_printed [OF assms(3) new] good_secret_facts(1) [OF assms(3)] good_secret_facts(1) [OF new]
    by (simp add: elevate_rotate_seal_def u_bind_def u_ok_def)
  have "change_password k old new ?s2 = (Err (SMsg (''the keyring refused the change: '' @ e)),
      s\<lparr>us_calls := us_calls s + 6, us_root := r1\<rparr>)"
    using assms(1,5) by (simp add: change_password_def u_bind_def u_call_def ready_desk_def numeral_eq_Suc)
  then show ?thesis using el assms(1) by (simp add: cmd_rotate_def u_bind_def ready_desk_def)
qed

lemma rollback_state:
  assumes "ready_desk k"
  shows "us_keyring (snd (elevate_rollback k s)) = us_keyring s"
    "us_calls (snd (elevate_rollback k s)) = us_calls s + 2"
    "us_root (snd (elevate_rollback k s)) =
       (case dk_auth k (us_calls s + 1) of None \<Rightarrow> snd (rollback (dk_outside k) (us_root s)) | Some e \<Rightarrow> us_root s)"
proof -
  have root: "root_main k SubRollback r = (case rollback (dk_outside k) r of (Ok u, r') \<Rightarrow> (Ok [], r') | (Err e, r') \<Rightarrow> (Err e, r'))" for r
    using assms by (simp add: root_main_def Let_def ready_desk_def r_bind_def r_ok_def split: prod.split sum.split)
  obtain l where l: "launcher k = Ok l" using assms by (auto simp: ready_desk_def is_ok_iff)
  note defs = elevate_rollback_def capture_def run_helper_def u_bind_def u_call_def u_ok_def u_bail_def Let_def root l
  show "us_keyring (snd (elevate_rollback k s)) = us_keyring s" "us_calls (snd (elevate_rollback k s)) = us_calls s + 2"
    "us_root (snd (elevate_rollback k s)) =
       (case dk_auth k (us_calls s + 1) of None \<Rightarrow> snd (rollback (dk_outside k) (us_root s)) | Some e \<Rightarrow> us_root s)"
    using assms by (auto simp: defs ready_desk_def split: option.split sum.split prod.split)
qed

definition second_refused :: "nat \<Rightarrow> string option" where
  "second_refused n = (if n = 7 then Some [] else None)"

lemma sample_hexy: "hexy ''cafe''"
  by (simp add: hexy_def hex_chars_def)

lemma sample_other_secret:
  "good_secret new \<Longrightarrow> sealed sample_outside new r \<Longrightarrow> \<not> sealed sample_outside ''cafe'' r"
  using sealed_unique [OF sample_unseals] by (fastforce simp: good_secret_def)

text \<open>The rotate command says that the old key was restored although the rollback did not run: the
  credential is then the new one, which does not open the keyring.\<close>

theorem rotate_claims_restored:
  "\<exists>e s'. cmd_rotate (sample_desk second_refused (\<lambda>_ _. Err ''locked'') l) (sample_user sample_sealed ''cafe'') =
      (Err (SMsg (''the keyring refused the new key, the old one was restored: '' @ e)), s') \<and>
    us_keyring s' = ''cafe'' \<and> \<not> sealed sample_outside ''cafe'' (us_root s')"
proof -
  let ?k = "sample_desk second_refused (\<lambda>_ _. Err ''locked'') l" and ?u = "sample_user sample_sealed ''cafe''"
  obtain new r1 where rot: "rotate_seal sample_outside sample_sealed = (Ok (''cafe'', new), r1)"
    by (rule sample_rotates)
  let ?s1 = "?u\<lparr>us_calls := us_calls ?u + 6, us_root := r1\<rparr>"
  have "\<exists>t. cmd_rotate ?k ?u = (Err (SMsg (''the keyring refused the new key, the old one was restored: '' @ t)),
      snd (elevate_rollback ?k ?s1))"
    by (rule rotation_refused [OF sample_desk_ready _ sample_hexy])
      (use rot in \<open>simp_all add: sample_desk_def sample_user_def second_refused_def\<close>)
  moreover note R = rollback_state [OF sample_desk_ready, of second_refused "\<lambda>_ _. Err ''locked''" l ?s1]
  have "us_keyring (snd (elevate_rollback ?k ?s1)) = ''cafe''" "us_root (snd (elevate_rollback ?k ?s1)) = r1"
    unfolding R by (simp_all add: sample_desk_def sample_user_def second_refused_def)
  moreover have "\<not> sealed sample_outside ''cafe'' r1" using sample_other_secret rotate_Ok [OF rot] by blast
  ultimately show ?thesis by auto
qed

theorem keyring_key_never_lost_witness:
  "files (us_root (snd (cmd_rotate (sample_desk (\<lambda>_. Some []) (\<lambda>_ _. Ok ()) (\<lambda>_. Ok [])) (sample_user sample_sealed ''cafe'')))) CRED
     = Some ''TPMcafe''"
proof -
  let ?k = "sample_desk (\<lambda>_. Some []) (\<lambda>_ _. Ok ()) (\<lambda>_. Ok [])" and ?u = "sample_user sample_sealed ''cafe''"
  have out: "dk_outside ?k = sample_outside" by (simp add: sample_desk_def)
  have hex: "hexy (us_keyring ?u)" by (simp add: hexy_def hex_chars_def sample_user_def)
  have seal: "sealed sample_outside (us_keyring ?u) (us_root ?u)"
    using unseal_Ok [OF sample_sealed_unseal] by (auto simp: sealed_def sample_user_def)
  have dk: "launcher ?k = Ok ''/usr/bin/pkexec''" "dk_spawn ?k = (\<lambda>_. Ok ())" "dk_auth ?k = (\<lambda>_. Some [])"
    by (simp_all add: sample_desk_def launcher_def)
  have "snd (cmd_rotate ?k ?u) = ?u\<lparr>us_calls := 2\<rparr>"
    by (simp add: cmd_rotate_def sample_desk_root elevate_rotate_seal_def capture_def run_helper_def u_bind_def
        u_call_def dk sample_user_def u_bail_def Let_def)
  with keyring_key_never_lost [OF _ hex _ prod.collapse [symmetric], of ?k] sample_unseals seal out
  show ?thesis by (auto simp: sample_user_def sample_sealed_def quiet_fs_def kept_def CRED_def RECOVERY_FILE_def)
qed

subsection \<open>Enabling, and the login\<close>

lemma confirm_effect:
  assumes "confirm k prompt expected s = (r, s')"
  shows "us_root s' = us_root s \<and> us_keyring s' = us_keyring s \<and>
    (r = Ok True \<longrightarrow> (\<exists>n line. dk_line k n = Ok line \<and> trim line = expected))"
  using assms
  by (cases "dk_flush k (us_calls s)"; cases "dk_line k (us_calls s + 1)")
    (auto simp: confirm_def u_bind_def [of "u_call _"] u_call_def u_ok_def)

lemma ask_effect: "ask k s = (r, s') \<Longrightarrow> us_root s' = us_root s \<and> us_keyring s' = us_keyring s"
  by (cases "dk_password k (us_calls s)")
    (auto simp: ask_def u_bind_def u_call_def u_ok_def u_bail_def split: if_splits prod.splits)

lemma elevate_provision_effect:
  assumes "elevate_provision k fo s = (r, s')"
  shows "us_keyring s' = us_keyring s \<and> (\<forall>secret. r = Ok secret \<longrightarrow>
    (\<exists>out. root_main k (SubProvision fo) (us_root s) = (Ok out, us_root s') \<and> secret = trim (from_utf8_lossy out)))"
proof -
  obtain h s1 where h: "run_helper k (SubProvision fo) s = (h, s1)" by fastforce
  have "s' = s1" using assms h
    by (auto simp: elevate_provision_def u_bind_def u_ok_def u_bail_def Let_def split: sum.splits prod.splits if_splits)
  moreover have "\<exists>out err. h = Ok (True, out, err) \<and> secret = trim (from_utf8_lossy out)" if "r = Ok secret" for secret
    using assms h that
    by (auto simp: elevate_provision_def u_bind_def u_ok_def u_bail_def Let_def split: sum.splits prod.splits if_splits)
  ultimately show ?thesis using run_helper_root [OF h] by (fastforce split: sum.splits)
qed

lemma provisioned_secret:
  assumes "root_main k (SubProvision fo) s = (Ok out, s')"
  shows "good_secret (trim (from_utf8_lossy out)) \<and> sealed (dk_outside k) (trim (from_utf8_lossy out)) s' \<and>
    kept (trim (from_utf8_lossy out)) s'"
proof -
  obtain secret wired where p: "provision (dk_outside k) fo s = (Ok (secret, wired), s')" "out = secret @ [NL]"
    using root_main_provision [OF assms] by blast
  from provision_Ok [OF p(1)] have "good_secret secret" "sealed (dk_outside k) secret s'" "kept secret s'" by metis+
  then show ?thesis using p(2) secret_printed [OF good_hexy] by simp
qed

lemma rekey_effect:
  assumes "u_bind (ask k) (\<lambda>current. u_bind (u_context c (change_password k current secret)) (\<lambda>_. say ls)) s = (r, s')"
  shows "us_root s' = us_root s \<and> us_keyring s' \<in> {us_keyring s, secret}"
  using assms
proof (cases rule: u_bind_cases)
  case (failed e)
  then show ?thesis using ask_effect by blast
next
  case (went current s1)
  obtain r1 s2 where ch: "change_password k current secret s1 = (r1, s2)" by fastforce
  have "us_root s' = us_root s2 \<and> us_keyring s' = us_keyring s2"
    using went(2) ch by (auto simp: u_bind_def u_context_def split: sum.splits dest: prints_result)
  then show ?thesis using change_password_effect [OF ch] ask_effect [OF went(1)] by (auto split: if_splits)
qed

text \<open>What follows the confirmed question, and what follows the display of the code.\<close>

definition enable_rekey :: "desk \<Rightarrow> string \<Rightarrow> unit uop" where
  "enable_rekey k secret =
     u_bind (ask k) (\<lambda>current.
     u_bind (u_context (''re-keying the keyring. Your login is unaffected: the keyring simply '' @
       ''stays locked as it does today'') (change_password k current secret)) (\<lambda>_.
     say [''done. Log out and back in with your finger, then check:'',
          ''  journalctl -b | grep gkr-pam        expect: unlocked login keyring'']))"

definition enable_shown :: "desk \<Rightarrow> string \<Rightarrow> unit uop" where
  "enable_shown k secret =
     u_bind (say ['''', ''RECOVERY CODE, save it now:'', '''', ''    '' @ secret, '''']) (\<lambda>_.
     u_bind (confirm k SAVED_PROMPT secret) (\<lambda>saved.
       if \<not> saved then
         say [''That did not match. PAM is wired and the secret is sealed, but the'',
              ''keyring was not re-keyed, so nothing about your login has changed.'']
       else enable_rekey k secret))"

lemma cmd_enable_split:
  "cmd_enable k fo =
     (if is_root (dk_user_status k) then
        u_bail ''run this as your normal user. The keyring re-key needs your session bus''
      else
        u_bind (\<lambda>s. (require_ready (dk_report k) (dk_stack_exists k) (dk_stack k) (dk_keyring_path k), s)) (\<lambda>_.
        u_bind (say (enable_notice fo)) (\<lambda>_.
        u_bind (confirm k CONTINUE_PROMPT ''yes'') (\<lambda>yes.
          if \<not> yes then println ''nothing was changed.''
          else u_bind (elevate_provision k fo) (enable_shown k)))))"
  unfolding cmd_enable_def enable_shown_def enable_rekey_def ..

lemma enable_shown_effect:
  assumes "enable_shown k secret s = (r, s')"
  shows "us_root s' = us_root s \<and> (us_keyring s' = us_keyring s \<or>
    us_keyring s' = secret \<and> (\<exists>n line. dk_line k n = Ok line \<and> trim line = secret))"
proof -
  define s3 where "s3 = snd (say ['''', ''RECOVERY CODE, save it now:'', '''', ''    '' @ secret, ''''] s)"
  have s3: "us_root s3 = us_root s" "us_keyring s3 = us_keyring s" by (simp_all add: s3_def)
  have "u_bind (confirm k SAVED_PROMPT secret) (\<lambda>saved.
       if \<not> saved then
         say [''That did not match. PAM is wired and the secret is sealed, but the'',
              ''keyring was not re-keyed, so nothing about your login has changed.'']
       else enable_rekey k secret) s3 = (r, s')"
    using assms by (simp add: enable_shown_def s3_def)
  then show ?thesis
  proof (cases rule: u_bind_cases)
    case (failed e)
    then show ?thesis using confirm_effect [OF failed(1)] by (simp add: s3)
  next
    case (went saved s4)
    note C = confirm_effect [OF went(1)]
    show ?thesis
    proof (cases saved)
      case True
      with went(2) have "enable_rekey k secret s4 = (r, s')" by simp
      from rekey_effect [OF this [unfolded enable_rekey_def]] show ?thesis using C True
        by (auto simp: s3)
    next
      case False
      then show ?thesis using went(2) C by (auto simp: s3 dest: prints_result)
    qed
  qed
qed

text \<open>When the enable command changes the keyring's password, it is to what the helper printed.\<close>

lemma enable_rekeyed:
  assumes "cmd_enable k fo s = (r, s')" and "us_keyring s' \<noteq> us_keyring s"
  obtains out where "root_main k (SubProvision fo) (us_root s) = (Ok out, us_root s')"
    "us_keyring s' = trim (from_utf8_lossy out)" "\<exists>n line. dk_line k n = Ok line \<and> trim line = us_keyring s'"
proof (cases "is_root (dk_user_status k)")
  case True
  then show thesis using assms by (simp add: cmd_enable_split u_bail_def)
next
  case False
  have "u_bind (\<lambda>s. (require_ready (dk_report k) (dk_stack_exists k) (dk_stack k) (dk_keyring_path k), s)) (\<lambda>_.
        u_bind (say (enable_notice fo)) (\<lambda>_.
        u_bind (confirm k CONTINUE_PROMPT ''yes'') (\<lambda>yes.
          if \<not> yes then println ''nothing was changed.''
          else u_bind (elevate_provision k fo) (enable_shown k)))) s = (r, s')"
    using assms(1) False by (simp only: cmd_enable_split if_False)
  then show thesis
  proof (cases rule: u_bind_cases)
    case (failed e)
    then show thesis using assms(2) by simp
  next
    case ready: (went u s00)
    define s0 where "s0 = snd (say (enable_notice fo) s00)"
    have s0: "us_keyring s0 = us_keyring s" "us_root s0 = us_root s" using ready(1) by (simp_all add: s0_def)
    have "u_bind (confirm k CONTINUE_PROMPT ''yes'') (\<lambda>yes.
        if \<not> yes then println ''nothing was changed.''
        else u_bind (elevate_provision k fo) (enable_shown k)) s0 = (r, s')"
      using ready(2) by (simp add: s0_def)
    then show thesis
    proof (cases rule: u_bind_cases)
      case (failed e)
      then show thesis using confirm_effect [OF failed(1)] assms(2) s0 by simp
    next
      case yes: (went b s1)
      note C = confirm_effect [OF yes(1)]
      have k1: "us_keyring s1 = us_keyring s" "us_root s1 = us_root s" using C s0 by simp_all
      have "b" using yes(2) k1 assms(2) by (auto split: if_splits dest: prints_result)
      with yes(2) have "u_bind (elevate_provision k fo) (enable_shown k) s1 = (r, s')" by simp
      then show thesis
      proof (cases rule: u_bind_cases)
        case (failed e)
        then show thesis using elevate_provision_effect [OF failed(1)] k1 assms(2) by simp
      next
        case (went secret s2)
        obtain out where out: "root_main k (SubProvision fo) (us_root s1) = (Ok out, us_root s2)"
          "secret = trim (from_utf8_lossy out)" "us_keyring s2 = us_keyring s1"
          using elevate_provision_effect [OF went(1)] by blast
        then show thesis using enable_shown_effect [OF went(2)] C k1 assms(2) that [of out] by auto
      qed
    qed
  qed
qed

text \<open>The sample machine enables the keyring.\<close>

lemma sample_enables:
  obtains line s' where "cmd_enable (sample_desk (\<lambda>_. None) (\<lambda>_ _. Ok ()) line) False
      (sample_user sample_root ''password'') = (Ok (), s')" "us_keyring s' \<noteq> ''password''"
proof -
  obtain secret wired r' where p: "provision sample_outside False sample_root = (Ok (secret, wired), r')"
    by (rule sample_provision)
  define line :: "nat \<Rightarrow> io_error + string" where "line n = Ok (if n = 1 then ''yes'' else secret)" for n
  let ?k = "sample_desk (\<lambda>_. None) (\<lambda>_ _. Ok ()) line" and ?u = "sample_user sample_root ''password''"
  have good: "good_secret secret" using provision_Ok [OF p] by metis
  have dk: "dk_outside ?k = sample_outside" "launcher ?k = Ok ''/usr/bin/pkexec''" "dk_spawn ?k = (\<lambda>_. Ok ())"
    "dk_auth ?k = (\<lambda>_. None)" "dk_line ?k = line" "dk_password ?k = (\<lambda>_. Ok (True, ''old''))"
    "dk_report ?k = sample_report" "dk_flush ?k = (\<lambda>_. Ok ())" "dk_stack_exists ?k" "dk_stack ?k = Ok sample_stack"
    by (simp_all add: sample_desk_def launcher_def)
  have stack: "list_ex is_keyring_auth (lines sample_stack)" by code_simp
  have ready: "require_ready (dk_report ?k) (dk_stack_exists ?k) (dk_stack ?k) path = Ok ()" for path
    using dk(9) by (simp add: dk stack require_ready_def keyring_line_def sample_report_def)
  have yes: "trim ''yes'' = ''yes''" by code_simp
  have trim: "trim secret = secret"
    using good_secret_facts(1,3,4) [OF good_hexy [OF good]] by (rule trim_id)
  have main: "root_main ?k (SubProvision False) sample_root = (Ok (secret @ [NL]), r')"
    using p by (simp add: root_main_def Let_def sample_desk_root dk r_bind_def r_ok_def)
  define u1 where "u1 = snd (print_str CONTINUE_PROMPT (snd (say (enable_notice False) ?u)))"
  have u1: "us_root u1 = sample_root" "us_calls u1 = 0" by (simp_all add: u1_def sample_user_def)
  have confirm: "confirm ?k CONTINUE_PROMPT ''yes'' (snd (say (enable_notice False) ?u)) = (Ok True, u1\<lparr>us_calls := 2\<rparr>)"
    using u1(2)
    by (simp add: confirm_def u_bind_def [of "u_call _"] u_call_def u_ok_def dk line_def yes u1_def [symmetric])
  have helper: "run_helper ?k (SubProvision False) (u1\<lparr>us_calls := 2\<rparr>) =
      (Ok (True, secret @ [NL], []), u1\<lparr>us_calls := 4, us_root := r'\<rparr>)"
    using main by (simp add: run_helper_def u_bind_def u_call_def dk u1)
  have elevate: "elevate_provision ?k False (u1\<lparr>us_calls := 2\<rparr>) = (Ok secret, u1\<lparr>us_calls := 4, us_root := r'\<rparr>)"
    using secret_printed [OF good_hexy [OF good]] good_secret_facts(1) [OF good_hexy [OF good]]
    by (simp add: elevate_provision_def u_bind_def helper u_ok_def Let_def)
  have change: "change_password ?k old secret u = (Ok (), u\<lparr>us_calls := us_calls u + 4, us_keyring := secret\<rparr>)" for old u
    by (simp add: change_password_def u_bind_def u_call_def sample_desk_def)
  have run: "\<exists>s'. cmd_enable ?k False ?u = (Ok (), s') \<and> us_keyring s' = secret"
  proof -
    have "cmd_enable ?k False ?u = enable_shown ?k secret (u1\<lparr>us_calls := 4, us_root := r'\<rparr>)"
      by (simp add: cmd_enable_split sample_desk_root u_bind_def [of "confirm _ _ _"] u_bind_def [of "elevate_provision _ _"] u_bind_def [of "\<lambda>s. (_, s)"] ready confirm elevate)
    moreover obtain u2 where "enable_shown ?k secret (u1\<lparr>us_calls := 4, us_root := r'\<rparr>) =
        u_bind (confirm ?k SAVED_PROMPT secret) (\<lambda>saved. if \<not> saved then
          say [''That did not match. PAM is wired and the secret is sealed, but the'',
               ''keyring was not re-keyed, so nothing about your login has changed.'']
          else enable_rekey ?k secret) u2" and "us_calls u2 = 4" by (simp add: enable_shown_def)
    moreover obtain u3 where "confirm ?k SAVED_PROMPT secret u2 = (Ok True, u3)"
      using calculation(3) by (simp add: confirm_def u_bind_def [of "u_call _"] u_call_def u_ok_def dk line_def trim)
    ultimately have e: "cmd_enable ?k False ?u = enable_rekey ?k secret u3" by (simp add: u_bind_def [of "confirm _ _ _"])
    obtain old u4 where a: "ask ?k u3 = (Ok old, u4)"
      by (simp add: ask_def u_bind_def u_call_def u_ok_def dk)
    have said: "us_keyring u = x \<Longrightarrow> \<exists>u6. say ls u = (Ok (), u6) \<and> us_keyring u6 = x" for ls x and u :: user
      by (simp add: say_def print_str_def)
    show ?thesis using a
      by (simp add: e enable_rekey_def u_bind_def [of "ask _"] u_bind_def [of "u_context _ _"] u_context_def change)
        (rule said, simp)
  qed
  then obtain s' where s': "cmd_enable ?k False ?u = (Ok (), s')" "us_keyring s' = secret" by blast
  have "length secret = 64" using good by (simp add: good_secret_def)
  then have "us_keyring s' \<noteq> us_keyring ?u" using s'(2) by (auto simp: sample_user_def)
  then show thesis using that [of line s'] s'(1) by (simp add: sample_user_def)
qed

text \<open>The keyring is re-keyed only to a secret that is safe: the enable command changes the
  keyring's password only to a secret of 64 hex digits which the user has typed back, to which the
  credential unseals, and which the recovery file holds.\<close>

theorem enable_rekeys_only_confirmed:
  assumes "cmd_enable k fo s = (r, s')" and "us_keyring s' \<noteq> us_keyring s"
  shows "good_secret (us_keyring s') \<and> sealed (dk_outside k) (us_keyring s') (us_root s') \<and>
    kept (us_keyring s') (us_root s') \<and> (\<exists>n line. dk_line k n = Ok line \<and> trim line = us_keyring s')"
proof -
  obtain out where "root_main k (SubProvision fo) (us_root s) = (Ok out, us_root s')"
    "us_keyring s' = trim (from_utf8_lossy out)" "\<exists>n line. dk_line k n = Ok line \<and> trim line = us_keyring s'"
    using assms by (rule enable_rekeyed)
  then show ?thesis using provisioned_secret by metis
qed

theorem enable_rekeys_only_confirmed_witness:
  "\<exists>line (s' :: user). sealed sample_outside (us_keyring s') (us_root s') \<and> is_ok (fst (cmd_enable
     (sample_desk (\<lambda>_. None) (\<lambda>_ _. Ok ()) line) False (sample_user sample_root ''password'')))"
proof -
  obtain line s' where s': "cmd_enable (sample_desk (\<lambda>_. None) (\<lambda>_ _. Ok ()) line) False
      (sample_user sample_root ''password'') = (Ok (), s')" "us_keyring s' \<noteq> ''password''" by (rule sample_enables)
  then have "us_keyring s' \<noteq> us_keyring (sample_user sample_root ''password'')" by (simp add: sample_user_def)
  from enable_rekeys_only_confirmed [OF s'(1) this] have "sealed sample_outside (us_keyring s') (us_root s')"
    by (simp add: sample_desk_def)
  then show ?thesis using s'(1) by (intro exI [of _ line] exI [of _ s']) simp
qed

lemma sealed_login:
  assumes "unseals_alike w" "good_secret secret" "sealed w secret s"
    and "ow_decrypt w n (files s CRED) = Ok (status, out, err)" "ex_success status"
    and "clean_exit c" "ch_stdout c = Some (Ok out)"
  shows "pm_authtok (snd (pam_sm_authenticate set_item c p)) = snd (set_item (pm_authtok p) secret)"
proof -
  have "trim_eol (from_utf8_lossy out) = secret"
    using assms(1,3-5) unfolding sealed_def unseals_alike_def by metis
  then have t: "trim_eol out = secret" using good_secret_bytes assms(2) by blast
  then have "trim_eol out \<noteq> []" "CHR 0x00 \<notin> set (trim_eol out)"
    using good_secret_facts [OF good_hexy [OF assms(2)]] by auto
  then have "\<exists>bytes. clean_exit c \<and> ch_stdout c = Some (Ok bytes) \<and> trim_eol bytes \<noteq> [] \<and>
      CHR 0x00 \<notin> set (trim_eol bytes)" using assms(6,7) by blast
  then show ?thesis using authtok_effect [where set_item = set_item and c = c and p = p] t assms(7) by (simp add: case_prod_beta)
qed

lemma sample_child_clean: "clean_exit (sample_child out)" "ch_stdout (sample_child out) = Some (Ok out)"
proof -
  have "fst (reap (ch_polls (sample_child out)) (ch_delays (sample_child out)) GRACE 0 0) =
      Some \<lparr>ex_success = True, ex_text = ''exit status: 0''\<rparr>"
    by (simp add: sample_child_def reap.simps GRACE_def)
  then show "clean_exit (sample_child out)" "ch_stdout (sample_child out) = Some (Ok out)"
    by (simp_all add: clean_exit_def) (simp_all add: sample_child_def)
qed

text \<open>What setup seals is what login supplies: after a provisioning, when the helper in the PAM
  module unseals the credential and ends well within its limits, the item libpam is handed is exactly
  the secret the setup printed and keyed the keyring to.\<close>

theorem secret_reaches_login:
  assumes "unseals_alike w" and "provision w fo s = (Ok (secret, wired), s')"
    and "ow_decrypt w n (files s' CRED) = Ok (status, out, err)" and "ex_success status"
    and "clean_exit c" and "ch_stdout c = Some (Ok out)"
  shows "pm_authtok (snd (pam_sm_authenticate set_item c p)) = snd (set_item (pm_authtok p) secret)"
proof -
  from provision_Ok [OF assms(2)] have "good_secret secret" "sealed w secret s'" by metis+
  from sealed_login [OF assms(1) this assms(3-6)] show ?thesis .
qed

theorem secret_reaches_login_witness:
  "\<exists>secret out. pm_authtok (snd (pam_sm_authenticate (\<lambda>_ t. (0, Some t)) (sample_child out)
     \<lparr>pm_authtok = None, pm_log = []\<rparr>)) = Some secret \<and> good_secret secret"
proof -
  obtain secret wired s' where p: "provision sample_outside False sample_root = (Ok (secret, wired), s')"
    by (rule sample_provision)
  from provision_Ok [OF p] have g: "good_secret secret" "sealed sample_outside secret s'" by metis+
  then obtain n status out err where d: "ow_decrypt sample_outside n (files s' CRED) = Ok (status, out, err)"
    "ex_success status" by (auto simp: sealed_def)
  from secret_reaches_login [OF sample_unseals p d sample_child_clean, of "\<lambda>_ t. (0, Some t)"] g(1) show ?thesis by force
qed

end
