(* ===== verification/LoginApp.thy ===== *)
theory LoginApp
  imports LoginClient Keyring
begin

text \<open>
  The window of \<open>elanprint-login\<close>: the state of \<open>app.rs\<close> and its operations, the keyring tab of
  \<open>keyring_tab.rs\<close>, and the controls, as far as they decide what a click does.  A channel is the
  queue of what has arrived; a spawned task is a job in the log of the jobs.  Drawing is left out.
\<close>

subsection \<open>Texts\<close>

definition TOUCH :: string where "TOUCH = ''Touch the sensor''"
definition TOUCH_FIRST :: string where "TOUCH_FIRST = ''Touch the sensor''"
definition PICK_ENROLL :: string where "PICK_ENROLL = ''Pick a finger to enrol''"
definition PICK_VERIFY :: string where "PICK_VERIFY = ''Pick a finger to verify''"
definition READER_NOT_FOUND :: string where "READER_NOT_FOUND = ''Reader not found''"
definition VERIFIED :: string where "VERIFIED = ''Verified''"
definition NOT_RECOGNISED :: string where "NOT_RECOGNISED = ''Not recognised''"
definition PASSWORD_FALLBACK :: string where "PASSWORD_FALLBACK = ''Too many attempts, use your password''"

definition touch_again :: "byte \<Rightarrow> byte \<Rightarrow> string" where
  "touch_again stages tot = (if stages \<ge> tot then ''Saving'' else ''Touch again'')"

definition ENROLL_FINGERS :: "string list" where
  "ENROLL_FINGERS =
     [''left-thumb'', ''left-index-finger'', ''left-middle-finger'', ''left-ring-finger'',
      ''left-little-finger'', ''right-thumb'', ''right-index-finger'', ''right-middle-finger'',
      ''right-ring-finger'', ''right-little-finger'']"

subsection \<open>The keyring tab\<close>

text \<open>What \<open>try_recv\<close> finds: nothing yet, a value, or a sender that is gone.\<close>

datatype 'a recv = RxEmpty | RxReady 'a | RxLost

datatype tab_stage =
    TIdle
  | TConfirm
  | TWorking string
  | TSaved string string
  | TRekey string string
  | TShowKey string
  | TConfirmRotate
  | TRotated string
  | TDone
  | TFailed string

datatype job_result =
    JProvisioned string
  | JRevealed string
  | JRotated string
  | JWired
  | JDisabled
  | JForgot

text \<open>The work handed to a thread.\<close>

datatype tab_job =
    DoProvision bool
  | DoReveal
  | DoRotate
  | DoWirePassword
  | DoDisable
  | DoForgetFile
  | DoRekey string string

record keyring_tab =
  kt_stage :: tab_stage
  kt_report :: report
  kt_fingerprint_only :: bool
  kt_recovery_file :: bool
  kt_job :: "(string + job_result) recv option"
  kt_rekey :: "(string + unit) recv option"
  kt_jobs :: "tab_job list"

text \<open>What a look at the system gives: the report, and the recovery file's directory entry.\<close>

type_synonym look = "report \<times> (io_error + unit)"

definition recovery_file_present :: "io_error + unit \<Rightarrow> bool" where
  "recovery_file_present r = (case r of Ok _ \<Rightarrow> True | Err e \<Rightarrow> e \<noteq> IoNotFound)"

definition tab_new :: "look \<Rightarrow> keyring_tab" where
  "tab_new v =
     \<lparr>kt_stage = TIdle, kt_report = fst v, kt_fingerprint_only = False,
      kt_recovery_file = recovery_file_present (snd v), kt_job = None, kt_rekey = None, kt_jobs = []\<rparr>"

definition tab_refresh :: "look \<Rightarrow> keyring_tab \<Rightarrow> keyring_tab" where
  "tab_refresh v t = t\<lparr>kt_report := fst v, kt_recovery_file := recovery_file_present (snd v)\<rparr>"

definition tab_busy :: "keyring_tab \<Rightarrow> bool" where
  "tab_busy t \<longleftrightarrow> kt_job t \<noteq> None \<or> kt_rekey t \<noteq> None"

definition looks_enabled :: "keyring_tab \<Rightarrow> bool" where
  "looks_enabled t \<longleftrightarrow> rp_fingerprint_wired (kt_report t) \<and> rp_cred (kt_report t) \<noteq> CredAbsent"

fun job_stage :: "job_result \<Rightarrow> tab_stage" where
  "job_stage (JProvisioned secret) = TSaved secret []"
| "job_stage (JRevealed secret) = TShowKey secret"
| "job_stage (JRotated secret) = TRotated secret"
| "job_stage JWired = TIdle"
| "job_stage JDisabled = TIdle"
| "job_stage JForgot = TIdle"

definition tab_poll_job :: "look \<Rightarrow> keyring_tab \<Rightarrow> keyring_tab" where
  "tab_poll_job v t =
     (case kt_job t of
        Some (RxReady (Ok job)) \<Rightarrow> (tab_refresh v (t\<lparr>kt_job := None\<rparr>))\<lparr>kt_stage := job_stage job\<rparr>
      | Some (RxReady (Err e)) \<Rightarrow> (tab_refresh v (t\<lparr>kt_job := None\<rparr>))\<lparr>kt_stage := TFailed e\<rparr>
      | Some RxLost \<Rightarrow> t\<lparr>kt_job := None, kt_stage := TFailed ''the setup helper stopped''\<rparr>
      | _ \<Rightarrow> t)"

definition tab_poll_rekey :: "look \<Rightarrow> keyring_tab \<Rightarrow> keyring_tab" where
  "tab_poll_rekey v t =
     (case kt_rekey t of
        Some (RxReady (Ok _)) \<Rightarrow> (tab_refresh v (t\<lparr>kt_rekey := None\<rparr>))\<lparr>kt_stage := TDone\<rparr>
      | Some (RxReady (Err e)) \<Rightarrow> t\<lparr>kt_rekey := None, kt_stage := TFailed e\<rparr>
      | Some RxLost \<Rightarrow> t\<lparr>kt_rekey := None, kt_stage := TFailed ''the re-key stopped''\<rparr>
      | _ \<Rightarrow> t)"

definition tab_poll :: "look \<Rightarrow> keyring_tab \<Rightarrow> keyring_tab" where
  "tab_poll v t = tab_poll_rekey v (tab_poll_job v t)"

definition tab_spawn :: "string \<Rightarrow> tab_job \<Rightarrow> keyring_tab \<Rightarrow> keyring_tab" where
  "tab_spawn label work t =
     t\<lparr>kt_job := Some RxEmpty, kt_stage := TWorking label, kt_jobs := kt_jobs t @ [work]\<rparr>"

definition start_provision :: "keyring_tab \<Rightarrow> keyring_tab" where
  "start_provision t = tab_spawn ''Approve the request to continue.'' (DoProvision (kt_fingerprint_only t)) t"

definition start_reveal :: "keyring_tab \<Rightarrow> keyring_tab" where
  "start_reveal = tab_spawn ''Approve the request to read the key.'' DoReveal"

definition start_rotate :: "keyring_tab \<Rightarrow> keyring_tab" where
  "start_rotate = tab_spawn ''Replacing the key.'' DoRotate"

definition start_wire_password :: "keyring_tab \<Rightarrow> keyring_tab" where
  "start_wire_password = tab_spawn ''Approve the request to change PAM.'' DoWirePassword"

definition start_disable :: "keyring_tab \<Rightarrow> keyring_tab" where
  "start_disable = tab_spawn ''Approve the request to change PAM.'' DoDisable"

definition start_forget_file :: "keyring_tab \<Rightarrow> keyring_tab" where
  "start_forget_file = tab_spawn ''Approve the request to delete the file.'' DoForgetFile"

definition start_rekey :: "string \<Rightarrow> string \<Rightarrow> keyring_tab \<Rightarrow> keyring_tab" where
  "start_rekey secret password t =
     t\<lparr>kt_rekey := Some RxEmpty, kt_stage := TWorking ''One moment.'', kt_jobs := kt_jobs t @ [DoRekey secret password]\<rparr>"

text \<open>The rotation in its thread: here the message says whether the old key is back.\<close>

definition rotate_job :: "desk \<Rightarrow> user \<Rightarrow> (string + job_result) \<times> user" where
  "rotate_job k s =
     (case elevate_rotate_seal k s of
        (Err e, s1) \<Rightarrow> (Err (display k e), s1)
      | (Ok (old, new), s1) \<Rightarrow>
          (case change_password k old new s1 of
             (Ok _, s2) \<Rightarrow> (Ok (JRotated new), s2)
           | (Err e, s2) \<Rightarrow>
               (case elevate_rollback k s2 of
                  (Ok _, s3) \<Rightarrow>
                    (Err (''the keyring refused the new key, the old one is back: '' @ display k e), s3)
                | (Err _, s3) \<Rightarrow>
                    (Err (''the keyring refused the new key and the old one could not be restored: '' @ display k e), s3))))"

text \<open>The controls of the tab.  A click on a button that is not shown or not enabled does nothing;
  typing replaces the text of the one field.\<close>

datatype tab_button =
    KShowKey | KReplaceKey | KPasswordToo | KTurnOff | KSetUp | KAlsoPassword bool | KContinue | KCancel
  | KType string | KSaved | KFinish | KDeleteCopy | KClose | KReplace | KBack

text \<open>\<open>keyring_enabled\<close>: the buttons of a keyring that is set up.\<close>

definition keyring_enabled :: "tab_button \<Rightarrow> keyring_tab \<Rightarrow> keyring_tab" where
  "keyring_enabled c t =
     (case c of
        KShowKey \<Rightarrow> start_reveal t
      | KReplaceKey \<Rightarrow> t\<lparr>kt_stage := TConfirmRotate\<rparr>
      | KPasswordToo \<Rightarrow> (if rp_password_wired (kt_report t) then t else start_wire_password t)
      | KTurnOff \<Rightarrow> start_disable t
      | _ \<Rightarrow> t)"

definition keyring_offer :: "(report \<Rightarrow> setup_error + unit) \<Rightarrow> tab_button \<Rightarrow> keyring_tab \<Rightarrow> keyring_tab" where
  "keyring_offer ready c t =
     (if \<not> is_ok (ready (kt_report t)) then t
      else (case c of KSetUp \<Rightarrow> t\<lparr>kt_stage := TConfirm\<rparr> | _ \<Rightarrow> t))"

definition keyring_confirm :: "tab_button \<Rightarrow> keyring_tab \<Rightarrow> keyring_tab" where
  "keyring_confirm c t =
     (case c of
        KAlsoPassword also \<Rightarrow> t\<lparr>kt_fingerprint_only := \<not> also\<rparr>
      | KContinue \<Rightarrow> start_provision t
      | KCancel \<Rightarrow> t\<lparr>kt_stage := TIdle\<rparr>
      | _ \<Rightarrow> t)"

definition keyring_saved :: "string \<Rightarrow> string \<Rightarrow> tab_button \<Rightarrow> keyring_tab \<Rightarrow> keyring_tab" where
  "keyring_saved secret typed c t =
     (case c of
        KType s \<Rightarrow> t\<lparr>kt_stage := TSaved secret s\<rparr>
      | KSaved \<Rightarrow> (if trim typed = secret then t\<lparr>kt_stage := TRekey secret []\<rparr> else t)
      | _ \<Rightarrow> t)"

definition keyring_rekey :: "string \<Rightarrow> string \<Rightarrow> tab_button \<Rightarrow> keyring_tab \<Rightarrow> keyring_tab" where
  "keyring_rekey secret password c t =
     (case c of
        KType s \<Rightarrow> t\<lparr>kt_stage := TRekey secret s\<rparr>
      | KFinish \<Rightarrow> (if password \<noteq> [] then start_rekey secret password t else t)
      | _ \<Rightarrow> t)"

definition keyring_controls :: "look \<Rightarrow> (report \<Rightarrow> setup_error + unit) \<Rightarrow> tab_button \<Rightarrow> keyring_tab \<Rightarrow> keyring_tab" where
  "keyring_controls v ready c t =
     (case kt_stage t of
        TIdle \<Rightarrow> (if looks_enabled t then keyring_enabled c t else keyring_offer ready c t)
      | TConfirm \<Rightarrow> keyring_confirm c t
      | TWorking _ \<Rightarrow> t
      | TSaved secret typed \<Rightarrow> keyring_saved secret typed c t
      | TRekey secret password \<Rightarrow> keyring_rekey secret password c t
      | TShowKey _ \<Rightarrow>
          (case c of
             KDeleteCopy \<Rightarrow> (if kt_recovery_file t then start_forget_file t else t)
           | KClose \<Rightarrow> t\<lparr>kt_stage := TIdle\<rparr>
           | _ \<Rightarrow> t)
      | TConfirmRotate \<Rightarrow>
          (case c of
             KReplace \<Rightarrow> start_rotate t
           | KCancel \<Rightarrow> t\<lparr>kt_stage := TIdle\<rparr>
           | _ \<Rightarrow> t)
      | TRotated _ \<Rightarrow> (case c of KClose \<Rightarrow> t\<lparr>kt_stage := TIdle\<rparr> | _ \<Rightarrow> t)
      | TDone \<Rightarrow> (case c of KClose \<Rightarrow> tab_refresh v (t\<lparr>kt_stage := TIdle\<rparr>) | _ \<Rightarrow> t)
      | TFailed _ \<Rightarrow> (case c of KBack \<Rightarrow> tab_refresh v (t\<lparr>kt_stage := TIdle\<rparr>) | _ \<Rightarrow> t))"

lemmas keyring_controls_defs = keyring_controls_def keyring_enabled_def keyring_offer_def keyring_confirm_def
  keyring_saved_def keyring_rekey_def

subsection \<open>The window\<close>

datatype screen =
    ScDisconnected | ScReady | ScWaiting | ScGranted | ScDenied | ScLocked | ScFailed

datatype mode = MVerify | MEnroll | MKeyring

datatype tone = Dim | Neutral | RetryTone | Good | Bad

datatype enroll_tone = ETIdle | ETHint | ETDone | ETError

datatype job =
    JobConnect string
  | JobVerify string string nat
  | JobEnroll string string nat
  | JobList string
  | JobDelete string string

record app =
  ap_user :: string
  ap_finger :: string
  ap_fingers :: "string list"
  ap_status :: string
  ap_screen :: screen
  ap_pending :: "(string + (string list \<times> int)) option option"
  ap_events :: "auth_event list option"
  ap_cancel :: "nat option"
  ap_client :: bool
  ap_mode :: mode
  ap_enroll_finger :: string
  ap_enroll_events :: "enroll_event list option"
  ap_enroll_cancel :: "nat option"
  ap_enroll_status :: string
  ap_enroll_tone :: enroll_tone
  ap_enroll_done :: byte
  ap_enroll_total :: byte
  ap_delete_armed :: "string option"
  ap_delete_pending :: bool
  ap_list_pending :: "(string + string list) option option"
  ap_keyring :: keyring_tab
  ap_next :: nat
  ap_cancelled :: "nat list"
  ap_jobs :: "job list"

definition app_new :: "string \<Rightarrow> look \<Rightarrow> app" where
  "app_new user v =
     \<lparr>ap_user = user, ap_finger = ''any'', ap_fingers = [''any''], ap_status = ''connect to the reader first'',
      ap_screen = ScDisconnected, ap_pending = None, ap_events = None, ap_cancel = None, ap_client = False,
      ap_mode = MEnroll, ap_enroll_finger = ENROLL_FINGERS ! 6, ap_enroll_events = None,
      ap_enroll_cancel = None, ap_enroll_status = [], ap_enroll_tone = ETIdle, ap_enroll_done = 0,
      ap_enroll_total = 0, ap_delete_armed = None, ap_delete_pending = False, ap_list_pending = None,
      ap_keyring = tab_new v, ap_next = 0, ap_cancelled = [], ap_jobs = []\<rparr>"

definition app_tone :: "app \<Rightarrow> tone" where
  "app_tone a =
     (case ap_mode a of
        MVerify \<Rightarrow> (case ap_screen a of
            ScDisconnected \<Rightarrow> Dim
          | ScGranted \<Rightarrow> Good
          | ScDenied \<Rightarrow> Bad | ScLocked \<Rightarrow> Bad | ScFailed \<Rightarrow> Bad
          | _ \<Rightarrow> Neutral)
      | MEnroll \<Rightarrow>
          (if \<not> ap_client a then Dim
           else (case ap_enroll_tone a of
               ETHint \<Rightarrow> RetryTone | ETDone \<Rightarrow> Good | ETError \<Rightarrow> Bad | ETIdle \<Rightarrow> Neutral))
      | MKeyring \<Rightarrow> (case kt_stage (ap_keyring a) of
            TDone \<Rightarrow> Good
          | TFailed _ \<Rightarrow> Bad
          | TIdle \<Rightarrow> (if \<not> looks_enabled (ap_keyring a) then Dim else Neutral)
          | _ \<Rightarrow> Neutral))"

definition app_outcome :: "app \<Rightarrow> bool option" where
  "app_outcome a =
     (case ap_mode a of
        MVerify \<Rightarrow> (case ap_screen a of ScGranted \<Rightarrow> Some True | ScDenied \<Rightarrow> Some False | _ \<Rightarrow> None)
      | MEnroll \<Rightarrow>
          (if ap_enroll_events a = None then
             (case ap_enroll_tone a of ETDone \<Rightarrow> Some True | ETError \<Rightarrow> Some False | _ \<Rightarrow> None)
           else None)
      | MKeyring \<Rightarrow> (case kt_stage (ap_keyring a) of
            TDone \<Rightarrow> Some True | TFailed _ \<Rightarrow> Some False | _ \<Rightarrow> None))"

subsection \<open>Operations\<close>

definition app_connect :: "app \<Rightarrow> app" where
  "app_connect a =
     (if ap_pending a \<noteq> None then a
      else a\<lparr>ap_pending := Some None, ap_status := ''connecting on the system bus'',
             ap_jobs := ap_jobs a @ [JobConnect (ap_user a)]\<rparr>)"

definition start_login :: "app \<Rightarrow> app" where
  "start_login a =
     (if ap_events a \<noteq> None then a
      else if \<not> ap_client a then a\<lparr>ap_status := ''connect first''\<rparr>
      else a\<lparr>ap_jobs := ap_jobs a @ [JobVerify (ap_user a) (ap_finger a) (ap_next a)],
             ap_events := Some [], ap_cancel := Some (ap_next a), ap_next := ap_next a + 1,
             ap_screen := ScWaiting, ap_status := TOUCH\<rparr>)"

definition fire :: "nat option \<Rightarrow> app \<Rightarrow> app" where
  "fire token a = (case token of Some n \<Rightarrow> a\<lparr>ap_cancelled := n # ap_cancelled a\<rparr> | None \<Rightarrow> a)"

definition cancel_login :: "app \<Rightarrow> app" where
  "cancel_login a = (fire (ap_cancel a) a)\<lparr>ap_cancel := None, ap_events := None, ap_screen := ScReady,
     ap_status := ''cancelled''\<rparr>"

definition logout :: "app \<Rightarrow> app" where
  "logout a = (fire (ap_cancel a) a)\<lparr>ap_cancel := None, ap_events := None, ap_screen := ScReady,
     ap_status := ''signed out''\<rparr>"

definition start_enroll :: "app \<Rightarrow> app" where
  "start_enroll a =
     (if ap_enroll_events a \<noteq> None then a
      else if \<not> ap_client a then a\<lparr>ap_enroll_status := ''connect first'', ap_enroll_tone := ETError\<rparr>
      else a\<lparr>ap_jobs := ap_jobs a @ [JobEnroll (ap_user a) (ap_enroll_finger a) (ap_next a)],
             ap_enroll_events := Some [], ap_enroll_cancel := Some (ap_next a), ap_next := ap_next a + 1,
             ap_enroll_done := 0, ap_enroll_tone := ETIdle, ap_enroll_status := TOUCH_FIRST\<rparr>)"

definition cancel_enroll :: "app \<Rightarrow> app" where
  "cancel_enroll a = (fire (ap_enroll_cancel a) a)\<lparr>ap_enroll_cancel := None, ap_enroll_events := None,
     ap_enroll_done := 0, ap_enroll_status := PICK_ENROLL, ap_enroll_tone := ETIdle\<rparr>"

definition refresh_fingers :: "app \<Rightarrow> app" where
  "refresh_fingers a =
     (if \<not> ap_client a then a
      else a\<lparr>ap_jobs := ap_jobs a @ [JobList (ap_user a)], ap_list_pending := Some None\<rparr>)"

definition request_delete :: "string \<Rightarrow> app \<Rightarrow> app" where
  "request_delete finger a =
     (if ap_delete_pending a \<or> ap_enroll_events a \<noteq> None then a
      else if ap_delete_armed a \<noteq> Some finger then
        a\<lparr>ap_delete_armed := Some finger, ap_enroll_status := ''click '' @ finger @ '' again to confirm delete'',
          ap_enroll_tone := ETHint\<rparr>
      else if \<not> ap_client a then a\<lparr>ap_enroll_status := ''connect first'', ap_enroll_tone := ETError\<rparr>
      else a\<lparr>ap_delete_armed := None, ap_jobs := ap_jobs a @ [JobDelete (ap_user a) finger],
             ap_list_pending := Some None, ap_delete_pending := True, ap_enroll_status := ''deleting'',
             ap_enroll_tone := ETIdle\<rparr>)"

definition set_fingers :: "string list \<Rightarrow> app \<Rightarrow> app" where
  "set_fingers fingers a =
     a\<lparr>ap_fingers := fingers, ap_finger := (if ap_finger a \<notin> set fingers then ''any'' else ap_finger a)\<rparr>"

text \<open>One event of an enrolment: the state, whether it is over, whether the list is stale.\<close>

fun on_enroll_event :: "enroll_event \<Rightarrow> app \<times> bool \<times> bool \<Rightarrow> app \<times> bool \<times> bool" where
  "on_enroll_event (EStage d t) (a, over, stale) =
     (let tot = (if t > 0 then t else ap_enroll_total a) in
      (a\<lparr>ap_enroll_done := d, ap_enroll_total := tot, ap_enroll_status := touch_again d tot,
         ap_enroll_tone := ETIdle\<rparr>, over, stale))"
| "on_enroll_event (ERetry tip) (a, over, stale) =
     (a\<lparr>ap_enroll_status := tip, ap_enroll_tone := ETHint\<rparr>, over, stale)"
| "on_enroll_event ECompleted (a, over, stale) =
     (a\<lparr>ap_enroll_done := ap_enroll_total a, ap_enroll_status := ap_enroll_finger a @ '' enrolled'',
        ap_enroll_tone := ETDone\<rparr>, True, True)"
| "on_enroll_event (EFailed t) (a, over, stale) =
     (a\<lparr>ap_enroll_status := t, ap_enroll_tone := ETError\<rparr>, True, stale)"
| "on_enroll_event EFinished (a, over, stale) = (a, True, stale)"

definition poll_enroll :: "app \<Rightarrow> app" where
  "poll_enroll a =
     (case ap_enroll_events a of
        None \<Rightarrow> a
      | Some q \<Rightarrow>
          (case fold on_enroll_event q (a\<lparr>ap_enroll_events := Some []\<rparr>, False, False) of
             (a1, over, stale) \<Rightarrow>
               (let a2 = (if over then a1\<lparr>ap_enroll_events := None, ap_enroll_cancel := None\<rparr> else a1) in
                if stale then refresh_fingers a2 else a2)))"

definition poll_list_pending :: "app \<Rightarrow> app" where
  "poll_list_pending a =
     (case ap_list_pending a of
        Some (Some outcome) \<Rightarrow>
          (let a1 = a\<lparr>ap_list_pending := None, ap_delete_pending := False\<rparr> in
           case outcome of
             Ok fingers \<Rightarrow> set_fingers fingers a1
           | Err t \<Rightarrow> a1\<lparr>ap_enroll_status := t, ap_enroll_tone := ETError\<rparr>)
      | _ \<Rightarrow> a)"

definition poll_pending :: "app \<Rightarrow> app" where
  "poll_pending a =
     (case ap_pending a of
        Some (Some outcome) \<Rightarrow>
          (let a1 = a\<lparr>ap_pending := None\<rparr> in
           case outcome of
             Ok (fingers, stages) \<Rightarrow>
               (let a2 = set_fingers fingers (a1\<lparr>ap_client := True\<rparr>);
                    a3 = (if stages > 0 then a2\<lparr>ap_enroll_total := word_of_int (min stages 255)\<rparr> else a2)
                in a3\<lparr>ap_screen := ScReady, ap_status := ''reader ready''\<rparr>)
           | Err t \<Rightarrow> a1\<lparr>ap_screen := ScDisconnected, ap_status := t\<rparr>)
      | _ \<Rightarrow> a)"

fun on_auth_event :: "auth_event \<Rightarrow> app \<times> bool \<Rightarrow> app \<times> bool" where
  "on_auth_event (APrompt t) (a, over) = (a\<lparr>ap_status := t\<rparr>, over)"
| "on_auth_event (ARetry tip) (a, over) = (a\<lparr>ap_status := tip\<rparr>, over)"
| "on_auth_event (AFinger finger) (a, over) = (a\<lparr>ap_status := ''verifying '' @ finger\<rparr>, over)"
| "on_auth_event AGranted (a, over) = (a\<lparr>ap_screen := ScGranted\<rparr>, True)"
| "on_auth_event (ADenied _) (a, over) = (a\<lparr>ap_screen := ScDenied\<rparr>, True)"
| "on_auth_event ALocked (a, over) = (a\<lparr>ap_screen := ScLocked\<rparr>, True)"
| "on_auth_event (AEFailed t) (a, over) = (a\<lparr>ap_screen := ScFailed, ap_status := t\<rparr>, True)"
| "on_auth_event AFinished (a, over) = (a, True)"

definition poll_auth :: "app \<Rightarrow> app" where
  "poll_auth a =
     (case ap_events a of
        None \<Rightarrow> a
      | Some q \<Rightarrow>
          (case fold on_auth_event q (a\<lparr>ap_events := Some []\<rparr>, False) of
             (a1, over) \<Rightarrow> (if over then a1\<lparr>ap_events := None, ap_cancel := None\<rparr> else a1)))"

definition app_poll :: "app \<Rightarrow> app" where
  "app_poll a = poll_auth (poll_pending (poll_list_pending (poll_enroll a)))"

definition stage_line :: "app \<Rightarrow> string" where
  "stage_line a =
     (case ap_mode a of
        MVerify \<Rightarrow> (case ap_screen a of
            ScDisconnected \<Rightarrow> READER_NOT_FOUND
          | ScReady \<Rightarrow> PICK_VERIFY
          | ScWaiting \<Rightarrow> ap_status a
          | ScGranted \<Rightarrow> VERIFIED
          | ScDenied \<Rightarrow> NOT_RECOGNISED
          | ScLocked \<Rightarrow> PASSWORD_FALLBACK
          | ScFailed \<Rightarrow> ap_status a)
      | MEnroll \<Rightarrow>
          (if \<not> ap_client a then READER_NOT_FOUND
           else if ap_enroll_events a \<noteq> None \<or> ap_enroll_status a \<noteq> [] then ap_enroll_status a
           else PICK_ENROLL)
      | MKeyring \<Rightarrow> (case kt_stage (ap_keyring a) of
            TIdle \<Rightarrow> (if looks_enabled (ap_keyring a) then ''Keyring unlocks with your finger''
                      else ''Keyring asks for a password'')
          | TConfirm \<Rightarrow> ''Read this before you continue''
          | TConfirmRotate \<Rightarrow> ''Replace the key''
          | TWorking _ \<Rightarrow> ''Waiting for authorisation''
          | TSaved _ _ \<Rightarrow> ''Save your recovery code''
          | TRekey _ _ \<Rightarrow> ''Last step''
          | TShowKey _ \<Rightarrow> ''Your recovery key''
          | TRotated _ \<Rightarrow> ''New key in place''
          | TDone \<Rightarrow> ''Done, log out and back in''
          | TFailed why \<Rightarrow> why))"

subsection \<open>Controls\<close>

datatype click =
    ClickMode mode
  | ClickFinger string
  | ClickMain
  | ClickEnrollFinger string
  | ClickDelete string
  | ClickKeyring tab_button

text \<open>The one button of the verify tab.\<close>

definition verify_button :: "app \<Rightarrow> app" where
  "verify_button a =
     (case ap_screen a of
        ScWaiting \<Rightarrow> cancel_login a
      | ScGranted \<Rightarrow> logout a
      | ScDisconnected \<Rightarrow> a
      | _ \<Rightarrow> start_login a)"

text \<open>The one button of the enroll tab.\<close>

definition enroll_button :: "app \<Rightarrow> app" where
  "enroll_button a =
     (if ap_enroll_events a \<noteq> None then cancel_enroll a
      else if \<not> ap_delete_pending a then start_enroll a
      else a)"

definition verify_controls :: "click \<Rightarrow> app \<Rightarrow> app" where
  "verify_controls c a =
     (case c of
        ClickFinger f \<Rightarrow>
          (if ap_screen a \<in> {ScDisconnected, ScReady} \<and> f \<in> set (ap_fingers a) then a\<lparr>ap_finger := f\<rparr> else a)
      | ClickMain \<Rightarrow> verify_button a
      | _ \<Rightarrow> a)"

text \<open>Without a connection there is only the connect button.\<close>

definition enroll_controls :: "click \<Rightarrow> app \<Rightarrow> app" where
  "enroll_controls c a =
     (if \<not> ap_client a then (case c of ClickMain \<Rightarrow> app_connect a | _ \<Rightarrow> a)
      else
        (let busy = ap_enroll_events a \<noteq> None \<or> ap_delete_pending a in
         case c of
           ClickEnrollFinger f \<Rightarrow>
             (if \<not> busy \<and> f \<in> set ENROLL_FINGERS \<and> f \<notin> set (ap_fingers a) then a\<lparr>ap_enroll_finger := f\<rparr>
              else a)
         | ClickMain \<Rightarrow> enroll_button a
         | ClickDelete f \<Rightarrow>
             (if \<not> busy \<and> f \<in> set (ap_fingers a) \<and> f \<noteq> ''any'' then request_delete f a else a)
         | _ \<Rightarrow> a))"

definition controls_locked :: "app \<Rightarrow> bool" where
  "controls_locked a \<longleftrightarrow> ap_events a \<noteq> None \<or> ap_enroll_events a \<noteq> None \<or> tab_busy (ap_keyring a)"

definition controls :: "look \<Rightarrow> (report \<Rightarrow> setup_error + unit) \<Rightarrow> click \<Rightarrow> app \<Rightarrow> app" where
  "controls v ready c a =
     (case c of
        ClickMode m \<Rightarrow> (if controls_locked a then a else a\<lparr>ap_mode := m\<rparr>)
      | _ \<Rightarrow>
          (case ap_mode a of
             MVerify \<Rightarrow> verify_controls c a
           | MEnroll \<Rightarrow> enroll_controls c a
           | MKeyring \<Rightarrow>
               (case c of
                  ClickKeyring k \<Rightarrow> a\<lparr>ap_keyring := keyring_controls v ready k (ap_keyring a)\<rparr>
                | _ \<Rightarrow> a)))"

end
