(* ===== verification/LoginRun.thy ===== *)
theory LoginRun
  imports LoginApp
begin

text \<open>
  Runs of the window of \<open>elanprint-login\<close>: clicks, frames and messages that arrive, in any order.  The
  invariant of the window, what a deletion and a re-key take, and the window together with the
  verification task of \<open>client.rs\<close>.
\<close>

subsection \<open>What happens to a window\<close>

text \<open>A message goes to the receiver the window holds now; one for a dropped receiver is lost.\<close>

datatype arrival =
    ArrConnect "string + (string list \<times> int)"
  | ArrList "string + string list"
  | ArrAuth auth_event
  | ArrEnroll enroll_event
  | ArrJob "(string + job_result) recv"
  | ArrRekey "(string + unit) recv"

fun arrive :: "arrival \<Rightarrow> app \<Rightarrow> app" where
  "arrive (ArrConnect r) a = (if ap_pending a = Some None then a\<lparr>ap_pending := Some (Some r)\<rparr> else a)"
| "arrive (ArrList r) a = (if ap_list_pending a = Some None then a\<lparr>ap_list_pending := Some (Some r)\<rparr> else a)"
| "arrive (ArrAuth e) a = (case ap_events a of Some q \<Rightarrow> a\<lparr>ap_events := Some (q @ [e])\<rparr> | None \<Rightarrow> a)"
| "arrive (ArrEnroll e) a =
     (case ap_enroll_events a of Some q \<Rightarrow> a\<lparr>ap_enroll_events := Some (q @ [e])\<rparr> | None \<Rightarrow> a)"
| "arrive (ArrJob r) a =
     (if kt_job (ap_keyring a) = Some RxEmpty
      then a\<lparr>ap_keyring := (ap_keyring a)\<lparr>kt_job := Some r\<rparr>\<rparr> else a)"
| "arrive (ArrRekey r) a =
     (if kt_rekey (ap_keyring a) = Some RxEmpty
      then a\<lparr>ap_keyring := (ap_keyring a)\<lparr>kt_rekey := Some r\<rparr>\<rparr> else a)"

datatype input =
    Click look "report \<Rightarrow> setup_error + unit" click
  | Frame look
  | Arrive arrival

text \<open>The part of \<open>update\<close> that comes before the drawing.\<close>

definition app_update :: "look \<Rightarrow> app \<Rightarrow> app" where
  "app_update v a = (let a1 = app_poll a in a1\<lparr>ap_keyring := tab_poll v (ap_keyring a1)\<rparr>)"

fun app_input :: "input \<Rightarrow> app \<Rightarrow> app" where
  "app_input (Click v ready c) a = controls v ready c a"
| "app_input (Frame v) a = app_update v a"
| "app_input (Arrive r) a = arrive r a"

definition window :: "string \<Rightarrow> look \<Rightarrow> input list \<Rightarrow> app" where
  "window user v is = fold app_input is (app_new user v)"

lemma window_Nil: "window user v [] = app_new user v"
  by (simp add: window_def)

lemma window_snoc: "window user v (is @ [i]) = app_input i (window user v is)"
  by (simp add: window_def)

subsection \<open>The invariant\<close>

fun job_of :: "string \<Rightarrow> job \<Rightarrow> bool" where
  "job_of u (JobConnect u') = (u' = u)"
| "job_of u (JobVerify u' _ _) = (u' = u)"
| "job_of u (JobEnroll u' _ _) = (u' = u)"
| "job_of u (JobList u') = (u' = u)"
| "job_of u (JobDelete u' _) = (u' = u)"

definition tab_working :: "keyring_tab \<Rightarrow> bool" where
  "tab_working t = (case kt_stage t of TWorking _ \<Rightarrow> True | _ \<Rightarrow> False)"

definition tab_ok :: "keyring_tab \<Rightarrow> bool" where
  "tab_ok t \<longleftrightarrow> tab_busy t = tab_working t \<and> (kt_job t = None \<or> kt_rekey t = None)"

text \<open>The verification and the enrolment, each with its token, the one reader connection, and the
  pages they can be seen on.\<close>

definition verify_ok :: "app \<Rightarrow> bool" where
  "verify_ok a \<longleftrightarrow> (ap_cancel a = None) = (ap_events a = None) \<and>
     (ap_events a \<noteq> None \<longrightarrow> ap_client a \<and> ap_mode a = MVerify \<and> ap_screen a = ScWaiting)"

definition enroll_ok :: "app \<Rightarrow> bool" where
  "enroll_ok a \<longleftrightarrow> (ap_enroll_cancel a = None) = (ap_enroll_events a = None) \<and>
     (ap_enroll_events a \<noteq> None \<longrightarrow> ap_client a \<and> ap_mode a = MEnroll \<and> \<not> ap_delete_pending a)"

definition reader_ok :: "app \<Rightarrow> bool" where
  "reader_ok a \<longleftrightarrow> (ap_client a \<longrightarrow> ap_pending a = None \<and> ap_screen a \<noteq> ScDisconnected) \<and>
     (\<not> ap_client a \<longrightarrow> ap_screen a = ScDisconnected \<and> ap_list_pending a = None) \<and>
     (ap_delete_pending a \<longrightarrow> ap_list_pending a \<noteq> None)"

definition tokens_ok :: "app \<Rightarrow> bool" where
  "tokens_ok a \<longleftrightarrow> (\<forall>n \<in> set (ap_cancelled a) \<union> set_option (ap_cancel a) \<union> set_option (ap_enroll_cancel a).
       n < ap_next a) \<and>
     set (ap_cancelled a) \<inter> (set_option (ap_cancel a) \<union> set_option (ap_enroll_cancel a)) = {}"

definition window_ok :: "app \<Rightarrow> bool" where
  "window_ok a \<longleftrightarrow> verify_ok a \<and> enroll_ok a \<and> reader_ok a \<and> tokens_ok a \<and> tab_ok (ap_keyring a) \<and>
     (tab_busy (ap_keyring a) \<longrightarrow> ap_mode a = MKeyring) \<and> (\<forall>j \<in> set (ap_jobs a). job_of (ap_user a) j)"

lemmas window_ok_defs = window_ok_def verify_ok_def enroll_ok_def reader_ok_def tokens_ok_def

subsection \<open>Queues\<close>

fun auth_terminal :: "auth_event \<Rightarrow> bool" where
  "auth_terminal (APrompt _) = False"
| "auth_terminal (ARetry _) = False"
| "auth_terminal (AFinger _) = False"
| "auth_terminal _ = True"

lemma auth_fold:
  "\<exists>s sc. fold on_auth_event q (a, b) =
       (a\<lparr>ap_status := s, ap_screen := sc\<rparr>, b \<or> (\<exists>e \<in> set q. auth_terminal e)) \<and>
     (sc = ap_screen a \<or> sc \<in> {ScGranted, ScDenied, ScLocked, ScFailed} \<and> (\<exists>e \<in> set q. auth_terminal e)) \<and>
     (sc = ScGranted \<longrightarrow> ap_screen a = ScGranted \<or> AGranted \<in> set q)"
proof (induction q arbitrary: a b)
  case Nil
  then show ?case by (auto intro!: exI [of _ "ap_status a"] exI [of _ "ap_screen a"])
next
  case (Cons e q)
  obtain s1 sc1 where e: "on_auth_event e (a, b) = (a\<lparr>ap_status := s1, ap_screen := sc1\<rparr>, b \<or> auth_terminal e)"
    and sc1: "sc1 = ap_screen a \<or> sc1 \<in> {ScGranted, ScDenied, ScLocked, ScFailed} \<and> auth_terminal e"
      "sc1 = ScGranted \<longrightarrow> ap_screen a = ScGranted \<or> e = AGranted"
    by (cases e; cases a) auto
  show ?case
    using Cons.IH [of "a\<lparr>ap_status := s1, ap_screen := sc1\<rparr>" "b \<or> auth_terminal e"] sc1 by (auto simp: e)
qed

fun enroll_over :: "enroll_event \<Rightarrow> bool" where
  "enroll_over (EStage _ _) = False"
| "enroll_over (ERetry _) = False"
| "enroll_over _ = True"

lemma enroll_fold:
  "\<exists>d t s tn. fold on_enroll_event q (a, b, c) =
       (a\<lparr>ap_enroll_done := d, ap_enroll_total := t, ap_enroll_status := s, ap_enroll_tone := tn\<rparr>,
        b \<or> (\<exists>e \<in> set q. enroll_over e), c \<or> ECompleted \<in> set q)"
proof (induction q arbitrary: a b c)
  case Nil
  then show ?case by (cases a) auto
next
  case (Cons e q)
  obtain d t s tn where e: "on_enroll_event e (a, b, c) =
      (a\<lparr>ap_enroll_done := d, ap_enroll_total := t, ap_enroll_status := s, ap_enroll_tone := tn\<rparr>,
       b \<or> enroll_over e, c \<or> e = ECompleted)"
    by (cases e; cases a) (auto simp: Let_def)
  obtain d' t' s' tn' where
    "fold on_enroll_event q (a\<lparr>ap_enroll_done := d, ap_enroll_total := t, ap_enroll_status := s, ap_enroll_tone := tn\<rparr>,
        b \<or> enroll_over e, c \<or> e = ECompleted) =
      (a\<lparr>ap_enroll_done := d', ap_enroll_total := t', ap_enroll_status := s', ap_enroll_tone := tn'\<rparr>,
        b \<or> enroll_over e \<or> (\<exists>e \<in> set q. enroll_over e), c \<or> e = ECompleted \<or> ECompleted \<in> set q)"
    using Cons.IH [of "a\<lparr>ap_enroll_done := d, ap_enroll_total := t, ap_enroll_status := s, ap_enroll_tone := tn\<rparr>"
        "b \<or> enroll_over e" "c \<or> e = ECompleted"] by auto
  then show ?case by (intro exI [of _ d'] exI [of _ t'] exI [of _ s'] exI [of _ tn']) (auto simp: e)
qed

lemma poll_auth_cases:
  assumes "ap_events a = Some q"
  obtains (on) s sc where "\<forall>e \<in> set q. \<not> auth_terminal e" "sc = ap_screen a"
      "poll_auth a = a\<lparr>ap_events := Some [], ap_status := s, ap_screen := sc\<rparr>"
    | (over) s sc where "\<exists>e \<in> set q. auth_terminal e" "sc = ap_screen a \<or> sc \<in> {ScGranted, ScDenied, ScLocked, ScFailed}"
      "sc = ScGranted \<longrightarrow> ap_screen a = ScGranted \<or> AGranted \<in> set q"
      "poll_auth a = a\<lparr>ap_status := s, ap_screen := sc, ap_events := None, ap_cancel := None\<rparr>"
proof -
  obtain s sc where f: "fold on_auth_event q (a\<lparr>ap_events := Some []\<rparr>, False) =
       ((a\<lparr>ap_events := Some []\<rparr>)\<lparr>ap_status := s, ap_screen := sc\<rparr>, \<exists>e \<in> set q. auth_terminal e)"
    and sc: "sc = ap_screen a \<or> sc \<in> {ScGranted, ScDenied, ScLocked, ScFailed} \<and> (\<exists>e \<in> set q. auth_terminal e)"
      "sc = ScGranted \<longrightarrow> ap_screen a = ScGranted \<or> AGranted \<in> set q"
    using auth_fold [of q "a\<lparr>ap_events := Some []\<rparr>" False] by auto
  show thesis
  proof (cases "\<exists>e \<in> set q. auth_terminal e")
    case True
    then show ?thesis using sc f assms by (intro over) (auto simp: poll_auth_def)
  next
    case False
    then show ?thesis using sc f assms by (intro on) (auto simp: poll_auth_def)
  qed
qed

lemma poll_enroll_cases:
  assumes "ap_enroll_events a = Some q"
  obtains (on) d t s tn where "\<forall>e \<in> set q. \<not> enroll_over e"
      "poll_enroll a = a\<lparr>ap_enroll_events := Some [], ap_enroll_done := d, ap_enroll_total := t,
         ap_enroll_status := s, ap_enroll_tone := tn\<rparr>"
    | (over) d t s tn where "\<exists>e \<in> set q. enroll_over e" "ECompleted \<notin> set q"
      "poll_enroll a = a\<lparr>ap_enroll_done := d, ap_enroll_total := t,
         ap_enroll_status := s, ap_enroll_tone := tn, ap_enroll_events := None, ap_enroll_cancel := None\<rparr>"
    | (completed) d t s tn where "ECompleted \<in> set q"
      "poll_enroll a = refresh_fingers (a\<lparr>ap_enroll_done := d, ap_enroll_total := t, ap_enroll_status := s,
         ap_enroll_tone := tn, ap_enroll_events := None, ap_enroll_cancel := None\<rparr>)"
proof -
  obtain d t s tn where f: "fold on_enroll_event q (a\<lparr>ap_enroll_events := Some []\<rparr>, False, False) =
       ((a\<lparr>ap_enroll_events := Some []\<rparr>)\<lparr>ap_enroll_done := d, ap_enroll_total := t, ap_enroll_status := s,
          ap_enroll_tone := tn\<rparr>, \<exists>e \<in> set q. enroll_over e, ECompleted \<in> set q)"
    using enroll_fold [of q "a\<lparr>ap_enroll_events := Some []\<rparr>" False False] by auto
  show thesis
  proof (cases "ECompleted \<in> set q")
    case True
    then have "\<exists>e \<in> set q. enroll_over e" by force
    then show ?thesis using True f assms by (intro completed) (auto simp: poll_enroll_def)
  next
    case False
    then show ?thesis using f assms
      by (cases "\<exists>e \<in> set q. enroll_over e") (auto simp: poll_enroll_def intro: over on)
  qed
qed

subsection \<open>The invariant is kept\<close>

lemma app_new_ok: "window_ok (app_new user v)"
  by (simp add: window_ok_defs app_new_def tab_new_def tab_ok_def tab_busy_def tab_working_def)

lemma fire_fields:
  "fire tk a = a\<lparr>ap_cancelled := (case tk of Some n \<Rightarrow> [n] | None \<Rightarrow> []) @ ap_cancelled a\<rparr>"
  by (simp add: fire_def split: option.split)

lemma poll_auth_ok: "window_ok a \<Longrightarrow> window_ok (poll_auth a)"
proof (cases "ap_events a")
  case (Some q)
  assume a: "window_ok a"
  from Some show ?thesis
  proof (cases rule: poll_auth_cases)
    case (on s sc)
    then show ?thesis using a Some by (auto simp: window_ok_defs)
  next
    case (over s sc)
    have v: "ap_screen a = ScWaiting" "ap_client a" using a Some by (auto simp: window_ok_defs)
    have sc: "sc \<noteq> ScDisconnected" using over(2) v by auto
    show ?thesis using a v sc unfolding over(4) window_ok_def
      by (intro conjI; auto simp: verify_ok_def enroll_ok_def reader_ok_def tokens_ok_def)
  qed
qed (simp add: poll_auth_def)

lemma refresh_fingers_ok:
  "window_ok a \<Longrightarrow> ap_client a \<Longrightarrow> \<not> ap_delete_pending a \<Longrightarrow> window_ok (refresh_fingers a)"
  by (auto simp: refresh_fingers_def window_ok_defs)

lemma poll_enroll_ok: "window_ok a \<Longrightarrow> window_ok (poll_enroll a)"
proof (cases "ap_enroll_events a")
  case (Some q)
  assume a: "window_ok a"
  from Some show ?thesis
  proof (cases rule: poll_enroll_cases)
    case (on d t s tn)
    then show ?thesis using a Some by (auto simp: window_ok_defs)
  next
    case (over d t s tn)
    then show ?thesis using a Some by (auto simp: window_ok_defs)
  next
    case (completed d t s tn)
    let ?a1 = "a\<lparr>ap_enroll_done := d, ap_enroll_total := t, ap_enroll_status := s, ap_enroll_tone := tn,
      ap_enroll_events := None, ap_enroll_cancel := None\<rparr>"
    have "window_ok ?a1" "ap_client ?a1" "\<not> ap_delete_pending ?a1" using a Some by (auto simp: window_ok_defs)
    then show ?thesis unfolding completed(2) by (rule refresh_fingers_ok)
  qed
qed (simp add: poll_enroll_def)

lemma poll_list_pending_ok: "window_ok a \<Longrightarrow> window_ok (poll_list_pending a)"
  by (auto simp: poll_list_pending_def window_ok_defs set_fingers_def Let_def split: option.splits sum.splits)

lemma poll_pending_ok: "window_ok a \<Longrightarrow> window_ok (poll_pending a)"
  by (auto simp: poll_pending_def window_ok_defs set_fingers_def Let_def split: option.splits sum.splits)

lemma job_stage_not_working: "job_stage j \<noteq> TWorking w"
  by (cases j) auto

lemma tab_poll_job_ok:
  assumes "tab_ok t"
  shows "tab_ok (tab_poll_job v t) \<and> (tab_busy (tab_poll_job v t) \<longrightarrow> tab_busy t)"
proof (cases "kt_job t")
  case (Some r)
  then show ?thesis
  proof (cases r)
    case (RxReady x)
    then show ?thesis using assms Some
      by (cases x) (auto simp: tab_poll_job_def tab_ok_def tab_busy_def tab_working_def tab_refresh_def
          job_stage_not_working split: tab_stage.split)
  qed (use assms in \<open>auto simp: tab_poll_job_def tab_ok_def tab_busy_def tab_working_def\<close>)
qed (use assms in \<open>auto simp: tab_poll_job_def\<close>)

lemma tab_poll_rekey_ok:
  assumes "tab_ok t"
  shows "tab_ok (tab_poll_rekey v t) \<and> (tab_busy (tab_poll_rekey v t) \<longrightarrow> tab_busy t)"
proof (cases "kt_rekey t")
  case (Some r)
  then show ?thesis
  proof (cases r)
    case (RxReady x)
    then show ?thesis using assms Some
      by (cases x) (auto simp: tab_poll_rekey_def tab_ok_def tab_busy_def tab_working_def tab_refresh_def)
  qed (use assms in \<open>auto simp: tab_poll_rekey_def tab_ok_def tab_busy_def tab_working_def\<close>)
qed (use assms in \<open>auto simp: tab_poll_rekey_def\<close>)

lemma tab_poll_ok: "tab_ok t \<Longrightarrow> tab_ok (tab_poll v t) \<and> (tab_busy (tab_poll v t) \<longrightarrow> tab_busy t)"
  using tab_poll_job_ok tab_poll_rekey_ok unfolding tab_poll_def by blast

lemma app_update_ok: "window_ok a \<Longrightarrow> window_ok (app_update v a)"
proof -
  assume "window_ok a"
  then have "window_ok (app_poll a)"
    by (simp add: app_poll_def poll_auth_ok poll_pending_ok poll_list_pending_ok poll_enroll_ok)
  then show ?thesis using tab_poll_ok [of "ap_keyring (app_poll a)" v]
    by (auto simp: app_update_def Let_def window_ok_defs)
qed


lemma start_login_ok: "window_ok a \<Longrightarrow> ap_mode a = MVerify \<Longrightarrow> window_ok (start_login a)"
  by (auto simp: start_login_def window_ok_defs less_Suc_eq)

lemma verify_button_ok: "window_ok a \<Longrightarrow> ap_mode a = MVerify \<Longrightarrow> window_ok (verify_button a)"
  by (auto simp: verify_button_def cancel_login_def logout_def fire_fields start_login_ok split: screen.split)
    (auto simp: window_ok_defs split: option.splits)

lemma app_connect_ok: "window_ok a \<Longrightarrow> \<not> ap_client a \<Longrightarrow> window_ok (app_connect a)"
  by (auto simp: app_connect_def window_ok_defs)

lemma cancel_enroll_ok: "window_ok a \<Longrightarrow> window_ok (cancel_enroll a)"
  by (cases "ap_enroll_cancel a") (auto simp: cancel_enroll_def fire_fields window_ok_defs)

lemma start_enroll_ok:
  "window_ok a \<Longrightarrow> ap_mode a = MEnroll \<Longrightarrow> \<not> ap_delete_pending a \<Longrightarrow> window_ok (start_enroll a)"
  by (auto simp: start_enroll_def window_ok_defs less_Suc_eq)

lemma enroll_button_ok: "window_ok a \<Longrightarrow> ap_mode a = MEnroll \<Longrightarrow> window_ok (enroll_button a)"
  by (simp add: enroll_button_def cancel_enroll_ok start_enroll_ok)

lemma request_delete_ok: "window_ok a \<Longrightarrow> ap_mode a = MEnroll \<Longrightarrow> window_ok (request_delete f a)"
  by (auto simp: request_delete_def window_ok_defs)

lemmas tab_starts = start_reveal_def start_wire_password_def start_disable_def start_provision_def
  start_rotate_def start_forget_file_def start_rekey_def tab_spawn_def

lemma keyring_controls_ok: "tab_ok t \<Longrightarrow> tab_ok (keyring_controls v ready c t)"
  by (cases "kt_stage t"; cases c)
    (auto simp: keyring_controls_defs tab_starts tab_ok_def tab_busy_def tab_working_def tab_refresh_def)

lemma verify_controls_ok: "window_ok a \<Longrightarrow> ap_mode a = MVerify \<Longrightarrow> window_ok (verify_controls c a)"
  by (cases c) (simp_all add: verify_controls_def verify_button_ok, simp add: window_ok_defs)

lemma enroll_controls_ok: "window_ok a \<Longrightarrow> ap_mode a = MEnroll \<Longrightarrow> window_ok (enroll_controls c a)"
  by (cases c) (simp_all add: enroll_controls_def enroll_button_ok app_connect_ok request_delete_ok,
      simp add: window_ok_defs)

lemma controls_ok: "window_ok a \<Longrightarrow> window_ok (controls v ready c a)"
proof (cases c)
  case (ClickMode m)
  assume "window_ok a"
  then show ?thesis using ClickMode by (auto simp: controls_def controls_locked_def window_ok_defs)
next
  case (ClickKeyring k)
  assume a: "window_ok a"
  then show ?thesis using ClickKeyring keyring_controls_ok [of "ap_keyring a" v ready k]
    verify_controls_ok [OF a, of c] enroll_controls_ok [OF a, of c]
    by (cases "ap_mode a") (simp_all add: controls_def, auto simp: window_ok_defs)
qed (auto simp: controls_def verify_controls_ok enroll_controls_ok split: mode.split)

lemma arrive_ok: "window_ok a \<Longrightarrow> window_ok (arrive r a)"
proof (cases r)
  case (ArrJob x)
  assume a: "window_ok a"
  have "kt_job t = Some RxEmpty \<Longrightarrow> tab_ok (t\<lparr>kt_job := Some x\<rparr>) = tab_ok t \<and>
      tab_busy (t\<lparr>kt_job := Some x\<rparr>) = tab_busy t" for t :: keyring_tab
    by (auto simp: tab_ok_def tab_busy_def tab_working_def)
  then show ?thesis using a ArrJob by (simp add: window_ok_defs)
next
  case (ArrRekey x)
  assume a: "window_ok a"
  have "kt_rekey t = Some RxEmpty \<Longrightarrow> tab_ok (t\<lparr>kt_rekey := Some x\<rparr>) = tab_ok t \<and>
      tab_busy (t\<lparr>kt_rekey := Some x\<rparr>) = tab_busy t" for t :: keyring_tab
    by (auto simp: tab_ok_def tab_busy_def tab_working_def)
  then show ?thesis using a ArrRekey by (simp add: window_ok_defs)
next
  case (ArrAuth e)
  assume "window_ok a"
  then show ?thesis using ArrAuth by (cases "ap_events a") (auto simp: window_ok_defs)
next
  case (ArrEnroll e)
  assume "window_ok a"
  then show ?thesis using ArrEnroll by (cases "ap_enroll_events a") (auto simp: window_ok_defs)
qed (auto simp: window_ok_defs)

lemma app_input_ok: "window_ok a \<Longrightarrow> window_ok (app_input i a)"
  by (cases i) (auto simp: controls_ok app_update_ok arrive_ok)

lemma window_always_ok: "window_ok (window user v is)"
  by (induction "is" rule: rev_induct) (auto simp: window_Nil window_snoc app_new_ok app_input_ok)

subsection \<open>Frames\<close>

fun is_delete :: "string \<Rightarrow> job \<Rightarrow> bool" where
  "is_delete f (JobDelete _ g) = (g = f)"
| "is_delete f _ = False"

definition deletes :: "string \<Rightarrow> app \<Rightarrow> nat" where
  "deletes f a = length (filter (is_delete f) (ap_jobs a))"

text \<open>The user, the deletions asked for and the finger armed stay as they are.\<close>

definition keeps :: "string \<Rightarrow> app \<Rightarrow> app \<Rightarrow> bool" where
  "keeps f a b \<longleftrightarrow> ap_user b = ap_user a \<and> deletes f b = deletes f a \<and> ap_delete_armed b = ap_delete_armed a"

lemma keeps_refl [simp]: "keeps f a a"
  by (simp add: keeps_def)

lemma keeps_trans: "keeps f a b \<Longrightarrow> keeps f b c \<Longrightarrow> keeps f a c"
  by (simp add: keeps_def)

lemma keeps_poll_auth: "keeps f a (poll_auth a)"
proof (cases "ap_events a")
  case (Some q)
  then show ?thesis by (cases rule: poll_auth_cases) (auto simp: keeps_def deletes_def)
qed (simp add: poll_auth_def)

lemma keeps_poll_enroll: "keeps f a (poll_enroll a)"
proof (cases "ap_enroll_events a")
  case (Some q)
  then show ?thesis
    by (cases rule: poll_enroll_cases) (auto simp: keeps_def deletes_def refresh_fingers_def)
qed (simp add: poll_enroll_def)

lemma keeps_update: "keeps f a (app_update v a)"
proof -
  have 1: "keeps f b (poll_list_pending b)" for b
    by (auto simp: poll_list_pending_def set_fingers_def keeps_def deletes_def Let_def
        split: option.split sum.split)
  have 2: "keeps f b (poll_pending b)" for b
    by (auto simp: poll_pending_def set_fingers_def keeps_def deletes_def Let_def split: option.split sum.split)
  have "keeps f a (app_poll a)"
    unfolding app_poll_def
    by (rule keeps_trans [OF keeps_trans [OF keeps_trans [OF keeps_poll_enroll 1] 2] keeps_poll_auth])
  then show ?thesis by (simp add: app_update_def Let_def keeps_def deletes_def)
qed

lemma keeps_arrive: "keeps f a (arrive r a)"
  by (cases r) (auto simp: keeps_def deletes_def split: option.split)

lemma keeps_cancels:
  "keeps f a (cancel_login a)" "keeps f a (logout a)" "keeps f a (cancel_enroll a)"
  unfolding cancel_login_def logout_def cancel_enroll_def fire_fields by (simp_all add: keeps_def deletes_def)

lemma keeps_starts:
  "keeps f a (start_login a)" "keeps f a (app_connect a)" "keeps f a (start_enroll a)"
  unfolding start_login_def app_connect_def start_enroll_def by (simp_all add: keeps_def deletes_def)

lemma keeps_controls:
  assumes "\<forall>g. c \<noteq> ClickDelete g"
  shows "keeps f a (controls v ready c a)"
proof -
  have "keeps f a (verify_controls c a)"
    by (cases c) (simp_all add: verify_controls_def verify_button_def keeps_cancels keeps_starts
        split: screen.split, simp add: keeps_def deletes_def)
  moreover have "keeps f a (enroll_controls c a)"
    using assms by (cases c) (simp_all add: enroll_controls_def enroll_button_def keeps_cancels keeps_starts,
        simp add: keeps_def deletes_def)
  ultimately show ?thesis
    by (cases c; cases "ap_mode a") (simp_all add: controls_def, simp_all add: keeps_def deletes_def)
qed

lemma app_user_kept: "ap_user (app_input i a) = ap_user a"
proof (cases i)
  case (Click v ready c)
  show ?thesis
  proof (cases "\<exists>g. c = ClickDelete g")
    case True
    then show ?thesis using Click
      by (auto simp: controls_def verify_controls_def enroll_controls_def request_delete_def split: mode.split)
  next
    case False
    then show ?thesis using keeps_controls [of c undefined a v ready] Click by (simp add: keeps_def)
  qed
qed (use keeps_update keeps_arrive in \<open>auto simp: keeps_def\<close>)

lemma window_user: "ap_user (window user v is) = user"
  by (induction "is" rule: rev_induct) (auto simp: window_Nil window_snoc app_user_kept app_new_def)

subsection \<open>Operations that exclude one another\<close>

text \<open>C30: Verifications, enrolments and steps of the keyring tab exclude one another: at any moment of
  any run at most one of the three is under way, and the page shown is its own.  A verification or an
  enrolment under way has a token nobody has fired, so it can still be cancelled and has not been, and
  without one there is no token; a step of the keyring tab has none and cannot be cancelled.  While a
  verification runs the screen asks for the finger.  The deletion of a finger is not among the three:
  an enrolment never runs while the window waits for the answer of one, a verification may.  Every job
  the window ever started is for the process's own user.\<close>

theorem window_operations_exclude:
  "let a = window user v is in
     length (filter id [ap_events a \<noteq> None, ap_enroll_events a \<noteq> None, tab_busy (ap_keyring a)]) \<le> 1 \<and>
     ap_mode a \<in> {m. (m = MVerify \<or> ap_events a = None) \<and> (m = MEnroll \<or> ap_enroll_events a = None) \<and>
       (m = MKeyring \<or> \<not> tab_busy (ap_keyring a))} \<and>
     (ap_cancel a = None) = (ap_events a = None) \<and> (ap_enroll_cancel a = None) = (ap_enroll_events a = None) \<and>
     set (ap_cancelled a) \<inter> (set_option (ap_cancel a) \<union> set_option (ap_enroll_cancel a)) = {} \<and>
     (ap_events a = None \<or> ap_client a \<and> ap_screen a = ScWaiting) \<and>
     (ap_enroll_events a = None \<or> ap_client a \<and> \<not> ap_delete_pending a) \<and>
     list_all (job_of user) (ap_jobs a)"
proof -
  let ?a = "window user v is"
  have "list_all (job_of user) (ap_jobs ?a)"
    using window_always_ok [of user v "is"] window_user [of user v "is"]
    by (simp add: window_ok_def list_all_iff)
  then show ?thesis using window_always_ok [of user v "is"] by (auto simp: Let_def window_ok_defs)
qed

subsection \<open>Deleting a finger\<close>

fun is_delete_click :: "string \<Rightarrow> input \<Rightarrow> bool" where
  "is_delete_click f (Click _ _ (ClickDelete g)) = (g = f)"
| "is_delete_click f _ = False"

definition delete_debt :: "string \<Rightarrow> app \<Rightarrow> nat" where
  "delete_debt f a = 2 * deletes f a + (if ap_delete_armed a = Some f then 1 else 0)"

lemma request_delete_debt: "delete_debt f (request_delete g a) \<le> delete_debt f a + (if g = f then 1 else 0)"
  by (auto simp: request_delete_def delete_debt_def deletes_def)

lemma delete_debt_step: "delete_debt f (app_input i a) \<le> delete_debt f a + (if is_delete_click f i then 1 else 0)"
proof (cases i)
  case (Click v ready c)
  show ?thesis
  proof (cases "\<exists>g. c = ClickDelete g")
    case True
    then obtain g where g: "c = ClickDelete g" ..
    have "app_input i a = request_delete g a \<or> app_input i a = a" using Click g
      by (auto simp: controls_def verify_controls_def enroll_controls_def split: mode.split)
    then show ?thesis using Click g request_delete_debt [of f g a] by auto
  next
    case False
    then show ?thesis using keeps_controls [of c f a v ready] Click by (simp add: keeps_def delete_debt_def)
  qed
next
  case (Frame v)
  then show ?thesis using keeps_update [of f a v] by (simp add: keeps_def delete_debt_def)
next
  case (Arrive r)
  then show ?thesis using keeps_arrive [of f a r] by (simp add: keeps_def delete_debt_def)
qed

text \<open>C31: A print is deleted only on a confirmed request: over any run, each deletion of a finger the
  window asks for is paid for by two clicks on that finger's own delete button, however clicks on
  other fingers, frames and answers of the daemon are mixed in.\<close>

theorem delete_takes_two_clicks:
  "2 * deletes f (window user v is) \<le> length (filter (is_delete_click f) is)"
proof -
  have "delete_debt f (window user v is) \<le> length (filter (is_delete_click f) is)"
  proof (induction "is" rule: rev_induct)
    case Nil
    then show ?case by (simp add: window_Nil delete_debt_def deletes_def app_new_def)
  next
    case (snoc i "is")
    then show ?case using delete_debt_step [of f i "window user v is"] by (simp add: window_snoc split: if_splits)
  qed
  then show ?thesis by (simp add: delete_debt_def)
qed

subsection \<open>The re-key\<close>

definition provisioned :: "input list \<Rightarrow> string \<Rightarrow> bool" where
  "provisioned is s \<longleftrightarrow> Arrive (ArrJob (RxReady (Ok (JProvisioned s)))) \<in> set is"

definition typed_in :: "input list \<Rightarrow> string \<Rightarrow> bool" where
  "typed_in is w \<longleftrightarrow> (\<exists>v ready. Click v ready (ClickKeyring (KType w)) \<in> set is)"

definition typed_back :: "input list \<Rightarrow> string \<Rightarrow> bool" where
  "typed_back is s \<longleftrightarrow> (\<exists>w. (w = [] \<or> typed_in is w) \<and> trim w = s)"

definition rekey_inv :: "input list \<Rightarrow> keyring_tab \<Rightarrow> bool" where
  "rekey_inv is t \<longleftrightarrow>
     (\<forall>s w. kt_stage t = TSaved s w \<longrightarrow> provisioned is s \<and> (w = [] \<or> typed_in is w)) \<and>
     (\<forall>s p. kt_stage t = TRekey s p \<longrightarrow> provisioned is s \<and> typed_back is s \<and> (p = [] \<or> typed_in is p)) \<and>
     (\<forall>s. kt_job t = Some (RxReady (Ok (JProvisioned s))) \<longrightarrow> provisioned is s) \<and>
     (\<forall>s p. DoRekey s p \<in> set (kt_jobs t) \<longrightarrow>
        provisioned is s \<and> typed_back is s \<and> typed_in is p)"

lemma heard_mono:
  "provisioned is s \<Longrightarrow> provisioned (is @ [i]) s"
  "typed_in is w \<Longrightarrow> typed_in (is @ [i]) w"
  by (auto simp: provisioned_def typed_in_def)

lemma typed_back_mono: "typed_back is s \<Longrightarrow> typed_back (is @ [i]) s"
  using heard_mono(2) unfolding typed_back_def by blast

lemma rekey_inv_mono: "rekey_inv is t \<Longrightarrow> rekey_inv (is @ [i]) t"
  using heard_mono typed_back_mono unfolding rekey_inv_def by meson

lemma rekey_inv_refresh: "rekey_inv is (tab_refresh v t) = rekey_inv is t"
  by (simp add: rekey_inv_def tab_refresh_def)

lemma rekey_inv_poll_job: "rekey_inv is t \<Longrightarrow> rekey_inv is (tab_poll_job v t)"
proof (cases "kt_job t")
  case (Some r)
  assume t: "rekey_inv is t"
  show ?thesis
  proof (cases r)
    case (RxReady x)
    show ?thesis
    proof (cases x)
      case (Inl e)
      then show ?thesis using t Some RxReady by (simp add: tab_poll_job_def tab_refresh_def rekey_inv_def)
    next
      case (Inr j)
      then show ?thesis using t Some RxReady
        by (cases j) (simp_all add: tab_poll_job_def tab_refresh_def rekey_inv_def)
    qed
  qed (use t Some in \<open>simp_all add: tab_poll_job_def rekey_inv_def\<close>)
qed (simp add: tab_poll_job_def)

lemma rekey_inv_poll_rekey: "rekey_inv is t \<Longrightarrow> rekey_inv is (tab_poll_rekey v t)"
proof (cases "kt_rekey t")
  case (Some r)
  assume t: "rekey_inv is t"
  show ?thesis
  proof (cases r)
    case (RxReady x)
    then show ?thesis using t Some
      by (cases x) (simp_all add: tab_poll_rekey_def tab_refresh_def rekey_inv_def)
  qed (use t Some in \<open>simp_all add: tab_poll_rekey_def rekey_inv_def\<close>)
qed (simp add: tab_poll_rekey_def)

lemma typed_in_last: "typed_in (is @ [Click v ready (ClickKeyring (KType w))]) w"
  unfolding typed_in_def by (intro exI [of _ v] exI [of _ ready]) simp

lemma rekey_inv_click:
  assumes "rekey_inv is t"
  shows "rekey_inv (is @ [Click v ready (ClickKeyring c)]) (keyring_controls v ready c t)"
proof -
  have m: "rekey_inv (is @ [Click v ready (ClickKeyring c)]) t" by (rule rekey_inv_mono [OF assms])
  show ?thesis
  proof (cases "kt_stage t")
    case (TSaved s w)
    then show ?thesis using m typed_in_last [of "is" v ready]
      by (cases c) (auto simp: keyring_controls_defs rekey_inv_def typed_back_def)
  next
    case (TRekey s p)
    then show ?thesis using m typed_in_last [of "is" v ready]
      by (cases c) (auto simp: keyring_controls_defs rekey_inv_def start_rekey_def)
  next
    case TIdle
    then show ?thesis using m by (cases c) (auto simp: keyring_controls_defs rekey_inv_def tab_starts)
  next
    case TConfirm
    then show ?thesis using m by (cases c) (auto simp: keyring_controls_defs rekey_inv_def tab_starts)
  next
    case (TShowKey x)
    then show ?thesis using m by (cases c) (auto simp: keyring_controls_defs rekey_inv_def tab_starts)
  next
    case TConfirmRotate
    then show ?thesis using m by (cases c) (auto simp: keyring_controls_defs rekey_inv_def tab_starts)
  next
    case (TRotated x)
    then show ?thesis using m by (cases c) (auto simp: keyring_controls_defs rekey_inv_def)
  next
    case TDone
    then show ?thesis using m by (cases c) (auto simp: keyring_controls_defs rekey_inv_def tab_refresh_def)
  next
    case (TFailed x)
    then show ?thesis using m by (cases c) (auto simp: keyring_controls_defs rekey_inv_def tab_refresh_def)
  next
    case (TWorking x)
    then show ?thesis using m by (simp add: keyring_controls_defs)
  qed
qed

lemma app_poll_keyring: "ap_keyring (app_poll a) = ap_keyring a"
proof -
  have "ap_keyring (poll_enroll b) = ap_keyring b" for b
  proof (cases "ap_enroll_events b")
    case (Some q)
    then show ?thesis by (cases rule: poll_enroll_cases) (auto simp: refresh_fingers_def)
  qed (simp add: poll_enroll_def)
  moreover have "ap_keyring (poll_auth b) = ap_keyring b" for b
  proof (cases "ap_events b")
    case (Some q)
    then show ?thesis by (cases rule: poll_auth_cases) auto
  qed (simp add: poll_auth_def)
  moreover have "ap_keyring (poll_list_pending b) = ap_keyring b" for b
    by (auto simp: poll_list_pending_def set_fingers_def Let_def split: option.split sum.split)
  moreover have "ap_keyring (poll_pending b) = ap_keyring b" for b
    by (auto simp: poll_pending_def set_fingers_def Let_def split: option.split sum.split)
  ultimately show ?thesis by (simp add: app_poll_def)
qed

lemma ops_keyring:
  "ap_keyring (cancel_login a) = ap_keyring a" "ap_keyring (logout a) = ap_keyring a"
  "ap_keyring (cancel_enroll a) = ap_keyring a" "ap_keyring (start_login a) = ap_keyring a"
  "ap_keyring (app_connect a) = ap_keyring a" "ap_keyring (start_enroll a) = ap_keyring a"
  "ap_keyring (request_delete f a) = ap_keyring a"
  unfolding cancel_login_def logout_def cancel_enroll_def fire_fields start_login_def app_connect_def
    start_enroll_def request_delete_def by simp_all

lemma controls_keyring:
  assumes "\<forall>k. c \<noteq> ClickKeyring k"
  shows "ap_keyring (controls v ready c a) = ap_keyring a"
proof -
  have "ap_keyring (verify_controls c a) = ap_keyring a"
    by (cases c) (simp_all add: verify_controls_def verify_button_def ops_keyring split: screen.split)
  moreover have "ap_keyring (enroll_controls c a) = ap_keyring a"
    by (cases c) (simp_all add: enroll_controls_def enroll_button_def ops_keyring)
  ultimately show ?thesis using assms by (cases c; cases "ap_mode a") (simp_all add: controls_def)
qed

lemma rekey_inv_input:
  assumes "rekey_inv is (ap_keyring a)"
  shows "rekey_inv (is @ [i]) (ap_keyring (app_input i a))"
proof (cases i)
  case (Click v ready c)
  show ?thesis
  proof (cases "\<exists>k. c = ClickKeyring k")
    case True
    then obtain k where k: "c = ClickKeyring k" ..
    have "ap_keyring (controls v ready c a) \<in> {ap_keyring a, keyring_controls v ready k (ap_keyring a)}"
      using k by (cases "ap_mode a") (simp_all add: controls_def verify_controls_def enroll_controls_def)
    then show ?thesis using rekey_inv_click [OF assms, of v ready k] rekey_inv_mono [OF assms] Click k by auto
  next
    case False
    then show ?thesis using controls_keyring [of c v ready a] rekey_inv_mono [OF assms] Click by simp
  qed
next
  case (Frame v)
  then show ?thesis using rekey_inv_mono [OF assms]
    by (simp add: app_update_def Let_def app_poll_keyring tab_poll_def rekey_inv_poll_rekey rekey_inv_poll_job)
next
  case (Arrive r)
  have m: "rekey_inv (is @ [i]) (ap_keyring a)" by (rule rekey_inv_mono [OF assms])
  show ?thesis
  proof (cases r)
    case (ArrJob x)
    then show ?thesis using m Arrive by (auto simp: rekey_inv_def provisioned_def)
  next
    case (ArrRekey x)
    then show ?thesis using m Arrive by (auto simp: rekey_inv_def)
  qed (use m Arrive in \<open>auto split: option.split\<close>)
qed

lemma rekey_inv_window: "rekey_inv is (ap_keyring (window user v is))"
  by (induction "is" rule: rev_induct)
    (auto simp: window_Nil window_snoc app_new_def tab_new_def rekey_inv_input, simp add: rekey_inv_def)

text \<open>C29: The keyring is re-keyed only to a secret the person holds: whenever a run of the window
  asks for the change of the keyring's password to a secret, that secret has come back from a finished
  provisioning in this run, and it has been typed back letter for letter (up to blanks at the ends)
  before; the old password given is one that was typed.\<close>

theorem rekey_needs_typed_secret:
  assumes "DoRekey secret password \<in> set (kt_jobs (ap_keyring (window user v is)))"
  shows "Arrive (ArrJob (RxReady (Ok (JProvisioned secret)))) \<in> set is \<and>
    (\<exists>w. trim w = secret \<and> (w = [] \<or> (\<exists>v ready. Click v ready (ClickKeyring (KType w)) \<in> set is))) \<and>
    (\<exists>v ready. Click v ready (ClickKeyring (KType password)) \<in> set is)"
  using rekey_inv_window [of "is" user v] assms
  unfolding rekey_inv_def provisioned_def typed_back_def typed_in_def by blast

definition sample_look :: look where
  "sample_look =
     (\<lparr>rp_tpm = True, rp_module = Some ''/usr/lib/security/pam_elanprint_keyring.so'', rp_cred = CredAbsent,
       rp_fingerprint_wired = False, rp_password_wired = False, rp_keyring_present = True\<rparr>, Err IoNotFound)"

definition sample_setup :: "input list" where
  "sample_setup =
     (let press = Click sample_look (\<lambda>_. Ok ()) in
      [press (ClickMode MKeyring), press (ClickKeyring KSetUp), press (ClickKeyring KContinue),
       Arrive (ArrJob (RxReady (Ok (JProvisioned ''k3y'')))), Frame sample_look,
       press (ClickKeyring (KType ''k3y'')), press (ClickKeyring KSaved),
       press (ClickKeyring (KType ''pw'')), press (ClickKeyring KFinish)])"

lemma sample_setup_rekeys:
  "kt_jobs (ap_keyring (window ''alice'' sample_look sample_setup)) = [DoProvision False, DoRekey ''k3y'' ''pw'']"
  by code_simp

theorem rekey_needs_typed_secret_witness:
  "\<exists>w. trim w = ''k3y'' \<and>
     (w = [] \<or> (\<exists>v ready. Click v ready (ClickKeyring (KType w)) \<in> set sample_setup))"
  using rekey_needs_typed_secret [of "''k3y''" "''pw''" "''alice''" sample_look sample_setup]
  by (simp add: sample_setup_rekeys)

subsection \<open>The window and its verification task\<close>

text \<open>Frames, and what the task has sent.\<close>

fun heard :: "input \<Rightarrow> auth_event list" where
  "heard (Arrive (ArrAuth e)) = [e]"
| "heard _ = []"

fun only_waits :: "input \<Rightarrow> bool" where
  "only_waits (Frame _) = True"
| "only_waits (Arrive (ArrAuth _)) = True"
| "only_waits _ = False"

text \<open>What a message leaves on the screen.\<close>

fun says :: "auth_event \<Rightarrow> screen \<Rightarrow> screen" where
  "says AGranted _ = ScGranted"
| "says (ADenied _) _ = ScDenied"
| "says ALocked _ = ScLocked"
| "says (AEFailed _) _ = ScFailed"
| "says _ sc = sc"

lemma says_idle: "\<not> list_ex auth_terminal evs \<Longrightarrow> fold says evs sc = sc"
proof (induction evs arbitrary: sc)
  case (Cons e evs)
  then show ?case by (cases e) auto
qed simp

lemma fold_on_auth_screen: "ap_screen (fst (fold on_auth_event q (a, b))) = fold says q (ap_screen a)"
proof (induction q arbitrary: a b)
  case (Cons e q)
  then show ?case by (cases e) simp_all
qed simp

lemma poll_auth_screen: "ap_events a = Some q \<Longrightarrow> ap_screen (poll_auth a) = fold says q (ap_screen a)"
  using fold_on_auth_screen [of q "a\<lparr>ap_events := Some []\<rparr>" False]
  by (auto simp: poll_auth_def split: prod.split)

lemma poll_auth_events:
  "ap_events a = Some q \<Longrightarrow> ap_events (poll_auth a) = (if list_ex auth_terminal q then None else Some [])"
  by (cases rule: poll_auth_cases [of a q]) (auto simp: list_ex_iff)

text \<open>What holds while the messages \<open>evs\<close> have come in: as long as the window listens, it asks for the
  finger and has looked at no message that ends the verification; afterwards it shows what the
  messages up to some point say, one of them such a message.\<close>

definition showing :: "auth_event list \<Rightarrow> app \<Rightarrow> bool" where
  "showing evs a \<longleftrightarrow>
     (case ap_events a of
        Some q \<Rightarrow> ap_screen a = ScWaiting \<and> (\<exists>old. evs = old @ q \<and> \<not> list_ex auth_terminal old)
      | None \<Rightarrow> (\<exists>k. list_ex auth_terminal (take k evs) \<and> ap_screen a = fold says (take k evs) ScWaiting))"

lemma showing_frame: "ap_events b = ap_events a \<Longrightarrow> ap_screen b = ap_screen a \<Longrightarrow> showing evs b = showing evs a"
  by (simp only: showing_def)

lemma showing_poll: "showing evs a \<Longrightarrow> showing evs (poll_auth a)"
proof (cases "ap_events a")
  case (Some q)
  assume "showing evs a"
  with Some obtain old where old: "ap_screen a = ScWaiting" "evs = old @ q" "\<not> list_ex auth_terminal old"
    by (auto simp: showing_def)
  note after = poll_auth_events [OF Some] poll_auth_screen [OF Some]
  show ?thesis
  proof (cases "list_ex auth_terminal q")
    case True
    then have "list_ex auth_terminal (take (length evs) evs)"
      "fold says (take (length evs) evs) ScWaiting = fold says q ScWaiting"
      using old(2) says_idle [OF old(3)] by simp_all
    then show ?thesis using after True old(1) by (auto simp: showing_def intro!: exI [of _ "length evs"])
  next
    case False
    then show ?thesis using after old says_idle [OF False] by (simp add: showing_def)
  qed
qed (simp add: poll_auth_def)

lemma showing_step:
  assumes "showing evs a" "only_waits i" "window_ok a" "ap_client a"
  shows "showing (evs @ heard i) (app_input i a)"
proof (cases i)
  case (Frame v)
  let ?b = "poll_list_pending (poll_enroll a)"
  have "ap_pending ?b = None \<and> ap_events ?b = ap_events a \<and> ap_screen ?b = ap_screen a"
  proof -
    have "ap_pending (poll_enroll a) = None \<and> ap_events (poll_enroll a) = ap_events a \<and>
        ap_screen (poll_enroll a) = ap_screen a"
    proof (cases "ap_enroll_events a")
      case (Some q)
      then show ?thesis using assms(3,4)
        by (cases rule: poll_enroll_cases) (auto simp: refresh_fingers_def window_ok_defs)
    qed (use assms(3,4) in \<open>auto simp: poll_enroll_def window_ok_defs\<close>)
    then show ?thesis
      by (auto simp: poll_list_pending_def set_fingers_def Let_def split: option.split sum.split)
  qed
  then have b: "poll_pending ?b = ?b" "showing evs ?b"
    using assms(1) showing_frame [of ?b a] by (simp_all add: poll_pending_def)
  from showing_poll [OF b(2)] show ?thesis
    using Frame b(1) showing_frame [of "app_update v a" "poll_auth ?b"]
    by (simp add: app_update_def Let_def app_poll_def)
next
  case (Arrive r)
  then obtain e where r: "r = ArrAuth e" using assms(2) by (cases r) auto
  show ?thesis
  proof (cases "ap_events a")
    case None
    with assms(1) obtain k where "list_ex auth_terminal (take k evs)"
      "ap_screen a = fold says (take k evs) ScWaiting" by (auto simp: showing_def)
    moreover have "take (min k (length evs)) (evs @ [e]) = take k evs" by (simp add: min_def)
    ultimately have "\<exists>k. list_ex auth_terminal (take k (evs @ [e])) \<and>
        ap_screen a = fold says (take k (evs @ [e])) ScWaiting" by metis
    then show ?thesis using Arrive r None by (simp add: showing_def)
  next
    case (Some q)
    then show ?thesis using Arrive r assms(1) by (auto simp: showing_def)
  qed
qed (use assms(2) in auto)

lemma client_stays:
  assumes "only_waits i" "ap_client a"
  shows "ap_client (app_input i a)"
proof (cases i)
  case (Frame v)
  have 1: "ap_client (poll_enroll a)"
  proof (cases "ap_enroll_events a")
    case (Some q)
    then show ?thesis using assms(2)
      by (cases rule: poll_enroll_cases) (auto simp: refresh_fingers_def)
  qed (use assms(2) in \<open>simp add: poll_enroll_def\<close>)
  have 2: "ap_client b \<Longrightarrow> ap_client (poll_list_pending b)" for b
    by (auto simp: poll_list_pending_def set_fingers_def Let_def split: option.split sum.split)
  have 3: "ap_client b \<Longrightarrow> ap_client (poll_pending b)" for b
    by (auto simp: poll_pending_def set_fingers_def Let_def split: option.split sum.split)
  have 4: "ap_client b \<Longrightarrow> ap_client (poll_auth b)" for b
  proof (cases "ap_events b")
    case (Some q)
    assume "ap_client b"
    from Some this show ?thesis by (cases rule: poll_auth_cases) auto
  qed (simp add: poll_auth_def)
  show ?thesis using Frame 1 2 3 4 by (simp add: app_update_def Let_def app_poll_def)
next
  case (Arrive r)
  then show ?thesis using assms by (cases r) (auto split: option.split)
qed (use assms in auto)

lemma showing_run:
  assumes "window_ok a" "ap_client a" "showing [] a" "list_all only_waits is"
  shows "window_ok (fold app_input is a) \<and> showing (concat (map heard is)) (fold app_input is a)"
proof -
  have "window_ok (fold app_input is a) \<and> ap_client (fold app_input is a) \<and>
      showing (concat (map heard is)) (fold app_input is a)"
    using assms(4)
  proof (induction "is" rule: rev_induct)
    case Nil
    then show ?case using assms by simp
  next
    case (snoc i "is")
    then show ?case using app_input_ok client_stays showing_step by simp
  qed
  then show ?thesis by blast
qed

text \<open>After a frame nothing that has come in is still in the queue.\<close>

lemma frame_drains: "ap_events (app_update v a) = None \<or> ap_events (app_update v a) = Some []"
proof -
  have "ap_events (poll_auth b) = None \<or> ap_events (poll_auth b) = Some []" for b
    using poll_auth_events [of b] by (cases "ap_events b") (auto simp: poll_auth_def)
  then show ?thesis by (simp add: app_update_def Let_def app_poll_def)
qed

subsection \<open>The answer of the daemon\<close>

text \<open>What the signals of a verification say, read in order: the first that is not a hint decides.  The
  window may stop listening, a signal may be broken, or the signals may end before.\<close>

fun verdict :: "verify_signal list \<Rightarrow> screen option" where
  "verdict [] = None"
| "verdict (VsCancel # _) = None"
| "verdict (VsBad _ # _) = None"
| "verdict (VsSelectedEnd # rest) = verdict rest"
| "verdict (VsFinger _ # rest) = verdict rest"
| "verdict (VsStatus r fin # rest) =
     (if r = verify_MATCH then Some (if fin then ScGranted else ScFailed)
      else if r = verify_NO_MATCH then Some ScDenied
      else if status_is_retry r then verdict rest
      else Some ScFailed)"

definition verify_started :: "bus \<Rightarrow> string \<Rightarrow> string \<Rightarrow> bus_call list \<Rightarrow> bool" where
  "verify_started bus user finger l \<longleftrightarrow>
     (let n = length l in
      is_ok (bus n CallProxy) \<and> is_ok (bus (n + 1) (CallClaim user)) \<and>
      is_ok (bus (n + 2) (Subscribe ''VerifyStatus'')) \<and>
      is_ok (bus (n + 3) (Subscribe ''VerifyFingerSelected'')) \<and>
      is_ok (bus (n + 4) (CallVerifyStart finger)))"

definition daemon_answer :: "bus \<Rightarrow> string \<Rightarrow> string \<Rightarrow> verify_signal list \<Rightarrow> bus_call list \<Rightarrow> screen option" where
  "daemon_answer bus user finger signals l =
     (if verify_started bus user finger l then verdict signals else Some ScFailed)"

lemma drive_verdict:
  assumes "drive s signals = (res, evs)" "s_policy s = pam_default" "s_state s = Waiting 0"
  shows "case verdict signals of
      Some sc \<Rightarrow> res = Ok () \<and> (\<exists>pre e. evs = pre @ [e] \<and> \<not> list_ex auth_terminal pre \<and> auth_terminal e \<and>
        (\<forall>sc'. says e sc' = sc))
    | None \<Rightarrow> \<not> list_ex auth_terminal evs"
  using assms
proof (induction s signals arbitrary: res evs rule: drive.induct)
  case (5 s finger rest)
  obtain res1 evs1 where d: "drive (snd (session_step s (FingerSelected finger))) rest = (res1, evs1)" by fastforce
  then have e: "res = res1" "evs = AFinger finger # evs1" using "5.prems"(1) by simp_all
  have "s_policy (snd (session_step s (FingerSelected finger))) = pam_default"
    "s_state (snd (session_step s (FingerSelected finger))) = Waiting 0" using "5.prems"(2,3) by simp_all
  from "5.IH" [OF d this] show ?case using e
    by (cases "verdict rest") (auto intro: exI [of _ "AFinger finger # _"])
next
  case (6 s r fin rest)
  obtain a s1 where st: "session_step s (Status r fin) = (a, s1)" by fastforce
  obtain evs0 stop where an: "answer_events a = (evs0, stop)" by fastforce
  show ?case
  proof (cases "r \<noteq> verify_MATCH \<and> r \<noteq> verify_NO_MATCH \<and> status_is_retry r")
    case True
    then have a: "a = Ok (Prompt (hint r))" "s1 = s" using st "6.prems"(3) by (auto simp: step_status_def)
    then have go: "\<not> stop" "\<exists>ev. evs0 = [ev] \<and> \<not> auth_terminal ev" using an by (auto split: if_splits)
    then obtain ev where ev: "evs0 = [ev]" "\<not> auth_terminal ev" by blast
    obtain res1 evs1 where d: "drive s1 rest = (res1, evs1)" by fastforce
    then have e: "res = res1" "evs = ev # evs1" using "6.prems"(1) st an go(1) ev(1) by simp_all
    from "6.IH" [OF st [symmetric] an [symmetric]] go(1) d a(2) "6.prems"(2,3)
    have "case verdict rest of
        Some sc \<Rightarrow> res1 = Ok () \<and> (\<exists>pre e. evs1 = pre @ [e] \<and> \<not> list_ex auth_terminal pre \<and> auth_terminal e \<and>
          (\<forall>sc'. says e sc' = sc))
      | None \<Rightarrow> \<not> list_ex auth_terminal evs1" by blast
    then show ?thesis using True e ev(2)
      by (cases "verdict rest") (auto intro: exI [of _ "ev # _"])
  next
    case False
    have "stop \<and> (\<exists>ev. evs0 = [ev] \<and> auth_terminal ev \<and>
        (\<forall>sc'. says ev sc' = (if r = verify_MATCH then if fin then ScGranted else ScFailed
          else if r = verify_NO_MATCH then ScDenied else ScFailed)))"
      using False st an "6.prems"(2,3)
      by (auto simp: step_status_def Let_def allows_def pam_default_def policy_new_def split: if_splits)
    then show ?thesis using False "6.prems"(1) st an by auto
  qed
qed auto

lemma verify_not_started:
  assumes "\<not> verify_started bus user finger l"
  shows "\<exists>t. fst (verify_task bus user finger signals l) = [APrompt ''touch the sensor'', AEFailed t]"
proof -
  let ?n = "length l"
  note defs = verify_task_def client_verify_def session_begin_def c_bind_def c_call_def c_ignore_def
    verify_started_def Let_def numeral_eq_Suc
  show ?thesis using assms
    by (cases "bus ?n CallProxy"; cases "bus (Suc ?n) (CallClaim user)";
        cases "bus (Suc (Suc ?n)) (Subscribe ''VerifyStatus'')";
        cases "bus (Suc (Suc (Suc ?n))) (Subscribe ''VerifyFingerSelected'')";
        cases "bus (Suc (Suc (Suc (Suc ?n)))) (CallVerifyStart finger)") (auto simp: defs)
qed

lemma verify_started_runs:
  assumes "verify_started bus user finger l" "drive (snd (session_begin (session_new user))) signals = (res, evs)"
  shows "fst (verify_task bus user finger signals l) = APrompt ''touch the sensor'' # evs @ AFinished #
    (case res of Ok _ \<Rightarrow> [] | Err e \<Rightarrow> [AEFailed (friendly e)])"
  using assms
  by (auto simp: verify_task_def client_verify_def session_begin_def c_bind_def c_call_def c_ignore_def
      verify_started_def Let_def numeral_eq_Suc is_ok_iff split: sum.split)

lemma verify_told_shape:
  "case daemon_answer bus user finger signals l of
     Some sc \<Rightarrow> (\<exists>pre e post. fst (verify_task bus user finger signals l) = pre @ e # post \<and>
       \<not> list_ex auth_terminal pre \<and> auth_terminal e \<and> (\<forall>sc'. says e sc' = sc) \<and> set post \<subseteq> {AFinished})
   | None \<Rightarrow> (\<exists>pre post. fst (verify_task bus user finger signals l) = pre @ AFinished # post \<and>
       \<not> list_ex auth_terminal pre \<and> (post = [] \<or> (\<exists>t. post = [AEFailed t])))"
proof (cases "verify_started bus user finger l")
  case False
  from verify_not_started [OF this] obtain t where
    "fst (verify_task bus user finger signals l) = [APrompt ''touch the sensor''] @ AEFailed t # []"
    "\<not> list_ex auth_terminal [APrompt ''touch the sensor'']" "auth_terminal (AEFailed t)"
    "\<forall>sc'. says (AEFailed t) sc' = ScFailed" "set [] \<subseteq> {AFinished}"
    by auto
  moreover have "daemon_answer bus user finger signals l = Some ScFailed" using False by (simp add: daemon_answer_def)
  ultimately show ?thesis by (simp only: option.case) blast
next
  case True
  obtain res evs where r: "drive (snd (session_begin (session_new user))) signals = (res, evs)" by fastforce
  note told = verify_started_runs [OF True r]
  note d = drive_verdict [OF r session_new_waiting]
  let ?p = "APrompt ''touch the sensor''"
  show ?thesis
  proof (cases "verdict signals")
    case None
    then have quiet: "\<not> list_ex auth_terminal (?p # evs)" using d by simp
    define post where "post = (case res of Ok _ \<Rightarrow> [] | Err e \<Rightarrow> [AEFailed (friendly e)])"
    have "post = [] \<or> (\<exists>t. post = [AEFailed t])" by (cases res) (simp_all add: post_def)
    moreover have "fst (verify_task bus user finger signals l) = (?p # evs) @ AFinished # post"
      using told by (simp add: post_def)
    moreover have "daemon_answer bus user finger signals l = None" using True None by (simp add: daemon_answer_def)
    ultimately show ?thesis using quiet by (simp only: option.case) blast
  next
    case (Some sc)
    then obtain pre e where e: "res = Ok ()" "evs = pre @ [e]" "\<not> list_ex auth_terminal pre" "auth_terminal e"
      "\<forall>sc'. says e sc' = sc" using d by auto
    then have "fst (verify_task bus user finger signals l) = (?p # pre) @ e # [AFinished]"
      "\<not> list_ex auth_terminal (?p # pre)" using told by simp_all
    moreover have "daemon_answer bus user finger signals l = Some sc" using True Some by (simp add: daemon_answer_def)
    moreover have "set [AFinished] \<subseteq> {AFinished}" by simp
    ultimately show ?thesis using e(4,5) by (simp only: option.case) blast
  qed
qed

text \<open>Any part of the messages that holds the end of the verification gives the same screen.\<close>

lemma answer_on_screen:
  assumes "fst (verify_task bus user finger signals l) = evs @ later" "list_ex auth_terminal evs"
  shows "case daemon_answer bus user finger signals l of
      Some sc \<Rightarrow> fold says evs ScWaiting = sc
    | None \<Rightarrow> fold says evs ScWaiting \<in> {ScWaiting, ScFailed}"
proof -
  have cut: "\<exists>part. evs = pre @ e # part \<and> post = part @ later"
    if "pre @ e # post = evs @ later" "\<not> list_ex auth_terminal pre" for pre post e
    using that assms(2) by (auto simp: append_eq_append_conv2 Cons_eq_append_conv)
  show ?thesis
  proof (cases "daemon_answer bus user finger signals l")
    case (Some sc)
    with verify_told_shape [of bus user finger signals l] assms(1) obtain pre e post where
      m: "pre @ e # post = evs @ later" "\<not> list_ex auth_terminal pre" "\<forall>sc'. says e sc' = sc"
        "set post \<subseteq> {AFinished}" by auto
    obtain part where part: "evs = pre @ e # part" "post = part @ later" using cut [OF m(1,2)] by blast
    have "set part \<subseteq> {AFinished}" using m(4) part(2) by auto
    then have "fold says part sc = sc" by (induction part) auto
    then show ?thesis using part(1) m(3) says_idle [OF m(2)] Some by simp
  next
    case None
    with verify_told_shape [of bus user finger signals l] assms(1) obtain pre post where
      m: "pre @ AFinished # post = evs @ later" "\<not> list_ex auth_terminal pre"
        "post = [] \<or> (\<exists>t. post = [AEFailed t])" by auto
    obtain part where part: "evs = pre @ AFinished # part" "post = part @ later" using cut [OF m(1,2)] by blast
    have "part = [] \<or> (\<exists>t. part = [AEFailed t])" using m(3) part(2) by (cases part) auto
    then show ?thesis using part(1) says_idle [OF m(2)] None by auto
  qed
qed

lemma verify_task_outcome:
  "(\<exists>e \<in> set (fst (verify_task bus user finger signals l)). auth_terminal e) \<and>
   (AGranted \<in> set (fst (verify_task bus user finger signals l)) \<longrightarrow> VsStatus verify_MATCH True \<in> set signals)"
proof (cases rule: client_verify_cases [of bus user finger signals l])
  case (ran res evs)
  show ?thesis using ran(2) drive_granted [OF ran(1)] by (cases res) (auto simp: verify_task_def)
qed (simp_all add: verify_task_def)

text \<open>C15: The window says what the daemon said.  The person has pressed Verify; some of the messages of
  the task it spawned have come in, in order, mixed with any number of frames; a frame is drawn.  As
  long as no message that ends the verification is among them, the verification is under way, with its
  token, and the screen asks for the finger.  Once one is, and all the messages of a task hold one, the
  operation is over, nothing is left to cancel, and the screen is the answer of the daemon's signals:
  Verified if the first that is no hint is the final verify-match, not recognised if it is verify-no-match,
  failed if it is anything else or the verification could not be started.  If the signals end, or one is
  broken, before there is an answer, the screen still asks for the finger or says failed: never
  Verified, and never not recognised.\<close>

theorem window_shows_answer:
  assumes "ap_mode (window user w pre) = MVerify"
    and "ap_screen (window user w pre) \<in> {ScReady, ScDenied, ScLocked, ScFailed}"
    and "list_all only_waits is"
    and "fst (verify_task bus user (ap_finger (window user w pre)) signals l) = concat (map heard is) @ later"
  shows "let b = window user w (pre @ [Click u ready ClickMain] @ is @ [Frame v]) in
    (if list_ex auth_terminal (concat (map heard is)) then
       ap_events b = None \<and> ap_cancel b = None \<and>
       (case daemon_answer bus user (ap_finger (window user w pre)) signals l of
          Some sc \<Rightarrow> ap_screen b = sc | None \<Rightarrow> ap_screen b \<in> {ScWaiting, ScFailed})
     else later \<noteq> [] \<and> ap_events b \<noteq> None \<and> ap_cancel b \<noteq> None \<and> ap_screen b = ScWaiting)"
proof -
  let ?a = "window user w pre"
  let ?s = "start_login ?a" and ?is = "is @ [Frame v]" and ?evs = "concat (map heard is)"
  let ?b = "fold app_input ?is ?s"
  have a: "window_ok ?a" "ap_client ?a" "ap_events ?a = None"
    using window_always_ok [of user w pre] assms(2) by (auto simp: window_ok_defs)
  have press: "app_input (Click u ready ClickMain) ?a = ?s"
    using assms(1,2) by (auto simp: controls_def verify_controls_def verify_button_def)
  have s: "window_ok ?s" "ap_client ?s" "showing [] ?s"
    using start_login_ok [OF a(1) assms(1)] a by (simp_all add: start_login_def showing_def)
  from showing_run [OF s, of ?is] assms(3) have ok: "window_ok ?b" "showing ?evs ?b" by auto
  have run: "window user w (pre @ [Click u ready ClickMain] @ is @ [Frame v]) = ?b"
    using press by (simp add: window_def)
  have cancel: "(ap_cancel ?b = None) = (ap_events ?b = None)"
    using ok(1) unfolding window_ok_def verify_ok_def by blast
  have drained: "ap_events ?b = None \<or> ap_events ?b = Some []" using frame_drains by simp
  show ?thesis
  proof (cases "list_ex auth_terminal ?evs")
    case True
    then have none: "ap_events ?b = None" using drained ok(2) by (auto simp: showing_def)
    then obtain k where k: "list_ex auth_terminal (take k ?evs)" "ap_screen ?b = fold says (take k ?evs) ScWaiting"
      using ok(2) by (auto simp: showing_def)
    have "fst (verify_task bus user (ap_finger ?a) signals l) = take k ?evs @ drop k ?evs @ later"
      using assms(4) by simp
    from answer_on_screen [OF this k(1)] have "case daemon_answer bus user (ap_finger ?a) signals l of
        Some sc \<Rightarrow> ap_screen ?b = sc | None \<Rightarrow> ap_screen ?b \<in> {ScWaiting, ScFailed}" unfolding k(2) .
    with True none cancel show ?thesis unfolding run Let_def by (simp only: if_True simp_thms)
  next
    case False
    have "\<not> list_ex auth_terminal (take k ?evs)" for k
      using False in_set_takeD by (fastforce simp: list_ex_iff)
    then have "ap_events ?b \<noteq> None" "ap_screen ?b = ScWaiting"
      using ok(2) by (auto simp: showing_def split: option.splits)
    moreover have "later \<noteq> []"
      using False assms(4) verify_told_shape [of bus user "ap_finger ?a" signals l] by (auto split: option.splits)
    ultimately show ?thesis unfolding run Let_def using False cancel by (simp only: if_False simp_thms)
  qed
qed

text \<open>A window that has connected and shows the verify page.\<close>

definition sample_connect :: "input list" where
  "sample_connect =
     (let press = Click sample_look (\<lambda>_. Ok ()) in
      [press ClickMain, Arrive (ArrConnect (Ok ([''any'', ''left-thumb''], 9))), Frame sample_look,
       press (ClickMode MVerify)])"

definition sample_bus :: bus where
  "sample_bus = (\<lambda>_ _. Ok RUnit)"

theorem window_shows_answer_witness:
  "ap_screen (window ''alice'' sample_look (sample_connect @ [Click sample_look (\<lambda>_. Ok ()) ClickMain] @
     [Arrive (ArrAuth (APrompt ''touch the sensor'')), Frame sample_look, Arrive (ArrAuth AGranted)] @
     [Frame sample_look])) = ScGranted"
proof -
  have 1: "ap_mode (window ''alice'' sample_look sample_connect) = MVerify"
    "ap_screen (window ''alice'' sample_look sample_connect) \<in> {ScReady, ScDenied, ScLocked, ScFailed}"
    by code_simp+
  have 2: "fst (verify_task sample_bus ''alice'' (ap_finger (window ''alice'' sample_look sample_connect))
       [VsStatus verify_MATCH True] []) =
     concat (map heard [Arrive (ArrAuth (APrompt ''touch the sensor'')), Frame sample_look,
       Arrive (ArrAuth AGranted)]) @ [AFinished]"
    by code_simp
  have 3: "daemon_answer sample_bus ''alice'' (ap_finger (window ''alice'' sample_look sample_connect))
      [VsStatus verify_MATCH True] [] = Some ScGranted" by code_simp
  show ?thesis using window_shows_answer [OF 1 _ 2, of sample_look "\<lambda>_. Ok ()" sample_look] 3
    by (simp add: Let_def)
qed

theorem window_operations_exclude_witness:
  "list_all (job_of ''alice'') (ap_jobs (window ''alice'' sample_look sample_connect))"
  using window_operations_exclude [of "''alice''" sample_look sample_connect] by (simp only: Let_def simp_thms)

text \<open>A verification beside a deletion that has not been answered.\<close>

theorem deletion_beside_verification:
  "let press = Click sample_look (\<lambda>_. Ok ());
       a = window ''alice'' sample_look (sample_connect @
         [press (ClickMode MEnroll), press (ClickDelete ''left-thumb''), press (ClickDelete ''left-thumb''),
          press (ClickMode MVerify), press ClickMain]) in
   ap_delete_pending a \<and> ap_events a \<noteq> None \<and> deletes ''left-thumb'' a = 1"
  by code_simp

text \<open>The operation can be over with the screen still asking for the finger: the daemon goes away, the
  stream of its signals ends, and the one message left is Finished.\<close>

theorem finished_keeps_asking:
  "let evs = fst (verify_task sample_bus ''alice'' ''any'' [] []);
       b = window ''alice'' sample_look
         (sample_connect @ [Click sample_look (\<lambda>_. Ok ()) ClickMain] @
          map (\<lambda>e. Arrive (ArrAuth e)) evs @ [Frame sample_look]) in
   ap_events b = None \<and> ap_screen b = ScWaiting \<and> stage_line b = ''touch the sensor''"
  by code_simp

subsection \<open>Replacing the key\<close>

text \<open>Replacing the key from the window and from the command line are the same operation: run as the
  person's own user, against any desktop and from any state, both make the same calls, leave the same
  files and the same keyring password, and succeed or fail together.  Only what they print differs.\<close>

theorem window_rotation_is_command:
  assumes "\<not> is_root (dk_user_status k)"
  shows "(snd (rotate_job k s))\<lparr>us_out := []\<rparr> = (snd (cmd_rotate k s))\<lparr>us_out := []\<rparr> \<and>
    is_ok (fst (rotate_job k s)) = is_ok (fst (cmd_rotate k s))"
  using assms
  by (auto simp: rotate_job_def cmd_rotate_def u_bind_def say_def print_str_def split: prod.split sum.split)

theorem window_rotation_is_command_witness:
  "is_ok (fst (rotate_job (sample_desk second_refused (\<lambda>_ _. Err ''locked'') (\<lambda>_. Err IoNotFound)) (sample_user sample_sealed ''cafe''))) =
   is_ok (fst (cmd_rotate (sample_desk second_refused (\<lambda>_ _. Err ''locked'') (\<lambda>_. Err IoNotFound)) (sample_user sample_sealed ''cafe'')))"
  using window_rotation_is_command [OF sample_desk_root(2)] by blast

end
