(* ===== verification/EndToEnd.thy ===== *)
theory EndToEnd
  imports WorkerState LoginRun "HOL-Library.Sublist"
begin

text \<open>
  From the chip to the window: the daemon's relays turn the events of an operation into signals
  (\<open>elanprintd/src/main.rs\<close>), the bus carries them, the client turns them into events for the window.
  What the window finally says about a verification or an enrolment is then a fact about the chip,
  the store and the user.
\<close>

subsection \<open>The relays\<close>

datatype bus_signal =
    SigVerifyStatus string bool
  | SigVerifyFinger string
  | SigEnrollStatus string bool

text \<open>The bodies of the two loops over the channel of an operation.\<close>

fun relay_verify :: "op_event \<Rightarrow> bus_signal list" where
  "relay_verify (VerifyStatus r fin) = [SigVerifyStatus r fin]"
| "relay_verify (VerifyFingerSelected finger) = [SigVerifyFinger finger]"
| "relay_verify (EnrollStatus _ _) = []"

fun relay_enroll :: "op_event \<Rightarrow> bus_signal list" where
  "relay_enroll (EnrollStatus r fin) = [SigEnrollStatus r fin]"
| "relay_enroll (VerifyStatus _ _) = []"
| "relay_enroll (VerifyFingerSelected _) = []"

definition relayed :: "(op_event \<Rightarrow> bus_signal list) \<Rightarrow> op_sink \<Rightarrow> bus_signal list" where
  "relayed relay sk = concat (map relay (sk_events sk))"

subsection \<open>The bus\<close>

text \<open>
  A signal stream gets the signals of its name in the order they were sent.  The client looks at its
  streams in any interleaving, for as long as it looks: what it has seen of a stream is a prefix.
\<close>

fun status_seen :: "verify_signal \<Rightarrow> (string \<times> bool) list" where
  "status_seen (VsStatus r fin) = [(r, fin)]"
| "status_seen _ = []"

fun finger_seen :: "verify_signal \<Rightarrow> string list" where
  "finger_seen (VsFinger finger) = [finger]"
| "finger_seen _ = []"

fun enroll_seen :: "enroll_signal \<Rightarrow> (string \<times> bool) list" where
  "enroll_seen (EsStatus r fin) = [(r, fin)]"
| "enroll_seen _ = []"

fun status_sent :: "bus_signal \<Rightarrow> (string \<times> bool) list" where
  "status_sent (SigVerifyStatus r fin) = [(r, fin)]"
| "status_sent _ = []"

fun finger_sent :: "bus_signal \<Rightarrow> string list" where
  "finger_sent (SigVerifyFinger finger) = [finger]"
| "finger_sent _ = []"

fun enroll_sent :: "bus_signal \<Rightarrow> (string \<times> bool) list" where
  "enroll_sent (SigEnrollStatus r fin) = [(r, fin)]"
| "enroll_sent _ = []"

definition verify_delivered :: "bus_signal list \<Rightarrow> verify_signal list \<Rightarrow> bool" where
  "verify_delivered sent seen \<longleftrightarrow>
     prefix (concat (map status_seen seen)) (concat (map status_sent sent)) \<and>
     prefix (concat (map finger_seen seen)) (concat (map finger_sent sent))"

definition enroll_delivered :: "bus_signal list \<Rightarrow> enroll_signal list \<Rightarrow> bool" where
  "enroll_delivered sent seen \<longleftrightarrow>
     prefix (concat (map enroll_seen seen)) (concat (map enroll_sent sent))"

lemma seen_statuses: "VsStatus r fin \<in> set seen \<Longrightarrow> (r, fin) \<in> set (concat (map status_seen seen))"
  by force

lemma sent_statuses: "(r, fin) \<in> set (concat (map status_sent sent)) \<Longrightarrow> SigVerifyStatus r fin \<in> set sent"
proof -
  assume "(r, fin) \<in> set (concat (map status_sent sent))"
  then obtain e where "e \<in> set sent" "(r, fin) \<in> set (status_sent e)" by auto
  then show ?thesis by (cases e rule: bus_signal.exhaust) auto
qed

lemma sent_enrolls: "(r, fin) \<in> set (concat (map enroll_sent sent)) \<Longrightarrow> SigEnrollStatus r fin \<in> set sent"
proof -
  assume "(r, fin) \<in> set (concat (map enroll_sent sent))"
  then obtain e where "e \<in> set sent" "(r, fin) \<in> set (enroll_sent e)" by auto
  then show ?thesis by (cases e rule: bus_signal.exhaust) auto
qed

lemma relayed_verify: "SigVerifyStatus r fin \<in> set (relayed relay_verify sk) \<Longrightarrow> VerifyStatus r fin \<in> set (sk_events sk)"
proof -
  assume "SigVerifyStatus r fin \<in> set (relayed relay_verify sk)"
  then obtain e where "e \<in> set (sk_events sk)" "SigVerifyStatus r fin \<in> set (relay_verify e)"
    by (auto simp: relayed_def)
  then show ?thesis by (cases e rule: op_event.exhaust) auto
qed

lemma relayed_enroll: "SigEnrollStatus r fin \<in> set (relayed relay_enroll sk) \<Longrightarrow> EnrollStatus r fin \<in> set (sk_events sk)"
proof -
  assume "SigEnrollStatus r fin \<in> set (relayed relay_enroll sk)"
  then obtain e where "e \<in> set (sk_events sk)" "SigEnrollStatus r fin \<in> set (relay_enroll e)"
    by (auto simp: relayed_def)
  then show ?thesis by (cases e rule: op_event.exhaust) auto
qed

lemma delivered_status:
  assumes "verify_delivered (relayed relay_verify sk) seen" "VsStatus r fin \<in> set seen"
  shows "VerifyStatus r fin \<in> set (sk_events sk)"
  using assms seen_statuses set_mono_prefix sent_statuses relayed_verify
  unfolding verify_delivered_def by blast

lemma delivered_enroll:
  assumes "enroll_delivered (relayed relay_enroll sk) seen" "EsStatus r fin \<in> set seen"
  shows "EnrollStatus r fin \<in> set (sk_events sk)"
proof -
  have "(r, fin) \<in> set (concat (map enroll_seen seen))" using assms(2) by force
  then show ?thesis
    using assms(1) set_mono_prefix sent_enrolls relayed_enroll unfolding enroll_delivered_def by blast
qed

subsection \<open>What a completed enrolment says\<close>

lemma enroll_terminal_not_completed: "enroll_terminal e \<noteq> enroll_COMPLETED"
proof -
  have "enroll_failure x \<noteq> enroll_COMPLETED" for x by (cases x) auto
  then show ?thesis by (auto simp: enroll_terminal_def split: worker_error.split usb_error.split)
qed

lemma completed_means_ok:
  assumes "EnrollStatus enroll_COMPLETED True \<in>
    set (sk_events (wk_sink (snd (worker_enroll env finger (sink_new OpEnroll) cancel w))))"
  shows "is_ok (fst (worker_enroll env finger (sink_new OpEnroll) cancel w))"
proof (rule ccontr)
  assume bad: "\<not> ?thesis"
  let ?w = "w\<lparr>wk_sink := sink_new OpEnroll\<rparr>"
  obtain r w1 where i: "enroll_inner env finger cancel ?w = (r, w1)" by fastforce
  with bad obtain e where r: "r = Err e"
    by (cases r) (auto simp: worker_enroll_def finish_op_def Let_def)
  have opened: "sink_open (wk_sink w1)"
    using enroll_op.reports [of ?w env finger cancel] i r by (simp add: reported_def)
  have "sk_events (wk_sink (snd (worker_enroll env finger (sink_new OpEnroll) cancel w))) =
      sk_events (sink_close (Err e) (wk_sink w1))"
    using i r by (simp add: worker_enroll_def finish_op_def Let_def set_armed_def frame_simps)
  then show False
    using assms opened enroll_terminal_not_completed [of e]
    by (auto simp: sink_close_def sink_open_def sink_emit_def Let_def split: op_kind.splits if_splits)
qed

subsection \<open>What the window was told\<close>

fun heard_enroll :: "input \<Rightarrow> enroll_event list" where
  "heard_enroll (Arrive (ArrEnroll e)) = [e]"
| "heard_enroll _ = []"

text \<open>Nothing is queued that did not arrive, and the two good ends are shown only when they did.\<close>

definition truthful :: "auth_event set \<Rightarrow> enroll_event set \<Rightarrow> app \<Rightarrow> bool" where
  "truthful A E a \<longleftrightarrow>
     (case ap_events a of Some q \<Rightarrow> set q \<subseteq> A | None \<Rightarrow> True) \<and>
     (case ap_enroll_events a of Some q \<Rightarrow> set q \<subseteq> E | None \<Rightarrow> True) \<and>
     (ap_screen a = ScGranted \<longrightarrow> AGranted \<in> A) \<and> (ap_enroll_tone a = ETDone \<longrightarrow> ECompleted \<in> E)"

lemma truthful_mono: "truthful A E a \<Longrightarrow> A \<subseteq> A' \<Longrightarrow> E \<subseteq> E' \<Longrightarrow> truthful A' E' a"
  by (fastforce simp: truthful_def split: option.splits)

lemma enroll_fold_tone:
  "ap_enroll_tone (fst (fold on_enroll_event q (a, b, c))) = ETDone \<Longrightarrow>
   ap_enroll_tone a = ETDone \<or> ECompleted \<in> set q"
proof (induction q arbitrary: a b c)
  case (Cons e q)
  obtain a1 b1 c1 where e: "on_enroll_event e (a, b, c) = (a1, b1, c1)" by (metis prod.exhaust)
  have "ap_enroll_tone a1 = ETDone \<Longrightarrow> ap_enroll_tone a = ETDone \<or> e = ECompleted"
    using e by (cases e) (auto simp: Let_def)
  then show ?case using Cons e by auto
qed simp

lemma poll_enroll_tone:
  "ap_enroll_tone (poll_enroll a) = ETDone \<Longrightarrow>
   ap_enroll_tone a = ETDone \<or> (\<exists>q. ap_enroll_events a = Some q \<and> ECompleted \<in> set q)"
proof (cases "ap_enroll_events a")
  case (Some q)
  assume d: "ap_enroll_tone (poll_enroll a) = ETDone"
  obtain a1 b1 c1 where f: "fold on_enroll_event q (a\<lparr>ap_enroll_events := Some []\<rparr>, False, False) = (a1, b1, c1)"
    by (metis prod.exhaust)
  then have "ap_enroll_tone a1 = ETDone"
    using d Some by (auto simp: poll_enroll_def refresh_fingers_def Let_def split: if_splits)
  then show ?thesis using Some f enroll_fold_tone [of q "a\<lparr>ap_enroll_events := Some []\<rparr>" False False] by auto
qed (simp add: poll_enroll_def)

lemma poll_enroll_frame:
  "ap_events (poll_enroll a) = ap_events a" "ap_screen (poll_enroll a) = ap_screen a"
  "ap_enroll_events (poll_enroll a) \<in> {None, Some []}"
proof -
  have "ap_events (poll_enroll a) = ap_events a \<and> ap_screen (poll_enroll a) = ap_screen a \<and>
      ap_enroll_events (poll_enroll a) \<in> {None, Some []}"
  proof (cases "ap_enroll_events a")
    case (Some q)
    then show ?thesis by (cases rule: poll_enroll_cases) (auto simp: refresh_fingers_def)
  qed (simp add: poll_enroll_def)
  then show "ap_events (poll_enroll a) = ap_events a" "ap_screen (poll_enroll a) = ap_screen a"
    "ap_enroll_events (poll_enroll a) \<in> {None, Some []}" by auto
qed

lemma truthful_frame: "truthful A E a \<Longrightarrow> truthful A E (app_update v a)"
proof -
  assume t: "truthful A E a"
  have 1: "truthful A E (poll_enroll a)"
    using t poll_enroll_frame [of a] poll_enroll_tone [of a]
    by (auto simp: truthful_def split: option.splits)
  have 2: "truthful A E b \<Longrightarrow> truthful A E (poll_list_pending b)" for b
    by (auto simp: truthful_def poll_list_pending_def set_fingers_def Let_def split: option.split sum.split)
  have 3: "truthful A E b \<Longrightarrow> truthful A E (poll_pending b)" for b
    by (auto simp: truthful_def poll_pending_def set_fingers_def Let_def split: option.split sum.split)
  have 4: "truthful A E b \<Longrightarrow> truthful A E (poll_auth b)" for b
  proof (cases "ap_events b")
    case (Some q)
    assume b: "truthful A E b"
    from Some show ?thesis
    proof (cases rule: poll_auth_cases)
      case (on s sc)
      then show ?thesis using b Some by (auto simp: truthful_def)
    next
      case (over s sc)
      then show ?thesis using b Some by (auto simp: truthful_def)
    qed
  qed (simp add: poll_auth_def)
  show ?thesis using 4 [OF 3 [OF 2 [OF 1]]] by (simp add: app_update_def Let_def app_poll_def truthful_def)
qed

lemma truthful_click: "truthful A E a \<Longrightarrow> truthful A E (controls v ready c a)"
proof -
  assume t: "truthful A E a"
  note ops = start_login_def cancel_login_def logout_def start_enroll_def cancel_enroll_def request_delete_def
    app_connect_def fire_fields
  have "truthful A E (verify_controls c a)"
    using t by (cases c; cases "ap_screen a") (auto simp: truthful_def verify_controls_def verify_button_def ops)
  moreover have "truthful A E (enroll_controls c a)"
    using t by (cases c) (auto simp: truthful_def enroll_controls_def enroll_button_def ops Let_def)
  moreover have "truthful A E (a\<lparr>ap_keyring := k\<rparr>)" "truthful A E (a\<lparr>ap_mode := m\<rparr>)" for k m
    using t by (simp_all add: truthful_def)
  ultimately show ?thesis using t by (auto simp: controls_def split: click.split mode.split)
qed

lemma truthful_window:
  "truthful (set (concat (map heard is))) (set (concat (map heard_enroll is))) (window user v is)"
proof (induction "is" rule: rev_induct)
  case Nil
  then show ?case by (simp add: window_Nil truthful_def app_new_def)
next
  case (snoc i "is")
  let ?A = "set (concat (map heard (is @ [i])))" and ?E = "set (concat (map heard_enroll (is @ [i])))"
  have t: "truthful ?A ?E (window user v is)" by (rule truthful_mono [OF snoc]) auto
  show ?case
  proof (cases i)
    case (Arrive r)
    then show ?thesis using t by (cases r) (auto simp: window_snoc truthful_def split: option.splits)
  qed (use t in \<open>simp_all add: window_snoc truthful_click truthful_frame\<close>)
qed

subsection \<open>A service\<close>

text \<open>
  One operation from end to end: the worker when the operation gets its mutex, the finger asked for,
  when the operation's token fires, the signals the client saw, and the answers of the bus to its
  calls.
\<close>

record 'a service =
  sv_env :: env
  sv_worker :: worker
  sv_finger :: string
  sv_cancel :: cancel
  sv_seen :: "'a list"
  sv_bus :: bus
  sv_calls :: "bus_call list"

definition verified_worker :: "verify_signal service \<Rightarrow> worker" where
  "verified_worker s =
     snd (verify (sv_env s) (sv_finger s) (sink_new OpVerify) (sv_cancel s) (sv_worker s))"

definition enrolled_worker :: "enroll_signal service \<Rightarrow> worker" where
  "enrolled_worker s =
     snd (worker_enroll (sv_env s) (sv_finger s) (sink_new OpEnroll) (sv_cancel s) (sv_worker s))"

text \<open>What the client's task tells the window.\<close>

definition verify_told :: "string \<Rightarrow> verify_signal service \<Rightarrow> auth_event list" where
  "verify_told user s = fst (verify_task (sv_bus s) user (sv_finger s) (sv_seen s) (sv_calls s))"

definition enroll_told :: "string \<Rightarrow> enroll_signal service \<Rightarrow> enroll_event list" where
  "enroll_told user s = fst (enroll_task (sv_bus s) user (sv_finger s) (sv_seen s) (sv_calls s))"

text \<open>The claim is held for the user, and the client saw nothing but what this operation's relay sent.\<close>

definition verify_served :: "string \<Rightarrow> verify_signal service \<Rightarrow> bool" where
  "verify_served user s \<longleftrightarrow> wk_claimed (sv_worker s) = Some user \<and>
     verify_delivered (relayed relay_verify (wk_sink (verified_worker s))) (sv_seen s)"

definition enroll_served :: "string \<Rightarrow> enroll_signal service \<Rightarrow> bool" where
  "enroll_served user s \<longleftrightarrow> wk_claimed (sv_worker s) = Some user \<and>
     enroll_delivered (relayed relay_enroll (wk_sink (enrolled_worker s))) (sv_seen s)"

text \<open>The chip named a slot as the last thing on the wire, and the store gives that slot to the user.\<close>

definition owner_touched :: "string \<Rightarrow> verify_signal service \<Rightarrow> bool" where
  "owner_touched user s \<longleftrightarrow>
     (\<exists>name i st es h a raw.
        fst (store_open (sv_env s) (wk_store_path (sv_worker s)) (wk_fs (sv_worker s))) = Ok st \<and>
        (user, name, i) \<in> set (entries (st_prints st)) \<and> (sv_finger s = ''any'' \<or> sv_finger s = name) \<and>
        wk_wire (verified_worker s) = es @ [Cmd h (encode CVerify) EpTouchWait 2 a] \<and>
        answered a raw \<and> length raw = 2 \<and> raw ! 1 = i \<and> i < 16)"

text \<open>The last command of the operation was the commit of a slot that was nobody's, the chip accepted it,
  and the store file now gives that slot to the user's finger.\<close>

definition print_recorded :: "string \<Rightarrow> enroll_signal service \<Rightarrow> bool" where
  "print_recorded user s \<longleftrightarrow>
     (\<exists>slot es. wk_wire (enrolled_worker s) = wk_wire (sv_worker s) @ es \<and> accepted_commit slot es \<and>
        free_for_enroll (store_at (sv_env s) (sv_worker s)) es slot \<and>
        recorded (sv_env s) user (sv_finger s) slot (sv_worker s) (enrolled_worker s))"

lemma commit_for_slot: "accepted_commit slot es \<Longrightarrow> \<exists>e \<in> set es. enroll_cmd_for slot e"
  by (fastforce simp: accepted_commit_def enroll_cmd_for_def simp del: encode.simps)

lemma accepted_commit_append: "accepted_commit slot es1 \<Longrightarrow> accepted_commit slot (es0 @ es1)"
  unfolding accepted_commit_def by (metis append.assoc)

lemma verify_told_granted: "AGranted \<in> set (verify_told user s) \<Longrightarrow> VsStatus verify_MATCH True \<in> set (sv_seen s)"
  using verify_task_outcome by (simp add: verify_told_def)

lemma enroll_told_completed:
  assumes "ECompleted \<in> set (enroll_told user s)"
  shows "EsStatus ''enroll-completed'' True \<in> set (sv_seen s)"
proof -
  obtain r evs l' where c: "client_enroll (sv_bus s) user (sv_finger s) (sv_seen s) (sv_calls s) = ((r, evs), l')"
    by (metis prod.exhaust)
  have "ECompleted \<in> set evs" using assms c by (cases r) (auto simp: enroll_told_def enroll_task_def)
  then have "\<exists>tot. ECompleted \<in> set (snd (drive_enroll tot 0 (sv_seen s)))"
    using c by (auto simp: client_enroll_def Let_def split: prod.splits sum.splits) (metis snd_conv)+
  then show ?thesis using drive_enroll_completed by blast
qed

subsection \<open>Properties\<close>

text \<open>C1: The window unlocks only for the owner's finger, from the chip to the screen.  In any run of the
  window, with any clicks, frames and messages, any number of verifications served to it one after
  another, and any interleaving, loss at the end or cancellation of their signals: the screen says
  Verified only if in one of these verifications the last exchange with the chip was a touch that
  the chip answered with a slot which the store, as it was then, gives to this very user, for the
  finger asked for.\<close>

theorem window_grants_only_owner:
  assumes "ap_screen (window user v is) = ScGranted"
    and "set (concat (map heard is)) \<subseteq> set (concat (map (verify_told user) services))"
    and "list_all (verify_served user) services"
  shows "list_ex (owner_touched user) services"
proof -
  have "AGranted \<in> set (concat (map heard is))" using truthful_window [of "is" user v] assms(1) by (simp add: truthful_def)
  then obtain s where s: "s \<in> set services" "AGranted \<in> set (verify_told user s)" using assms(2) by auto
  then have served: "verify_served user s" using assms(3) by (simp add: list_all_iff)
  then have "VerifyStatus verify_MATCH True \<in> set (sk_events (wk_sink (verified_worker s)))"
    using verify_told_granted [OF s(2)] delivered_status unfolding verify_served_def by blast
  from verify_match_owned [OF this [unfolded verified_worker_def]]
  have "owner_touched user s"
    using served
    unfolding owner_touched_def verified_worker_def verify_served_def  by fastforce
  then show ?thesis using s(1) by (auto simp: list_ex_iff)
qed

text \<open>C12: What the window reports as enrolled is enrolled: it shows the good end of an enrolment only if
  in one of the enrolments served to it the last command on the wire was the commit of a slot, the chip
  accepted it, that slot is not below the count the chip had given in this enrolment, at most 15 and
  was nobody's in the store, and the store file now maps this user's finger to it.  The services are
  those whose claim the user holds and whose signals the client saw, in order and perhaps cut off; any
  operation of the file system may fail, but not by calling a file missing that is there.\<close>

theorem window_enrolled_is_recorded:
  assumes "ap_enroll_tone (window user v is) = ETDone"
    and "set (concat (map heard_enroll is)) \<subseteq> set (concat (map (enroll_told user) services))"
    and "list_all (\<lambda>s. enroll_served user s \<and> store_ready (sv_env s) (sv_worker s)) services"
  shows "list_ex (print_recorded user) services"
proof -
  have "ECompleted \<in> set (concat (map heard_enroll is))"
    using truthful_window [of "is" user v] assms(1) by (simp add: truthful_def)
  then obtain s where s: "s \<in> set services" "ECompleted \<in> set (enroll_told user s)" using assms(2) by auto
  then have served: "enroll_served user s" "store_ready (sv_env s) (sv_worker s)"
    using assms(3) by (simp_all add: list_all_iff)
  let ?w = "sv_worker s"
  have "EnrollStatus ''enroll-completed'' True \<in> set (sk_events (wk_sink (enrolled_worker s)))"
    using enroll_told_completed [OF s(2)] delivered_enroll served(1) unfolding enroll_served_def by blast
  then have "is_ok (fst (worker_enroll (sv_env s) (sv_finger s) (sink_new OpEnroll) (sv_cancel s) ?w))"
    by (intro completed_means_ok) (simp add: enrolled_worker_def enroll_COMPLETED_def)
  then have run: "worker_enroll (sv_env s) (sv_finger s) (sink_new OpEnroll) (sv_cancel s) ?w = (Ok (), enrolled_worker s)"
    by (cases "worker_enroll (sv_env s) (sv_finger s) (sink_new OpEnroll) (sv_cancel s) ?w")
      (auto simp: enrolled_worker_def is_ok_iff)
  have claimed: "wk_claimed ?w = Some user"
    using served(1) by (simp add: enroll_served_def)
  from worker_enroll_effect [OF _ _ _ run] served(2) obtain slot es es0 es1 where
    eff: "wk_wire (enrolled_worker s) = wk_wire ?w @ es" "es = es0 @ es1" "accepted_commit slot es1"
      "(\<exists>e \<in> set es. enroll_cmd_for slot e) \<longrightarrow> free_for_enroll (store_at (sv_env s) ?w) es slot"
      "recorded (sv_env s) user (sv_finger s) slot ?w (enrolled_worker s)"
    unfolding store_ready_def using claimed by (auto simp del: encode.simps)
  have commit: "accepted_commit slot es" using eff(2,3) by (simp add: accepted_commit_append)
  with eff(1,4,5) commit_for_slot [OF commit] have "print_recorded user s"
    unfolding print_recorded_def by blast
  then show ?thesis using s(1) by (auto simp: list_ex_iff)
qed

text \<open>Alice verifies with her enrolled thumb, after one touch that was too short.\<close>

definition touch_service :: "verify_signal service" where
  "touch_service =
     \<lparr>sv_env = sample_env, sv_worker = sample_worker [Ok [0x40, 0xfe], Ok [0x40, 3]], sv_finger = ''any'',
      sv_cancel = (\<lambda>_. Live),
      sv_seen = [VsStatus verify_SWIPE_TOO_SHORT False, VsStatus verify_MATCH True, VsFinger ''left-thumb''],
      sv_bus = sample_bus, sv_calls = []\<rparr>"

definition touch_window :: "input list" where
  "touch_window =
     sample_connect @ [Click sample_look (\<lambda>_. Ok ()) ClickMain] @
     map (\<lambda>e. Arrive (ArrAuth e)) (verify_told ''alice'' touch_service) @ [Frame sample_look]"

theorem window_grants_only_owner_witness:
  "list_ex (owner_touched ''alice'') [touch_service]"
proof -
  have shown: "ap_screen (window ''alice'' sample_look touch_window) = ScGranted" by code_simp
  have told: "set (concat (map heard touch_window)) \<subseteq> set (concat (map (verify_told ''alice'') [touch_service]))"
    by (auto simp: touch_window_def sample_connect_def comp_def Let_def)
  have served: "verify_served ''alice'' touch_service" by code_simp
  show ?thesis using window_grants_only_owner [OF shown told] served by simp
qed

definition enroll_service :: "enroll_signal service" where
  "enroll_service =
     \<lparr>sv_env = one_stage_env, sv_worker = willing_worker, sv_finger = ''right-thumb'', sv_cancel = (\<lambda>_. Live),
      sv_seen = [EsStatus enroll_STAGE_PASSED False, EsStatus enroll_COMPLETED True],
      sv_bus = sample_bus, sv_calls = []\<rparr>"

definition enroll_window :: "input list" where
  "enroll_window =
     take 3 sample_connect @ [Click sample_look (\<lambda>_. Ok ()) ClickMain] @
     map (\<lambda>e. Arrive (ArrEnroll e)) (enroll_told ''alice'' enroll_service) @ [Frame sample_look]"

theorem window_enrolled_is_recorded_witness:
  "list_ex (print_recorded ''alice'') [enroll_service]"
proof -
  have shown: "ap_enroll_tone (window ''alice'' sample_look enroll_window) = ETDone" by code_simp
  have told: "set (concat (map heard_enroll enroll_window)) \<subseteq> set (concat (map (enroll_told ''alice'') [enroll_service]))"
    by (auto simp: enroll_window_def sample_connect_def comp_def Let_def)
  have served: "enroll_served ''alice'' enroll_service" by code_simp
  have parse: "json_parse one_stage_env = json_parse sample_env" by (simp add: one_stage_env_def)
  have same: "store_at one_stage_env willing_worker = store_at sample_env willing_worker"
    unfolding store_at_def parse by (rule refl)
  have "store_ready one_stage_env willing_worker"
    unfolding store_ready_def same using sample_worker_ready by (simp_all add: willing_worker_def)
  then have ready: "store_ready (sv_env enroll_service) (sv_worker enroll_service)" by (simp add: enroll_service_def)
  show ?thesis using window_enrolled_is_recorded [OF shown told] served ready by simp
qed

end
