(* ===== verification/LoginView.thy ===== *)
theory LoginView
  imports LoginRun Sensor
begin

text \<open>
  What the window of \<open>elanprint-login\<close> shows (\<open>app.rs\<close>, \<open>fx.rs\<close>): header, stage, dots, panels and the
  timed effects, as values the painter draws.  Sizes, fonts and colours by number are left out; so
  are the sine curves of the pulse and the shake.  Times are in milliseconds.
\<close>

subsection \<open>Header and stage\<close>

definition CONNECTED :: string where "CONNECTED = ''Connected''"
definition NOT_CONNECTED :: string where "NOT_CONNECTED = ''Not connected''"

text \<open>The line, and the user below it.\<close>

definition header :: "app \<Rightarrow> string \<times> string option" where
  "header a = (if ap_client a then (CONNECTED, Some (ap_user a)) else (NOT_CONNECTED, None))"

datatype stage_mark = MarkCheck | MarkCross | MarkArcs bool \<comment> \<open>dimmed\<close>

definition stage_dimmed :: "app \<Rightarrow> bool" where
  "stage_dimmed a =
     (case ap_mode a of
        MVerify \<Rightarrow> ap_screen a = ScDisconnected \<or> ap_screen a = ScLocked
      | MEnroll \<Rightarrow> \<not> ap_client a
      | MKeyring \<Rightarrow> \<not> looks_enabled (ap_keyring a))"

definition stage_mark :: "app \<Rightarrow> stage_mark" where
  "stage_mark a =
     (case app_outcome a of
        Some True \<Rightarrow> MarkCheck
      | Some False \<Rightarrow> MarkCross
      | None \<Rightarrow> MarkArcs (stage_dimmed a))"

text \<open>Which dots are filled.\<close>

definition dots :: "byte \<Rightarrow> byte \<Rightarrow> bool list" where
  "dots filled tot = map (\<lambda>i. i < unat filled) [0..<unat tot]"

definition stage_dots :: "app \<Rightarrow> bool list option" where
  "stage_dots a =
     (let tot = max (ap_enroll_total a) 1 in
      if ap_mode a = MEnroll \<and> ap_client a \<and> tot > 1 then Some (dots (ap_enroll_done a) tot) else None)"

definition finger_label :: "string \<Rightarrow> string" where
  "finger_label name = (if name = ''any'' then ''any enrolled finger'' else name)"

text \<open>The three segments: label, whether it is the page shown, whether it can be pressed.\<close>

definition segmented :: "mode \<Rightarrow> bool \<Rightarrow> (string \<times> bool \<times> bool) list" where
  "segmented m enabled =
     map (\<lambda>(s, label). (label, m = s, enabled)) [(MVerify, ''Verify''), (MEnroll, ''Enrol''), (MKeyring, ''Keyring'')]"

definition keyring_status_rows :: "report \<Rightarrow> (string \<times> string \<times> bool) list" where
  "keyring_status_rows r =
     [(''TPM 2.0'', if rp_tpm r then ''yes'' else ''no'', rp_tpm r),
      (''PAM module'', if rp_module r \<noteq> None then ''installed'' else ''missing'', rp_module r \<noteq> None),
      (''Fingerprint login'', if rp_fingerprint_wired r then ''wired'' else ''not wired'', rp_fingerprint_wired r),
      (''Password login'', if rp_password_wired r then ''wired'' else ''not wired'', rp_password_wired r)]"

subsection \<open>Effects\<close>

datatype pulse = PulseOff | PulseBreathe

datatype flash_colour = FlashWarn | FlashGood | FlashBad | FlashAccent | FlashNone

record fx =
  fx_pulse :: pulse
  fx_pulse_start :: nat
  fx_flash_at :: "nat option"
  fx_flash_colour :: flash_colour
  fx_shake_at :: "nat option"

definition fx_new :: "nat \<Rightarrow> fx" where
  "fx_new now = \<lparr>fx_pulse = PulseOff, fx_pulse_start = now, fx_flash_at = None, fx_flash_colour = FlashNone,
     fx_shake_at = None\<rparr>"

definition set_pulse :: "nat \<Rightarrow> pulse \<Rightarrow> fx \<Rightarrow> fx" where
  "set_pulse now p f = f\<lparr>fx_pulse := p, fx_pulse_start := now\<rparr>"

definition fx_flash :: "nat \<Rightarrow> flash_colour \<Rightarrow> fx \<Rightarrow> fx" where
  "fx_flash now c f = f\<lparr>fx_flash_colour := c, fx_flash_at := Some now\<rparr>"

definition fx_shake :: "nat \<Rightarrow> fx \<Rightarrow> fx" where
  "fx_shake now f = f\<lparr>fx_shake_at := Some now\<rparr>"

definition flash_now :: "nat \<Rightarrow> fx \<Rightarrow> flash_colour option" where
  "flash_now now f =
     (case fx_flash_at f of
        None \<Rightarrow> None
      | Some at \<Rightarrow> (if now - at < 150 then Some (fx_flash_colour f) else None))"

definition fast_animating :: "nat \<Rightarrow> fx \<Rightarrow> bool" where
  "fast_animating now f \<longleftrightarrow> flash_now now f \<noteq> None \<or>
     (case fx_shake_at f of None \<Rightarrow> False | Some at \<Rightarrow> now - at < 450)"

text \<open>All that the stage shows.\<close>

record stage_view =
  vw_mark :: stage_mark
  vw_tone :: tone
  vw_flash :: "flash_colour option" \<comment> \<open>over the tone\<close>
  vw_line :: string
  vw_dots :: "bool list option"
  vw_identity :: "(string \<times> weight) list"

definition stage :: "nat \<Rightarrow> fx \<Rightarrow> found \<Rightarrow> app \<Rightarrow> stage_view" where
  "stage now x f a =
     \<lparr>vw_mark = stage_mark a, vw_tone = app_tone a, vw_flash = flash_now now x, vw_line = stage_line a, vw_dots = stage_dots a,
      vw_identity = (if ap_client a then [] else sensor_identity f)\<rparr>"

text \<open>What an event does to the effects, and to the pulse the window remembers.\<close>

fun fx_auth :: "nat \<Rightarrow> auth_event \<Rightarrow> fx \<times> pulse \<Rightarrow> fx \<times> pulse" where
  "fx_auth now (ARetry _) (f, p) = (fx_flash now FlashWarn f, p)"
| "fx_auth now AGranted (f, p) = (fx_flash now FlashGood f, p)"
| "fx_auth now (ADenied _) (f, p) = (fx_shake now f, p)"
| "fx_auth now ALocked (f, p) = (set_pulse now PulseOff f, PulseOff)"
| "fx_auth now _ fp = fp"

fun fx_enroll :: "nat \<Rightarrow> enroll_event \<Rightarrow> fx \<Rightarrow> fx" where
  "fx_enroll now (EStage _ _) f = fx_flash now FlashAccent f"
| "fx_enroll now (ERetry _) f = fx_flash now FlashWarn f"
| "fx_enroll now ECompleted f = fx_flash now FlashGood f"
| "fx_enroll now (EFailed _) f = fx_shake now (fx_flash now FlashBad f)"
| "fx_enroll now EFinished f = f"

subsection \<open>A frame\<close>

record frame =
  fr_app :: app
  fr_fx :: fx
  fr_pulse :: pulse

text \<open>\<open>poll\<close> with its effects: the queues that are drained are those of the application.\<close>

definition frame_poll :: "nat \<Rightarrow> look \<Rightarrow> frame \<Rightarrow> frame" where
  "frame_poll now v r =
     (let a = fr_app r;
          f1 = (case ap_enroll_events a of Some q \<Rightarrow> fold (fx_enroll now) q (fr_fx r) | None \<Rightarrow> fr_fx r) in
      case (case ap_events a of Some q \<Rightarrow> fold (fx_auth now) q (f1, fr_pulse r) | None \<Rightarrow> (f1, fr_pulse r)) of
        (f2, p) \<Rightarrow> \<lparr>fr_app = app_update v a, fr_fx = f2, fr_pulse = p\<rparr>)"

definition window_active :: "app \<Rightarrow> bool" where
  "window_active a \<longleftrightarrow> ap_events a \<noteq> None \<or> ap_enroll_events a \<noteq> None"

definition frame_pulse :: "nat \<Rightarrow> frame \<Rightarrow> frame" where
  "frame_pulse now r =
     (let want = (if window_active (fr_app r) then PulseBreathe else PulseOff) in
      if want \<noteq> fr_pulse r then r\<lparr>fr_fx := set_pulse now want (fr_fx r), fr_pulse := want\<rparr> else r)"

text \<open>The repaints asked for, in milliseconds: before the drawing, and after it with the state the
  clicks of this frame left.\<close>

definition repaints :: "nat \<Rightarrow> frame \<Rightarrow> app \<Rightarrow> nat list" where
  "repaints now r drawn =
     (if tab_busy (ap_keyring (fr_app r)) then [120] else []) @
     (if fast_animating now (fr_fx r) then [33]
      else if window_active (fr_app r) \<or> ap_pending drawn \<noteq> None \<or> ap_list_pending drawn \<noteq> None then [250]
      else [])"

definition frame_update :: "nat \<Rightarrow> look \<Rightarrow> (app \<Rightarrow> app) \<Rightarrow> frame \<Rightarrow> frame \<times> nat list" where
  "frame_update now v clicks r =
     (let r1 = frame_pulse now (frame_poll now v r); drawn = clicks (fr_app r1) in
      (r1\<lparr>fr_app := drawn\<rparr>, repaints now r1 drawn))"

subsection \<open>What is shown fits together\<close>

text \<open>Without a connection the enrolment page has nothing to say.\<close>

definition quiet_unconnected :: "app \<Rightarrow> bool" where
  "quiet_unconnected a \<longleftrightarrow> (ap_client a \<or> ap_enroll_tone a = ETIdle)"

lemma quiet_click: "quiet_unconnected a \<Longrightarrow> quiet_unconnected (controls v ready c a)"
proof -
  assume q: "quiet_unconnected a"
  note ops = start_login_def cancel_login_def logout_def start_enroll_def cancel_enroll_def request_delete_def
    app_connect_def fire_fields
  have "quiet_unconnected (verify_controls c a)"
    using q by (cases c; cases "ap_screen a") (auto simp: quiet_unconnected_def verify_controls_def verify_button_def ops)
  moreover have "quiet_unconnected (enroll_controls c a)"
    using q by (cases c) (auto simp: quiet_unconnected_def enroll_controls_def enroll_button_def ops Let_def)
  ultimately show ?thesis using q
    by (auto simp: quiet_unconnected_def controls_def split: click.split mode.split)
qed

lemma quiet_frame:
  assumes "quiet_unconnected a" "window_ok a"
  shows "quiet_unconnected (app_update v a)"
proof -
  have enroll: "ap_client (poll_enroll b) = ap_client b \<and> (ap_client b \<or> ap_enroll_tone (poll_enroll b) = ap_enroll_tone b)"
    if "window_ok b" for b
  proof (cases "ap_enroll_events b")
    case (Some q)
    have c: "ap_client b" using that Some unfolding window_ok_def enroll_ok_def by auto
    from Some have "ap_client (poll_enroll b)" by (cases rule: poll_enroll_cases) (use c in \<open>simp_all add: refresh_fingers_def\<close>)
    then show ?thesis using c by simp
  qed (simp add: poll_enroll_def)
  have 1: "quiet_unconnected (poll_enroll a)" using assms enroll [OF assms(2)] by (auto simp: quiet_unconnected_def)
  have 2: "quiet_unconnected (poll_list_pending b)" if "quiet_unconnected b" "window_ok b" for b
  proof (cases "ap_client b")
    case True
    then show ?thesis
      by (auto simp: quiet_unconnected_def poll_list_pending_def set_fingers_def Let_def split: option.split sum.split)
  next
    case False
    then have "ap_list_pending b = None" using that(2) by (simp add: window_ok_def reader_ok_def)
    then show ?thesis using that(1) by (simp add: poll_list_pending_def)
  qed
  have 3: "quiet_unconnected b \<Longrightarrow> quiet_unconnected (poll_pending b)" for b
    by (auto simp: quiet_unconnected_def poll_pending_def set_fingers_def Let_def split: option.split sum.split)
  have 4: "quiet_unconnected b \<Longrightarrow> quiet_unconnected (poll_auth b)" for b
  proof (cases "ap_events b")
    case (Some q)
    assume b: "quiet_unconnected b"
    from Some show ?thesis by (cases rule: poll_auth_cases) (use b in \<open>auto simp: quiet_unconnected_def\<close>)
  qed (simp add: poll_auth_def)
  have "quiet_unconnected (app_poll a)"
    unfolding app_poll_def by (intro 4 3 2 1 poll_enroll_ok assms(2))
  then show ?thesis by (simp add: app_update_def Let_def quiet_unconnected_def)
qed

lemma quiet_window: "quiet_unconnected (window user v is)"
proof (induction "is" rule: rev_induct)
  case Nil
  then show ?case by (simp add: window_Nil quiet_unconnected_def app_new_def)
next
  case (snoc i "is")
  show ?case
  proof (cases i)
    case (Arrive r)
    then show ?thesis using snoc by (cases r) (auto simp: window_snoc quiet_unconnected_def split: option.split)
  qed (use snoc window_always_ok in \<open>simp_all add: window_snoc quiet_click quiet_frame\<close>)
qed

text \<open>C32: The signs of the stage never contradict each other, in any run of the window: a check mark comes
  in the good colour, a cross in the bad one, what is grey is dimmed; the dots are one for each stage,
  filled from the left and only while connected; and without a connection the line says that the reader
  was not found, on every page that needs it, over what the scan of the machine found.\<close>

theorem stage_is_consistent:
  "let a = window user v is; s = stage now x f a in
   (case vw_mark s of
      MarkCheck \<Rightarrow> vw_tone s = Good
    | MarkCross \<Rightarrow> vw_tone s = Bad
    | MarkArcs dim \<Rightarrow> (if vw_tone s = Dim then dim else True)) \<and>
   (case vw_dots s of
      None \<Rightarrow> True
    | Some ds \<Rightarrow> ap_client a \<and> length ds = unat (ap_enroll_total a) \<and> sorted (map Not ds)) \<and>
   (if ap_client a then vw_identity s = []
    else vw_identity s = sensor_identity f \<and> (if ap_mode a = MKeyring then True else vw_line s = READER_NOT_FOUND))"
proof -
  let ?a = "window user v is"
  have ok: "reader_ok ?a" using window_always_ok [of user v "is"] by (simp add: window_ok_def)
  have q: "ap_client ?a \<or> ap_enroll_tone ?a = ETIdle" using quiet_window [of user v "is"] by (simp add: quiet_unconnected_def)
  have mark: "case stage_mark ?a of
      MarkCheck \<Rightarrow> app_tone ?a = Good
    | MarkCross \<Rightarrow> app_tone ?a = Bad
    | MarkArcs dim \<Rightarrow> (if app_tone ?a = Dim then dim else True)"
    using q
    by (auto simp: stage_mark_def app_outcome_def app_tone_def stage_dimmed_def
        split: mode.split screen.split enroll_tone.split tab_stage.split option.split if_splits)
  have sorted: "sorted (map Not (dots m n))" for m n
    by (auto simp: dots_def comp_def sorted_map sorted_wrt_iff_nth_less)
  have dots: "case stage_dots ?a of None \<Rightarrow> True
      | Some ds \<Rightarrow> ap_client ?a \<and> length ds = unat (ap_enroll_total ?a) \<and> sorted (map Not ds)"
    using sorted by (auto simp: stage_dots_def Let_def dots_def max_def split: if_splits)
  have line: "ap_client ?a \<or> ap_mode ?a = MKeyring \<or> stage_line ?a = READER_NOT_FOUND"
    using ok by (cases "ap_mode ?a") (auto simp: stage_line_def reader_ok_def)
  have fields: "vw_mark (stage now x f ?a) = stage_mark ?a" "vw_tone (stage now x f ?a) = app_tone ?a"
    "vw_line (stage now x f ?a) = stage_line ?a" "vw_dots (stage now x f ?a) = stage_dots ?a"
    "vw_identity (stage now x f ?a) = (if ap_client ?a then [] else sensor_identity f)"
    by (simp_all add: stage_def)
  show ?thesis unfolding Let_def fields using mark dots line by auto
qed

text \<open>A deletion that went well leaves its line behind.\<close>

theorem deleted_says_deleting:
  "let b = window ''alice'' sample_look (take 3 sample_connect @
       [Click sample_look (\<lambda>_. Ok ()) (ClickDelete ''left-thumb''), Click sample_look (\<lambda>_. Ok ()) (ClickDelete ''left-thumb''),
        Arrive (ArrList (Ok [''any''])), Frame sample_look]) in
   ap_jobs b \<noteq> [] \<and> last (ap_jobs b) = JobDelete ''alice'' ''left-thumb'' \<and> ap_delete_pending b = False \<and> ap_fingers b = [''any''] \<and>
   stage_line b = ''deleting''"
  by code_simp

end
