(* ===== verification/Preflight.thy ===== *)
theory Preflight
  imports KeyringCli "HOL-Library.Sublist"
begin

text \<open>
  The probes behind the report of \<open>preflight.rs\<close> of the keyring setup (the TPM, the module file, the
  credential, the two stacks, the login keyring), the \<open>status\<close> command that prints it, and the user's
  commands of \<open>main\<close>.  What a probe finds is a field of a record; the lemmas show what the commands
  make of it.
\<close>

subsection \<open>Probes\<close>

text \<open>
  \<open>pr_tpm\<close> and \<open>pr_arch\<close> are what running \<open>systemd-creds has-tpm2\<close> and \<open>dpkg-architecture\<close> gives
  (success, and the output), \<open>pr_home\<close> is \<open>$HOME\<close>, \<open>pr_exists\<close> is \<open>Path::exists\<close>, \<open>pr_cred\<close> is
  \<open>metadata\<close> of the credential and \<open>pr_read\<close> is \<open>read_to_string\<close>.
\<close>

record probes =
  pr_tpm :: "io_error + bool"
  pr_arch :: "io_error + (bool \<times> string)"
  pr_home :: "string option"
  pr_exists :: "string \<Rightarrow> bool"
  pr_cred :: "io_error + unit"
  pr_read :: "path \<Rightarrow> io_error + string"

definition tpm_usable :: "probes \<Rightarrow> bool" where
  "tpm_usable pr = (case pr_tpm pr of Ok success \<Rightarrow> success | Err _ \<Rightarrow> False)"

definition module_arch :: "probes \<Rightarrow> string" where
  "module_arch pr =
     (case pr_arch pr of
        Ok (success, out) \<Rightarrow> (if success then trim (from_utf8_lossy out) else ''x86_64-linux-gnu'')
      | Err _ \<Rightarrow> ''x86_64-linux-gnu'')"

definition module_path :: "probes \<Rightarrow> string option" where
  "module_path pr =
     (let path = ''/usr/lib/'' @ module_arch pr @ ''/security/'' @ MODULE in
      if pr_exists pr path then Some path else None)"

text \<open>\<open>Path::join\<close> of a relative path.\<close>

definition path_join :: "string \<Rightarrow> string \<Rightarrow> string" where
  "path_join base rel = (if base = [] \<or> last base = CHR ''/'' then base @ rel else base @ CHR ''/'' # rel)"

definition login_keyring :: "probes \<Rightarrow> string option" where
  "login_keyring pr = map_option (\<lambda>home. path_join home ''.local/share/keyrings/login.keyring'') (pr_home pr)"

definition display_keyring :: "probes \<Rightarrow> string" where
  "display_keyring pr =
     (case login_keyring pr of Some p \<Rightarrow> from_utf8_lossy p
      | None \<Rightarrow> ''~/.local/share/keyrings/login.keyring'')"

definition report_of :: "probes \<Rightarrow> report" where
  "report_of pr =
     \<lparr>rp_tpm = tpm_usable pr,
      rp_module = module_path pr,
      rp_cred = cred_state (pr_cred pr),
      rp_fingerprint_wired = stack_wired (pr_read pr FINGERPRINT_STACK),
      rp_password_wired = stack_wired (pr_read pr PASSWORD_STACK),
      rp_keyring_present = (case login_keyring pr of Some p \<Rightarrow> pr_exists pr p | None \<Rightarrow> False)\<rparr>"

text \<open>A desktop on which the probes find this.\<close>

definition probed :: "probes \<Rightarrow> desk \<Rightarrow> desk" where
  "probed pr k = k\<lparr>dk_report := report_of pr, dk_stack_exists := pr_exists pr (show_path FINGERPRINT_STACK),
     dk_stack := pr_read pr FINGERPRINT_STACK, dk_keyring_path := display_keyring pr\<rparr>"

subsection \<open>Commands\<close>

definition yes_no :: "bool \<Rightarrow> string" where "yes_no b = (if b then ''yes'' else ''no'')"

definition cred_text :: "cred \<Rightarrow> string" where
  "cred_text c = (case c of CredPresent \<Rightarrow> ''yes'' | CredAbsent \<Rightarrow> ''no'' | CredUnreadable \<Rightarrow> ''cannot tell without root'')"

definition status_lines :: "report \<Rightarrow> string list" where
  "status_lines r =
     [''TPM 2.0 usable          '' @ yes_no (rp_tpm r),
      ''PAM module installed    '' @ (case rp_module r of Some p \<Rightarrow> p | None \<Rightarrow> ''no''),
      ''sealed secret           '' @ cred_text (rp_cred r),
      ''gdm-fingerprint wired   '' @ yes_no (rp_fingerprint_wired r),
      ''gdm-password wired      '' @ yes_no (rp_password_wired r),
      ''login keyring           '' @ yes_no (rp_keyring_present r)] @
     (if rp_fingerprint_wired r then
        ['''', ''Whether the keyring actually opens is only visible at login:'', ''  journalctl -b | grep gkr-pam'']
      else [])"

definition cmd_status :: "desk \<Rightarrow> unit uop" where
  "cmd_status k = say (status_lines (dk_report k))"

datatype keyring_command =
    KStatus
  | KEnable bool
  | KDisable
  | KShowKey
  | KRotate
  | KAddPasswordLogin
  | KForgetRecoveryFile

text \<open>\<open>main\<close> for the user's commands; the root's are \<open>root_main\<close>.\<close>

definition keyring_main :: "desk \<Rightarrow> keyring_command \<Rightarrow> unit uop" where
  "keyring_main k c =
     (case c of
        KStatus \<Rightarrow> cmd_status k
      | KEnable fingerprint_only \<Rightarrow> cmd_enable k fingerprint_only
      | KDisable \<Rightarrow> cmd_disable k
      | KShowKey \<Rightarrow> cmd_show_key k
      | KRotate \<Rightarrow> cmd_rotate k
      | KAddPasswordLogin \<Rightarrow> cmd_add_password_login k
      | KForgetRecoveryFile \<Rightarrow> cmd_forget_recovery_file k)"

subsection \<open>What is printed stays printed\<close>

definition grows :: "'a uop \<Rightarrow> bool" where
  "grows m \<longleftrightarrow> (\<forall>s. prefix (us_out s) (us_out (snd (m s))))"

named_theorems grows_rules

lemma grows_bind [grows_rules]: "grows m \<Longrightarrow> (\<And>x. grows (k x)) \<Longrightarrow> grows (u_bind m k)"
  by (auto simp: grows_def u_bind_def split: prod.splits sum.splits) (metis prefix_order.trans snd_conv)+

lemma grows_basic [grows_rules]:
  "grows (u_ok x)" "grows (u_bail msg)" "grows (u_call f)" "grows (\<lambda>s. (r, s))"
  "grows (print_str t)" "grows (println t)" "grows (say ls)"
  by (simp_all add: grows_def u_ok_def u_bail_def u_call_def print_str_def println_def say_def)

lemma grows_if [grows_rules]: "grows m \<Longrightarrow> grows m' \<Longrightarrow> grows (if b then m else m')"
  by simp

lemma grows_let [grows_rules]: "(\<And>x. x = e \<Longrightarrow> grows (f x)) \<Longrightarrow> grows (let x = e in f x)"
  by simp

lemma grows_prod [grows_rules]: "(\<And>x y. grows (f x y)) \<Longrightarrow> grows (case p of (x, y) \<Rightarrow> f x y)"
  by (cases p) simp

lemma grows_context [grows_rules]: "grows m \<Longrightarrow> grows (u_context c m)"
  by (simp add: grows_def u_context_def split: prod.split sum.split) (metis snd_conv)

lemma grows_helper: "grows (run_helper k sub)"
  unfolding run_helper_def
  by (intro grows_rules) (auto simp: grows_def split: option.split sum.split prod.split)

lemma grows_change [grows_rules]: "grows (change_password k old new)"
  unfolding change_password_def
  by (intro grows_rules) (auto simp: grows_def split: sum.split)

lemma grows_confirm [grows_rules]: "grows (confirm k prompt expected)"
  unfolding confirm_def by (intro grows_rules)

lemma grows_ask [grows_rules]: "grows (ask k)"
  unfolding ask_def by (intro grows_rules)

lemma grows_provision [grows_rules]: "grows (elevate_provision k fo)"
  unfolding elevate_provision_def by (intro grows_rules grows_helper)

subsection \<open>Properties\<close>

text \<open>What the machine must have before anything is asked or changed.\<close>

definition ready :: "probes \<Rightarrow> bool" where
  "ready pr \<longleftrightarrow> pr_tpm pr = Ok True \<and>
     pr_exists pr (''/usr/lib/'' @ module_arch pr @ ''/security/pam_elanprint_keyring.so'') \<and>
     pr_exists pr ''/etc/pam.d/gdm-fingerprint'' \<and>
     (\<exists>text. pr_read pr FINGERPRINT_STACK = Ok text \<and> list_ex is_keyring_auth (lines text)) \<and>
     (\<exists>home. pr_home pr = Some home \<and> pr_exists pr (path_join home ''.local/share/keyrings/login.keyring''))"

lemma show_fingerprint_stack: "show_path FINGERPRINT_STACK = ''/etc/pam.d/gdm-fingerprint''"
  by (simp add: show_path_def FINGERPRINT_STACK_def)

lemma require_ready_iff:
  "is_ok (require_ready (report_of pr) (pr_exists pr (show_path FINGERPRINT_STACK)) (pr_read pr FINGERPRINT_STACK) kp)
   \<longleftrightarrow> ready pr"
  by (auto simp: require_ready_def ready_def report_of_def tpm_usable_def module_path_def login_keyring_def
      keyring_line_def show_fingerprint_stack MODULE_def Let_def split: sum.split option.split)

lemma enable_from_notice:
  "\<exists>m. grows m \<and> cmd_enable k fo =
     (if is_root (dk_user_status k) then
        u_bail ''run this as your normal user. The keyring re-key needs your session bus''
      else
        u_bind (\<lambda>s. (require_ready (dk_report k) (dk_stack_exists k) (dk_stack k) (dk_keyring_path k), s)) (\<lambda>_.
        u_bind (say (enable_notice fo)) (\<lambda>_. m)))"
  unfolding cmd_enable_def by (rule exI, rule conjI [rotated], rule refl, intro grows_rules)

text \<open>C28: Enabling starts exactly on a machine that is ready for it: run by a user other than root where
  the TPM answers, the module file is installed for this architecture, the fingerprint stack exists and
  has the keyring's auth line, and the login keyring is there, it shows what it is about to do before
  anything else it prints; in every other case it fails and has neither printed, asked nor changed
  anything.  The status command only prints, on every machine.\<close>

theorem enable_starts_iff_ready:
  "(case cmd_enable (probed pr k) fo s of (r, s') \<Rightarrow>
      if \<not> is_root (dk_user_status k) \<and> ready pr
      then prefix (us_out s @ concat (map (\<lambda>l. l @ [NL]) (enable_notice fo))) (us_out s')
      else \<not> is_ok r \<and> s' = s) \<and>
   keyring_main (probed pr k) KStatus s =
     (Ok (), s\<lparr>us_out := us_out s @ concat (map (\<lambda>l. l @ [NL]) (status_lines (report_of pr)))\<rparr>)"
proof
  let ?k = "probed pr k"
  have k: "dk_user_status ?k = dk_user_status k" "dk_report ?k = report_of pr" "dk_stack ?k = pr_read pr FINGERPRINT_STACK"
    "dk_stack_exists ?k = pr_exists pr (show_path FINGERPRINT_STACK)" by (simp_all add: probed_def)
  obtain m where m: "grows m" "cmd_enable ?k fo = (if is_root (dk_user_status k) then
        u_bail ''run this as your normal user. The keyring re-key needs your session bus''
      else
        u_bind (\<lambda>s. (require_ready (report_of pr) (pr_exists pr (show_path FINGERPRINT_STACK))
          (pr_read pr FINGERPRINT_STACK) (dk_keyring_path ?k), s)) (\<lambda>_.
        u_bind (say (enable_notice fo)) (\<lambda>_. m)))"
    using enable_from_notice [of ?k fo] k by auto
  obtain v where v: "require_ready (report_of pr) (pr_exists pr (show_path FINGERPRINT_STACK))
      (pr_read pr FINGERPRINT_STACK) (dk_keyring_path ?k) = v" by blast
  then have "is_ok v \<longleftrightarrow> ready pr" using require_ready_iff by blast
  moreover have "prefix (us_out (snd (say (enable_notice fo) s))) (us_out (snd (m (snd (say (enable_notice fo) s)))))"
    using m(1) by (simp add: grows_def)
  ultimately show "case cmd_enable ?k fo s of (r, s') \<Rightarrow>
      if \<not> is_root (dk_user_status k) \<and> ready pr
      then prefix (us_out s @ concat (map (\<lambda>l. l @ [NL]) (enable_notice fo))) (us_out s')
      else \<not> is_ok r \<and> s' = s"
    unfolding m(2) v
    by (cases v) (auto simp: u_bind_def [of "\<lambda>s. (_, s)"] u_bail_def say_def print_str_def split: prod.split)
  show "keyring_main ?k KStatus s =
     (Ok (), s\<lparr>us_out := us_out s @ concat (map (\<lambda>l. l @ [NL]) (status_lines (report_of pr)))\<rparr>)"
    by (simp add: keyring_main_def cmd_status_def k say_def print_str_def)
qed

end
