(* ===== verification/Unlock.thy ===== *)
theory Unlock
  imports Preflight Keyring
begin

text \<open>
  The keyring over a history of commands: what each command of \<open>elanprint-keyring\<close> leaves of the
  seal, up to the login that opens the keyring with it; and the one way to lose the key.
\<close>

subsection \<open>Histories of commands\<close>

text \<open>Each command runs on a desktop of its own; all share the outside of the root half.\<close>

fun after_commands :: "(desk \<times> keyring_command) list \<Rightarrow> user \<Rightarrow> user" where
  "after_commands [] s = s"
| "after_commands ((k, c) # rest) s = after_commands rest (snd (keyring_main k c s))"

text \<open>Every replacement of the key in the history reported success.\<close>

fun rotations_succeed :: "(desk \<times> keyring_command) list \<Rightarrow> user \<Rightarrow> bool" where
  "rotations_succeed [] s = True"
| "rotations_succeed ((k, c) # rest) s =
     ((if c = KRotate then is_ok (fst (keyring_main k c s)) else True) \<and>
      rotations_succeed rest (snd (keyring_main k c s)))"

text \<open>A missing credential does not unseal.\<close>

definition needs_blob :: "outside \<Rightarrow> bool" where
  "needs_blob w \<longleftrightarrow> (\<forall>n st out err. ow_decrypt w n None = Ok (st, out, err) \<longrightarrow> \<not> ex_success st)"

text \<open>A PAM stack that has the module's line, and a fingerprint login: libpam runs what the stack names,
  so without the line the item stays what it was and the keyring prompts.\<close>

definition module_wired :: "root \<Rightarrow> path \<Rightarrow> bool" where
  "module_wired s stack = (case files s stack of Some content \<Rightarrow> list_ex is_our_line (lines content) | None \<Rightarrow> False)"

definition fingerprint_login :: "set_item \<Rightarrow> child \<Rightarrow> root \<Rightarrow> pam \<Rightarrow> pam" where
  "fingerprint_login set_item c s p =
     (if module_wired s FINGERPRINT_STACK then snd (pam_sm_authenticate set_item c p) else p)"

text \<open>The keyring is keyed to the sealed secret and the module is wired, on a file system that works.\<close>

definition keyed :: "outside \<Rightarrow> user \<Rightarrow> bool" where
  "keyed w s \<longleftrightarrow> good_secret (us_keyring s) \<and> sealed w (us_keyring s) (us_root s) \<and> quiet (us_root s) \<and>
     module_wired (us_root s) FINGERPRINT_STACK"

lemma sealed_blob: "needs_blob w \<Longrightarrow> sealed w secret s \<Longrightarrow> \<exists>blob. files s CRED = Some blob"
  by (cases "files s CRED") (auto simp: needs_blob_def sealed_def)

lemma keyed_frame:
  "keyed w s \<Longrightarrow> us_keyring s' = us_keyring s \<Longrightarrow> files (us_root s') CRED = files (us_root s) CRED \<Longrightarrow>
   files (us_root s') FINGERPRINT_STACK = files (us_root s) FINGERPRINT_STACK \<Longrightarrow>
   fs_fault (rt_fs (us_root s')) = fs_fault (rt_fs (us_root s)) \<Longrightarrow> keyed w s'"
  by (simp add: keyed_def quiet_def sealed_def module_wired_def)

text \<open>The two files a keyed keyring rests on.\<close>

definition key_path :: "path \<Rightarrow> bool" where
  "key_path p \<longleftrightarrow> p = CRED \<or> p = FINGERPRINT_STACK"

lemma key_path_other [simp]:
  "key_path CRED" "key_path FINGERPRINT_STACK" "\<not> key_path RECOVERY_FILE" "\<not> key_path PASSWORD_STACK"
  "is_backup p \<Longrightarrow> \<not> key_path p"
  using not_backup by (auto simp: key_path_def RECOVERY_FILE_def FINGERPRINT_STACK_def PASSWORD_STACK_def CRED_def)

subsection \<open>The root half\<close>

lemma touches_provision: "touches (\<lambda>_. True) (provision w fo)"
  unfolding provision_split
  by (auto intro!: keeps_rules touches_wire touches_weaken [OF touches_seal_fresh] simp del: wire_stacks.simps
      simp: subsetD [OF provision_stacks_set] split: if_split)

lemma touches_rotate: "touches (\<lambda>p. p \<noteq> FINGERPRINT_STACK) (rotate_seal w)"
  unfolding rotate_seal_def
  by (auto intro!: keeps_rules simp: CRED_def CRED_PREVIOUS_def RECOVERY_FILE_def FINGERPRINT_STACK_def)

lemma touches_wire_password: "touches (\<lambda>p. p = PASSWORD_STACK \<or> is_backup p) (wire_password w)"
  unfolding wire_password_def
  by (auto intro!: keeps_rules simp: stack_paths_def split: change.split)

lemma touches_remove: "touches (\<lambda>p. p = RECOVERY_FILE) forget_recovery_file"
  by (auto simp: touches_def forget_recovery_file_def remove_file_def fs_tick_def split: option.split sum.split)

lemma touches_deprovision: "touches wiring_path (deprovision w)"
  unfolding deprovision_def by (rule touches_unwire) (auto simp: stack_paths_def)

definition harmless_sub :: "subcommand \<Rightarrow> bool" where
  "harmless_sub sub \<longleftrightarrow> sub \<in> {SubReveal, SubWirePassword, SubRemoveRecovery}"

text \<open>What the helper runs once it knows that it is root.\<close>

fun root_step :: "outside \<Rightarrow> subcommand \<Rightarrow> string rop" where
  "root_step w (SubProvision fo) = r_bind (provision w fo) (\<lambda>(secret, _). r_ok (secret @ [NL]))"
| "root_step w SubDeprovision = r_bind (deprovision w) (\<lambda>_. r_ok [])"
| "root_step w SubReveal = r_bind (reveal w) (\<lambda>secret. r_ok (secret @ [NL]))"
| "root_step w SubRotateSeal = r_bind (rotate_seal w) (\<lambda>(old, new). r_ok (old @ [NL] @ new @ [NL]))"
| "root_step w SubRollback = r_bind (rollback w) (\<lambda>_. r_ok [])"
| "root_step w SubWirePassword = r_bind (wire_password w) (\<lambda>_. r_ok [])"
| "root_step w SubRemoveRecovery = r_bind forget_recovery_file (\<lambda>_. r_ok [])"

lemma root_main_step:
  "root_main k sub = (\<lambda>s. case require_root (dk_root_status k) of
     Err e \<Rightarrow> (Err e, s) | Ok u \<Rightarrow> root_step (dk_outside k) sub s)"
  by (cases sub) (simp_all add: root_main_def Let_def fun_eq_iff split: sum.split)

lemma touches_guarded: "touches P m \<Longrightarrow> touches P (\<lambda>s. case c of Err e \<Rightarrow> (Err e, s) | Ok u \<Rightarrow> m s)"
  by (cases c) (simp_all add: touches_def)

lemma touches_root_main: "touches (\<lambda>_. True) (root_main k sub)"
  unfolding root_main_step
proof (intro touches_guarded)
  show "touches (\<lambda>_. True) (root_step (dk_outside k) sub)"
    by (cases sub) (auto simp: reveal_def intro!: touches_bind touches_ok touches_unseal touches_provision touches_weaken [OF touches_rotate]
      touches_weaken [OF touches_rollback] touches_weaken [OF touches_wire_password]
      touches_weaken [OF touches_remove] touches_weaken [OF touches_deprovision] split: prod.split)
qed

lemma touches_harmless: "harmless_sub sub \<Longrightarrow> touches (\<lambda>p. \<not> key_path p) (root_main k sub)"
  unfolding root_main_step
proof (intro touches_guarded)
  assume "harmless_sub sub"
  then show "touches (\<lambda>p. \<not> key_path p) (root_step (dk_outside k) sub)"
    by (cases sub) (auto simp: harmless_sub_def reveal_def
      intro!: touches_bind touches_ok touches_unseal touches_weaken [OF touches_wire_password]
      touches_weaken [OF touches_remove])
qed

lemma root_main_provision_refused:
  assumes "files s CRED = Some blob" "quiet s" "root_main k (SubProvision fo) s = (r, s')"
  shows "\<not> is_ok r \<and> files s' = files s"
proof (cases "require_root (dk_root_status k)")
  case (Inl e)
  then show ?thesis using assms(3) by (auto simp: root_main_def Let_def)
next
  case (Inr u)
  obtain p s1 where p: "provision (dk_outside k) fo s = (p, s1)" by fastforce
  have "\<not> is_ok p" "files s1 = files s"
    using provision_existing [OF assms(1), of "dk_outside k" fo] assms(2) p by (auto simp: quiet_def)
  then show ?thesis using assms(3) Inr p by (cases p) (auto simp: root_main_def Let_def r_bind_def)
qed

subsection \<open>The user's half\<close>

lemma helper_keyed:
  assumes "run_helper k sub s = (r, s')" "keyed w s" "dk_outside k = w" "needs_blob w"
    and "harmless_sub sub \<or> (\<exists>fo. sub = SubProvision fo)"
  shows "keyed w s' \<and> (\<forall>fo out err. sub = SubProvision fo \<longrightarrow> r \<noteq> Ok (True, out, err))"
proof -
  obtain blob where blob: "files (us_root s) CRED = Some blob"
    using sealed_blob [OF assms(4), of "us_keyring s" "us_root s"] assms(2) by (auto simp: keyed_def)
  have q: "quiet (us_root s)" using assms(2) by (simp add: keyed_def)
  from run_helper_root [OF assms(1)] have kr: "us_keyring s' = us_keyring s" by simp
  from run_helper_root [OF assms(1)] consider "us_root s' = us_root s" "\<forall>out err. r \<noteq> Ok (True, out, err)"
    | rr where "root_main k sub (us_root s) = (rr, us_root s')"
        "r = Ok (case rr of Ok out \<Rightarrow> (True, out, []) | Err e \<Rightarrow> (False, [], dk_show k e))" by blast
  then show ?thesis
  proof cases
    case 1
    then show ?thesis using keyed_frame [OF assms(2) kr] by simp
  next
    case 2
    have fault: "fs_fault (rt_fs (us_root s')) = fs_fault (rt_fs (us_root s))"
      using touches_fault [OF touches_root_main 2(1)] .
    show ?thesis
    proof (cases "harmless_sub sub")
      case True
      then have "files (us_root s') CRED = files (us_root s) CRED"
        "files (us_root s') FINGERPRINT_STACK = files (us_root s) FINGERPRINT_STACK"
        using touchesD [OF touches_harmless _ 2(1)] by simp_all
      then show ?thesis using keyed_frame [OF assms(2) kr] fault True by (auto simp: harmless_sub_def)
    next
      case False
      then obtain fo where "sub = SubProvision fo" using assms(5) by blast
      with root_main_provision_refused [OF blob q, of k fo rr "us_root s'"] 2(1)
      have "\<not> is_ok rr" "files (us_root s') = files (us_root s)" by auto
      then show ?thesis using keyed_frame [OF assms(2) kr] fault 2(2) by (cases rr) auto
    qed
  qed
qed

lemma capture_state: "snd (capture k sub s) = snd (run_helper k sub s)"
  by (auto simp: capture_def u_bind_def u_ok_def u_bail_def Let_def split: sum.split prod.split)

text \<open>Operations of the user half that leave a keyed keyring keyed.\<close>

definition keeps_key :: "outside \<Rightarrow> 'a uop \<Rightarrow> bool" where
  "keeps_key w m \<longleftrightarrow> (\<forall>s. keyed w s \<longrightarrow> keyed w (snd (m s)))"

lemma keeps_keyD: "keeps_key w m \<Longrightarrow> keyed w s \<Longrightarrow> keyed w (snd (m s))"
  by (simp add: keeps_key_def)

lemma keeps_key_bind: "keeps_key w m \<Longrightarrow> (\<And>x. keeps_key w (f x)) \<Longrightarrow> keeps_key w (u_bind m f)"
  unfolding keeps_key_def u_bind_def by (auto split: sum.split prod.split; metis snd_conv)

lemma keeps_key_frame:
  "(\<And>s. us_keyring (snd (m s)) = us_keyring s \<and> us_root (snd (m s)) = us_root s) \<Longrightarrow> keeps_key w m"
  by (simp add: keeps_key_def keyed_def)

lemma keeps_key_prims:
  "keeps_key w (u_ok x)" "keeps_key w (u_bail msg)" "keeps_key w (println l)" "keeps_key w (say ls)"
  "keeps_key w (\<lambda>s. (c, s))"
  by (rule keeps_key_frame; simp add: u_ok_def u_bail_def)+

lemma keeps_key_confirm: "keeps_key w (confirm k t x)"
  by (rule keeps_key_frame) (metis confirm_effect prod.collapse)

lemma keeps_key_helper:
  "dk_outside k = w \<Longrightarrow> needs_blob w \<Longrightarrow> harmless_sub sub \<Longrightarrow> keeps_key w (run_helper k sub)"
  using helper_keyed [OF prod.collapse [symmetric]] by (metis keeps_key_def)

lemma keeps_key_capture:
  "dk_outside k = w \<Longrightarrow> needs_blob w \<Longrightarrow> harmless_sub sub \<Longrightarrow> keeps_key w (capture k sub)"
  using keeps_key_helper by (simp add: keeps_key_def capture_state)

lemma keeps_key_provision:
  assumes "dk_outside k = w" "needs_blob w"
  shows "keeps_key w (u_bind (elevate_provision k fo) f)"
  unfolding keeps_key_def
proof (intro allI impI)
  fix s
  assume s: "keyed w s"
  obtain h s2 where h: "run_helper k (SubProvision fo) s = (h, s2)" by fastforce
  note H = helper_keyed [OF h s assms]
  have "\<exists>e. elevate_provision k fo s = (Err e, s2)"
    using H h by (auto simp: elevate_provision_def u_bind_def u_bail_def Let_def split: sum.split)
  then show "keyed w (snd (u_bind (elevate_provision k fo) f s))" using H by (auto simp: u_bind_def)
qed

lemmas keeps_key_rules = keeps_key_bind keeps_key_prims keeps_key_confirm keeps_key_capture keeps_key_helper

lemma keeps_key_enable:
  "dk_outside k = w \<Longrightarrow> needs_blob w \<Longrightarrow> keeps_key w (cmd_enable k fo)"
  unfolding cmd_enable_split
  by (auto intro!: keeps_key_bind [OF keeps_key_prims(5)] keeps_key_bind [OF keeps_key_prims(4)]
      keeps_key_bind [OF keeps_key_confirm] keeps_key_provision keeps_key_prims)

lemma rotate_keyed:
  assumes "keyed w s" "dk_outside k = w" "unseals_alike w" "cmd_rotate k s = (Ok u, s')"
  shows "keyed w s'"
proof -
  have s: "unseals_alike (dk_outside k)" "hexy (us_keyring s)" "sealed (dk_outside k) (us_keyring s) (us_root s)"
    using assms good_hexy by (simp_all add: keyed_def)
  from s assms(4) show ?thesis
  proof (cases rule: cmd_rotate_cases)
    case rotated
    have "fs_fault (rt_fs (us_root s')) = fs_fault (rt_fs (us_root s))"
      using touches_fault [OF touches_rotate rotated(2)] .
    moreover have "files (us_root s') FINGERPRINT_STACK = files (us_root s) FINGERPRINT_STACK"
      using touchesD [OF touches_rotate _ rotated(2)] by simp
    ultimately show ?thesis using rotate_Ok [OF rotated(2)] assms(1,2) good_hexy
      by (auto simp: keyed_def quiet_def module_wired_def)
  qed simp
qed

lemma command_keyed:
  assumes "keyed w s" "dk_outside k = w" "needs_blob w" "unseals_alike w"
    and "c = KRotate \<Longrightarrow> is_ok (fst (cmd_rotate k s))" and "c \<noteq> KDisable"
  shows "keyed w (snd (keyring_main k c s))"
proof (cases "c = KRotate")
  case True
  then obtain u s' where "cmd_rotate k s = (Ok u, s')" using assms(5) by (cases "cmd_rotate k s") (auto simp: is_ok_iff)
  then show ?thesis using rotate_keyed [OF assms(1,2,4)] True by (simp add: keyring_main_def)
next
  case False
  have "keeps_key w (keyring_main k c)"
    using False assms(6) keeps_key_enable [OF assms(2,3)]
    by (cases c) (auto simp: keyring_main_def cmd_status_def cmd_show_key_def cmd_add_password_login_def
      cmd_forget_recovery_file_def elevate_reveal_def elevate_wire_password_def
      elevate_forget_recovery_file_def harmless_sub_def assms(2,3) split: prod.split intro!: keeps_key_rules)
  then show ?thesis using assms(1) by (rule keeps_keyD)
qed

lemma history_keyed:
  assumes "needs_blob w" "unseals_alike w"
  shows "keyed w s \<Longrightarrow> \<forall>(k, c) \<in> set cs. dk_outside k = w \<and> c \<noteq> KDisable \<Longrightarrow> rotations_succeed cs s \<Longrightarrow> keyed w (after_commands cs s)"
proof (induction cs s rule: after_commands.induct)
  case (2 k c rest s)
  have "keyed w (snd (keyring_main k c s))"
  proof (rule command_keyed [OF 2(2) _ assms])
    show "dk_outside k = w" "c \<noteq> KDisable" using 2(3) by simp_all
    assume "c = KRotate"
    moreover from 2(4) have "if c = KRotate then is_ok (fst (keyring_main k c s)) else True"
      by (rule conjunct1 [OF rotations_succeed.simps(2) [THEN iffD1]])
    ultimately show "is_ok (fst (cmd_rotate k s))" by (simp add: keyring_main_def)
  qed
  then show ?case using 2 by simp
qed simp

subsection \<open>The login opens the keyring\<close>

lemma provision_wired:
  assumes "provision w fo s = (Ok (secret, wired), s')" "quiet s" "files s FINGERPRINT_STACK \<noteq> None"
  shows "module_wired s' FINGERPRINT_STACK"
proof -
  obtain s1 where s1: "\<And>p. \<not> cred_or_recovery p \<Longrightarrow> files s1 p = files s p"
    "wire_stacks w (provision_stacks fo) [] s1 = (Ok wired, s')" "quiet s1"
    using provision_Ok [OF assms(1)] assms(2) by metis
  have "FINGERPRINT_STACK \<in> set (provision_stacks fo)" by (simp add: provision_stacks_def)
  with provision_stacks_quiet [OF s1(3,2)] have
    "files s' FINGERPRINT_STACK = map_option wired_text (files s1 FINGERPRINT_STACK)"
    "\<forall>old. files s' FINGERPRINT_STACK = Some old \<longrightarrow> list_ex is_our_line (lines old)" by auto
  moreover have "files s1 FINGERPRINT_STACK \<noteq> None"
    using s1(1) assms(3) by (simp add: cred_or_recovery_def FINGERPRINT_STACK_def CRED_def RECOVERY_FILE_def)
  ultimately show ?thesis by (auto simp: module_wired_def)
qed

lemma enable_keyed:
  assumes "cmd_enable k fo s = (r, s')" "us_keyring s' \<noteq> us_keyring s" "quiet (us_root s)" "dk_outside k = w"
    "files (us_root s) FINGERPRINT_STACK \<noteq> None"
  shows "keyed w s'"
proof -
  obtain out where out: "root_main k (SubProvision fo) (us_root s) = (Ok out, us_root s')"
    "us_keyring s' = trim (from_utf8_lossy out)" using assms(1,2) by (rule enable_rekeyed)
  obtain secret wired where "provision (dk_outside k) fo (us_root s) = (Ok (secret, wired), us_root s')"
    using root_main_provision [OF out(1)] by blast
  then have "module_wired (us_root s') FINGERPRINT_STACK" using provision_wired assms(3,5) by blast
  then show ?thesis using provisioned_secret [OF out(1)] touches_fault [OF touches_root_main out(1)] out(2) assms(3,4)
    by (simp add: keyed_def quiet_def)
qed

text \<open>C14: As long as the keyring login is not turned off, the login opens the keyring.  On a file system
  that does not fail, with a fingerprint stack, and a TPM that unseals a blob always alike and never a
  missing one: once the enable command has changed the keyring's password, and after any further
  commands other than \<open>disable\<close>, in any order (enabling again, showing the key, wiring password logins,
  removing the recovery file, status, each of them done, cancelled or failing anywhere, and rotations,
  provided that each of them reports success), the fingerprint stack has the module's line, and a
  login whose helper unseals the credential hands libpam exactly the password the login keyring then
  has.  A rotation that fails can break this (\<open>second_rotation_loses_key\<close>), and after \<open>disable\<close> the
  login prompts (\<open>disabled_login_prompts\<close>).\<close>

theorem login_opens_keyring:
  assumes "cmd_enable k fo s = (r, s1)" and "us_keyring s1 \<noteq> us_keyring s"
    and "quiet (us_root s)" and "files (us_root s) FINGERPRINT_STACK \<noteq> None"
    and "unseals_alike (dk_outside k)" and "needs_blob (dk_outside k)"
    and "\<forall>(k', c) \<in> set cs. dk_outside k' = dk_outside k \<and> c \<noteq> KDisable" and "rotations_succeed cs s1"
    and "ow_decrypt (dk_outside k) n (files (us_root (after_commands cs s1)) CRED) = Ok (status, out, err)"
    and "ex_success status" and "clean_exit c" and "ch_stdout c = Some (Ok out)"
  shows "module_wired (us_root (after_commands cs s1)) FINGERPRINT_STACK \<and>
    pm_authtok (fingerprint_login set_item c (us_root (after_commands cs s1)) p) =
      snd (set_item (pm_authtok p) (us_keyring (after_commands cs s1)))"
proof -
  have "keyed (dk_outside k) (after_commands cs s1)"
    using history_keyed [OF assms(6,5) enable_keyed [OF assms(1-3) refl assms(4)] assms(7,8)] .
  then show ?thesis using sealed_login [OF assms(5) _ _ assms(9-12)]
    by (simp add: keyed_def fingerprint_login_def)
qed

text \<open>Enabled, and the key shown, on the sample machine.\<close>

lemma sample_needs_blob: "needs_blob sample_outside"
  by (simp add: needs_blob_def sample_outside_def bad_status_def)

theorem login_opens_keyring_witness:
  "\<exists>secret out s. good_secret secret \<and> pm_authtok (fingerprint_login (\<lambda>_ t. (0, Some t)) (sample_child out) s
     \<lparr>pm_authtok = None, pm_log = []\<rparr>) = Some secret"
proof -
  obtain line s' where e: "cmd_enable (sample_desk (\<lambda>_. None) (\<lambda>_ _. Ok ()) line) False
      (sample_user sample_root ''password'') = (Ok (), s')" "us_keyring s' \<noteq> ''password''" by (rule sample_enables)
  let ?k = "sample_desk (\<lambda>_. None) (\<lambda>_ _. Ok ()) line"
  have w: "dk_outside ?k = sample_outside" by (simp add: sample_desk_def)
  have ne: "us_keyring s' \<noteq> us_keyring (sample_user sample_root ''password'')"
    and q: "quiet (us_root (sample_user sample_root ''password''))"
    and st: "files (us_root (sample_user sample_root ''password'')) FINGERPRINT_STACK \<noteq> None"
    using e(2) sample_root_files by (simp_all add: sample_user_def)
  let ?cs = "[(?k, KForgetRecoveryFile), (?k, KShowKey)]"
  have cs: "\<forall>(k', c) \<in> set ?cs. dk_outside k' = dk_outside ?k \<and> c \<noteq> KDisable" "rotations_succeed ?cs s'" by simp_all
  have "keyed sample_outside (after_commands ?cs s')"
    using history_keyed [OF sample_needs_blob sample_unseals enable_keyed [OF e(1) ne q w st] _ cs(2)] cs(1) w by simp
  then obtain n status out err where d: "good_secret (us_keyring (after_commands ?cs s'))"
    "ow_decrypt sample_outside n (files (us_root (after_commands ?cs s')) CRED) = Ok (status, out, err)"
    "ex_success status" by (auto simp: keyed_def sealed_def)
  have "clean_exit (sample_child out)" "ch_stdout (sample_child out) = Some (Ok out)"
    by (rule sample_child_clean)+
  from login_opens_keyring [OF e(1) ne q st, unfolded w, OF sample_unseals sample_needs_blob _ cs(2) d(2,3) this,
      of "\<lambda>_ t. (0, Some t)"] cs(1) w d(1)
  show ?thesis by force
qed

text \<open>Turned off, on a file system that works, the login leaves the item alone, and the keyring prompts.\<close>

theorem disabled_login_prompts:
  assumes "quiet s" and "deprovision w s = (r, s')"
  shows "is_ok r \<and> fingerprint_login set_item c s' p = p"
proof -
  obtain undone s2 where d: "deprovision w s = (Ok undone, s2)"
    "\<forall>stack \<in> set stack_paths. files s2 stack = map_option unwired (files s stack)"
    using deprovision_quiet [OF assms(1), of w] by metis
  have "FINGERPRINT_STACK \<in> set stack_paths" by (simp add: stack_paths_def)
  with d(2) have "files s2 FINGERPRINT_STACK = map_option unwired (files s FINGERPRINT_STACK)" by blast
  then show ?thesis using d(1) assms(2) unwired_clear
    by (auto simp: fingerprint_login_def module_wired_def split: option.splits)
qed

theorem disabled_login_prompts_witness:
  "\<exists>s. files s FINGERPRINT_STACK \<noteq> None \<and> fingerprint_login set_item c (snd (deprovision sample_outside s)) p = p"
  using disabled_login_prompts [OF sample_root_files(2) prod.collapse [symmetric], of sample_outside set_item c p]
    sample_root_files(1) by (intro exI [of _ sample_root]) simp

subsection \<open>Losing the key\<close>

text \<open>The keyring refuses the first new key; later ones only when the old password is wrong.\<close>

definition forgetful_desk :: "(nat \<Rightarrow> io_error + string) \<Rightarrow> desk" where
  "forgetful_desk l = (sample_desk second_refused (\<lambda>_ _. Ok ()) l)
     \<lparr>dk_change := (\<lambda>n pw old new. if n < 8 then Err ''locked'' else if pw = old then Ok () else Err ''denied'')\<rparr>"

lemma forgetful_ready: "ready_desk (forgetful_desk l)"
  using sample_desk_root by (simp add: ready_desk_def forgetful_desk_def launcher_def sample_desk_def)

text \<open>One refused request for privileges, then a second try, and the machine no longer has the key of
  the keyring: the second rotation keeps aside what the first one sealed.\<close>

theorem second_rotation_loses_key:
  "\<exists>s1 s2. snd (cmd_rotate (forgetful_desk l) (sample_user sample_sealed ''cafe'')) = s1 \<and>
     snd (cmd_rotate (forgetful_desk l) s1) = s2 \<and> us_keyring s2 = ''cafe'' \<and>
     \<not> sealed sample_outside ''cafe'' (us_root s2) \<and>
     files (us_root s2) CRED_PREVIOUS = files (us_root s2) CRED \<and> \<not> kept ''cafe'' (us_root s2)"
proof -
  let ?k = "forgetful_desk l" and ?u = "sample_user sample_sealed ''cafe''"
  have dk: "dk_outside ?k = sample_outside" "dk_auth ?k = second_refused"
    by (simp_all add: forgetful_desk_def sample_desk_def)
  obtain new r1 where rot: "rotate_seal sample_outside sample_sealed = (Ok (''cafe'', new), r1)" "quiet r1"
    by (rule sample_rotates)
  note R = rotate_Ok [OF rot(1)]
  define s1 where "s1 = snd (cmd_rotate ?k ?u)"
  have "s1 = snd (elevate_rollback ?k (?u\<lparr>us_calls := us_calls ?u + 6, us_root := r1\<rparr>))"
    using rotation_refused [OF forgetful_ready _ sample_hexy, of l ?u new r1 "''locked''"] rot(1)
    by (auto simp: dk s1_def sample_user_def second_refused_def) (auto simp: forgetful_desk_def)
  then have s1: "us_keyring s1 = ''cafe''" "us_calls s1 = 8" "us_root s1 = r1"
    by (simp_all add: rollback_state [OF forgetful_ready] dk sample_user_def second_refused_def)
  have good: "good_secret new" "new \<noteq> []" "new \<noteq> ''cafe''"
    using R good_hexy by (auto simp: good_secret_def)
  obtain blob where blob: "files r1 CRED = Some blob" "trim_eol (from_utf8_lossy (drop 3 blob)) = new"
    using R by (cases "files r1 CRED") (auto simp: sealed_def sample_outside_def bad_status_def)
  have opens: "\<exists>st out err. ow_decrypt sample_outside m (Some blob) = Ok (st, out, err) \<and> ex_success st \<and>
      trim_eol (from_utf8_lossy out) = new" for m
    using blob(2) by (simp add: sample_outside_def ok_status_def)
  obtain new2 r2 where rot2: "rotate_seal sample_outside r1 = (Ok (new, new2), r2)" "quiet r2"
    using rotate_coop [OF sample_cooperative rot(2) _ good(2)] blob(1) opens by auto
  have prev2: "files r2 CRED_PREVIOUS = Some blob" using rotate_Ok [OF rot2(1)] blob(1) by simp
  obtain r3 where rb: "rollback sample_outside r2 = (Ok (), r3)"
    using rollback_coop [OF sample_cooperative rot2(2) _ good(2)] prev2 opens by auto
  define s2 where "s2 = snd (cmd_rotate ?k s1)"
  have "s2 = snd (elevate_rollback ?k (s1\<lparr>us_calls := us_calls s1 + 6, us_root := r2\<rparr>))"
    using rotation_refused [OF forgetful_ready _ good_hexy [OF good(1)], of l s1 new2 r2 "''denied''"] rot2(1) good(3)
    by (auto simp: dk s1 s2_def second_refused_def) (auto simp: forgetful_desk_def)
  then have s2: "us_keyring s2 = ''cafe''" "us_root s2 = r3"
    by (simp_all add: rollback_state [OF forgetful_ready] dk s1 second_refused_def rb)
  have B: "files r3 CRED = Some blob" "\<exists>secret. sealed sample_outside secret r3 \<and> kept secret r3"
    using rollback_Ok [OF rb] prev2 by simp_all
  have sealed: "sealed sample_outside new r3" using R sealed_frame [of r3 r1] B(1) blob(1) by simp
  then have "kept new r3" using B(2) sealed_unique [OF sample_unseals] by blast
  then have "\<not> kept ''cafe'' r3" using good(3) by (auto simp: kept_def)
  moreover have "files r3 CRED_PREVIOUS = files r3 CRED"
    using touchesD [OF touches_rollback _ rb, of CRED_PREVIOUS] prev2 B(1) by (simp add: cred_or_recovery_def)
  ultimately show ?thesis using s2 sample_other_secret [OF good(1) sealed] s1_def s2_def by auto
qed

end
