(* ===== verification/Cli.thy ===== *)
theory Cli
  imports EnrollMachine Usb Store
begin

text \<open>
  The command line tool (\<open>elanprint-cli/src/main.rs\<close>): the session around a command, and every
  command.  The device is three scripts, what the transfers out, the reads and the double
  reads to come will meet (used up: a transfer out succeeds, a read times out).  The cancel
  token tells for each number of wire events whether it has fired by then, and stays fired.  What is
  printed is left out, except the enrolment plan, which is the whole of its command; so is the
  removal of an old commit file before an enrolment, whose effect is in the script of looks at it.
\<close>

subsection \<open>The device\<close>

datatype cli_event =
    Sent "byte list" "usb_error + unit"
  | Dropped "byte list" \<comment> \<open>a transfer out begun with the token already fired\<close>
  | Got reply_ep nat "usb_error + byte list"
  | GotFirst "usb_error + reply_ep \<times> byte list"

datatype cli_error =
    CxUsb usb_error
  | CxCommand string usb_error
  | CxProto proto_error
  | CxStore store_error
  | CxIo io_error
  | CxUnexpected string response
  | CxEnroll enroll_error
  | CxRead usb_error
  | CxSlot byte cli_error
  | CxBail string

text \<open>\<open>cl_hold\<close> tells for each look at the commit file whether it is there; used up, the user
  interrupts.\<close>

record cli =
  cl_outs :: "selected list"
  cl_ins :: "recv_round list"
  cl_firsts :: "first_selected list"
  cl_wire :: "cli_event list"
  cl_hold :: "bool list"
  cl_interrupted :: bool
  cl_fs :: fsys

type_synonym 'a xop = "cli \<Rightarrow> (cli_error + 'a) \<times> cli"
type_synonym token = "nat \<Rightarrow> bool"

definition x_bind :: "'a xop \<Rightarrow> ('a \<Rightarrow> 'b xop) \<Rightarrow> 'b xop" where
  "x_bind m k s = (case m s of (Err e, s1) \<Rightarrow> (Err e, s1) | (Ok x, s1) \<Rightarrow> k x s1)"

definition x_ok :: "'a \<Rightarrow> 'a xop" where "x_ok x s = (Ok x, s)"
definition x_err :: "cli_error \<Rightarrow> 'a xop" where "x_err e s = (Err e, s)"

definition log_event :: "cli_event \<Rightarrow> cli \<Rightarrow> cli" where
  "log_event e s = s\<lparr>cl_wire := cl_wire s @ [e]\<rparr>"

definition fired :: "token \<Rightarrow> cli \<Rightarrow> bool" where
  "fired cancel s \<longleftrightarrow> cl_interrupted s \<or> list_ex cancel [0..<Suc (length (cl_wire s))]"

text \<open>\<open>Device::send\<close>, \<open>recv\<close>, \<open>recv_first\<close> and \<open>cmd\<close> are those of theory \<open>Usb\<close>, given what each
  \<open>select!\<close> meets: the token wins, and once it has fired it stays fired; a read of no bytes does not
  wait.\<close>

definition dev_send :: "token \<Rightarrow> byte list \<Rightarrow> nat \<Rightarrow> cli \<Rightarrow> (usb_error + unit) \<times> cli" where
  "dev_send cancel out timeout s =
     (if fired cancel s then (Err UCancelled, log_event (Dropped out) s)
      else (case cl_outs s of
          [] \<Rightarrow> (Ok (), log_event (Sent out (Ok ())) s)
        | sel # rest \<Rightarrow>
            (let r = usb_send timeout sel in
             (r, log_event (Sent out r)
               (s\<lparr>cl_outs := rest, cl_interrupted := cl_interrupted s \<or> sel = SelCancelled\<rparr>)))))"

definition recv_result :: "nat \<Rightarrow> nat \<Rightarrow> recv_round \<Rightarrow> usb_error + byte list" where
  "recv_result len timeout r =
     (case usb_recv len timeout [r] of Some (res, _) \<Rightarrow> res | None \<Rightarrow> Err (UTimeout timeout))"

definition dev_recv :: "token \<Rightarrow> reply_ep \<Rightarrow> nat \<Rightarrow> nat \<Rightarrow> cli \<Rightarrow> (usb_error + byte list) \<times> cli" where
  "dev_recv cancel ep len timeout s =
     (if len = 0 then (Ok [], s)
      else if fired cancel s then (Err UCancelled, log_event (Got ep len (Err UCancelled)) s)
      else (case cl_ins s of
          [] \<Rightarrow> (Err (UTimeout timeout), log_event (Got ep len (Err (UTimeout timeout))) s)
        | round # rest \<Rightarrow>
            (let r = recv_result len timeout round in
             (r, log_event (Got ep len r)
               (s\<lparr>cl_ins := rest, cl_interrupted := cl_interrupted s \<or> round = Posted SelCancelled\<rparr>)))))"

definition dev_recv_first :: "token \<Rightarrow> nat \<Rightarrow> nat \<Rightarrow> cli \<Rightarrow> (usb_error + reply_ep \<times> byte list) \<times> cli" where
  "dev_recv_first cancel len timeout s =
     (if fired cancel s then (Err UCancelled, log_event (GotFirst (Err UCancelled)) s)
      else (case cl_firsts s of
          [] \<Rightarrow> (Err (UTimeout timeout), log_event (GotFirst (Err (UTimeout timeout))) s)
        | sel # rest \<Rightarrow>
            (let r = snd (usb_recv_first EpStatus EpTouchWait len timeout sel) in
             (r, log_event (GotFirst r)
               (s\<lparr>cl_firsts := rest, cl_interrupted := cl_interrupted s \<or> sel = FirstCancelled\<rparr>)))))"

definition dev_cmd :: "token \<Rightarrow> byte list \<Rightarrow> reply_ep \<Rightarrow> nat \<Rightarrow> nat \<Rightarrow> cli \<Rightarrow> (usb_error + byte list) \<times> cli" where
  "dev_cmd cancel out ep len timeout s =
     (case dev_send cancel out timeout s of
        (Err e, s1) \<Rightarrow> (Err e, s1)
      | (Ok _, s1) \<Rightarrow> dev_recv cancel ep len timeout s1)"

text \<open>The question mark on a transport error.\<close>

definition x_usb :: "(cli \<Rightarrow> (usb_error + 'a) \<times> cli) \<Rightarrow> 'a xop" where
  "x_usb m s = (case m s of (r, s1) \<Rightarrow> (map_sum CxUsb id r, s1))"

subsection \<open>Commands\<close>

definition send_waiting :: "token \<Rightarrow> command \<Rightarrow> nat \<Rightarrow> (byte list \<times> response) xop" where
  "send_waiting cancel cmd timeout s =
     (case dev_cmd cancel (encode cmd) (reply_endpoint cmd) (expected_len cmd) timeout s of
        (r, s1) \<Rightarrow>
          (case (case r of
               Ok bytes \<Rightarrow> Ok bytes
             | Err (ShortRead _ _ data) \<Rightarrow> Ok data
             | Err e \<Rightarrow> Err (CxCommand (cmd_name cmd) e)) of
             Err e \<Rightarrow> (Err e, s1)
           | Ok raw \<Rightarrow>
               (case parse cmd raw of
                  Err e \<Rightarrow> (Err (CxProto e), s1)
                | Ok parsed \<Rightarrow> (Ok (raw, parsed), s1))))"

definition cli_send :: "token \<Rightarrow> command \<Rightarrow> (byte list \<times> response) xop" where
  "cli_send cancel cmd = send_waiting cancel cmd (cmd_timeout cmd)"

text \<open>Open, run, and on failure send \<open>abort\<close>, whose own failure is only printed.\<close>

definition cli_session :: "token \<Rightarrow> usb_error + unit \<Rightarrow> unit xop \<Rightarrow> unit xop" where
  "cli_session cancel opened job s =
     (case opened of
        Err e \<Rightarrow> (Err (CxUsb e), s)
      | Ok _ \<Rightarrow>
          (case job s of
             (Err e, s1) \<Rightarrow> (Err e, snd (cli_send cancel CAbort s1))
           | (Ok _, s1) \<Rightarrow> (Ok (), s1)))"

definition cli_fw_ver :: "token \<Rightarrow> unit xop" where
  "cli_fw_ver cancel = x_bind (cli_send cancel CFwVersion) (\<lambda>_. x_ok ())"

definition cli_info :: "token \<Rightarrow> unit xop" where
  "cli_info cancel =
     x_bind (cli_fw_ver cancel) (\<lambda>_.
     x_bind (cli_send cancel CSensorSize) (\<lambda>_.
     x_bind (cli_send cancel CEnrolledNum) (\<lambda>_. x_ok ())))"

definition cli_prime :: "token \<Rightarrow> bool \<Rightarrow> unit xop" where
  "cli_prime cancel prime =
     (if prime then x_bind (cli_send cancel CEnrolledNum) (\<lambda>_. x_ok ()) else x_ok ())"

definition cli_finger_info :: "token \<Rightarrow> byte \<Rightarrow> bool \<Rightarrow> unit xop" where
  "cli_finger_info cancel fid prime =
     x_bind (cli_prime cancel prime) (\<lambda>_.
     x_bind (cli_send cancel (CFingerInfo fid)) (\<lambda>_. x_ok ()))"

definition touch_timeout :: "nat option \<Rightarrow> command \<Rightarrow> nat" where
  "touch_timeout wait cmd = (case wait of Some w \<Rightarrow> w | None \<Rightarrow> cmd_timeout cmd)"

definition one_verify :: "token \<Rightarrow> nat option \<Rightarrow> bool \<Rightarrow> unit xop" where
  "one_verify cancel wait dual =
     (if dual then
        x_bind (x_usb (dev_send cancel (encode CVerify) 1)) (\<lambda>_.
        x_bind (x_usb (dev_recv_first cancel (expected_len CVerify) (touch_timeout wait CVerify))) (\<lambda>(ep, bytes) s.
          (case parse CVerify bytes of Err e \<Rightarrow> (Err (CxProto e), s) | Ok _ \<Rightarrow> (Ok (), s))))
      else x_bind (send_waiting cancel CVerify (touch_timeout wait CVerify)) (\<lambda>_. x_ok ()))"

primrec verify_rounds :: "token \<Rightarrow> nat option \<Rightarrow> bool \<Rightarrow> nat \<Rightarrow> unit xop" where
  "verify_rounds cancel wait dual 0 = x_ok ()"
| "verify_rounds cancel wait dual (Suc n) =
     x_bind (one_verify cancel wait dual) (\<lambda>_. verify_rounds cancel wait dual n)"

definition cli_verify :: "token \<Rightarrow> nat option \<Rightarrow> bool \<Rightarrow> bool \<Rightarrow> byte \<Rightarrow> unit xop" where
  "cli_verify cancel wait dual prime repeat =
     x_bind (cli_prime cancel prime) (\<lambda>_. verify_rounds cancel wait dual (unat repeat))"

text \<open>\<open>abort_alone\<close>: no reply is not an error.\<close>

definition abort_alone :: "token \<Rightarrow> nat option \<Rightarrow> unit xop" where
  "abort_alone cancel wait s = (Ok (), snd (send_waiting cancel CAbort (touch_timeout wait CAbort) s))"

fun slot_scan :: "token \<Rightarrow> byte list \<Rightarrow> unit xop" where
  "slot_scan cancel [] = x_ok ()"
| "slot_scan cancel (i # ids) = x_bind (cli_send cancel (CFingerInfo i)) (\<lambda>_. slot_scan cancel ids)"

definition cli_slots :: "token \<Rightarrow> byte \<Rightarrow> bool \<Rightarrow> unit xop" where
  "cli_slots cancel last_id prime =
     x_bind (cli_prime cancel prime) (\<lambda>_. slot_scan cancel (byte_range 0 last_id))"

fun describe :: "slot_state \<Rightarrow> string" where
  "describe SlotEmpty = ''empty''"
| "describe SlotStuck = ''byte 1 is 0xff, sensor in the stuck state''"
| "describe (SlotError code) = ''error 0x'' @ hex_byte code"
| "describe (SlotEnrolled raw) = ''enrolled, '' @ hex raw"

text \<open>\<open>probe\<close> opens, and on request waits for a read that nothing answers.\<close>

definition probe :: "token \<Rightarrow> usb_error + unit \<Rightarrow> bool \<Rightarrow> unit xop" where
  "probe cancel opened check_timeout s =
     (case opened of
        Err e \<Rightarrow> (Err (CxUsb e), s)
      | Ok _ \<Rightarrow> (Ok (), if check_timeout then snd (dev_recv cancel EpStatus 2 1 s) else s))"

subsection \<open>Enrolling\<close>

text \<open>The plan: the bytes, in the order they are printed.\<close>

definition enroll_plan :: "byte \<Rightarrow> byte list list" where
  "enroll_plan slot =
     [encode CEnrolledNum, encode CVerify] @
     map (\<lambda>n. encode (CEnroll slot TOTAL_ENROLL_ATTEMPTS n))
       (map word_of_nat [0..<unat TOTAL_ENROLL_ATTEMPTS]) @
     [encode CCheckCollision, encode (commit_cmd (sub_id slot))]"

definition machine_round :: "token \<Rightarrow> byte list \<Rightarrow> reply_ep \<Rightarrow> nat \<Rightarrow> nat \<Rightarrow> byte list xop" where
  "machine_round cancel out ep len timeout =
     x_bind (x_usb (dev_send cancel out 1)) (\<lambda>_ s.
       case dev_recv cancel ep len timeout s of
         (Ok bytes, s1) \<Rightarrow> (Ok bytes, s1)
       | (Err (ShortRead _ _ data), s1) \<Rightarrow> (Ok data, s1)
       | (Err e, s1) \<Rightarrow> (Err (CxRead e), s1))"

text \<open>Each turn looks for the file first, then at the token, which wins over the sleep.\<close>

fun hold_loop :: "bool \<Rightarrow> bool list \<Rightarrow> cli_error option \<times> bool list" where
  "hold_loop stop [] = (Some (CxBail ''cancelled during hold, aborting''), [])"
| "hold_loop stop (there # rest) =
     (if there then (None, rest)
      else if stop then (Some (CxBail ''cancelled during hold, aborting''), rest)
      else hold_loop stop rest)"

definition wait_for_go :: "token \<Rightarrow> unit xop" where
  "wait_for_go cancel s =
     (case hold_loop (fired cancel s) (cl_hold s) of
        (None, rest) \<Rightarrow> (Ok (), s\<lparr>cl_hold := rest\<rparr>)
      | (Some e, rest) \<Rightarrow> (Err e, s\<lparr>cl_hold := rest, cl_interrupted := True\<rparr>))"

text \<open>Half a second, zero in whole seconds, on the status endpoint; whatever comes is only printed.\<close>

definition drain_trailing :: "token \<Rightarrow> cli \<Rightarrow> cli" where
  "drain_trailing cancel s = snd (dev_recv cancel EpStatus 64 0 s)"

lemma recv_result_once: "0 < len \<Longrightarrow> recv_result len timeout r = recv_once len timeout r"
  by (simp add: recv_result_def recv_is_one_round)

lemma dev_recv_ins: "dev_recv cancel ep len timeout s = (r, s') \<Longrightarrow> length (cl_ins s') \<le> length (cl_ins s)"
  by (auto simp: dev_recv_def log_event_def Let_def split: if_splits list.splits)

lemma dev_recv_data:
  assumes "dev_recv cancel ep len timeout s = (r, s')" "0 < len" "r = Ok d \<or> r = Err (ShortRead x y d)"
  shows "length (cl_ins s') < length (cl_ins s)"
  using assms by (auto simp: dev_recv_def log_event_def Let_def split: if_splits list.splits)

lemma usb_send_result: "usb_send timeout sel \<noteq> Err (ShortRead x y d)"
proof -
  have "usb_from_transfer e \<noteq> ShortRead x y d" for e by (cases e) auto
  then show ?thesis by (auto simp: usb_send_def split: selected.split sum.split)
qed

lemma dev_send_ins: "dev_send cancel out timeout s = (r, s') \<Longrightarrow> cl_ins s' = cl_ins s"
  by (auto simp: dev_send_def log_event_def Let_def split: if_splits list.splits)

lemma dev_send_not_short: "dev_send cancel out timeout s \<noteq> (Err (ShortRead x y d), s')"
  using usb_send_result by (auto simp: dev_send_def Let_def split: list.splits)

lemma machine_round_ins:
  assumes "machine_round cancel out ep len timeout s = (Ok raw, s')" "0 < len"
  shows "length (cl_ins s') < length (cl_ins s)"
proof -
  obtain r1 s1 where 1: "dev_send cancel out 1 s = (r1, s1)" by fastforce
  obtain r2 s2 where 2: "dev_recv cancel ep len timeout s1 = (r2, s2)" by fastforce
  have "s' = s2 \<and> (\<exists>x y d. r2 = Ok d \<or> r2 = Err (ShortRead x y d))"
    using assms(1) 1 2 by (auto simp: machine_round_def x_bind_def x_usb_def split: sum.splits usb_error.splits)
  then show ?thesis using dev_recv_data [OF 2 assms(2)] dev_send_ins [OF 1] by metis
qed

lemma send_waiting_ins:
  assumes "send_waiting cancel cmd timeout s = (Ok x, s')" "0 < expected_len cmd"
  shows "length (cl_ins s') < length (cl_ins s)"
proof -
  obtain r1 s1 where 1: "dev_send cancel (encode cmd) timeout s = (r1, s1)" by fastforce
  obtain r2 s2 where 2: "dev_recv cancel (reply_endpoint cmd) (expected_len cmd) timeout s1 = (r2, s2)" by fastforce
  have "s' = s2 \<and> (\<exists>x y d. r2 = Ok d \<or> r2 = Err (ShortRead x y d))"
    using assms(1) 1 2 dev_send_not_short
    by (auto simp: send_waiting_def dev_cmd_def split: sum.splits usb_error.splits prod.splits)
  then show ?thesis using dev_recv_data [OF 2 assms(2)] dev_send_ins [OF 1] by metis
qed

text \<open>The pre-check: the finger must be new to the chip.\<close>

function precheck :: "token \<Rightarrow> nat \<Rightarrow> unit xop" where
  "precheck cancel wait s =
     (case send_waiting cancel CVerify wait s of
        (Err e, s1) \<Rightarrow> (Err e, s1)
      | (Ok (_, parsed), s1) \<Rightarrow>
          (case parsed of
             RVerify _ NotEnrolled \<Rightarrow> (Ok (), s1)
           | RVerify _ (StRetry r) \<Rightarrow> precheck cancel wait s1
           | RVerify _ (StOk i) \<Rightarrow>
               (Err (CxBail (''finger already enrolled as id '' @ show_nat (unat i) @ '', stopping'')), s1)
           | RVerify b st \<Rightarrow> (Err (CxUnexpected ''pre-check'' (RVerify b st)), s1)
           | other \<Rightarrow> (Err (CxUnexpected ''verify'' other), s1)))"
  by pat_completeness auto
termination
  by (relation "measure (\<lambda>(_, _, s). length (cl_ins s))") (auto dest!: sym [THEN send_waiting_ins])

declare precheck.simps [simp del]

definition is_commit :: "byte list \<Rightarrow> bool" where
  "is_commit out \<longleftrightarrow> length out = 72 \<and> starts_with out [0x40, 0xff, 0x11]"

text \<open>One round of the machine: hold, send, read, drain.\<close>

definition enroll_round :: "token \<Rightarrow> nat option \<Rightarrow> bool \<Rightarrow> byte list \<Rightarrow> reply_ep \<times> nat \<times> nat \<Rightarrow> byte list xop" where
  "enroll_round cancel touch_wait hold out want =
     (case want of (ep, len, timeout) \<Rightarrow>
        x_bind (if is_commit out \<and> hold then wait_for_go cancel else x_ok ()) (\<lambda>_.
        x_bind (machine_round cancel out ep len
            (case (ep, touch_wait) of (EpTouchWait, Some w) \<Rightarrow> w | _ \<Rightarrow> timeout)) (\<lambda>raw s.
          (Ok raw, if is_commit out then drain_trailing cancel s else s))))"

definition cli_take_send :: "string \<Rightarrow> enroll \<Rightarrow> (cli_error + byte list) \<times> enroll" where
  "cli_take_send owes m =
     (case take_send m of
        (Some (Send next), m1) \<Rightarrow> (Ok next, m1)
      | (_, m1) \<Rightarrow> (Err (CxBail owes), m1))"

lemma wait_for_go_ins: "wait_for_go cancel s = (r, s') \<Longrightarrow> cl_ins s' = cl_ins s"
  by (auto simp: wait_for_go_def split: prod.splits option.splits)

lemma enroll_round_ins:
  assumes "enroll_round cancel touch_wait hold out (ep, len, timeout) s = (Ok raw, s')" "0 < len"
  shows "length (cl_ins s') < length (cl_ins s)"
proof -
  obtain r1 s1 where 1: "(if is_commit out \<and> hold then wait_for_go cancel else x_ok ()) s = (r1, s1)" by fastforce
  let ?t = "case (ep, touch_wait) of (EpTouchWait, Some w) \<Rightarrow> w | _ \<Rightarrow> timeout"
  obtain r2 s2 where 2: "machine_round cancel out ep len ?t s1 = (r2, s2)" by fastforce
  have "cl_ins s1 = cl_ins s" using 1 by (auto simp: x_ok_def dest: wait_for_go_ins split: if_splits)
  moreover have "(\<exists>d. r2 = Ok d) \<and> s' \<in> {s2, drain_trailing cancel s2}"
    using assms(1) 1 2 by (auto simp: enroll_round_def x_bind_def split: sum.splits if_splits)
  moreover have "length (cl_ins (drain_trailing cancel s2)) \<le> length (cl_ins s2)"
    using dev_recv_ins [of cancel EpStatus 64 0 s2] by (metis drain_trailing_def prod.collapse)
  ultimately show ?thesis using machine_round_ins [of cancel out ep len ?t s1] 2 assms(2) by fastforce
qed

lemma pending_read_pos: "pending_read m = Some (ep, len, timeout) \<Longrightarrow> 0 < len"
  by (auto simp: pending_read_def pending_command_def sample_cmd_def commit_cmd_def
      split: option.splits pending.splits)

function machine_loop :: "token \<Rightarrow> nat option \<Rightarrow> bool \<Rightarrow> enroll \<Rightarrow> byte list \<Rightarrow> unit xop" where
  "machine_loop cancel touch_wait hold sm out s =
     (case pending_read sm of
        None \<Rightarrow> (Err (CxBail ''enroll machine queued bytes with no pending read''), s)
      | Some want \<Rightarrow>
          (case enroll_round cancel touch_wait hold out want s of
             (Err e, s1) \<Rightarrow> (Err e, s1)
           | (Ok raw, s1) \<Rightarrow>
               (case enroll_step sm raw of
                  (EmitProgress _ _, sm1) \<Rightarrow>
                    (case cli_take_send ''machine owes a send after progress'' sm1 of
                       (Err e, _) \<Rightarrow> (Err e, s1)
                     | (Ok next, sm2) \<Rightarrow> machine_loop cancel touch_wait hold sm2 next s1)
                | (EmitRetry _, sm1) \<Rightarrow>
                    (case cli_take_send ''machine owes a resend after retry'' sm1 of
                       (Err e, _) \<Rightarrow> (Err e, s1)
                     | (Ok next, sm2) \<Rightarrow> machine_loop cancel touch_wait hold sm2 next s1)
                | (Send next, sm1) \<Rightarrow> machine_loop cancel touch_wait hold sm1 next s1
                | (Complete _, _) \<Rightarrow> (Ok (), s1)
                | (Fail e, _) \<Rightarrow> (Err (CxEnroll e), s1))))"
  by pat_completeness auto
termination
  by (relation "measure (\<lambda>(_, _, _, _, _, s). length (cl_ins s))")
    (auto dest!: sym [THEN enroll_round_ins] dest: pending_read_pos)

declare machine_loop.simps [simp del]

definition cli_enroll :: "token \<Rightarrow> string \<Rightarrow> byte \<Rightarrow> nat option \<Rightarrow> bool \<Rightarrow> unit xop" where
  "cli_enroll cancel finger slot wait hold =
     (if finger \<notin> set FINGER_NAMES then x_err (CxBail (''unknown finger '' @ finger))
      else
        x_bind (cli_send cancel CEnrolledNum) (\<lambda>(_, parsed).
          case parsed of
            REnrolledNum before \<Rightarrow>
              x_bind (cli_send cancel (CFingerInfo slot)) (\<lambda>(_, parsed).
                case parsed of
                  RFingerInfo _ (SlotEnrolled _) \<Rightarrow>
                    x_err (CxBail (''slot '' @ show_nat (unat slot) @ '' already holds a 70 byte record, pick another''))
                | RFingerInfo _ _ \<Rightarrow>
                    x_bind (precheck cancel (touch_timeout wait CVerify)) (\<lambda>_.
                      case enroll_start (enroll_new slot) of
                        (Send out, sm) \<Rightarrow>
                          x_bind (machine_loop cancel wait hold sm out) (\<lambda>_.
                          x_bind (cli_send cancel CEnrolledNum) (\<lambda>_.
                          x_bind (cli_send cancel (CFingerInfo slot)) (\<lambda>_. x_ok ())))
                      | _ \<Rightarrow> x_err (CxBail ''enroll machine did not start with a send''))
                | other \<Rightarrow> x_err (CxUnexpected ''finger_info'' other))
          | other \<Rightarrow> x_err (CxUnexpected ''enrolled_num'' other)))"

subsection \<open>Wiping\<close>

text \<open>The terminal: whether there is one, whether the prompt can be written, and the line typed.\<close>

record terminal =
  tm_terminal :: bool
  tm_flush :: "io_error + unit"
  tm_line :: "io_error + string"

definition confirm_erase :: "terminal \<Rightarrow> unit xop" where
  "confirm_erase tm s =
     (case tm_flush tm of
        Err e \<Rightarrow> (Err (CxIo e), s)
      | Ok _ \<Rightarrow>
          (case tm_line tm of
             Err e \<Rightarrow> (Err (CxIo e), s)
           | Ok typed \<Rightarrow>
               (if trim typed \<noteq> ''ERASE'' then (Err (CxBail ''not confirmed, nothing was sent''), s)
                else (Ok (), s))))"

definition wipe_device :: "token \<Rightarrow> terminal \<Rightarrow> unit xop" where
  "wipe_device cancel tm =
     (if \<not> tm_terminal tm then x_err (CxBail ''wipe-device needs a terminal, it will not run unattended'')
      else
        x_bind (cli_send cancel CEnrolledNum) (\<lambda>(_, parsed).
          case parsed of
            REnrolledNum before \<Rightarrow>
              (if before = 0 then x_ok ()
               else
                 x_bind (confirm_erase tm) (\<lambda>_.
                 x_bind (cli_send cancel CWipeAll) (\<lambda>_.
                 x_bind (cli_send cancel CEnrolledNum) (\<lambda>(_, parsed).
                   case parsed of
                     REnrolledNum count \<Rightarrow>
                       (if count = 0 then x_ok ()
                        else x_err (CxBail (''the sensor still reports '' @ show_nat (unat count) @
                          '' template(s), erase did not complete'')))
                   | other \<Rightarrow> x_err (CxUnexpected ''enrolled_num'' other)))))
          | other \<Rightarrow> x_err (CxUnexpected ''enrolled_num'' other)))"

subsection \<open>Syncing\<close>

fun read_records :: "token \<Rightarrow> byte list \<Rightarrow> (byte \<times> slot_state) list \<Rightarrow> (byte \<times> slot_state) list xop" where
  "read_records cancel [] acc = x_ok acc"
| "read_records cancel (i # ids) acc =
     (\<lambda>s. case cli_send cancel (CFingerInfo i) s of
        (Ok (_, RFingerInfo _ state), s1) \<Rightarrow> read_records cancel ids (acc @ [(i, state)]) s1
      | (Ok (_, other), s1) \<Rightarrow> (Err (CxUnexpected ''finger_info'' other), s1)
      | (Err e, s1) \<Rightarrow> (Err (CxSlot i e), s1))"

definition cli_open_store :: "env \<Rightarrow> path \<Rightarrow> store xop" where
  "cli_open_store env path s =
     (case store_open env path (cl_fs s) of (r, fs) \<Rightarrow> (map_sum CxStore id r, s\<lparr>cl_fs := fs\<rparr>))"

definition prune_stale :: "entry_status list \<Rightarrow> store \<Rightarrow> store" where
  "prune_stale stale st = fold (\<lambda>e. store_remove (es_user e) (es_finger e)) stale st"

definition cli_sync :: "env \<Rightarrow> token \<Rightarrow> path option \<Rightarrow> bool \<Rightarrow> unit xop" where
  "cli_sync env cancel store_path prune =
     (let path = (case store_path of Some p \<Rightarrow> p | None \<Rightarrow> DEFAULT_PATH) in
      x_bind (cli_send cancel CEnrolledNum) (\<lambda>(_, parsed).
        case parsed of
          REnrolledNum count \<Rightarrow>
            x_bind (read_records cancel (byte_range 0 MAX_SLOT) []) (\<lambda>records.
            x_bind (cli_open_store env path) (\<lambda>store s.
              (let report = reconcile (st_prints store) count records in
               if prune \<and> sr_stale report \<noteq> [] then
                 (case store_save env (prune_stale (sr_stale report) store) (cl_fs s) of
                    (r, fs) \<Rightarrow> (map_sum CxStore id r, s\<lparr>cl_fs := fs\<rparr>))
               else (Ok (), s))))
        | other \<Rightarrow> x_err (CxUnexpected ''enrolled_num'' other)))"

subsection \<open>The commands of main\<close>

datatype cli_action =
    AProbe bool
  | AFwVer
  | AInfo
  | AFingerInfo byte bool
  | AVerify "nat option" bool bool byte
  | AAbort "nat option"
  | ASlots byte bool
  | ASync "path option" bool
  | AEnrollPlan byte
  | AWipeDevice
  | AEnroll string byte "nat option" bool

definition cli_main :: "env \<Rightarrow> token \<Rightarrow> terminal \<Rightarrow> usb_error + unit \<Rightarrow> cli_action \<Rightarrow> unit xop" where
  "cli_main env cancel tm opened act =
     (case act of
        AProbe check_timeout \<Rightarrow> probe cancel opened check_timeout
      | AFwVer \<Rightarrow> cli_session cancel opened (cli_fw_ver cancel)
      | AInfo \<Rightarrow> cli_session cancel opened (cli_info cancel)
      | AFingerInfo i prime \<Rightarrow> cli_session cancel opened (cli_finger_info cancel i prime)
      | AVerify wait dual prime repeat \<Rightarrow> cli_session cancel opened (cli_verify cancel wait dual prime repeat)
      | AAbort wait \<Rightarrow> cli_session cancel opened (abort_alone cancel wait)
      | ASlots last_id prime \<Rightarrow> cli_session cancel opened (cli_slots cancel last_id prime)
      | AEnrollPlan slot \<Rightarrow> x_ok ()
      | AEnroll finger slot wait hold \<Rightarrow> cli_session cancel opened (cli_enroll cancel finger slot wait hold)
      | AWipeDevice \<Rightarrow> cli_session cancel opened (wipe_device cancel tm)
      | ASync store_path prune \<Rightarrow> cli_session cancel opened (cli_sync env cancel store_path prune))"

end
