(* ===== verification/CliProps.thy ===== *)
theory CliProps
  imports Cli
begin

text \<open>
  What the command line tool does to the chip and to the store.  Every command is put together from
  transfers, so what transfers keep, commands keep: the locale says so once, and its interpretations
  are the two frames used below, which bytes are sent, and the files.
\<close>

subsection \<open>What transfers keep\<close>

locale device_frame =
  fixes rel :: "cli \<Rightarrow> cli \<Rightarrow> bool"
    and allowed :: "byte list \<Rightarrow> bool"
  assumes rel_refl: "rel s s"
    and rel_trans: "rel a b \<Longrightarrow> rel b c \<Longrightarrow> rel a c"
    and send: "allowed out \<Longrightarrow> rel s (snd (dev_send cancel out timeout s))"
    and recv: "rel s (snd (dev_recv cancel ep len timeout s))"
    and recv_first: "rel s (snd (dev_recv_first cancel len timeout s))"
    and hold: "rel s (snd (wait_for_go cancel s))"
begin

lemma bind: "(\<And>s. rel s (snd (m s))) \<Longrightarrow> (\<And>x s. rel s (snd (k x s))) \<Longrightarrow> rel s (snd (x_bind m k s))"
proof -
  assume m: "\<And>s. rel s (snd (m s))" and k: "\<And>x s. rel s (snd (k x s))"
  obtain r s1 where e: "m s = (r, s1)" by fastforce
  then have "rel s s1" using m [of s] by simp
  then show ?thesis using e k rel_trans by (cases r) (auto simp: x_bind_def)
qed

lemma unit_ops: "rel s (snd (x_ok x s))" "rel s (snd (x_err e s))"
  by (simp_all add: x_ok_def x_err_def rel_refl)

lemma usb: "rel s (snd (m s)) \<Longrightarrow> rel s (snd (x_usb m s))"
  by (cases "m s") (simp add: x_usb_def)

lemma waiting: "allowed (encode cmd) \<Longrightarrow> rel s (snd (send_waiting cancel cmd timeout s))"
proof -
  assume a: "allowed (encode cmd)"
  obtain r s1 where 1: "dev_send cancel (encode cmd) timeout s = (r, s1)" by fastforce
  have s1: "rel s s1" using send [OF a, of s cancel timeout] 1 by simp
  then have "rel s (snd (dev_recv cancel (reply_endpoint cmd) (expected_len cmd) timeout s1))"
    using recv rel_trans by blast
  then show ?thesis using 1 s1
    by (auto simp: send_waiting_def dev_cmd_def split: sum.split usb_error.split prod.split)
qed

lemma sending: "allowed (encode cmd) \<Longrightarrow> rel s (snd (cli_send cancel cmd s))"
  by (simp add: cli_send_def waiting)

lemma prime: "allowed (encode CEnrolledNum) \<Longrightarrow> rel s (snd (cli_prime cancel p s))"
  by (simp add: cli_prime_def bind sending unit_ops)

lemma scan: "(\<And>i. allowed (encode (CFingerInfo i))) \<Longrightarrow> rel s (snd (slot_scan cancel ids s))"
  by (induction ids arbitrary: s) (auto simp del: encode.simps intro!: bind sending unit_ops)

lemma one_verify: "allowed (encode CVerify) \<Longrightarrow> rel s (snd (one_verify cancel wait dual s))"
proof -
  assume a: "allowed (encode CVerify)"
  have "rel t (snd ((\<lambda>(ep, bytes) s.
      case parse CVerify bytes of Err e \<Rightarrow> (Err (CxProto e), s) | Ok _ \<Rightarrow> (Ok (), s)) x t))" for x t
    by (auto simp: rel_refl split: prod.split sum.split)
  then show ?thesis using a
    by (auto simp del: encode.simps simp: one_verify_def intro!: bind usb waiting unit_ops send recv_first)
qed

lemma verify_rounds: "allowed (encode CVerify) \<Longrightarrow> rel s (snd (verify_rounds cancel wait dual n s))"
  by (induction n arbitrary: s) (auto simp del: encode.simps intro!: bind one_verify unit_ops)

lemma session:
  assumes "allowed (encode CAbort)" "\<And>s. rel s (snd (job s))"
  shows "rel s (snd (cli_session cancel opened job s))"
proof (cases opened)
  case (Inr u)
  obtain r s1 where j: "job s = (r, s1)" by fastforce
  then have s1: "rel s s1" using assms(2) [of s] by simp
  then show ?thesis using Inr j rel_trans [OF s1 sending [OF assms(1)]]
    by (cases r) (auto simp: cli_session_def)
qed (simp add: cli_session_def rel_refl)

lemma precheck: "allowed (encode CVerify) \<Longrightarrow> rel s (snd (precheck cancel wait s))"
proof (induction cancel wait s rule: precheck.induct)
  case (1 cancel wait s)
  obtain r s1 where w: "send_waiting cancel CVerify wait s = (r, s1)" by fastforce
  have s1: "rel s s1" using waiting [OF 1(2), of s cancel wait] w by simp
  show ?case
  proof (cases "\<exists>raw b t. r = Ok (raw, RVerify b (StRetry t))")
    case True
    then obtain raw b t where r: "r = Ok (raw, RVerify b (StRetry t))" by blast
    then have "rel s1 (snd (precheck cancel wait s1))" using 1 w by fastforce
    moreover have "precheck cancel wait s = precheck cancel wait s1"
      using w r by (subst precheck.simps) simp
    ultimately show ?thesis using rel_trans [OF s1] by simp
  next
    case False
    then have "snd (precheck cancel wait s) = s1"
      using w by (subst precheck.simps) (auto split: sum.split response.split status.split)
    then show ?thesis using s1 by simp
  qed
qed

lemma records: "(\<And>i. allowed (encode (CFingerInfo i))) \<Longrightarrow> rel s (snd (read_records cancel ids acc s))"
proof (induction ids arbitrary: s acc)
  case (Cons i ids)
  obtain r s1 where 1: "cli_send cancel (CFingerInfo i) s = (r, s1)" by fastforce
  have s1: "rel s s1" using sending [OF Cons.prems, of s cancel i] 1 by simp
  show ?case
  proof (cases "\<exists>raw b st. r = Ok (raw, RFingerInfo b st)")
    case True
    then obtain raw b st where "r = Ok (raw, RFingerInfo b st)" by blast
    then show ?thesis using 1 rel_trans [OF s1 Cons.IH [OF Cons.prems]] by simp
  next
    case False
    then show ?thesis using 1 s1 by (auto split: sum.split response.split)
  qed
qed (simp add: unit_ops)

lemma queries:
  assumes "\<And>c. c \<in> {CFwVersion, CSensorSize, CEnrolledNum, CVerify, CAbort} \<Longrightarrow> allowed (encode c)"
    and "\<And>i. allowed (encode (CFingerInfo i))"
  shows "rel s (snd (cli_fw_ver cancel s))" "rel s (snd (cli_info cancel s))"
    "rel s (snd (cli_finger_info cancel i p s))" "rel s (snd (cli_verify cancel w d p n s))"
    "rel s (snd (abort_alone cancel w s))" "rel s (snd (cli_slots cancel i p s))"
    "rel s (snd (probe cancel opened t s))"
proof -
  have cmds: "rel s (snd (cli_send cancel c s))" if "c \<in> {CFwVersion, CSensorSize, CEnrolledNum, CVerify, CAbort}" for c s
    using assms(1) [OF that] by (rule sending)
  have fw: "rel s (snd (cli_fw_ver cancel s))" for s
    unfolding cli_fw_ver_def by (intro bind cmds unit_ops) simp
  then show "rel s (snd (cli_fw_ver cancel s))" .
  show "rel s (snd (cli_info cancel s))"
    unfolding cli_info_def by (intro bind fw cmds unit_ops) simp_all
  have pr: "rel s (snd (cli_prime cancel p s))" for s by (intro prime assms(1)) simp
  then show "rel s (snd (cli_finger_info cancel i p s))"
    unfolding cli_finger_info_def by (intro bind sending assms(2) unit_ops)
  show "rel s (snd (cli_verify cancel w d p n s))"
    unfolding cli_verify_def by (intro bind pr verify_rounds assms(1)) simp
  show "rel s (snd (abort_alone cancel w s))"
    unfolding abort_alone_def snd_conv by (intro waiting assms(1)) simp
  show "rel s (snd (cli_slots cancel i p s))"
    unfolding cli_slots_def by (intro bind pr scan assms(2))
  show "rel s (snd (probe cancel opened t s))"
    by (simp add: probe_def rel_refl recv split: sum.split)
qed

lemma round: "allowed out \<Longrightarrow> rel s (snd (enroll_round cancel touch_wait hold out want s))"
proof -
  assume a: "allowed out"
  have m: "rel t (snd (machine_round cancel out ep len tmo t))" for t ep len tmo
  proof -
    have "rel u (snd ((\<lambda>s. case dev_recv cancel ep len tmo s of
        (Ok bytes, s1) \<Rightarrow> (Ok bytes, s1)
      | (Err (ShortRead _ _ data), s1) \<Rightarrow> (Ok data, s1)
      | (Err e, s1) \<Rightarrow> (Err (CxRead e), s1)) u))" for u
      using recv [of u cancel ep len tmo] by (auto split: prod.split sum.split usb_error.split)
    then show ?thesis unfolding machine_round_def by (intro bind usb send [OF a])
  qed
  have d: "rel t (snd ((\<lambda>raw s. (Ok raw, if is_commit out then drain_trailing cancel s else s)) raw t))" for raw t
    using recv [of t cancel EpStatus 64 0] by (auto simp: drain_trailing_def rel_refl)
  obtain ep len timeout where "want = (ep, len, timeout)" by (cases want) auto
  moreover have "rel t (snd ((if is_commit out \<and> hold then wait_for_go cancel else x_ok ()) t))" for t
    using hold unit_ops by auto
  ultimately show ?thesis using m d by (simp add: enroll_round_def bind)
qed

end

subsection \<open>Bytes sent\<close>

fun event_bytes :: "cli_event \<Rightarrow> byte list list" where
  "event_bytes (Sent out _) = [out]"
| "event_bytes (Dropped _) = []"
| "event_bytes (Got _ _ _) = []"
| "event_bytes (GotFirst _) = []"

definition sent_of :: "cli_event list \<Rightarrow> byte list list" where
  "sent_of es = concat (map event_bytes es)"

lemma sent_of_append [simp]: "sent_of (es @ fs) = sent_of es @ sent_of fs"
  by (simp add: sent_of_def)

lemma sent_of_simps [simp]: "sent_of [] = []" "sent_of (e # es) = event_bytes e @ sent_of es"
  by (simp_all add: sent_of_def)

definition sends_only :: "(byte list \<Rightarrow> bool) \<Rightarrow> cli \<Rightarrow> cli \<Rightarrow> bool" where
  "sends_only P a b \<longleftrightarrow> (\<exists>es. cl_wire b = cl_wire a @ es \<and> list_all P (sent_of es))"

text \<open>The files are left alone.\<close>

definition keeps_files :: "cli \<Rightarrow> cli \<Rightarrow> bool" where
  "keeps_files a b \<longleftrightarrow> cl_fs b = cl_fs a"

lemma dev_send_wire:
  "\<exists>e. cl_wire (snd (dev_send cancel out timeout s)) = cl_wire s @ [e] \<and> event_bytes e \<in> {[], [out]} \<and>
     (\<forall>u. fst (dev_send cancel out timeout s) = Ok u \<longrightarrow> event_bytes e = [out])"
  by (auto simp: dev_send_def log_event_def Let_def split: list.split)

lemma dev_recv_wire:
  "\<exists>es. cl_wire (snd (dev_recv cancel ep len timeout s)) = cl_wire s @ es \<and> sent_of es = []"
  by (auto simp: dev_recv_def log_event_def Let_def split: list.split)

interpretation sends: device_frame "sends_only P" P for P
proof
  fix s show "sends_only P s s" by (simp add: sends_only_def)
next
  fix a b c assume "sends_only P a b" "sends_only P b c"
  then show "sends_only P a c" by (force simp: sends_only_def)
next
  fix out s cancel timeout assume "P out"
  then show "sends_only P s (snd (dev_send cancel out timeout s))"
    using dev_send_wire [of cancel out timeout s] by (force simp: sends_only_def)
next
  fix s cancel ep len timeout
  show "sends_only P s (snd (dev_recv cancel ep len timeout s))"
    using dev_recv_wire [of cancel ep len timeout s] by (force simp: sends_only_def)
next
  fix s cancel len timeout
  show "sends_only P s (snd (dev_recv_first cancel len timeout s))"
    by (auto simp: sends_only_def dev_recv_first_def log_event_def Let_def split: list.split)
next
  fix s cancel
  show "sends_only P s (snd (wait_for_go cancel s))"
    by (auto simp: sends_only_def wait_for_go_def split: prod.split option.split)
qed

interpretation still: device_frame keeps_files "\<lambda>_. True"
  by unfold_locales
    (auto simp: keeps_files_def dev_send_def dev_recv_def dev_recv_first_def wait_for_go_def log_event_def Let_def
      split: list.split prod.split option.split)

subsection \<open>An enrolment follows its plan\<close>

text \<open>The bytes still to be sent by a machine.\<close>

definition plan_from :: "enroll \<Rightarrow> byte list list" where
  "plan_from m =
     (case en_pending m of
        Some PSample \<Rightarrow>
          map (\<lambda>n. encode (CEnroll (en_slot m) (en_needed m) n))
            (map word_of_nat [unat (en_collected m)..<unat (en_needed m)]) @
          [encode CCheckCollision, encode (commit_cmd (sub_id (en_slot m)))]
      | Some PCollision \<Rightarrow> [encode CCheckCollision, encode (commit_cmd (sub_id (en_slot m)))]
      | Some PCommit \<Rightarrow> [encode (commit_cmd (sub_id (en_slot m)))]
      | None \<Rightarrow> [])"

text \<open>A machine under way: the bytes to send next are those of what is pending, and a sample is owed.\<close>

definition on_plan :: "byte \<Rightarrow> byte list \<Rightarrow> enroll \<Rightarrow> bool" where
  "on_plan slot out m \<longleftrightarrow>
     enroll_inv m \<and> en_slot m = slot \<and> en_needed m = TOTAL_ENROLL_ATTEMPTS \<and>
     map_option encode (pending_command m) = Some out \<and>
     (en_pending m = Some PSample \<longrightarrow> en_collected m < en_needed m)"

lemma plan_from_start: "plan_from (snd (enroll_start (enroll_new slot))) = drop 2 (enroll_plan slot)"
  by (simp add: plan_from_def enroll_start_def enroll_queue_def enroll_new_def with_total_def Let_def
      enroll_plan_def)

lemma on_plan_start: "on_plan slot (encode (CEnroll slot TOTAL_ENROLL_ATTEMPTS 0)) (snd (enroll_start (enroll_new slot)))"
  using enroll_inv_start [of "enroll_new slot"]
  by (simp add: on_plan_def enroll_new_def with_total_def enroll_start_def enroll_queue_def Let_def
      pending_command_def sample_cmd_def TOTAL_ENROLL_ATTEMPTS_def DEFAULT_ENROLL_STAGES_def)

lemma plan_sample:
  assumes "en_pending m = Some PSample" "en_collected m < en_needed m"
  shows "plan_from m = encode (sample_cmd m) #
    plan_from (m\<lparr>en_collected := en_collected m + 1,
      en_pending := Some (if en_needed m \<le> en_collected m + 1 then PCollision else PSample)\<rparr>)"
proof -
  let ?c = "en_collected m" and ?n = "en_needed m"
  have lt: "unat ?c < unat ?n" using assms(2) by (simp add: byte_less_unat)
  then have suc: "unat (?c + 1) = Suc (unat ?c)"
    using unat_byte_Suc [OF assms(2)] by simp
  have range: "[unat ?c..<unat ?n] = unat ?c # [Suc (unat ?c)..<unat ?n]" using lt by (simp add: upt_rec)
  have "?n \<le> ?c + 1 \<longleftrightarrow> unat ?n = Suc (unat ?c)" using lt suc by (auto simp: byte_le_unat)
  then show ?thesis using assms(1) range suc by (auto simp: plan_from_def sample_cmd_def)
qed

lemma plan_hd:
  assumes "on_plan slot out m"
  obtains rest where "plan_from m = out # rest"
proof (cases "en_pending m")
  case None
  then show thesis using assms by (simp add: on_plan_def pending_command_def)
next
  case (Some p)
  then show thesis using assms that plan_sample [of m]
    by (cases p) (auto simp: on_plan_def pending_command_def plan_from_def)
qed

lemma plan_subset:
  assumes "en_slot m = slot" "en_needed m = TOTAL_ENROLL_ATTEMPTS"
  shows "set (plan_from m) \<subseteq> set (enroll_plan slot)"
proof (cases "en_pending m")
  case (Some p)
  then show ?thesis using assms by (cases p) (auto simp: plan_from_def enroll_plan_def)
qed (simp add: plan_from_def)

text \<open>What a reply does to a machine that is on its plan.\<close>

lemma plan_step:
  assumes "on_plan slot out m"
  shows "case enroll_step m raw of
      (EmitProgress _ _, m1) \<Rightarrow> (\<exists>next m2. cli_take_send owes m1 = (Ok next, m2) \<and> on_plan slot next m2 \<and>
        plan_from m = out # plan_from m2 \<and> next \<noteq> out)
    | (EmitRetry _, m1) \<Rightarrow> (\<exists>m2. cli_take_send owes m1 = (Ok out, m2) \<and> on_plan slot out m2 \<and>
        plan_from m2 = plan_from m)
    | (Send next, m1) \<Rightarrow> on_plan slot next m1 \<and> plan_from m = out # plan_from m1 \<and> next \<noteq> out
    | (Complete i, _) \<Rightarrow> plan_from m = [out] \<and> i = slot
    | (Fail _, _) \<Rightarrow> True"
proof (cases m raw rule: enroll_step_cases)
  case good
  let ?c = "en_collected m" and ?m1 = "snd (enroll_step m raw)"
  let ?cmd = "if en_needed m \<le> ?c + 1 then CCheckCollision else CEnroll (en_slot m) (en_needed m) (?c + 1)"
  have lt: "?c < en_needed m" using assms good(1) unfolding on_plan_def by blast
  have out: "out = encode (sample_cmd m)" using assms good(1) by (simp add: on_plan_def pending_command_def)
  have step: "enroll_step m raw = (EmitProgress (?c + 1) (en_needed m), ?m1)"
    "cli_take_send owes ?m1 = (Ok (encode ?cmd), ?m1\<lparr>en_send_buf := None\<rparr>)"
    using good by (simp_all add: step_sample_good cli_take_send_def take_send_def)
  have "enroll_inv (snd (take_send ?m1))"
    using assms enroll_inv_step [of m raw] enroll_inv_take_send by (simp add: on_plan_def)
  then have "on_plan slot (encode ?cmd) (?m1\<lparr>en_send_buf := None\<rparr>)"
    using assms good lt by (auto simp: take_send_def on_plan_def step_sample_good pending_command_def sample_cmd_def)
  moreover have "plan_from m = out # plan_from (?m1\<lparr>en_send_buf := None\<rparr>)"
    using plan_sample [OF good(1) lt] good out by (simp add: step_sample_good plan_from_def)
  moreover have "encode ?cmd \<noteq> out" using out by (simp add: sample_cmd_def)
  ultimately show ?thesis using step(2) by (subst step(1)) auto
next
  case (retry r)
  let ?m1 = "snd (enroll_step m raw)"
  have out: "out = encode (sample_cmd m)" using assms retry(1) by (simp add: on_plan_def pending_command_def)
  have step: "enroll_step m raw = (EmitRetry r, ?m1)"
    "cli_take_send owes ?m1 = (Ok out, ?m1\<lparr>en_send_buf := None\<rparr>)"
    using retry out by (simp_all add: step_sample_retry cli_take_send_def take_send_def)
  have "enroll_inv (snd (take_send ?m1))"
    using assms enroll_inv_step [of m raw] enroll_inv_take_send by (simp add: on_plan_def)
  then have "on_plan slot out (?m1\<lparr>en_send_buf := None\<rparr>)"
    using assms retry out by (auto simp: take_send_def on_plan_def step_sample_retry pending_command_def sample_cmd_def)
  moreover have "plan_from (?m1\<lparr>en_send_buf := None\<rparr>) = plan_from m"
    using retry by (simp add: step_sample_retry plan_from_def)
  ultimately show ?thesis using step(2) by (subst step(1)) auto
next
  case clear
  then show ?thesis using assms enroll_inv_step [of m raw]
    by (auto simp: step_collision_clear on_plan_def pending_command_def plan_from_def commit_cmd_def)
next
  case commit
  then show ?thesis using assms
    by (auto simp: step_commit_good on_plan_def pending_command_def plan_from_def)
next
  case (fail e)
  then show ?thesis by (simp add: enroll_fail_def)
qed

text \<open>
  The exchanges that count: every transfer out but those whose touch was rejected, that is whose answer,
  right after it on the touch-wait endpoint, is one of the three that ask for the finger again.
\<close>

definition rejected :: "reply_ep \<Rightarrow> byte list \<Rightarrow> bool" where
  "rejected ep raw \<longleftrightarrow>
     ep = EpTouchWait \<and> length raw = 2 \<and> (case classify (raw ! 1) of StRetry _ \<Rightarrow> True | _ \<Rightarrow> False)"

fun answer_data :: "usb_error + byte list \<Rightarrow> byte list" where
  "answer_data (Ok data) = data"
| "answer_data (Err (ShortRead _ _ data)) = data"
| "answer_data (Err _) = []"

fun counted :: "cli_event list \<Rightarrow> byte list list" where
  "counted (Sent out _ # Got ep _ r # rest) =
     (if rejected ep (answer_data r) then counted rest else out # counted rest)"
| "counted (e # rest) = event_bytes e @ counted rest"
| "counted [] = []"

lemma rejected_retry: "rejected EpTouchWait raw = retry_reply raw"
  by (auto simp: rejected_def retry_reply_def classify_retry_iff split: status.split)

lemma rejected_status [simp]: "\<not> rejected EpStatus raw"
  by (simp add: rejected_def)

text \<open>A transfer out and its answer.\<close>

lemma dev_recv_got:
  assumes "dev_recv cancel ep len timeout s = (r, s')" "0 < len"
  shows "cl_wire s' = cl_wire s @ [Got ep len r]"
  using assms by (auto simp: dev_recv_def log_event_def Let_def split: if_splits list.splits)

lemma dev_send_sent: "dev_send cancel out timeout s = (Ok u, s') \<Longrightarrow> cl_wire s' = cl_wire s @ [Sent out (Ok ())]"
  by (auto simp: dev_send_def log_event_def Let_def split: if_splits list.splits)

text \<open>What a reply on the plan means: only a rejected touch is asked for again.\<close>

lemma plan_rejects:
  assumes "on_plan slot out m" "pending_read m = Some (ep, len, timeout)"
  shows "case fst (enroll_step m raw) of Fail _ \<Rightarrow> True | act \<Rightarrow> rejected ep raw = (\<exists>r. act = EmitRetry r)"
proof (cases m raw rule: enroll_step_cases)
  case good
  then have "ep = EpTouchWait" using assms(2) by (auto simp: pending_read_def pending_command_def sample_cmd_def)
  then show ?thesis using good good_not_retry [OF good(2)] by (simp add: step_sample_good rejected_retry)
next
  case (retry r)
  then have "ep = EpTouchWait" using assms(2) by (auto simp: pending_read_def pending_command_def sample_cmd_def)
  then show ?thesis using retry by (auto simp: step_sample_retry rejected_retry retry_reply_def)
next
  case clear
  then have "ep = EpStatus" using assms(2) by (auto simp: pending_read_def pending_command_def)
  then show ?thesis using clear by (simp add: step_collision_clear)
next
  case commit
  then have "ep = EpStatus" using assms(2) by (auto simp: pending_read_def pending_command_def commit_cmd_def)
  then show ?thesis using commit by (simp add: step_commit_good)
next
  case (fail e)
  then show ?thesis by (simp add: enroll_fail_def)
qed

lemma round_counts:
  assumes "enroll_round cancel touch_wait hold out (ep, len, timeout) s = (Ok raw, s')" "0 < len"
    "cl_wire s' = cl_wire s @ es"
  shows "counted (es @ rest) = (if rejected ep raw then counted rest else out # counted rest)"
proof -
  obtain r1 s1 where 1: "(if is_commit out \<and> hold then wait_for_go cancel else x_ok ()) s = (r1, s1)" by fastforce
  have w1: "cl_wire s1 = cl_wire s"
    using 1 by (auto simp: x_ok_def wait_for_go_def split: if_splits prod.splits option.splits)
  let ?t = "case (ep, touch_wait) of (EpTouchWait, Some w) \<Rightarrow> w | _ \<Rightarrow> timeout"
  obtain r2 s2 where 2: "dev_send cancel out 1 s1 = (r2, s2)" by fastforce
  obtain r3 s3 where 3: "dev_recv cancel ep len ?t s2 = (r3, s3)" by fastforce
  have "r2 = Ok () \<and> raw = answer_data r3 \<and> s' \<in> {s3, drain_trailing cancel s3}"
    using assms(1) 1 2 3
    by (cases r2) (auto simp: enroll_round_def machine_round_def x_bind_def x_usb_def
        split: sum.splits usb_error.splits if_splits)
  then have ok: "r2 = Ok ()" "raw = answer_data r3" "s' \<in> {s3, drain_trailing cancel s3}" by blast+
  have w3: "cl_wire s3 = cl_wire s @ [Sent out (Ok ()), Got ep len r3]"
    using dev_send_sent 2 ok(1) dev_recv_got [OF 3 assms(2)] w1 by simp
  obtain r4 s4 where 4: "dev_recv cancel EpStatus 64 0 s3 = (r4, s4)" by fastforce
  have "es = [Sent out (Ok ()), Got ep len r3] \<or> es = [Sent out (Ok ()), Got ep len r3, Got EpStatus 64 r4]"
    using ok(3) w3 assms(3) dev_recv_got [OF 4] 4 by (auto simp: drain_trailing_def)
  then show ?thesis using ok(2) by auto
qed

text \<open>A round sends its bytes once; when it fails it may not have.\<close>

lemma round_sends:
  assumes "enroll_round cancel touch_wait hold out want s = (r, s')"
  shows "\<exists>es. cl_wire s' = cl_wire s @ es \<and> sent_of es \<in> {[], [out]} \<and> (is_ok r \<longrightarrow> sent_of es = [out])"
proof -
  obtain ep len timeout where want: "want = (ep, len, timeout)" by (cases want) auto
  obtain r1 s1 where 1: "(if is_commit out \<and> hold then wait_for_go cancel else x_ok ()) s = (r1, s1)" by fastforce
  have w1: "cl_wire s1 = cl_wire s"
    using 1 by (auto simp: x_ok_def wait_for_go_def split: if_splits prod.splits option.splits)
  show ?thesis
  proof (cases r1)
    case (Inl e)
    then show ?thesis using assms 1 w1 want by (auto simp: enroll_round_def x_bind_def)
  next
    case (Inr u)
    obtain r2 s2 where 2: "dev_send cancel out 1 s1 = (r2, s2)" by fastforce
    obtain e where e: "cl_wire s2 = cl_wire s1 @ [e]" "event_bytes e \<in> {[], [out]}"
      "\<forall>u. r2 = Ok u \<longrightarrow> event_bytes e = [out]"
      using dev_send_wire [of cancel out 1 s1] 2 by auto
    show ?thesis
    proof (cases r2)
      case (Inl err)
      then have "r = Err (CxUsb err)" "s' = s2" using assms 1 2 Inr want
        by (auto simp: enroll_round_def machine_round_def x_bind_def x_usb_def)
      then show ?thesis using e w1 by (intro exI [of _ "[e]"]) auto
    next
      case ok: (Inr v)
      let ?t = "case (ep, touch_wait) of (EpTouchWait, Some w) \<Rightarrow> w | _ \<Rightarrow> timeout"
      obtain r3 s3 where 3: "dev_recv cancel ep len ?t s2 = (r3, s3)" by fastforce
      obtain fs where fs: "cl_wire s3 = cl_wire s2 @ fs" "sent_of fs = []"
        using dev_recv_wire [of cancel ep len ?t s2] 3 by auto
      obtain gs where gs: "cl_wire (drain_trailing cancel s3) = cl_wire s3 @ gs" "sent_of gs = []"
        using dev_recv_wire [of cancel EpStatus 64 0 s3] by (auto simp: drain_trailing_def)
      have "s' \<in> {s3, drain_trailing cancel s3}"
        using assms 1 2 3 Inr ok want
        by (auto simp: enroll_round_def machine_round_def x_bind_def x_usb_def split: sum.splits usb_error.splits if_splits)
      then show ?thesis
      proof
        assume "s' = s3"
        then show ?thesis using e fs w1 ok by (intro exI [of _ "e # fs"]) auto
      next
        assume "s' \<in> {drain_trailing cancel s3}"
        then show ?thesis using e fs gs w1 ok by (intro exI [of _ "e # fs @ gs"]) auto
      qed
    qed
  qed
qed

text \<open>Repeats of the same bytes, which a rejected touch asks for, count once.\<close>

lemma remdups_adj_repeat: "remdups_adj (x # xs) = (if xs \<noteq> [] \<and> hd xs = x then remdups_adj xs else x # remdups_adj xs)"
  by (cases xs) auto

lemma hd_remdups: "remdups_adj xs = y # ys \<Longrightarrow> xs \<noteq> [] \<and> hd xs = y"
  using hd_remdups_adj [of xs] by (cases xs) auto

lemma machine_loop_sends:
  assumes "on_plan slot out sm" "machine_loop cancel touch_wait hold sm out s = (r, s')"
  shows "\<exists>es. cl_wire s' = cl_wire s @ es \<and> list_all (\<lambda>b. b \<in> set (enroll_plan slot)) (sent_of es) \<and>
    (is_ok r \<longrightarrow> remdups_adj (sent_of es) = plan_from sm \<and>
       (\<forall>rest. counted (es @ rest) = plan_from sm @ counted rest))"
  using assms
proof (induction "length (cl_ins s)" arbitrary: s sm out rule: less_induct)
  case less
  obtain ep len timeout where want: "pending_read sm = Some (ep, len, timeout)"
    using less.prems(1) by (cases "pending_read sm") (auto simp: on_plan_def pending_read_def)
  obtain r1 s1 where rd: "enroll_round cancel touch_wait hold out (ep, len, timeout) s = (r1, s1)" by fastforce
  obtain es where es: "cl_wire s1 = cl_wire s @ es" "sent_of es \<in> {[], [out]}" "is_ok r1 \<longrightarrow> sent_of es = [out]"
    using round_sends [OF rd] by blast
  have in_plan: "out \<in> set (enroll_plan slot)"
    using plan_hd [OF less.prems(1)] plan_subset [of sm slot] less.prems(1)
    by (metis list.set_intros(1) on_plan_def subsetD)
  have first: "list_all (\<lambda>b. b \<in> set (enroll_plan slot)) (sent_of es)" using es(2) in_plan by auto
  show ?case
  proof (cases r1)
    case (Inl e)
    then have "r = Err e" "s' = s1" using less.prems(2) want rd by (subst (asm) machine_loop.simps; simp)+
    then show ?thesis using es first by (intro exI [of _ es]) simp
  next
    case (Inr raw)
    have sent: "sent_of es = [out]" using es(3) Inr by simp
    have fewer: "length (cl_ins s1) < length (cl_ins s)"
      using enroll_round_ins rd Inr pending_read_pos [OF want] by blast
    have counts: "counted (es @ rest) = (if rejected ep raw then counted rest else out # counted rest)" for rest
      using round_counts [OF _ pending_read_pos [OF want] es(1)] rd Inr by simp
    have more: ?thesis if l: "machine_loop cancel touch_wait hold sm2 next s1 = (r, s')" and p: "on_plan slot next sm2"
      and q: "plan_from sm = (if next = out then plan_from sm2 else out # plan_from sm2)"
      and again: "rejected ep raw = (next = out)" for sm2 "next"
    proof -
      from less.hyps [OF fewer p l] obtain fs where fs: "cl_wire s' = cl_wire s1 @ fs"
        "list_all (\<lambda>b. b \<in> set (enroll_plan slot)) (sent_of fs)"
        "is_ok r \<longrightarrow> remdups_adj (sent_of fs) = plan_from sm2"
        "is_ok r \<longrightarrow> (\<forall>rest. counted (fs @ rest) = plan_from sm2 @ counted rest)" by blast
      have "is_ok r \<longrightarrow> (\<forall>rest. counted ((es @ fs) @ rest) = plan_from sm @ counted rest)"
        using fs(4) counts q again by simp
      moreover
      obtain rest where hd: "plan_from sm2 = next # rest" by (rule plan_hd [OF p])
      have "is_ok r \<longrightarrow> remdups_adj (out # sent_of fs) = plan_from sm"
        using fs(3) q hd hd_remdups [of "sent_of fs" "next" rest]
        by (subst remdups_adj_repeat) auto
      ultimately show ?thesis using es fs sent first by (intro exI [of _ "es @ fs"]) (auto simp del: append_assoc)
    qed
    obtain act sm1 where st: "enroll_step sm raw = (act, sm1)" by fastforce
    note loop = less.prems(2) [unfolded machine_loop.simps [of _ _ _ sm out s]]
    note step = plan_step [OF less.prems(1), where raw = raw]
    have again: "case act of Fail _ \<Rightarrow> True | act \<Rightarrow> rejected ep raw = (\<exists>r. act = EmitRetry r)"
      using plan_rejects [OF less.prems(1) want, of raw] st by simp
    show ?thesis
    proof (cases act)
      case (EmitProgress d t)
      then obtain nxt m2 where n: "cli_take_send ''machine owes a send after progress'' sm1 = (Ok nxt, m2)"
        "on_plan slot nxt m2" "plan_from sm = out # plan_from m2" "nxt \<noteq> out"
        using step [where owes = "''machine owes a send after progress''"] st by auto
      then show ?thesis using loop want rd Inr st EmitProgress again by (intro more [of m2 nxt]) auto
    next
      case (EmitRetry t)
      then obtain m2 where n: "cli_take_send ''machine owes a resend after retry'' sm1 = (Ok out, m2)"
        "on_plan slot out m2" "plan_from m2 = plan_from sm"
        using step [where owes = "''machine owes a resend after retry''"] st by auto
      then show ?thesis using loop want rd Inr st EmitRetry again by (intro more [of m2 out]) auto
    next
      case (Send "next")
      then show ?thesis using step loop want rd Inr st again by (intro more [of sm1 "next"]) auto
    next
      case (Complete i)
      then have "r = Ok ()" "s' = s1" "plan_from sm = [out]" using step loop want rd Inr st by auto
      then show ?thesis using es sent first counts again Complete by (intro exI [of _ es]) simp
    next
      case (Fail e)
      then have "r = Err (CxEnroll e)" "s' = s1" using loop want rd Inr st by auto
      then show ?thesis using es first by (intro exI [of _ es]) simp
    qed
  qed
qed

text \<open>Commands that were answered.\<close>

lemma waiting_exchange:
  assumes "send_waiting cancel cmd timeout s = (Ok (raw, parsed), s')" "0 < expected_len cmd"
  shows "\<exists>r. cl_wire s' = cl_wire s @ [Sent (encode cmd) (Ok ()), Got (reply_endpoint cmd) (expected_len cmd) r] \<and>
    answer_data r = raw \<and> parse cmd raw = Ok parsed"
proof -
  obtain r1 s1 where 1: "dev_send cancel (encode cmd) timeout s = (r1, s1)" by fastforce
  obtain r2 s2 where 2: "dev_recv cancel (reply_endpoint cmd) (expected_len cmd) timeout s1 = (r2, s2)" by fastforce
  have "r1 = Ok () \<and> s' = s2 \<and> answer_data r2 = raw \<and> parse cmd raw = Ok parsed"
    using assms(1) 1 2 dev_send_not_short
    by (auto simp: send_waiting_def dev_cmd_def simp del: encode.simps parse.simps
        split: sum.splits usb_error.splits prod.splits)
  then show ?thesis using dev_send_sent 1 dev_recv_got [OF 2 assms(2)] by auto
qed

lemma waiting_sends:
  assumes "send_waiting cancel cmd timeout s = (Ok x, s')"
  shows "\<exists>es. cl_wire s' = cl_wire s @ es \<and> sent_of es = [encode cmd]"
proof -
  obtain r1 s1 where 1: "dev_send cancel (encode cmd) timeout s = (r1, s1)" by fastforce
  obtain r2 s2 where 2: "dev_recv cancel (reply_endpoint cmd) (expected_len cmd) timeout s1 = (r2, s2)" by fastforce
  obtain fs where fs: "cl_wire s2 = cl_wire s1 @ fs" "sent_of fs = []"
    using dev_recv_wire [of cancel "reply_endpoint cmd" "expected_len cmd" timeout s1] 2 by auto
  have "r1 = Ok () \<and> s' = s2"
    using assms 1 2 dev_send_not_short
    by (auto simp: send_waiting_def dev_cmd_def split: sum.splits usb_error.splits prod.splits)
  then show ?thesis using dev_send_sent 1 fs
    by (intro exI [of _ "Sent (encode cmd) (Ok ()) # fs"]) (auto simp del: encode.simps)
qed

text \<open>A question is answered on the status endpoint, and counts.\<close>

lemma question_counts:
  assumes "cli_send cancel cmd s = (Ok x, s')" "cmd = CEnrolledNum \<or> (\<exists>i. cmd = CFingerInfo i)"
  shows "\<exists>es. cl_wire s' = cl_wire s @ es \<and> sent_of es = [encode cmd] \<and>
    (\<forall>rest. counted (es @ rest) = encode cmd # counted rest)"
proof -
  have "0 < expected_len cmd" "reply_endpoint cmd = EpStatus" using assms(2) by auto
  with waiting_exchange [of cancel cmd "cmd_timeout cmd" s "fst x" "snd x"] assms(1) obtain r where
    "cl_wire s' = cl_wire s @ [Sent (encode cmd) (Ok ()), Got EpStatus (expected_len cmd) r]"
    by (auto simp: cli_send_def simp del: encode.simps parse.simps)
  then show ?thesis by (intro exI) (auto simp del: encode.simps)
qed

lemma precheck_sends:
  "precheck cancel wait s = (Ok u, s') \<Longrightarrow>
   \<exists>es n. cl_wire s' = cl_wire s @ es \<and> sent_of es = replicate (Suc n) (encode CVerify) \<and>
     (\<forall>rest. counted (es @ rest) = encode CVerify # counted rest)"
proof (induction "length (cl_ins s)" arbitrary: s rule: less_induct)
  case less
  obtain r s1 where w: "send_waiting cancel CVerify wait s = (r, s1)" by fastforce
  have "\<exists>raw parsed. r = Ok (raw, parsed)"
    using less.prems w by (subst (asm) precheck.simps) (auto split: sum.splits)
  then obtain raw parsed where r: "r = Ok (raw, parsed)" by blast
  obtain q where q: "cl_wire s1 = cl_wire s @ [Sent (encode CVerify) (Ok ()), Got EpTouchWait 2 q]"
    "answer_data q = raw" "parse CVerify raw = Ok parsed"
    using waiting_exchange w r by (fastforce simp del: encode.simps parse.simps)
  have fewer: "length (cl_ins s1) < length (cl_ins s)"
    using send_waiting_ins [of cancel CVerify wait s "(raw, parsed)" s1] w r by simp
  have touch: "rejected EpTouchWait raw = (\<exists>b t. parsed = RVerify b (StRetry t))"
    using q(3) by (auto simp: rejected_def parse_with_def exact_def split: if_splits status.split)
  let ?es = "[Sent (encode CVerify) (Ok ()), Got EpTouchWait 2 q]"
  have counts: "counted (?es @ rest) = (if rejected EpTouchWait raw then counted rest else encode CVerify # counted rest)"
    for rest using q(2) by (simp del: encode.simps)
  show ?case
  proof (cases "\<exists>b t. parsed = RVerify b (StRetry t)")
    case True
    then have "precheck cancel wait s1 = (Ok u, s')"
      using less.prems w r by (subst (asm) precheck.simps) auto
    from less.hyps [OF fewer this] obtain fs n where "cl_wire s' = cl_wire s1 @ fs"
      "sent_of fs = replicate (Suc n) (encode CVerify)"
      "\<forall>rest. counted (fs @ rest) = encode CVerify # counted rest" by blast
    then show ?thesis using q(1) counts touch True
      by (intro exI [of _ "?es @ fs"] exI [of _ "Suc n"]) (simp del: encode.simps)
  next
    case False
    then have "s' = s1"
      using less.prems w r by (subst (asm) precheck.simps) (auto split: response.splits status.splits)
    then show ?thesis using q(1) counts touch False
      by (intro exI [of _ ?es] exI [of _ 0]) (simp del: encode.simps)
  qed
qed

lemma enroll_Ok:
  assumes "cli_enroll cancel finger slot wait hold s = (Ok u, s')"
  obtains s1 s2 s3 s4 s5 x1 x2 x5 x6 where
    "cli_send cancel CEnrolledNum s = (Ok x1, s1)" "cli_send cancel (CFingerInfo slot) s1 = (Ok x2, s2)"
    "precheck cancel (touch_timeout wait CVerify) s2 = (Ok (), s3)"
    "machine_loop cancel wait hold (snd (enroll_start (enroll_new slot)))
       (encode (CEnroll slot TOTAL_ENROLL_ATTEMPTS 0)) s3 = (Ok (), s4)"
    "cli_send cancel CEnrolledNum s4 = (Ok x5, s5)" "cli_send cancel (CFingerInfo slot) s5 = (Ok x6, s')"
  using assms
  by (auto simp: cli_enroll_def x_bind_def x_err_def x_ok_def enroll_start_def enroll_queue_def enroll_new_def
      with_total_def Let_def split: if_splits prod.splits sum.splits response.splits slot_state.splits)

lemma enroll_transfers:
  assumes "cli_enroll cancel finger slot wait hold s = (Ok u, s')"
  obtains es samples n where "cl_wire s' = cl_wire s @ es" "remdups_adj samples = drop 2 (enroll_plan slot)"
    "sent_of es = ([encode CEnrolledNum, encode (CFingerInfo slot)] @ replicate (Suc n) (encode CVerify)) @ samples @
      [encode CEnrolledNum, encode (CFingerInfo slot)]"
    "counted es = [encode CEnrolledNum, encode (CFingerInfo slot), encode CVerify] @ drop 2 (enroll_plan slot) @
      [encode CEnrolledNum, encode (CFingerInfo slot)]"
proof -
  obtain s1 s2 s3 s4 s5 x1 x2 x5 x6 where run: "cli_send cancel CEnrolledNum s = (Ok x1, s1)"
    "cli_send cancel (CFingerInfo slot) s1 = (Ok x2, s2)"
    "precheck cancel (touch_timeout wait CVerify) s2 = (Ok (), s3)"
    and loop: "machine_loop cancel wait hold (snd (enroll_start (enroll_new slot)))
       (encode (CEnroll slot TOTAL_ENROLL_ATTEMPTS 0)) s3 = (Ok (), s4)"
    and after: "cli_send cancel CEnrolledNum s4 = (Ok x5, s5)" "cli_send cancel (CFingerInfo slot) s5 = (Ok x6, s')"
    by (rule enroll_Ok [OF assms])
  obtain e1 where e1: "cl_wire s1 = cl_wire s @ e1" "sent_of e1 = [encode CEnrolledNum]"
    "\<And>rest. counted (e1 @ rest) = encode CEnrolledNum # counted rest" using question_counts [OF run(1)] by blast
  obtain e2 where e2: "cl_wire s2 = cl_wire s1 @ e2" "sent_of e2 = [encode (CFingerInfo slot)]"
    "\<And>rest. counted (e2 @ rest) = encode (CFingerInfo slot) # counted rest" using question_counts [OF run(2)] by blast
  obtain e3 n where e3: "cl_wire s3 = cl_wire s2 @ e3" "sent_of e3 = replicate (Suc n) (encode CVerify)"
    "\<And>rest. counted (e3 @ rest) = encode CVerify # counted rest" using precheck_sends [OF run(3)] by blast
  obtain e4 where e4: "cl_wire s4 = cl_wire s3 @ e4"
    "remdups_adj (sent_of e4) = plan_from (snd (enroll_start (enroll_new slot)))"
    "\<And>rest. counted (e4 @ rest) = plan_from (snd (enroll_start (enroll_new slot))) @ counted rest"
    using machine_loop_sends [OF on_plan_start loop] by auto
  obtain e5 where e5: "cl_wire s5 = cl_wire s4 @ e5" "sent_of e5 = [encode CEnrolledNum]"
    "\<And>rest. counted (e5 @ rest) = encode CEnrolledNum # counted rest" using question_counts [OF after(1)] by blast
  obtain e6 where e6: "cl_wire s' = cl_wire s5 @ e6" "sent_of e6 = [encode (CFingerInfo slot)]"
    "\<And>rest. counted (e6 @ rest) = encode (CFingerInfo slot) # counted rest" using question_counts [OF after(2)] by blast
  let ?es = "e1 @ e2 @ e3 @ e4 @ e5 @ e6"
  have "counted ?es = counted (?es @ [])" by simp
  also have "\<dots> = [encode CEnrolledNum, encode (CFingerInfo slot), encode CVerify] @ drop 2 (enroll_plan slot) @
      [encode CEnrolledNum, encode (CFingerInfo slot)]"
    unfolding append_assoc e1(3) e2(3) e3(3) e4(3) e5(3) e6(3) plan_from_start by (simp del: encode.simps)
  finally show thesis
    using e1(1,2) e2(1,2) e3(1,2) e4(1,2) e5(1,2) e6(1,2) plan_from_start
    by (intro that [of ?es "sent_of e4" n]) (simp_all del: encode.simps replicate_Suc)
qed

text \<open>C35: An enrolment from the command line does what its dry run prints: whenever it reports success,
  whatever the touches, retries and answers were, the bytes it sent are the bytes of \<open>enroll-plan\<close> in
  their order, with the slot read once before and the count and the slot read once after, each of them
  exactly once if the transfers are left out whose touch the chip rejected, as its answer right after
  on the touch-wait endpoint tells; and what is left out are repeats of the very next bytes of the plan.\<close>

theorem enroll_follows_plan:
  assumes "cli_enroll cancel finger slot wait hold s = (Ok u, s')"
  shows "let es = drop (length (cl_wire s)) (cl_wire s');
      plan = take 1 (enroll_plan slot) @ [encode (CFingerInfo slot)] @ drop 1 (enroll_plan slot) @
        [encode CEnrolledNum, encode (CFingerInfo slot)] in
    counted es = plan \<and> remdups_adj (sent_of es) = plan"
proof -
  obtain es E n where wire: "cl_wire s' = cl_wire s @ es" and mid: "remdups_adj E = drop 2 (enroll_plan slot)"
    and all: "sent_of es = ([encode CEnrolledNum, encode (CFingerInfo slot)] @ replicate (Suc n) (encode CVerify)) @ E @
      [encode CEnrolledNum, encode (CFingerInfo slot)]"
    and counts: "counted es = [encode CEnrolledNum, encode (CFingerInfo slot), encode CVerify] @
      drop 2 (enroll_plan slot) @ [encode CEnrolledNum, encode (CFingerInfo slot)]"
    by (rule enroll_transfers [OF assms])
  let ?plan = "take 1 (enroll_plan slot) @ [encode (CFingerInfo slot)] @ drop 1 (enroll_plan slot) @
    [encode CEnrolledNum, encode (CFingerInfo slot)]"
  have hd: "E \<noteq> [] \<and> hd E = encode (CEnroll slot TOTAL_ENROLL_ATTEMPTS 0)"
    using mid hd_remdups [of E] by (simp add: enroll_plan_def TOTAL_ENROLL_ATTEMPTS_def DEFAULT_ENROLL_STAGES_def upt_rec)
  have "last E = last (remdups_adj E)" by simp
  then have last: "last E = encode (commit_cmd (sub_id slot))" using mid by (simp add: enroll_plan_def)
  have verifies: "remdups_adj ([encode CEnrolledNum, encode (CFingerInfo slot)] @ replicate (Suc n) (encode CVerify)) =
      [encode CEnrolledNum, encode (CFingerInfo slot), encode CVerify]"
    by (subst remdups_adj_append') (auto simp: remdups_adj_replicate simp del: replicate_Suc)
  have tail: "remdups_adj (E @ [encode CEnrolledNum, encode (CFingerInfo slot)]) =
      remdups_adj E @ [encode CEnrolledNum, encode (CFingerInfo slot)]"
    using last by (subst remdups_adj_append') (auto simp: commit_cmd_def)
  have "remdups_adj (sent_of es) = ?plan" unfolding all
    using hd verifies tail mid
    by (subst remdups_adj_append') (auto simp: enroll_plan_def simp del: replicate_Suc)
  moreover have "counted es = ?plan" unfolding counts by (simp add: enroll_plan_def del: encode.simps)
  ultimately show ?thesis unfolding wire by (simp del: encode.simps)
qed

definition answer :: "byte list \<Rightarrow> recv_round" where
  "answer bytes = Posted (SelDone (Ok bytes))"

definition sample_cli :: "byte list list \<Rightarrow> cli" where
  "sample_cli replies = \<lparr>cl_outs = [], cl_ins = map answer replies, cl_firsts = [], cl_wire = [], cl_hold = [],
     cl_interrupted = False, cl_fs = quiet_fs\<rparr>"

text \<open>A finger that is lifted too early once, in the pre-check and in the third sample.\<close>

definition willing_cli :: cli where
  "willing_cli = sample_cli ([[0x40, 0], [0x40, 0xff], [0x40, 0x42], [0x40, 0xfd], [0x40, 0], [0x40, 0], [0x40, 0x42]] @
     replicate 6 [0x40, 0] @ [[0x40, 0, 0], [0x40, 0], [], [0x40, 1], [0x40, 0xff]])"

theorem enroll_follows_plan_witness:
  "let es = cl_wire (snd (cli_enroll (\<lambda>_. False) ''left-thumb'' 4 None False willing_cli)) in
    length (sent_of es) = 17 \<and> counted es =
      take 1 (enroll_plan 4) @ [encode (CFingerInfo 4)] @ drop 1 (enroll_plan 4) @
      [encode CEnrolledNum, encode (CFingerInfo 4)]"
proof -
  let ?r = "cli_enroll (\<lambda>_. False) ''left-thumb'' 4 None False willing_cli"
  have "fst ?r = Ok ()" "length (sent_of (cl_wire (snd ?r))) = 17" by code_simp+
  then show ?thesis
    using enroll_follows_plan [of "\<lambda>_. False" "''left-thumb''" 4 None False willing_cli "()" "snd ?r"]
    by (cases ?r) (auto simp: willing_cli_def sample_cli_def Let_def)
qed

end
