(* ===== verification/CliRuns.thy ===== *)
theory CliRuns
  imports CliProps
begin

text \<open>
  Whole runs of the command line tool: what a command may send, what a failed session leaves on the
  wire, and what \<open>sync\<close> and \<open>wipe-device\<close> may conclude from the answers.
\<close>

subsection \<open>What a command may send\<close>

text \<open>Questions and the abort: nothing here changes what the chip stores.\<close>

definition asks_only :: "byte list \<Rightarrow> bool" where
  "asks_only out \<longleftrightarrow>
     out \<in> {encode CFwVersion, encode CSensorSize, encode CEnrolledNum, encode CVerify, encode CAbort} \<or>
     out \<in> range (\<lambda>i. encode (CFingerInfo i))"

definition erase_typed :: "terminal \<Rightarrow> bool" where
  "erase_typed tm \<longleftrightarrow> tm_terminal tm \<and> (case tm_line tm of Ok typed \<Rightarrow> trim typed = ''ERASE'' | Err _ \<Rightarrow> False)"

definition may_send :: "terminal \<Rightarrow> cli_action \<Rightarrow> byte list \<Rightarrow> bool" where
  "may_send tm act out \<longleftrightarrow> asks_only out \<or>
     (case act of
        AEnroll finger slot _ _ \<Rightarrow> finger \<in> set FINGER_NAMES \<and> out \<in> set (enroll_plan slot)
      | AWipeDevice \<Rightarrow> erase_typed tm \<and> out = encode CWipeAll
      | _ \<Rightarrow> False)"

lemma asks_only_encode:
  "c \<in> {CFwVersion, CSensorSize, CEnrolledNum, CVerify, CAbort} \<Longrightarrow> asks_only (encode c)"
  "asks_only (encode (CFingerInfo i))"
  unfolding asks_only_def by blast+

lemma may_send_asks: "asks_only out \<Longrightarrow> may_send tm act out"
  by (simp add: may_send_def)

lemmas may_encode = asks_only_encode [THEN may_send_asks]

lemma sends_loop:
  assumes "\<And>out. out \<in> set (enroll_plan slot) \<Longrightarrow> P out" "on_plan slot out sm"
  shows "sends_only P s (snd (machine_loop cancel wait hold sm out s))"
proof -
  obtain r s' where l: "machine_loop cancel wait hold sm out s = (r, s')" by fastforce
  then show ?thesis using machine_loop_sends [OF assms(2) l] assms(1)
    by (auto simp: sends_only_def list_all_iff)
qed

lemma sends_enroll:
  assumes "\<And>out. asks_only out \<Longrightarrow> P out"
    and "\<And>out. finger \<in> set FINGER_NAMES \<Longrightarrow> out \<in> set (enroll_plan slot) \<Longrightarrow> P out"
  shows "sends_only P s (snd (cli_enroll cancel finger slot wait hold s))"
proof (cases "finger \<in> set FINGER_NAMES")
  case True
  have P: "P (encode c)" if "c \<in> {CFwVersion, CSensorSize, CEnrolledNum, CVerify, CAbort}" for c
    using that by (intro assms(1) asks_only_encode)
  have Pf: "P (encode (CFingerInfo i))" for i by (intro assms(1) asks_only_encode)
  let ?out = "encode (CEnroll slot TOTAL_ENROLL_ATTEMPTS 0)"
  obtain sm where start: "enroll_start (enroll_new slot) = (Send ?out, sm)" and plan: "on_plan slot ?out sm"
    using on_plan_start [of slot]
    by (simp add: enroll_start_def enroll_queue_def enroll_new_def with_total_def Let_def)
  have loop: "sends_only P s (snd (machine_loop cancel wait hold sm ?out s))" for s
    by (rule sends_loop [OF assms(2) [OF True] plan])
  have run: "sends_only P s (snd (x_bind (machine_loop cancel wait hold sm ?out) (\<lambda>_.
      x_bind (cli_send cancel CEnrolledNum) (\<lambda>_. x_bind (cli_send cancel (CFingerInfo slot)) (\<lambda>_. x_ok ()))) s))" for s
    by (intro sends.bind loop sends.sending sends.unit_ops Pf P [of CEnrolledNum]) simp
  have pre: "sends_only P s (snd (precheck cancel w s))" for w s by (intro sends.precheck P) simp
  have checked: "sends_only P s (snd (x_bind (precheck cancel (touch_timeout wait CVerify)) (\<lambda>_.
      x_bind (machine_loop cancel wait hold sm ?out) (\<lambda>_.
      x_bind (cli_send cancel CEnrolledNum) (\<lambda>_. x_bind (cli_send cancel (CFingerInfo slot)) (\<lambda>_. x_ok ())))) s))" for s
    by (rule sends.bind [OF pre run])
  have asked: "sends_only P s (snd (cli_send cancel CEnrolledNum s))"
    "sends_only P s (snd (cli_send cancel (CFingerInfo slot) s))" for s
    using P [of CEnrolledNum] Pf by (simp_all only: insert_iff simp_thms sends.sending)
  show ?thesis unfolding cli_enroll_def start
    using True checked
    by (auto simp del: encode.simps intro!: sends.bind asked sends.unit_ops split: response.split slot_state.split)
qed (simp add: cli_enroll_def sends.unit_ops)

text \<open>The count, or a refusal.\<close>

lemma sends_counted:
  "(\<And>n s. sends_only P s (snd (k n s))) \<Longrightarrow>
   sends_only P t (snd ((case x of (raw, parsed) \<Rightarrow>
     case parsed of REnrolledNum n \<Rightarrow> k n | other \<Rightarrow> x_err (CxUnexpected ''enrolled_num'' other)) t))"
  by (cases x; cases "snd x") (auto simp: sends.unit_ops)

lemma sends_if: "(b \<Longrightarrow> sends_only P s (snd (m s))) \<Longrightarrow> (\<not> b \<Longrightarrow> sends_only P s (snd (n s))) \<Longrightarrow>
    sends_only P s (snd ((if b then m else n) s))"
  by simp

lemma sends_confirmed:
  assumes "tm_terminal tm" "\<And>s. erase_typed tm \<Longrightarrow> sends_only P s (snd (m s))"
  shows "sends_only P s (snd (x_bind (confirm_erase tm) (\<lambda>_. m) s))"
  using assms
  by (auto simp: x_bind_def confirm_erase_def erase_typed_def sends.rel_refl split: sum.split)

lemma sends_wipe:
  assumes "\<And>out. asks_only out \<Longrightarrow> P out" and "erase_typed tm \<Longrightarrow> P (encode CWipeAll)"
  shows "sends_only P s (snd (wipe_device cancel tm s))"
proof (cases "tm_terminal tm")
  case True
  have count: "sends_only P s (snd (cli_send cancel CEnrolledNum s))" for s
    by (intro sends.sending assms(1) asks_only_encode) simp
  have wiped: "sends_only P s (snd (x_bind (cli_send cancel CWipeAll) (\<lambda>_.
      x_bind (cli_send cancel CEnrolledNum) (\<lambda>(_, parsed).
        case parsed of
          REnrolledNum count \<Rightarrow>
            (if count = 0 then x_ok ()
             else x_err (CxBail (''the sensor still reports '' @ show_nat (unat count) @
               '' template(s), erase did not complete'')))
        | other \<Rightarrow> x_err (CxUnexpected ''enrolled_num'' other))) s))" if "erase_typed tm" for s
    by (intro sends.bind sends.sending assms(2) that count sends_counted sends_if sends.unit_ops)
  show ?thesis unfolding wipe_device_def
    by (intro sends_if sends.bind count sends_counted sends.unit_ops sends_confirmed [OF True wiped])
qed (simp add: wipe_device_def sends.unit_ops)

lemma sends_sync:
  assumes "\<And>out. asks_only out \<Longrightarrow> P out"
  shows "sends_only P s (snd (cli_sync env cancel path prune s))"
proof -
  have count: "sends_only P s (snd (cli_send cancel CEnrolledNum s))" for s
    by (intro sends.sending assms asks_only_encode) simp
  have records: "sends_only P s (snd (read_records cancel ids acc s))" for ids acc s
    by (intro sends.records assms asks_only_encode)
  have files: "sends_only P s (s\<lparr>cl_fs := fs\<rparr>)" for s fs by (simp add: sends_only_def)
  have opened: "sends_only P s (snd (cli_open_store env p s))" for p s
    by (simp add: cli_open_store_def files split: prod.split)
  show ?thesis unfolding cli_sync_def Let_def
    by (intro sends.bind count sends_counted records opened) (simp add: files sends.rel_refl split: prod.split)
qed

text \<open>C33: No command of the tool sends the chip anything but questions and the abort, on any answers,
  faults and interrupts, with two exceptions: \<open>enroll\<close> of a known finger, which may send what its
  plan for that slot prints, and \<open>wipe-device\<close>, which may send the erase of everything only from a
  terminal on which ERASE was typed.\<close>

theorem cli_sends_only:
  "list_all (may_send tm act)
     (sent_of (drop (length (cl_wire s)) (cl_wire (snd (cli_main env cancel tm opened act s)))))"
proof -
  let ?P = "may_send tm act"
  have "sends_only ?P s (snd (cli_main env cancel tm opened act s))"
  proof (cases act)
    case (AEnroll f slot w h)
    have "sends_only ?P t (snd (cli_enroll cancel f slot w h t))" for t
      by (rule sends_enroll) (simp_all add: may_send_asks, simp add: may_send_def AEnroll)
    then show ?thesis unfolding cli_main_def AEnroll cli_action.case
      by (intro sends.session may_encode) simp_all
  next
    case AWipeDevice
    have "sends_only ?P t (snd (wipe_device cancel tm t))" for t
      by (rule sends_wipe) (simp_all add: may_send_asks, simp add: may_send_def AWipeDevice)
    then show ?thesis unfolding cli_main_def AWipeDevice cli_action.case
      by (intro sends.session may_encode) simp_all
  next
    case (ASync p prune)
    have "sends_only ?P t (snd (cli_sync env cancel p prune t))" for t
      by (rule sends_sync) (simp add: may_send_asks)
    then show ?thesis unfolding cli_main_def ASync cli_action.case
      by (intro sends.session may_encode) simp_all
  next
    case (AEnrollPlan slot)
    then show ?thesis by (simp add: cli_main_def sends.unit_ops)
  qed (simp only: cli_main_def cli_action.case, intro sends.session sends.queries may_encode, simp_all only: insert_iff simp_thms)+
  then obtain es where "cl_wire (snd (cli_main env cancel tm opened act s)) = cl_wire s @ es" "list_all ?P (sent_of es)"
    unfolding sends_only_def by blast
  then show ?thesis by simp
qed

subsection \<open>A session that failed\<close>

lemma snd_send_waiting: "snd (send_waiting cancel cmd timeout s) =
    snd (dev_cmd cancel (encode cmd) (reply_endpoint cmd) (expected_len cmd) timeout s)"
proof -
  obtain r s1 where "dev_cmd cancel (encode cmd) (reply_endpoint cmd) (expected_len cmd) timeout s = (r, s1)"
    by fastforce
  then show ?thesis by (simp add: send_waiting_def split: sum.split usb_error.split)
qed

text \<open>A session whose job fails ends with the abort on the wire, right after the job and whatever
  its failure was, and reports the job's own error, unless the token has fired: then the transfer of
  the abort gives up before it starts, so an interrupted command leaves the chip without one.  A job
  that succeeds sends none.\<close>

theorem session_aborts:
  "case opened of
     Err e \<Rightarrow> cli_session cancel opened job s = (Err (CxUsb e), s)
   | Ok _ \<Rightarrow>
       (case job s of
          (Ok _, s1) \<Rightarrow> cli_session cancel opened job s = (Ok (), s1)
        | (Err e, s1) \<Rightarrow>
            fst (cli_session cancel opened job s) = Err e \<and>
            cl_wire (snd (cli_session cancel opened job s)) = cl_wire s1 @
              [if fired cancel s1 then Dropped (encode CAbort)
               else Sent (encode CAbort) (case cl_outs s1 of [] \<Rightarrow> Ok () | sel # _ \<Rightarrow> usb_send 1 sel)])"
proof (cases opened)
  case (Inr u)
  obtain r s1 where j: "job s = (r, s1)" by fastforce
  show ?thesis
  proof (cases r)
    case (Inl e)
    have "cl_wire (snd (cli_send cancel CAbort s1)) = cl_wire s1 @
        [if fired cancel s1 then Dropped (encode CAbort)
         else Sent (encode CAbort) (case cl_outs s1 of [] \<Rightarrow> Ok () | sel # _ \<Rightarrow> usb_send 1 sel)]"
      unfolding cli_send_def snd_send_waiting
      by (cases "cl_outs s1")
        (auto simp: dev_cmd_def dev_send_def dev_recv_def log_event_def Let_def split: sum.split)
    then show ?thesis using Inr j Inl by (simp add: cli_session_def)
  qed (simp add: Inr j cli_session_def)
qed (simp add: cli_session_def)

subsection \<open>Answers\<close>

text \<open>A command was answered: its bytes went out, and the read right after them gave the reply.\<close>

definition reply_data :: "usb_error + byte list \<Rightarrow> byte list option" where
  "reply_data r = (case r of Ok raw \<Rightarrow> Some raw | Err (ShortRead _ _ raw) \<Rightarrow> Some raw | Err _ \<Rightarrow> None)"

definition exchange :: "command \<Rightarrow> response \<Rightarrow> cli_event list \<Rightarrow> bool" where
  "exchange cmd resp es \<longleftrightarrow>
     (\<exists>r raw. es = [Sent (encode cmd) (Ok ()), Got (reply_endpoint cmd) (expected_len cmd) r] \<and>
       reply_data r = Some raw \<and> parse cmd raw = Ok resp)"

definition answered :: "command \<Rightarrow> response \<Rightarrow> cli_event list \<Rightarrow> bool" where
  "answered cmd resp es \<longleftrightarrow> (\<exists>before now after. es = before @ now @ after \<and> exchange cmd resp now)"

lemma answered_append: "answered cmd resp es \<Longrightarrow> answered cmd resp (fs @ es @ gs)"
  unfolding answered_def by (metis append.assoc)

lemma send_exchange:
  assumes "cli_send cancel cmd s = (Ok (raw, resp), s')" "0 < expected_len cmd"
  shows "\<exists>es. cl_wire s' = cl_wire s @ es \<and> exchange cmd resp es"
proof -
  obtain r1 s1 where 1: "dev_send cancel (encode cmd) (cmd_timeout cmd) s = (r1, s1)" by fastforce
  obtain r2 s2 where 2: "dev_recv cancel (reply_endpoint cmd) (expected_len cmd) (cmd_timeout cmd) s1 = (r2, s2)"
    by fastforce
  have ok: "(\<exists>u. r1 = Ok u) \<and> s' = s2 \<and> reply_data r2 = Some raw \<and> parse cmd raw = Ok resp"
    using assms(1) 1 2 dev_send_not_short
    by (auto simp: cli_send_def send_waiting_def dev_cmd_def reply_data_def
        split: sum.splits usb_error.splits prod.splits)
  then have "cl_wire s1 = cl_wire s @ [Sent (encode cmd) (Ok ())]"
    using 1 by (auto simp: dev_send_def log_event_def Let_def split: if_splits list.splits)
  moreover have "cl_wire s2 = cl_wire s1 @ [Got (reply_endpoint cmd) (expected_len cmd) r2]"
    using 2 assms(2) by (auto simp: dev_recv_def log_event_def Let_def split: if_splits list.splits)
  ultimately show ?thesis using ok by (auto simp: exchange_def)
qed

lemma map_sum_eq_Ok: "map_sum id f x = Ok y \<Longrightarrow> (\<And>z. x = Ok z \<Longrightarrow> y = f z \<Longrightarrow> P) \<Longrightarrow> P"
  by (cases x) auto

lemma sent_counted:
  assumes "x_bind (cli_send cancel CEnrolledNum) (\<lambda>(_, parsed).
      case parsed of REnrolledNum n \<Rightarrow> k n | other \<Rightarrow> x_err (CxUnexpected ''enrolled_num'' other)) s = (r, s')"
  obtains (failed) e where "r = Err e" "cl_fs s' = cl_fs s"
    | (counted) n s1 es where "cl_wire s1 = cl_wire s @ es" "exchange CEnrolledNum (REnrolledNum n) es"
        "cl_fs s1 = cl_fs s" "k n s1 = (r, s')"
proof -
  obtain r1 s1 where 1: "cli_send cancel CEnrolledNum s = (r1, s1)" by fastforce
  have fs: "cl_fs s1 = cl_fs s"
    using still.sending [where cmd = CEnrolledNum and s = s and cancel = cancel] 1 by (simp add: keeps_files_def)
  show thesis
  proof (cases r1)
    case (Inl e)
    then show thesis using assms 1 fs failed [of e] by (auto simp: x_bind_def)
  next
    case (Inr x)
    obtain raw parsed where x: "x = (raw, parsed)" by fastforce
    show thesis
    proof (cases "\<exists>n. parsed = REnrolledNum n")
      case True
      then show thesis using assms 1 fs counted send_exchange [of cancel CEnrolledNum s raw parsed s1] Inr x
        by (auto simp: x_bind_def)
    next
      case False
      then have "r = Err (CxUnexpected ''enrolled_num'' parsed) \<and> s' = s1"
        using assms 1 Inr x by (cases parsed) (auto simp: x_bind_def x_err_def)
      then show thesis using fs failed by simp
    qed
  qed
qed

lemma read_records_answered:
  "read_records cancel ids acc s = (Ok records, s') \<Longrightarrow>
   \<exists>es new. cl_wire s' = cl_wire s @ es \<and> records = acc @ new \<and>
     list_all (\<lambda>(i, st). answered (CFingerInfo i) (RFingerInfo i st) es) new"
proof (induction ids arbitrary: s acc)
  case (Cons i ids)
  obtain r s1 where 1: "cli_send cancel (CFingerInfo i) s = (r, s1)" by fastforce
  obtain raw j st where r: "r = Ok (raw, RFingerInfo j st)"
    and rest: "read_records cancel ids (acc @ [(i, st)]) s1 = (Ok records, s')"
    using Cons.prems 1 by (auto split: sum.splits response.splits)
  obtain es where es: "cl_wire s1 = cl_wire s @ es" "exchange (CFingerInfo i) (RFingerInfo j st) es"
    using send_exchange [of cancel "CFingerInfo i" s raw "RFingerInfo j st" s1] 1 r by auto
  then have "j = i" by (auto simp: exchange_def elim: map_sum_eq_Ok)
  then have first: "answered (CFingerInfo i) (RFingerInfo i st) (es @ fs)" for fs
    using es(2) unfolding answered_def by (metis append_Nil)
  obtain fs new where fs: "cl_wire s' = cl_wire s1 @ fs" "records = acc @ [(i, st)] @ new"
    "list_all (\<lambda>(i, st). answered (CFingerInfo i) (RFingerInfo i st) fs) new"
    using Cons.IH [OF rest] by auto
  have "list_all (\<lambda>(i, st). answered (CFingerInfo i) (RFingerInfo i st) (es @ fs)) new"
    using fs(3) answered_append [where fs = es and gs = "[]"] by (fastforce simp: list_all_iff)
  then show ?case using es fs first by (intro exI [of _ "es @ fs"] exI [of _ "(i, st) # new"]) auto
qed (auto simp: x_ok_def)

text \<open>\<open>wipe-device\<close> reports success only when the chip says it is empty: its last exchange, after
  which nothing more was sent, is the count read, answered with zero.\<close>

theorem wipe_ok_means_empty:
  assumes "wipe_device cancel tm s = (Ok u, s')"
  shows "\<exists>es now. cl_wire s' = cl_wire s @ es @ now \<and> exchange CEnrolledNum (REnrolledNum 0) now"
proof (cases "tm_terminal tm")
  case True
  let ?empty = "\<lambda>count. if count = 0 then x_ok ()
      else x_err (CxBail (''the sensor still reports '' @ show_nat (unat count) @ '' template(s), erase did not complete''))"
  let ?wipe = "x_bind (confirm_erase tm) (\<lambda>_. x_bind (cli_send cancel CWipeAll) (\<lambda>_.
      x_bind (cli_send cancel CEnrolledNum) (\<lambda>(_, parsed).
        case parsed of REnrolledNum n \<Rightarrow> ?empty n | other \<Rightarrow> x_err (CxUnexpected ''enrolled_num'' other))))"
  have "x_bind (cli_send cancel CEnrolledNum) (\<lambda>(_, parsed).
      case parsed of REnrolledNum before \<Rightarrow> if before = 0 then x_ok () else ?wipe
      | other \<Rightarrow> x_err (CxUnexpected ''enrolled_num'' other)) s = (Ok u, s')"
    using assms True by (simp add: wipe_device_def)
  then show ?thesis
  proof (cases rule: sent_counted)
    case (counted n s1 es)
    show ?thesis
    proof (cases "n = 0")
      case True
      then show ?thesis using counted by (intro exI [of _ "[]"] exI [of _ es]) (simp add: x_ok_def)
    next
      case False
      then have "?wipe s1 = (Ok u, s')" using counted(4) by simp
      then obtain s2 x s3 where 2: "confirm_erase tm s1 = (Ok (), s2)" "cli_send cancel CWipeAll s2 = (Ok x, s3)"
        "x_bind (cli_send cancel CEnrolledNum) (\<lambda>(_, parsed).
          case parsed of REnrolledNum n \<Rightarrow> ?empty n | other \<Rightarrow> x_err (CxUnexpected ''enrolled_num'' other)) s3 = (Ok u, s')"
        by (auto simp: x_bind_def split: prod.splits sum.splits)
      have s2: "s2 = s1" using 2(1) by (auto simp: confirm_erase_def split: sum.splits if_splits)
      obtain fs where fs: "cl_wire s3 = cl_wire s2 @ fs"
        using waiting_sends [OF 2(2) [unfolded cli_send_def]] by blast
      from 2(3) show ?thesis
      proof (cases rule: sent_counted)
        case last: (counted n s4 gs)
        then have "n = 0 \<and> s' = s4" by (auto simp: x_ok_def x_err_def split: if_splits)
        then show ?thesis using last counted(1) s2 fs by (intro exI [of _ "es @ fs"] exI [of _ gs]) simp
      qed simp
    qed
  qed simp
qed (use assms in \<open>simp add: wipe_device_def x_err_def\<close>)

subsection \<open>Pruning\<close>

lemma stale_proven:
  assumes "e \<in> set (sr_stale (reconcile p count records))"
  shows "es_key e \<in> set (entries p) \<and> (count = 0 \<or> (es_slot e, SlotEmpty) \<in> set records)"
proof (cases "count = 0")
  case True
  then show ?thesis using assms by (auto simp: reconcile_def es_key_def entry_status_of_def)
next
  case False
  have "es_key e \<in> set (map es_key (sr_stale (reconcile p count records)))" using assms by simp
  then have "es_key e \<in> set (entries p)" "verdict (bt_collect records) (es_slot e) = ''stale''"
    unfolding reconcile_keys(2) [OF False refl] by (auto simp: es_key_def)
  then show ?thesis
    by (auto simp: verdict_def bt_collect_get dest: map_of_SomeD split: option.splits slot_state.splits)
qed

lemma prune_slot_of:
  "slot_of (st_prints (prune_stale stale st)) k =
     (if k \<in> (\<lambda>e. (es_user e, es_finger e)) ` set stale then None else slot_of (st_prints st) k)"
  by (induction stale arbitrary: st) (auto simp: prune_stale_def remove_slot_of)

lemma prune_path: "st_path (prune_stale stale st) = st_path st"
  by (induction stale arbitrary: st) (simp_all add: prune_stale_def store_remove_path)

lemma open_store_outcome:
  assumes "cli_open_store env path s = (r, s')"
  shows "cl_wire s' = cl_wire s" "fs_files (cl_fs s') = fs_files (cl_fs s)"
    "r = Ok st \<Longrightarrow> fst (store_open env path (cl_fs s)) = Ok st \<and> st_path st = path"
  using assms
  by (auto simp: cli_open_store_def store_open_def fs_ops Let_def split: prod.splits sum.splits option.splits if_splits)

text \<open>What pruning removes was disproved by an answer in this run.\<close>

lemma prune_proven:
  assumes "prints_wf (st_prints st)" "exchange CEnrolledNum (REnrolledNum n) es"
    and "list_all (\<lambda>(i, state). answered (CFingerInfo i) (RFingerInfo i state) fs) records"
    and "stale = sr_stale (reconcile (st_prints st) n records)"
  shows "slot_of (st_prints (prune_stale stale st)) k = slot_of (st_prints st) k \<or>
      (slot_of (st_prints (prune_stale stale st)) k = None \<and>
        (answered CEnrolledNum (REnrolledNum 0) (es @ fs) \<or>
         (\<exists>i. slot_of (st_prints st) k = Some i \<and> answered (CFingerInfo i) (RFingerInfo i SlotEmpty) (es @ fs))))"
proof (cases "k \<in> (\<lambda>e. (es_user e, es_finger e)) ` set stale")
  case True
  then obtain e where e: "e \<in> set stale" "k = (es_user e, es_finger e)" by blast
  then have held: "slot_of (st_prints st) k = Some (es_slot e)"
    using stale_proven [OF e(1) [unfolded assms(4)]] entries_iff [OF assms(1)] by (simp add: es_key_def)
  have "answered CEnrolledNum (REnrolledNum 0) (es @ fs)" if "n = 0"
    using assms(2) that unfolding answered_def by (metis append_Nil)
  moreover have "answered (CFingerInfo (es_slot e)) (RFingerInfo (es_slot e) SlotEmpty) (es @ fs)"
    if "(es_slot e, SlotEmpty) \<in> set records"
    using assms(3) that answered_append [where fs = es and gs = "[]"] by (fastforce simp: list_all_iff)
  ultimately show ?thesis using stale_proven [OF e(1) [unfolded assms(4)]] held True by (auto simp: prune_slot_of)
qed (simp add: prune_slot_of)

lemma sync_run:
  assumes "cli_sync env cancel (Some path) prune s = (r, s')"
  obtains (kept) "fs_files (cl_fs s') = fs_files (cl_fs s)"
    | (pruned) n es fs records st fsys r1 where
        "prune" "cl_wire s' = cl_wire s @ es @ fs" "exchange CEnrolledNum (REnrolledNum n) es"
        "list_all (\<lambda>(i, state). answered (CFingerInfo i) (RFingerInfo i state) fs) records"
        "fst (store_open env path (cl_fs s)) = Ok st" "st_path st = path"
        "fs_files fsys = fs_files (cl_fs s)"
        "store_save env (prune_stale (sr_stale (reconcile (st_prints st) n records)) st) fsys = (r1, cl_fs s')"
        "r = map_sum CxStore id r1"
proof -
  let ?put = "\<lambda>n records store s. let report = reconcile (st_prints store) n records in
      if prune \<and> sr_stale report \<noteq> [] then
        (case store_save env (prune_stale (sr_stale report) store) (cl_fs s) of
           (r, fs) \<Rightarrow> (map_sum CxStore id r, s\<lparr>cl_fs := fs\<rparr>))
      else (Ok (), s)"
  let ?k = "\<lambda>n. x_bind (read_records cancel (byte_range 0 MAX_SLOT) []) (\<lambda>records.
      x_bind (cli_open_store env path) (?put n records))"
  have "x_bind (cli_send cancel CEnrolledNum) (\<lambda>(_, parsed).
      case parsed of REnrolledNum n \<Rightarrow> ?k n | other \<Rightarrow> x_err (CxUnexpected ''enrolled_num'' other)) s = (r, s')"
    using assms by (simp add: cli_sync_def)
  then show thesis
  proof (cases rule: sent_counted)
    case failed
    then show thesis using kept by simp
  next
    case (counted n s1 es)
    obtain r2 s2 where 2: "read_records cancel (byte_range 0 MAX_SLOT) [] s1 = (r2, s2)" by fastforce
    have fs2: "cl_fs s2 = cl_fs s"
      using still.records [of s1 cancel "byte_range 0 MAX_SLOT" "[]"] 2 counted(3) by (simp add: keeps_files_def)
    obtain r3 s3 where 3: "cli_open_store env path s2 = (r3, s3)" by fastforce
    note opened = open_store_outcome [OF 3]
    show thesis
    proof (cases "is_ok r2 \<and> is_ok r3")
      case False
      then have "s' \<in> {s2, s3}"
        using counted(4) 2 3 by (cases r2; cases r3) (auto simp: x_bind_def)
      then show thesis using kept fs2 opened(2) by auto
    next
      case True
      then obtain records st where r23: "r2 = Ok records" "r3 = Ok st" by (cases r2; cases r3) auto
      have w: "?put n records st s3 = (r, s')" using counted(4) 2 3 r23 by (simp add: x_bind_def)
      obtain fs where fs: "cl_wire s2 = cl_wire s1 @ fs"
        "list_all (\<lambda>(i, state). answered (CFingerInfo i) (RFingerInfo i state) fs) records"
        using read_records_answered [of cancel "byte_range 0 MAX_SLOT" "[]" s1 records s2] 2 r23 by auto
      let ?stale = "sr_stale (reconcile (st_prints st) n records)"
      show thesis
      proof (cases "prune \<and> ?stale \<noteq> []")
        case False
        then have "s' = s3" using w by (auto simp: Let_def)
        then show thesis using kept fs2 opened(2) by simp
      next
        case True
        obtain r1 f1 where sv: "store_save env (prune_stale ?stale st) (cl_fs s3) = (r1, f1)" by fastforce
        then have "r = map_sum CxStore id r1" "s' = s3\<lparr>cl_fs := f1\<rparr>" using w True by (auto simp: Let_def)
        then show thesis
          using pruned [of es fs n records st "cl_fs s3" r1] True counted fs opened r23 fs2 sv by simp
      qed
    qed
  qed
qed

text \<open>C34: \<open>sync\<close> leaves the store file as it was, on every error and whenever \<open>--prune\<close> was not given;
  and when it prunes, the file it writes differs from the one it read only in entries that are gone,
  each of them disproved by the chip within this very run: it answered that it holds nothing, or
  that the entry's slot is empty.\<close>

theorem sync_prunes_proven_stale:
  assumes "plain_path path"
    and "case fst (store_open env path (cl_fs s)) of Ok st \<Rightarrow> prints_wf (st_prints st) | Err _ \<Rightarrow> True"
    and "cli_sync env cancel (Some path) prune s = (r, s')"
  shows "fs_files (cl_fs s') path = fs_files (cl_fs s) path \<or>
    (r = Ok () \<and> prune \<and>
     (\<exists>st p' es content. fst (store_open env path (cl_fs s)) = Ok st \<and> cl_wire s' = cl_wire s @ es \<and>
        json_print env p' = Ok content \<and> fs_files (cl_fs s') path = Some content \<and>
        (\<forall>k. slot_of p' k = slot_of (st_prints st) k \<or>
          (slot_of p' k = None \<and>
            (answered CEnrolledNum (REnrolledNum 0) es \<or>
             (\<exists>i. slot_of (st_prints st) k = Some i \<and> answered (CFingerInfo i) (RFingerInfo i SlotEmpty) es))))))"
  using assms(3)
proof (cases rule: sync_run)
  case (pruned n es fs records st f r1)
  let ?stale = "sr_stale (reconcile (st_prints st) n records)"
  let ?st = "prune_stale ?stale st"
  have wf: "prints_wf (st_prints st)" using assms(2) pruned(5) by simp
  have path: "st_path ?st = path" using pruned(6) by (simp add: prune_path)
  then have ne: "st_path ?st \<noteq> []" "save_tmp env ?st f \<noteq> st_path ?st"
    using assms(1) save_tmp_neq [of ?st env f] by (simp_all add: plain_path_def)
  note gone = prune_proven [OF wf pruned(3,4) refl]
  show ?thesis
  proof (rule save_cases [OF ne])
    fix content fs' assume "json_print env (st_prints ?st) = Ok content"
      "store_save env ?st f = (Ok (), fs')" "fs_files fs' (st_path ?st) = Some content"
    then have "r = Ok () \<and> prune \<and> fst (store_open env path (cl_fs s)) = Ok st \<and> cl_wire s' = cl_wire s @ es @ fs \<and>
        json_print env (st_prints ?st) = Ok content \<and> fs_files (cl_fs s') path = Some content"
      using pruned path by simp
    then show ?thesis using gone by blast
  next
    fix e fs' assume "store_save env ?st f = (Err e, fs')"
      "\<And>q. q \<noteq> save_tmp env ?st f \<Longrightarrow> fs_files fs' q = fs_files f q"
    then show ?thesis using pruned path ne(2) by simp
  qed
qed simp

text \<open>The owner's slot reads empty, the chip counts one finger of somebody else.\<close>

definition stale_cli :: cli where
  "stale_cli = (sample_cli ([[0x40, 1], [0x40, 0xff], [0x40, 0xff], [0x40, 0xff], 0x40 # replicate 68 0 @ [0xff]] @ replicate 12 [0x40, 0xff]))
     \<lparr>cl_fs := quiet_fs\<lparr>fs_files := [DEFAULT_PATH \<mapsto> ''{alice}'']\<rparr>\<rparr>"

theorem sync_prunes_proven_stale_witness:
  "fs_files (cl_fs (snd (cli_sync sample_env (\<lambda>_. False) (Some DEFAULT_PATH) True stale_cli))) DEFAULT_PATH = Some ''{}'' \<and>
   (\<exists>p' es. cl_wire (snd (cli_sync sample_env (\<lambda>_. False) (Some DEFAULT_PATH) True stale_cli)) = cl_wire stale_cli @ es \<and>
     json_print sample_env p' = Ok ''{}'' \<and>
     (slot_of p' (''alice'', ''left-thumb'') = Some 3 \<or> answered (CFingerInfo 3) (RFingerInfo 3 SlotEmpty) es \<or>
      answered CEnrolledNum (REnrolledNum 0) es))"
proof -
  let ?r = "cli_sync sample_env (\<lambda>_. False) (Some DEFAULT_PATH) True stale_cli"
  have pruned: "fs_files (cl_fs (snd ?r)) DEFAULT_PATH = Some ''{}''" by code_simp
  have before: "fs_files (cl_fs stale_cli) DEFAULT_PATH = Some ''{alice}''" by (simp add: stale_cli_def)
  have opened: "fst (store_open sample_env DEFAULT_PATH (cl_fs stale_cli)) = Ok sample_store"
    by (simp add: stale_cli_def quiet_fs_def store_open_reads sample_env_def sample_store_def)
  have wf: "prints_wf (st_prints sample_store)" using sample_store_wf by (simp add: store_wf_def)
  have slot: "slot_of (st_prints sample_store) (''alice'', ''left-thumb'') = Some 3"
    by (simp add: slot_of_def sample_store_def bt_get_def)
  have plain: "plain_path DEFAULT_PATH" by (simp add: plain_path_def DEFAULT_PATH_def)
  have run: "?r = (fst ?r, snd ?r)" by simp
  have result: "fs_files (cl_fs (snd ?r)) DEFAULT_PATH \<noteq> fs_files (cl_fs stale_cli) DEFAULT_PATH"
    using pruned before by simp
  have "case fst (store_open sample_env DEFAULT_PATH (cl_fs stale_cli)) of Ok st \<Rightarrow> prints_wf (st_prints st) | Err _ \<Rightarrow> True"
    using opened wf by simp
  note sync_prunes_proven_stale [OF plain this run]
  then obtain st p' es content where run: "fst (store_open sample_env DEFAULT_PATH (cl_fs stale_cli)) = Ok st"
    "cl_wire (snd ?r) = cl_wire stale_cli @ es" "json_print sample_env p' = Ok content"
    "fs_files (cl_fs (snd ?r)) DEFAULT_PATH = Some content"
    "\<forall>k. slot_of p' k = slot_of (st_prints st) k \<or>
          (slot_of p' k = None \<and>
            (answered CEnrolledNum (REnrolledNum 0) es \<or>
             (\<exists>i. slot_of (st_prints st) k = Some i \<and> answered (CFingerInfo i) (RFingerInfo i SlotEmpty) es)))"
    using result by blast
  have "slot_of p' (''alice'', ''left-thumb'') = Some 3 \<or> answered (CFingerInfo 3) (RFingerInfo 3 SlotEmpty) es \<or>
      answered CEnrolledNum (REnrolledNum 0) es"
    using run(5) [THEN spec, of "(''alice'', ''left-thumb'')"] run(1) opened slot by auto
  moreover have "json_print sample_env p' = Ok ''{}''" using run(3,4) pruned by simp
  ultimately show ?thesis using pruned run(2) by blast
qed

definition wiped_cli :: cli where
  "wiped_cli = sample_cli [[0x40, 2], [0x40, 0]]"

definition sure_terminal :: terminal where
  "sure_terminal = \<lparr>tm_terminal = True, tm_flush = Ok (), tm_line = Ok ''ERASE''\<rparr>"

theorem wipe_ok_means_empty_witness:
  "\<exists>es now. cl_wire (snd (wipe_device (\<lambda>_. False) sure_terminal wiped_cli)) = cl_wire wiped_cli @ es @ now \<and>
     exchange CEnrolledNum (REnrolledNum 0) now"
proof -
  let ?r = "wipe_device (\<lambda>_. False) sure_terminal wiped_cli"
  have "fst ?r = Ok ()" by code_simp
  then have "?r = (Ok (), snd ?r)" by (cases ?r) simp
  then show ?thesis by (rule wipe_ok_means_empty)
qed

end
