(* ===== verification/UsbDevice.thy ===== *)
theory UsbDevice
  imports Sensor
begin

text \<open>
  The rest of \<open>elanprint-usb\<close>: the endpoints and how \<open>elanprint-proto\<close> names them, what an open device
  tells of itself, the two recovery calls, and the wire notation of bytes.  The descriptors and the
  answers of \<open>nusb\<close> are arguments.
\<close>

datatype endpoint_in = InImage | InStatus | InTouchWait

fun endpoint_in_address :: "endpoint_in \<Rightarrow> byte" where
  "endpoint_in_address InImage = 0x82"
| "endpoint_in_address InStatus = 0x83"
| "endpoint_in_address InTouchWait = 0x84"

text \<open>\<open>endpoint\<close>, in the daemon's worker and in the command line tool.\<close>

fun endpoint :: "reply_ep \<Rightarrow> endpoint_in" where
  "endpoint EpImage = InImage"
| "endpoint EpStatus = InStatus"
| "endpoint EpTouchWait = InTouchWait"

datatype transfer_kind = KControl | KIsochronous | KBulk | KInterrupt

text \<open>A descriptor as \<open>nusb\<close> gives it, with the direction in the top bit of the address.\<close>

record ep_descriptor =
  ed_address :: byte
  ed_kind :: transfer_kind
  ed_max_packet :: nat
  ed_interval :: byte

record endpoint_info =
  ei_address :: byte
  ei_is_in :: bool
  ei_transfer_type :: string
  ei_max_packet_size :: nat
  ei_interval :: byte

fun transfer_type_name :: "transfer_kind \<Rightarrow> string" where
  "transfer_type_name KBulk = ''bulk''"
| "transfer_type_name KInterrupt = ''interrupt''"
| "transfer_type_name KIsochronous = ''isochronous''"
| "transfer_type_name KControl = ''control''"

definition endpoint_info_of :: "ep_descriptor \<Rightarrow> endpoint_info" where
  "endpoint_info_of ed =
     \<lparr>ei_address = ed_address ed,
      ei_is_in = bit (ed_address ed) 7,
      ei_transfer_type = transfer_type_name (ed_kind ed),
      ei_max_packet_size = ed_max_packet ed,
      ei_interval = ed_interval ed\<rparr>"

text \<open>\<open>endpoints\<close>, over the alternate settings of the interface.\<close>

definition endpoints :: "ep_descriptor list list \<Rightarrow> endpoint_info list" where
  "endpoints alts = concat (map (map endpoint_info_of) alts)"

definition location :: "usb_info \<Rightarrow> byte \<times> byte" where
  "location info = (bus_number info, device_address info)"

definition clear_halt :: "(byte \<Rightarrow> io_error + unit) \<Rightarrow> endpoint_in \<Rightarrow> usb_error + unit" where
  "clear_halt halt ep = map_sum UIo id (halt (endpoint_in_address ep))"

definition usb_reset :: "io_error + unit \<Rightarrow> usb_error + unit" where
  "usb_reset answer = map_sum UIo id answer"

subsection \<open>The wire notation\<close>

lemma hex_val_hex_digit: "d < 16 \<Longrightarrow> hex_val (hex_digit d) = Some d"
  by (simp add: hex_val_def hex_digit_def)

lemma hex_digit_plain: "d < 16 \<Longrightarrow> hex_digit d \<noteq> CHR '' '' \<and> hex_digit d \<noteq> CHR ''+''"
proof -
  assume d: "d < 16"
  have "of_char (hex_digit d) \<noteq> (32 :: nat)" "of_char (hex_digit d) \<noteq> (43 :: nat)"
    using d by (simp_all add: hex_digit_def)
  then show ?thesis by auto
qed

lemma byte_less: "unat (b :: byte) < 256"
  using unsigned_less [where 'a = nat and w = b] by simp

lemma byte_halves: "unat (b :: byte) div 16 < 16" "unat b mod 16 < 16"
  using byte_less [of b] by (simp_all add: less_mult_imp_div_less)

lemma parse_hex_byte: "parse_hex 255 (hex_byte b) = Some (unat b)"
proof -
  have "16 * (unat b div 16) + unat b mod 16 = unat b" by simp
  moreover have "unat b < 256" by (rule byte_less)
  ultimately show ?thesis using byte_halves [of b] hex_digit_plain [of "unat b div 16"]
    by (simp add: parse_hex_def hex_byte_def hex_val_hex_digit Let_def)
qed

lemma hex_byte_no_space: "CHR '' '' \<notin> set (hex_byte b)"
  using hex_digit_plain [OF byte_halves(1) [of b]] hex_digit_plain [OF byte_halves(2) [of b]]
  by (auto simp: hex_byte_def)

lemma split_join: "\<forall>w \<in> set ws. CHR '' '' \<notin> set w \<Longrightarrow> ws \<noteq> [] \<Longrightarrow> split_on CHR '' '' (join_space ws) = ws"
  by (induction ws rule: join_space.induct) (simp_all add: split_on_no_sep split_on_append)

text \<open>The wire log loses nothing: the text \<open>hex\<close> makes of bytes, split at its spaces and read in base
  sixteen, gives back exactly the bytes; its length is three characters a byte, less one; and the
  address read or cleared for a reply is the address the protocol names, a different one for each
  endpoint, and each an IN address.\<close>

theorem hex_roundtrip:
  "map (parse_hex 255) (filter (\<lambda>w. w \<noteq> []) (split_on CHR '' '' (hex bytes))) = map (Some \<circ> unat) bytes \<and>
   length (hex bytes) = 3 * length bytes - 1 \<and>
   endpoint_in_address (endpoint ep) = endpoint_address ep \<and> inj endpoint_in_address \<and>
   bit (endpoint_in_address (endpoint ep)) 7"
proof (intro conjI)
  have nonempty: "filter (\<lambda>w. w \<noteq> []) (map hex_byte bytes) = map hex_byte bytes"
    by (simp add: filter_id_conv hex_byte_def)
  show "map (parse_hex 255) (filter (\<lambda>w. w \<noteq> []) (split_on CHR '' '' (hex bytes))) = map (Some \<circ> unat) bytes"
  proof (cases "bytes = []")
    case False
    then have "split_on CHR '' '' (hex bytes) = map hex_byte bytes"
      using split_join [of "map hex_byte bytes"] hex_byte_no_space by (auto simp: hex_def)
    then show ?thesis by (simp only: nonempty) (simp add: parse_hex_byte)
  qed (simp add: hex_def)
  have "length (join_space (map hex_byte bs)) = 3 * length bs - 1" for bs
    by (induction bs rule: induct_list012) (simp_all add: hex_byte_def)
  then show "length (hex bytes) = 3 * length bytes - 1" by (simp add: hex_def)
  show "endpoint_in_address (endpoint ep) = endpoint_address ep" by (cases ep) simp_all
  show "inj endpoint_in_address"
    by (rule injI) (auto elim!: endpoint_in_address.elims)
  show "bit (endpoint_in_address (endpoint ep)) 7" by (cases ep) (simp_all add: bit_numeral_rec bit_simps)
qed

end
