(* ===== verification/Spec2Isabelle.thy ===== *)
theory Spec2Isabelle
  imports TestsKeyring TestsWorker DeleteAll DaemonTouch Service EndToEnd LoginView Unlock CliRuns UsbDevice
begin

text \<open>
  A verification development of elanprint-rs, the driver stack for the ELAN 04f3:0c90 match-on-chip
  fingerprint reader: a protocol crate and a USB transport, a daemon that owns the reader and speaks
  the D-Bus interface of fprintd, the file that maps slots of the chip to the fingers of users, a
  window to verify and enrol with, the command line tool that was used to bring the chip up, and an
  unlock of the login keyring by a secret sealed to the TPM.

  Theories and sources (all under \<open>crates/\<close>)

  \<^item> \<open>Prelude\<close>, \<open>RustStr\<close>, \<open>Utf8\<close>, \<open>BTreeMap\<close>: what the crates share of Rust and its library.  A
    \<open>Result\<close> is a sum with \<open>Ok\<close> and \<open>Err\<close>, a byte an 8-bit word that wraps, a \<open>BTreeMap\<close> the sorted
    list of its entries behind a locale that names the laws its clients use.
  \<^item> \<open>Proto\<close>, \<open>EnrollMachine\<close>: \<open>elanprint-proto\<close>.  Commands, their bytes, reply lengths, endpoints
    and timeouts, the reply parser, and the enrolment state machine, with the exact language of
    replies that completes it.
  \<^item> \<open>Usb\<close>, \<open>UsbDevice\<close>: \<open>elanprint-usb\<close>.  Each \<open>select!\<close> is an argument that tells which branch won;
    the second has the endpoints, the descriptors and the recovery calls.
  \<^item> \<open>Algo\<close>: \<open>elanprint-algo\<close>.  Status strings, the attempt budget, the session of the window.
  \<^item> \<open>Store\<close>, \<open>StoreRace\<close>: \<open>elanprint-store\<close>.  The print store over a file system any of whose
    operations may fail, its atomic save, its refinement of a partial map, and the report of \<open>sync\<close>;
    then several saves at once, cut into the steps between which they interleave.
  \<^item> \<open>Worker\<close> and \<open>WorkerState\<close>, \<open>WorkerWire\<close>, \<open>WorkerCalls\<close>, \<open>WorkerOps\<close>, \<open>WorkerEnroll\<close>:
    \<open>elanprintd/src/worker.rs\<close>.  The operations in \<open>Worker\<close>; the others hold what every history of
    calls keeps (arming, the claim, erases), what the client is told, and what an enrolment writes.
    Two locales in \<open>WorkerState\<close> say which views of the worker its operations keep.
  \<^item> \<open>Access\<close>, \<open>Daemon\<close>, \<open>DaemonChip\<close>, \<open>DaemonTouch\<close>, \<open>DeleteAll\<close>, \<open>DaemonLock\<close>, \<open>Service\<close>: \<open>access.rs\<close>
    and \<open>main.rs\<close> of \<open>elanprintd\<close>.  Handlers, the tasks they spawn, the
    sleep listener and the shutdown are threads of a step relation that take turns at the worker's
    mutex and at the atomics around it; its invariants hold in every interleaving.  \<open>DaemonChip\<close> says
    which step may send an erase to the chip or change the store file, and at whose word, \<open>DaemonTouch\<close>
    which may make the sensor wait for a finger; \<open>DeleteAll\<close> what a request to delete all fingers does
    when a deletion fails; \<open>DaemonLock\<close> that the whole is a lock that one user owns, by a locale of
    simulations, and that it comes to rest;
    \<open>Service\<close> has the manager object, the start, the loop of the sleep listener and the end.
  \<^item> \<open>LoginClient\<close>, \<open>LoginApp\<close>, \<open>LoginRun\<close>: \<open>elanprint-login\<close>.  The D-Bus client, the window's state
    with one function for each method and each row of buttons, and runs of clicks, frames and arriving
    messages, again as a step relation.
  \<^item> \<open>Sensor\<close>, \<open>LoginView\<close>: \<open>sensor.rs\<close>, \<open>fx.rs\<close> and what \<open>app.rs\<close> shows.  The scan of sysfs, the stage,
    its mark, line and dots, the timed effects, and the frame with the repaints it asks for.
  \<^item> \<open>EndToEnd\<close>: the relays of \<open>elanprintd/src/main.rs\<close> and the composition of chip, worker, bus, client
    and window.  A stream of signals is in order and may be cut off; the streams interleave freely; no
    signal of an earlier operation is still on its way when the next one is served.
  \<^item> \<open>PamStack\<close>, \<open>KeyringSetup\<close>, \<open>KeyringProps\<close>, \<open>KeyringCli\<close>, \<open>Preflight\<close>: \<open>elanprint-keyring-setup\<close>.  The
    edit of a PAM stack, the operations of root over a file system and an outside with faults, the
    user's half, that raises privileges and reads the helper's answers, and the probes it starts from.
  \<^item> \<open>PamModule\<close>: \<open>pam-elanprint-keyring\<close>, from its entry points to the helper process.
  \<^item> \<open>Keyring\<close>, \<open>Unlock\<close>: the properties that need all of these, from the seal to the login, over one
    command and over histories of commands.
  \<^item> \<open>Cli\<close>, \<open>CliProps\<close>, \<open>CliRuns\<close>: \<open>elanprint-cli\<close>.  All commands; what each may send, what an
    enrolment sends against its dry run, what pruning may remove.
  \<^item> \<open>TestsProto\<close>, \<open>TestsStore\<close>, \<open>TestsKeyring\<close>, \<open>TestsWorker\<close>: the tests of all crates, and an enrolment
    captured on the sensor, with their inputs and expected values, evaluated on the definitions above.

  How the model treats what the code cannot decide

  Replies, faults, clocks and other processes are scripts: a list of the outcomes to come, or a
  function of the number of the call.  Theorems range over all scripts, so over every order and kind
  of failure.  A script that is used up is a device that no longer answers, or, where the code waits
  without a deadline, a call that has not returned (\<open>None\<close>).  A cancel token is a function that tells
  for each look whether it has fired.  No fuel is used: a loop that waits for the chip ends because
  every turn uses up an answer, which its termination proof measures; where the code really may wait
  for ever, the theorem says what the loop has done by then.  \<open>serde_json\<close>, \<open>systemd-creds\<close>,
  \<open>getent\<close>, the D-Bus daemon and \<open>pam_set_item\<close> are parameters; what is relied upon of the JSON codec
  (it reads back what it printed) is a hypothesis of the theorems that need it.

  What the properties show

  \<^item> From end to end: the window says Verified only for a touch that the chip answered with a slot the
    store gives to this user, and says enrolled only for a print committed on the chip and recorded.
  \<^item> Safety of the chip: a match is reported only to the owner of the slot; an enrolment writes only to
    slots neither counted nor tracked; no touch-wait command reaches an unarmed handle; nothing is
    erased but on request; the command line tool sends nothing but questions outside its two
    writing commands.
  \<^item> The daemon: one operation at a time, one final status for each, and the chip is left aborted and
    disarmed after an error.  In every interleaving the sensor waits for a finger, a print is erased and
    the store is changed only by an act for its user that root or the user asked for; a listing and a
    release ask nobody (\<open>DaemonLock.release_asks_nobody\<close>).  Seen from outside
    its threads it is a lock with one owner, and it leaves no call unanswered.
  \<^item> The store: atomic saves, also of several writers at once, round trips, refinement of a map with unique slots, and an exact report
    against the chip; pruning removes only what the chip disproved.  What the worker does to the file is
    shown for a file system any of whose operations may fail, as long as a failure is never reported as
    a missing file (\<open>WorkerCalls.fs_honest\<close>): after an error the file is as it was.
  \<^item> The keyring: one rotation, however it ends, keeps the secret sealed or kept aside; nothing is
    wired before the seal has been read back; as long as it is not turned off and every rotation reports
    success, the login gets the keyring's password; the module fails no login and logs nothing of the
    secret.  A rotation that fails can break the promise, and a theorem shows the run
    (\<open>Unlock.second_rotation_loses_key\<close>).
  \<^item> The window: a verification, an enrolment and a step of the keyring tab exclude one another, while
    the deletion of a finger may run beside a verification (\<open>LoginRun.deletion_beside_verification\<close>);
    the screen shows exactly what the daemon answered, and where the signals end without an answer it
    may go on asking for the finger (\<open>LoginRun.finished_keeps_asking\<close>); deletion takes two clicks and
    the new key has to be typed back.

  Not modelled

  Of the drawing: sizes, fonts and colours by number, the sine curves of \<open>fx.rs\<close> in floating point, the
  vector drawing of \<open>icon.rs\<close> and the start of the event loop, on which only pixels depend.  Printing
  of the command line tool and logging, except where the log of the PAM module matters; the texts of
  errors that only are shown; the D-Bus plumbing that zbus generates;
  argument parsing; the executor of tokio beyond the interleavings above; and of the tests the one that
  measures time, the two that read the service unit and the one that needs a live bus.
\<close>

end
